(* ===== verification/Prelude.thy ===== *)
theory Prelude
  imports Complex_Main "HOL-Library.Word" "HOL-Library.Sublist" "HOL-Library.Multiset"
begin

section \<open>Prelude: names, collections and generic lemmas\<close>

text \<open>
  What every component shares: the type synonyms for the program's identifiers and clock
  readings, the collections of simplification and introduction rules that the component
  proofs extend, and the generic lemmas on lists, options and maps they use.

  \<open>uuid.UUID\<close> is a 16-byte array and \<open>uuid.Nil\<close> its zero value; \<open>time.Time\<close> is read as
  an absolute number of nanoseconds since the Unix epoch and \<open>time.Duration\<close> as a signed
  number of nanoseconds. A Go \<open>string\<close> is a sequence of bytes, which is what HOL's
  \<open>string\<close> is.
\<close>

type_synonym uuid = "128 word"
type_synonym instant = int
type_synonym duration = int
type_synonym int32 = "32 word"
type_synonym int64 = "64 word"

abbreviation uuid_nil :: uuid where
  "uuid_nil \<equiv> 0"

definition second_ns :: duration where
  "second_ns = 1000000000"

definition millisecond_ns :: duration where
  "millisecond_ns = 1000000"

definition minute_ns :: duration where
  "minute_ns = 60 * second_ns"

named_theorems go_simps \<open>evaluation rules for the modelled standard library\<close>
named_theorems shape_simps \<open>rewrite rules on the data the components pass to each other\<close>
named_theorems inv_intros \<open>introduction rules for the component invariants\<close>

lemmas duration_defs = second_ns_def millisecond_ns_def minute_ns_def

subsection \<open>Lists\<close>

lemma find_Some_set: "find P xs = Some x \<Longrightarrow> x \<in> set xs \<and> P x"
  by (auto simp: find_Some_iff)

lemma find_eq_None: "find P xs = None \<longleftrightarrow> (\<forall>x \<in> set xs. \<not> P x)"
  by (auto simp: find_None_iff)

lemma list_ex_set: "list_ex P xs \<longleftrightarrow> (\<exists>x \<in> set xs. P x)"
  by (simp add: list_ex_iff)

lemma list_all_mset_cong: "mset xs = mset ys \<Longrightarrow> list_all P xs = list_all P ys"
  by (simp add: list_all_iff flip: set_mset_mset)

lemma takeWhile_notin [simp]: "c \<notin> set (takeWhile (\<lambda>x. x \<noteq> c) xs)"
  by (induction xs) auto

lemma sum_list_le_length_mult: "(\<And>x. x \<in> set xs \<Longrightarrow> f x \<le> (b::nat)) \<Longrightarrow> sum_list (map f xs) \<le> length xs * b"
proof (induction xs)
  case Nil
  then show ?case by simp
next
  case (Cons x xs)
  then have "f x \<le> b" and "sum_list (map f xs) \<le> length xs * b" by auto
  then show ?case by simp
qed

subsection \<open>Maps\<close>

lemma dom_restrict_minus: "dom (m |` (- A)) = dom m - A"
  by auto

lemma finite_dom_update [simp]: "finite (dom m) \<Longrightarrow> finite (dom (m(k := v)))"
  by (cases v) auto

lemma card_dom_update_le: "finite (dom m) \<Longrightarrow> card (dom (m(k \<mapsto> v))) \<le> Suc (card (dom m))"
  by (simp add: card_insert_if)

subsection \<open>Machines\<close>

text \<open>A service as a function from operations and states to states, \<open>None\<close> being an operation that
  does not return; a property every operation keeps holds after any sequence of them.\<close>

fun run_machine :: "('o \<Rightarrow> 's \<Rightarrow> 's option) \<Rightarrow> 'o list \<Rightarrow> 's \<Rightarrow> 's option" where
  "run_machine step [] s = Some s"
| "run_machine step (x # xs) s = (case step x s of None \<Rightarrow> None | Some s' \<Rightarrow> run_machine step xs s')"

locale invariant_machine =
  fixes step :: "'o \<Rightarrow> 's \<Rightarrow> 's option"
    and good :: "'s \<Rightarrow> bool"
  assumes preserved: "good s \<Longrightarrow> \<exists>s'. step x s = Some s' \<and> good s'"
begin

lemma run_good: "good s \<Longrightarrow> \<exists>s'. run_machine step xs s = Some s' \<and> good s'"
proof (induction xs arbitrary: s)
  case (Cons x xs)
  from preserved [OF Cons.prems, of x] obtain s' where "step x s = Some s'" "good s'" by blast
  with Cons.IH show ?case by simp
qed simp

end

end
