(* ===== verification/GoString.thy ===== *)
theory GoString
  imports Prelude Unicode_Tables
begin

section \<open>Go strings\<close>

text \<open>
  The part of Go's \<open>strings\<close>, \<open>strconv\<close>, \<open>unicode\<close> and \<open>unicode/utf8\<close> that the modelled
  code calls. A string is a list of bytes. Ranging over it, \<open>[]rune(s)\<close> and
  \<open>utf8.RuneCountInString\<close> decode UTF-8 the way Go does: an ill-formed byte is one
  replacement rune \<open>U+FFFD\<close>. Case mapping works on runes, with the ASCII half written out
  and the rest read from theory \<open>Unicode_Tables\<close>.
\<close>

definition code :: "char \<Rightarrow> nat" where
  "code c = of_char c"

lemma code_less [simp]: "code c < 256"
  by (simp add: code_def)

lemma code_inj: "code a = code b \<longleftrightarrow> a = b"
  by (simp add: code_def)

lemma code_char_of [simp]: "code (char_of (n::nat)) = n mod 256"
  by (simp add: code_def)

definition is_ascii :: "string \<Rightarrow> bool" where
  "is_ascii s \<longleftrightarrow> list_all (\<lambda>c. code c < 128) s"

subsection \<open>UTF-8\<close>

definition continuation :: "nat \<Rightarrow> bool" where
  "continuation b \<longleftrightarrow> 128 \<le> b \<and> b \<le> 191"

text \<open>
  The multi-byte sequence a lead byte starts, as \<open>utf8.DecodeRuneInString\<close> accepts it: the
  rune and how many continuation bytes it takes; \<open>None\<close> for every ill-formed sequence
  (overlong forms, surrogates and values above \<open>U+10FFFF\<close> included).
\<close>

definition decode2 :: "nat \<Rightarrow> nat list \<Rightarrow> (nat \<times> nat) option" where
  "decode2 b bs =
     (case bs of
        c1 # _ \<Rightarrow> if continuation c1 then Some ((b - 192) * 64 + (c1 - 128), 1) else None
      | _ \<Rightarrow> None)"

definition decode3 :: "nat \<Rightarrow> nat list \<Rightarrow> (nat \<times> nat) option" where
  "decode3 b bs =
     (case bs of
        c1 # c2 # _ \<Rightarrow>
          if (if b = 224 then 160 else 128) \<le> c1 \<and> c1 \<le> (if b = 237 then 159 else 191)
             \<and> continuation c2
          then Some ((b - 224) * 4096 + (c1 - 128) * 64 + (c2 - 128), 2) else None
      | _ \<Rightarrow> None)"

definition decode4 :: "nat \<Rightarrow> nat list \<Rightarrow> (nat \<times> nat) option" where
  "decode4 b bs =
     (case bs of
        c1 # c2 # c3 # _ \<Rightarrow>
          if (if b = 240 then 144 else 128) \<le> c1 \<and> c1 \<le> (if b = 244 then 143 else 191)
             \<and> continuation c2 \<and> continuation c3
          then Some ((b - 240) * 262144 + (c1 - 128) * 4096 + (c2 - 128) * 64 + (c3 - 128), 3)
          else None
      | _ \<Rightarrow> None)"

definition decode_multi :: "nat \<Rightarrow> nat list \<Rightarrow> (nat \<times> nat) option" where
  "decode_multi b bs =
     (if 194 \<le> b \<and> b \<le> 223 then decode2 b bs
      else if 224 \<le> b \<and> b \<le> 239 then decode3 b bs
      else if 240 \<le> b \<and> b \<le> 244 then decode4 b bs
      else None)"

definition rune_error :: nat where
  "rune_error = 65533"

function utf8_decode :: "nat list \<Rightarrow> nat list" where
  "utf8_decode [] = []"
| "utf8_decode (b # bs) =
     (if b < 128 then b # utf8_decode bs
      else case decode_multi b bs of
             None \<Rightarrow> rune_error # utf8_decode bs
           | Some (r, n) \<Rightarrow> r # utf8_decode (drop n bs))"
  by pat_completeness auto
termination
  by (relation "measure length") auto

definition runes :: "string \<Rightarrow> nat list" where
  "runes s = utf8_decode (map code s)"

definition rune_count :: "string \<Rightarrow> nat" where
  "rune_count s = length (runes s)"

definition utf8_encode :: "nat \<Rightarrow> nat list" where
  "utf8_encode r =
     (if r < 128 then [r]
      else if r < 2048 then [192 + r div 64, 128 + r mod 64]
      else if 55296 \<le> r \<and> r \<le> 57343 \<or> 1114111 < r then [239, 191, 189]
      else if r < 65536 then [224 + r div 4096, 128 + r div 64 mod 64, 128 + r mod 64]
      else [240 + r div 262144, 128 + r div 4096 mod 64, 128 + r div 64 mod 64, 128 + r mod 64])"

definition string_of_runes :: "nat list \<Rightarrow> string" where
  "string_of_runes rs = map char_of (concat (map utf8_encode rs))"

lemma utf8_decode_ascii: "list_all (\<lambda>b. b < 128) bs \<Longrightarrow> utf8_decode bs = bs"
  by (induction bs) auto

lemma runes_ascii: "is_ascii s \<Longrightarrow> runes s = map code s"
  unfolding runes_def is_ascii_def by (rule utf8_decode_ascii) (simp add: list_all_length)

lemma rune_count_ascii: "is_ascii s \<Longrightarrow> rune_count s = length s"
  by (simp add: rune_count_def runes_ascii)

lemma length_utf8_decode: "length (utf8_decode bs) \<le> length bs"
proof (induction bs rule: utf8_decode.induct)
  case 1
  then show ?case by simp
next
  case (2 b bs)
  show ?case
  proof (cases "b < 128")
    case True
    with "2.IH"(1) show ?thesis by simp
  next
    case False
    show ?thesis
    proof (cases "decode_multi b bs")
      case None
      with False "2.IH"(2) show ?thesis by simp
    next
      case (Some p)
      obtain r n where p: "p = (r, n)" by (cases p)
      have "length (utf8_decode (drop n bs)) \<le> length (drop n bs)"
        using "2.IH"(3)[OF False] Some p by simp
      then show ?thesis using False Some p by simp
    qed
  qed
qed

lemma rune_count_le: "rune_count s \<le> length s"
  using length_utf8_decode [of "map code s"] by (simp add: rune_count_def runes_def)

subsection \<open>Case\<close>

definition rune_lower :: "nat \<Rightarrow> nat" where
  "rune_lower r =
     (if r < 128 then (if 65 \<le> r \<and> r \<le> 90 then r + 32 else r) else apply_ranges lower_ranges r)"

definition rune_fold :: "nat \<Rightarrow> nat" where
  "rune_fold r =
     (if r < 128 then (if 97 \<le> r \<and> r \<le> 122 then r - 32 else r) else apply_ranges fold_ranges r)"

definition ascii_lower :: "char \<Rightarrow> char" where
  "ascii_lower c = (if 65 \<le> code c \<and> code c \<le> 90 then char_of (code c + 32) else c)"

text \<open>\<open>strings.ToLower\<close>: the ASCII fast path, otherwise \<open>strings.Map(unicode.ToLower, s)\<close>.\<close>

definition to_lower :: "string \<Rightarrow> string" where
  "to_lower s =
     (if is_ascii s then map ascii_lower s else string_of_runes (map rune_lower (runes s)))"

text \<open>\<open>strings.EqualFold\<close>: the rune sequences agree up to simple folding.\<close>

definition fold_key :: "string \<Rightarrow> nat list" where
  "fold_key s = map rune_fold (runes s)"

definition equal_fold :: "string \<Rightarrow> string \<Rightarrow> bool" where
  "equal_fold s t \<longleftrightarrow> fold_key s = fold_key t"

lemma equal_fold_refl [simp]: "equal_fold s s"
  by (simp add: equal_fold_def)

lemma equal_fold_sym: "equal_fold s t \<longleftrightarrow> equal_fold t s"
  by (auto simp: equal_fold_def)

lemma equal_fold_trans: "equal_fold s t \<Longrightarrow> equal_fold t u \<Longrightarrow> equal_fold s u"
  by (simp add: equal_fold_def)

lemma ascii_lower_idem [simp]: "ascii_lower (ascii_lower c) = ascii_lower c"
  by (auto simp: ascii_lower_def)

lemma code_ascii_lower: "code c < 128 \<Longrightarrow> code (ascii_lower c) < 128"
  by (auto simp: ascii_lower_def)

lemma to_lower_ascii: "is_ascii s \<Longrightarrow> to_lower s = map ascii_lower s"
  by (simp add: to_lower_def)

lemma is_ascii_to_lower: "is_ascii s \<Longrightarrow> is_ascii (to_lower s)"
  by (auto simp: to_lower_ascii is_ascii_def list_all_iff code_ascii_lower)

lemma to_lower_idem_ascii: "is_ascii s \<Longrightarrow> to_lower (to_lower s) = to_lower s"
  using is_ascii_to_lower [of s] by (simp add: to_lower_ascii comp_def)

lemma to_lower_fixed:
  assumes "\<forall>c \<in> set s. code c < 128 \<and> \<not> (65 \<le> code c \<and> code c \<le> 90)"
  shows "to_lower s = s"
proof -
  have "is_ascii s" using assms by (auto simp: is_ascii_def list_all_iff)
  moreover have "map ascii_lower s = s"
    using assms by (intro map_idI) (auto simp: ascii_lower_def)
  ultimately show ?thesis by (simp add: to_lower_ascii)
qed

subsection \<open>White space\<close>

text \<open>
  \<open>unicode.IsSpace\<close>: the six ASCII spaces, and the two- and three-byte encodings of the
  others (\<open>U+0085\<close>, \<open>U+00A0\<close>, \<open>U+1680\<close>, \<open>U+2000\<close> to \<open>U+200A\<close>, \<open>U+2028\<close>, \<open>U+2029\<close>,
  \<open>U+202F\<close>, \<open>U+205F\<close>, \<open>U+3000\<close>).
\<close>

definition space1 :: "char \<Rightarrow> bool" where
  "space1 a \<longleftrightarrow> 9 \<le> code a \<and> code a \<le> 13 \<or> code a = 32"

definition space2 :: "char \<Rightarrow> char \<Rightarrow> bool" where
  "space2 a b \<longleftrightarrow> code a = 194 \<and> (code b = 133 \<or> code b = 160)"

definition space3 :: "char \<Rightarrow> char \<Rightarrow> char \<Rightarrow> bool" where
  "space3 a b c \<longleftrightarrow>
     code a = 225 \<and> code b = 154 \<and> code c = 128
     \<or> code a = 226 \<and> code b = 128 \<and>
         (128 \<le> code c \<and> code c \<le> 138 \<or> code c = 168 \<or> code c = 169 \<or> code c = 175)
     \<or> code a = 226 \<and> code b = 129 \<and> code c = 159
     \<or> code a = 227 \<and> code b = 128 \<and> code c = 128"

fun strip_spaces :: "(char \<Rightarrow> bool) \<Rightarrow> (char \<Rightarrow> char \<Rightarrow> bool) \<Rightarrow> (char \<Rightarrow> char \<Rightarrow> char \<Rightarrow> bool)
    \<Rightarrow> string \<Rightarrow> string" where
  "strip_spaces p q r [] = []"
| "strip_spaces p q r [a] = (if p a then [] else [a])"
| "strip_spaces p q r [a, b] =
     (if p a then strip_spaces p q r [b] else if q a b then [] else [a, b])"
| "strip_spaces p q r (a # b # c # s) =
     (if p a then strip_spaces p q r (b # c # s)
      else if q a b then strip_spaces p q r (c # s)
      else if r a b c then strip_spaces p q r s
      else a # b # c # s)"

definition trim_left :: "string \<Rightarrow> string" where
  "trim_left s = strip_spaces space1 space2 space3 s"

definition trim_right :: "string \<Rightarrow> string" where
  "trim_right s =
     rev (strip_spaces space1 (\<lambda>b a. space2 a b) (\<lambda>c b a. space3 a b c) (rev s))"

text \<open>\<open>strings.TrimSpace\<close>.\<close>

definition trim_space :: "string \<Rightarrow> string" where
  "trim_space s = trim_right (trim_left s)"

lemma strip_spaces_subset: "set (strip_spaces p q r s) \<subseteq> set s"
  by (induction p q r s rule: strip_spaces.induct) auto

lemma set_trim_space: "set (trim_space s) \<subseteq> set s"
proof -
  have "set (trim_right t) \<subseteq> set t" for t
    unfolding trim_right_def
    using strip_spaces_subset [of _ _ _ "rev t"] by (metis set_rev)
  moreover have "set (trim_left s) \<subseteq> set s"
    unfolding trim_left_def by (rule strip_spaces_subset)
  ultimately show ?thesis unfolding trim_space_def by blast
qed

lemma strip_spaces_ascii_fixed:
  assumes "\<forall>x \<in> set s. \<not> p x" and "\<forall>x \<in> set s. \<forall>y \<in> set s. \<not> q x y"
    and "\<forall>x \<in> set s. \<forall>y \<in> set s. \<forall>z \<in> set s. \<not> r x y z"
  shows "strip_spaces p q r s = s"
  using assms by (cases "(p, q, r, s)" rule: strip_spaces.cases) auto

lemma trim_space_fixed:
  assumes "\<forall>x \<in> set s. code x < 128 \<and> \<not> space1 x"
  shows "trim_space s = s"
proof -
  have q: "\<not> space2 x y" if "x \<in> set s" for x y
    using assms that by (auto simp: space2_def)
  have r: "\<not> space3 x y z" if "x \<in> set s" for x y z
    using assms that by (auto simp: space3_def)
  have "trim_left s = s"
    unfolding trim_left_def by (rule strip_spaces_ascii_fixed) (use assms q r in auto)
  moreover have "trim_right s = s"
    unfolding trim_right_def by (subst strip_spaces_ascii_fixed) (use assms q r in auto)
  ultimately show ?thesis by (simp add: trim_space_def)
qed

subsection \<open>Searching, cutting and splitting\<close>

text \<open>\<open>strings.Cut\<close> at a one-byte separator: before, after, found.\<close>

fun cut :: "char \<Rightarrow> string \<Rightarrow> string \<times> string \<times> bool" where
  "cut c [] = ([], [], False)"
| "cut c (x # xs) =
     (if x = c then ([], xs, True)
      else (let (a, b, ok) = cut c xs in (x # a, b, ok)))"

text \<open>\<open>strings.Split\<close> at a one-byte separator: always at least one field.\<close>

fun split_on :: "char \<Rightarrow> string \<Rightarrow> string list" where
  "split_on c [] = [[]]"
| "split_on c (x # xs) =
     (if x = c then [] # split_on c xs
      else (case split_on c xs of f # fs \<Rightarrow> (x # f) # fs | [] \<Rightarrow> [[x]]))"

text \<open>\<open>strings.Contains\<close>, \<open>HasPrefix\<close>, \<open>HasSuffix\<close>, \<open>TrimPrefix\<close>, \<open>TrimSuffix\<close>.\<close>

fun contains_sub :: "string \<Rightarrow> string \<Rightarrow> bool" where
  "contains_sub [] p \<longleftrightarrow> p = []"
| "contains_sub (x # xs) p \<longleftrightarrow> prefix p (x # xs) \<or> contains_sub xs p"

definition trim_prefix :: "string \<Rightarrow> string \<Rightarrow> string" where
  "trim_prefix p s = (if prefix p s then drop (length p) s else s)"

definition trim_suffix :: "string \<Rightarrow> string \<Rightarrow> string" where
  "trim_suffix p s = (if suffix p s then take (length s - length p) s else s)"

text \<open>The part after the last occurrence of a byte (\<open>strings.LastIndexByte\<close>), if any.\<close>

fun cut_last :: "char \<Rightarrow> string \<Rightarrow> (string \<times> string) option" where
  "cut_last c [] = None"
| "cut_last c (x # xs) =
     (case cut_last c xs of
        Some (a, b) \<Rightarrow> Some (x # a, b)
      | None \<Rightarrow> if x = c then Some ([], xs) else None)"

lemma split_on_ne [simp]: "split_on c s \<noteq> []"
  by (induction s) (auto split: list.splits)

lemma split_on_no_sep: "f \<in> set (split_on c s) \<Longrightarrow> c \<notin> set f"
  by (induction s arbitrary: f) (auto split: list.splits if_splits)

lemma set_split_on: "f \<in> set (split_on c s) \<Longrightarrow> set f \<subseteq> set s"
  by (induction s arbitrary: f) (fastforce split: list.splits if_splits)+

lemma field_length_le: "f \<in> set (split_on c s) \<Longrightarrow> length f \<le> length s"
proof (induction s arbitrary: f)
  case (Cons x xs)
  obtain g gs where g: "split_on c xs = g # gs" by (metis list.exhaust split_on_ne)
  then have "length g \<le> length xs" "\<And>h. h \<in> set gs \<Longrightarrow> length h \<le> length xs" using Cons.IH by auto
  with Cons.prems g show ?case by (force split: if_splits)
qed simp

lemma cut_append: "c \<notin> set a \<Longrightarrow> cut c (a @ c # b) = (a, b, True)"
  by (induction a) auto

lemma split_on_no: "c \<notin> set s \<Longrightarrow> split_on c s = [s]"
  by (induction s) auto

lemma split_on_append: "c \<notin> set a \<Longrightarrow> split_on c (a @ c # b) = a # split_on c b"
  by (induction a) auto

lemma contains_sub_iff: "contains_sub s p \<longleftrightarrow> sublist p s"
  by (induction s) (auto simp: sublist_Cons_right)

subsection \<open>Numbers\<close>

definition is_digit :: "char \<Rightarrow> bool" where
  "is_digit c \<longleftrightarrow> 48 \<le> code c \<and> code c \<le> 57"

definition digits_value :: "string \<Rightarrow> nat" where
  "digits_value s = foldl (\<lambda>n c. 10 * n + (code c - 48)) 0 s"

text \<open>\<open>strconv.Atoi\<close> and \<open>strconv.ParseInt(s, 10, 64)\<close>: an optional sign, at least one digit,
  and a value that fits in 64 bits; \<open>None\<close> is the error.\<close>

definition atoi :: "string \<Rightarrow> int option" where
  "atoi s =
     (let (neg, ds) =
        (case s of
           c # cs \<Rightarrow> if c = CHR ''-'' then (True, cs) else if c = CHR ''+'' then (False, cs) else (False, s)
         | [] \<Rightarrow> (False, []))
      in if ds = [] \<or> \<not> list_all is_digit ds then None
         else let v = int (digits_value ds); n = (if neg then - v else v)
              in if - (2 ^ 63) \<le> n \<and> n < 2 ^ 63 then Some n else None)"

text \<open>\<open>strconv.Itoa\<close> on a natural number.\<close>

fun itoa_nat :: "nat \<Rightarrow> string" where
  "itoa_nat n = (if n < 10 then [char_of (48 + n)] else itoa_nat (n div 10) @ [char_of (48 + n mod 10)])"

declare itoa_nat.simps [simp del]

lemma digits_value_snoc: "digits_value (s @ [c]) = 10 * digits_value s + (code c - 48)"
  by (simp add: digits_value_def)

lemma digits_value_itoa: "digits_value (itoa_nat n) = n"
proof (induction n rule: itoa_nat.induct)
  case (1 n)
  show ?case
  proof (cases "n < 10")
    case True
    then show ?thesis by (subst itoa_nat.simps) (simp add: digits_value_def)
  next
    case False
    with 1 have "digits_value (itoa_nat (n div 10)) = n div 10" by simp
    with False show ?thesis
      by (subst itoa_nat.simps) (simp add: digits_value_snoc)
  qed
qed

lemma itoa_nat_digits: "itoa_nat n \<noteq> [] \<and> list_all is_digit (itoa_nat n)"
proof (induction n rule: itoa_nat.induct)
  case (1 n)
  have "is_digit (char_of (48 + n mod 10))" by (auto simp: is_digit_def)
  with 1 show ?case by (subst (1 2) itoa_nat.simps) (auto simp: is_digit_def [of "char_of _"])
qed

lemma takeWhile_digits:
  assumes "list_all is_digit ds" "s = '''' \<or> \<not> is_digit (hd s)"
  shows "takeWhile is_digit (ds @ s) = ds"
  using assms by (cases s) (auto simp: list_all_iff takeWhile_append)

end
