(* ===== verification/Domain.thy ===== *)
theory Domain
  imports GoString
begin

section \<open>The domain vocabulary\<close>

text \<open>
  \<open>internal/domain/link.go\<close>, \<open>bots.go\<close>, \<open>qrcode.go\<close> and \<open>attribution.go\<close>: the validation
  error type, a link's effective status, which layer of the bot-blocking setting wins, the
  alphabet of QR code slugs, and the click-source vocabulary. Go's string-typed enumerations
  stay strings, because the values reach these functions from database columns and cached
  payloads and the default branches are part of the behaviour. A \<open>FieldError\<close> carries its
  field and its code; the prose of its \<open>Message\<close>, which nothing in the program reads, is left
  out.
\<close>

subsection \<open>Validation errors\<close>

record field_error =
  fe_field :: string
  fe_code :: string

type_synonym validation_errors = "field_error list"

definition field_err :: "string \<Rightarrow> string \<Rightarrow> field_error" where
  "field_err f c = \<lparr>fe_field = f, fe_code = c\<rparr>"

text \<open>\<open>ValidationErrors.Or\<close>: the errors when there are any, otherwise the given error.\<close>

definition errors_or :: "validation_errors \<Rightarrow> 'e option \<Rightarrow> (validation_errors + 'e) option" where
  "errors_or v err = (if length v > 0 then Some (Inl v) else map_option Inr err)"

text \<open>\<open>domain.itoa\<close>: digits written from the end of a twenty-byte buffer.\<close>

fun itoa_loop :: "nat \<Rightarrow> string \<Rightarrow> string" where
  "itoa_loop n acc = (if n > 0 then itoa_loop (n div 10) (char_of (48 + n mod 10) # acc) else acc)"

declare itoa_loop.simps [simp del]

definition itoa :: "int \<Rightarrow> string" where
  "itoa n = (if n = 0 then ''0'' else itoa_loop (nat n) [])"

subsection \<open>Link status\<close>

definition StatusActive :: string where "StatusActive = ''active''"
definition StatusArchived :: string where "StatusArchived = ''archived''"
definition StatusExpired :: string where "StatusExpired = ''expired''"
definition StatusDisabled :: string where "StatusDisabled = ''disabled''"

lemmas status_defs = StatusActive_def StatusArchived_def StatusExpired_def StatusDisabled_def

text \<open>\<open>now.Before(t)\<close> is \<open>now < t\<close>; the expiry is inclusive: at the instant itself the link is
  already expired.\<close>

definition EffectiveStatus :: "string \<Rightarrow> instant option \<Rightarrow> instant \<Rightarrow> string" where
  "EffectiveStatus stored expires_at now =
     (case expires_at of
        Some t \<Rightarrow> if \<not> now < t then StatusExpired else stored
      | None \<Rightarrow> stored)"

subsection \<open>Bot blocking\<close>

definition BotInherit :: string where "BotInherit = ''inherit''"
definition BotBlock :: string where "BotBlock = ''on''"
definition BotAllow :: string where "BotAllow = ''off''"

definition DomainBotsOff :: string where "DomainBotsOff = ''off''"
definition DomainBotsOn :: string where "DomainBotsOn = ''on''"
definition DomainBotsEnforced :: string where "DomainBotsEnforced = ''enforced''"

lemmas bot_defs = BotInherit_def BotBlock_def BotAllow_def
  DomainBotsOff_def DomainBotsOn_def DomainBotsEnforced_def

definition DomainBots :: "bool \<Rightarrow> bool \<Rightarrow> string" where
  "DomainBots block_bots enforced =
     (if block_bots \<and> enforced then DomainBotsEnforced
      else if block_bots then DomainBotsOn
      else DomainBotsOff)"

definition Booleans :: "string \<Rightarrow> bool \<times> bool" where
  "Booleans p =
     (if p = DomainBotsEnforced then (True, True)
      else if p = DomainBotsOn then (True, False)
      else if p = DomainBotsOff then (False, False)
      else (False, False))"

definition ParseBotPolicy :: "string \<Rightarrow> string \<times> bool" where
  "ParseBotPolicy s =
     (if s = '''' \<or> s = BotInherit then (BotInherit, True)
      else if s = BotBlock then (BotBlock, True)
      else if s = BotAllow then (BotAllow, True)
      else (BotInherit, False))"

definition BlocksBots :: "string \<Rightarrow> string \<Rightarrow> bool" where
  "BlocksBots link dpol =
     (if dpol = DomainBotsEnforced then True
      else if link = BotBlock then True
      else if link = BotAllow then False
      else dpol = DomainBotsOn)"

definition BotPolicyLocked :: "string \<Rightarrow> bool" where
  "BotPolicyLocked dpol \<longleftrightarrow> dpol = DomainBotsEnforced"

subsection \<open>QR code slugs\<close>

definition MaxQRCodesPerLink :: nat where "MaxQRCodesPerLink = 20"
definition MaxQRCodeLabelLength :: nat where "MaxQRCodeLabelLength = 60"
definition MaxQRCodeSlugLength :: nat where "MaxQRCodeSlugLength = 16"

definition slug_rune :: "nat \<Rightarrow> bool" where
  "slug_rune r \<longleftrightarrow>
     \<not> 127 < r \<and> \<not> ((r < 97 \<or> 122 < r) \<and> (r < 48 \<or> 57 < r))"

definition ValidQRCodeSlug :: "string \<Rightarrow> bool" where
  "ValidQRCodeSlug s \<longleftrightarrow>
     (if s = '''' \<or> length s > MaxQRCodeSlugLength then False else list_all slug_rune (runes s))"

definition QRCodeLabelErrors :: "string \<Rightarrow> validation_errors" where
  "QRCodeLabelErrors label =
     (if label \<noteq> '''' \<and> trim_space label = '''' then [field_err ''label'' ''invalid''] else [])
     @ (if rune_count label > MaxQRCodeLabelLength then [field_err ''label'' ''too_long''] else [])"

subsection \<open>Click attribution\<close>

definition ClickSourceParam :: string where "ClickSourceParam = ''src''"
definition ClickSourceQR :: string where "ClickSourceQR = ''qr''"
definition ClickCodeParam :: string where "ClickCodeParam = ''qrc''"

definition clickSources :: "string list" where
  "clickSources = [ClickSourceQR]"

definition ClickSource :: "string \<Rightarrow> string \<times> bool" where
  "ClickSource raw =
     (if raw = '''' \<or> length raw > 16 then ('''', False)
      else let v = to_lower raw in
           if v \<notin> set clickSources then ('''', False) else (v, True))"

definition ClickSourceCode :: "string \<Rightarrow> string" where
  "ClickSourceCode slug = (if slug = '''' then ClickSourceQR else ClickSourceQR @ '':'' @ slug)"

definition QRCodeSlugOf :: "string \<Rightarrow> string \<times> bool" where
  "QRCodeSlugOf value =
     (let pre = ClickSourceQR @ '':'' in
      if \<not> prefix pre value then ('''', False) else (drop (length pre) value, True))"

subsection \<open>Lemmas\<close>

lemma itoa_loop_eq: "0 < n \<Longrightarrow> itoa_loop n acc = itoa_nat n @ acc"
proof (induction n arbitrary: acc rule: itoa_nat.induct)
  case (1 n)
  show ?case
  proof (cases "n < 10")
    case True
    with "1.prems" show ?thesis
      by (simp add: itoa_loop.simps [of n] itoa_loop.simps [of 0] itoa_nat.simps [of n])
  next
    case False
    with 1 show ?thesis by (simp add: itoa_loop.simps [of n] itoa_nat.simps [of n])
  qed
qed

lemma itoa_nonneg: "0 \<le> n \<Longrightarrow> itoa n = itoa_nat (nat n)"
proof (cases "n = 0")
  case True
  have "char_of (48::nat) = CHR ''0''" by (rule code_inj [THEN iffD1]) (simp add: code_def)
  with True show ?thesis by (simp add: itoa_def itoa_nat.simps [of 0])
next
  case False
  moreover assume "0 \<le> n"
  ultimately show ?thesis by (simp add: itoa_def itoa_loop_eq)
qed

lemma slug_rune_ascii: "slug_rune r \<Longrightarrow> r < 128"
  by (simp add: slug_rune_def)

lemma decode_multi_ge:
  assumes "decode_multi b bs = Some (r, n)"
  shows "128 \<le> r"
proof -
  have d2: "128 \<le> r" if "decode2 b bs = Some (r, n)" "194 \<le> b"
    using that by (auto simp: decode2_def continuation_def split: if_splits list.splits)
  have d3: "128 \<le> r" if "decode3 b bs = Some (r, n)" "224 \<le> b"
  proof -
    from that(1) obtain c1 c2 where "(if b = 224 then 160 else 128) \<le> c1"
      and "r = (b - 224) * 4096 + (c1 - 128) * 64 + (c2 - 128)"
      unfolding decode3_def by (auto split: if_splits list.splits)
    with that(2) show ?thesis by (cases "b = 224") auto
  qed
  have d4: "128 \<le> r" if "decode4 b bs = Some (r, n)" "240 \<le> b"
  proof -
    from that(1) obtain c1 c2 c3 where "(if b = 240 then 144 else 128) \<le> c1"
      and "r = (b - 240) * 262144 + (c1 - 128) * 4096 + (c2 - 128) * 64 + (c3 - 128)"
      unfolding decode4_def by (auto split: if_splits list.splits)
    with that(2) show ?thesis by (cases "b = 240") auto
  qed
  show ?thesis
    using assms d2 d3 d4 by (auto simp: decode_multi_def split: if_splits)
qed

lemma rune_less_bytes_ascii: "list_all (\<lambda>r. r < 128) (utf8_decode bs) \<Longrightarrow> list_all (\<lambda>b. b < 128) bs"
proof (induction bs rule: utf8_decode.induct)
  case 1
  then show ?case by simp
next
  case (2 b bs)
  show ?case
  proof (cases "b < 128")
    case True
    with 2 show ?thesis by simp
  next
    case False
    with "2.prems" decode_multi_ge [of b bs] have False
      by (auto simp: rune_error_def split: option.splits)
    then show ?thesis ..
  qed
qed

lemma slug_rune_code: "slug_rune (code c) \<longleftrightarrow> 97 \<le> code c \<and> code c \<le> 122 \<or> is_digit c"
  by (auto simp: slug_rune_def is_digit_def)

lemma ValidQRCodeSlug_iff:
  "ValidQRCodeSlug s \<longleftrightarrow>
     s \<noteq> '''' \<and> length s \<le> 16 \<and> list_all (\<lambda>c. 97 \<le> code c \<and> code c \<le> 122 \<or> is_digit c) s"
proof -
  have "list_all slug_rune (runes s) \<longleftrightarrow> list_all (\<lambda>c. slug_rune (code c)) s"
  proof
    assume l: "list_all slug_rune (runes s)"
    then have "list_all (\<lambda>r. r < 128) (utf8_decode (map code s))"
      by (auto simp: runes_def list_all_iff slug_rune_ascii)
    then have "runes s = map code s"
      by (auto dest: rune_less_bytes_ascii simp: runes_def utf8_decode_ascii)
    with l show "list_all (\<lambda>c. slug_rune (code c)) s" by (simp add: list_all_iff)
  next
    assume l: "list_all (\<lambda>c. slug_rune (code c)) s"
    then have "runes s = map code s"
      by (intro runes_ascii) (auto simp: is_ascii_def list_all_iff slug_rune_ascii)
    with l show "list_all slug_rune (runes s)" by (simp add: list_all_iff)
  qed
  then show ?thesis
    by (auto simp: ValidQRCodeSlug_def MaxQRCodeSlugLength_def slug_rune_code)
qed

end
