(* ===== verification/Folders.thy ===== *)
theory Folders
  imports Domain "HOL-Library.Char_ord" "HOL-Library.List_Lexorder" "HOL-Library.Product_Lexorder"
begin

section \<open>Folder trees\<close>

text \<open>
  \<open>internal/domain/folder.go\<close>: a workspace's folders assembled from a flat list, the walks that
  answer its structural questions, and the rule that decides a move.

  The two recursive closures of the file (\<open>walk\<close> in \<open>NewFolderTree\<close> and in \<open>Height\<close>) have one
  shape: stop at a visited folder, otherwise mark it, visit it, and walk its children one level
  deeper. \<open>walk\<close> is that shape with the visit as an argument. Go's recursion has no bound in
  its text, so the model carries fuel for the recursion depth, \<open>None\<close> being the call stack that
  never returns; theory \<open>Folders_Correct\<close> shows that one more than the number of folders is
  always enough. The index is the list of its insertions, newest first.
\<close>

record folder =
  f_id :: uuid
  f_workspace_id :: uuid
  f_parent_id :: "uuid option"
  f_name :: string
  f_depth :: nat
  f_link_count :: int64
  f_created_at :: instant
  f_updated_at :: instant

definition zero_folder :: folder where
  "zero_folder = \<lparr>f_id = uuid_nil, f_workspace_id = uuid_nil, f_parent_id = None, f_name = '''',
     f_depth = 0, f_link_count = 0, f_created_at = 0, f_updated_at = 0\<rparr>"

record folder_tree =
  ft_nodes :: "folder list"
  ft_index :: "(uuid \<times> nat) list"
  ft_children :: "uuid \<Rightarrow> uuid list"

definition MaxFolderDepth :: nat where "MaxFolderDepth = 8"
definition MaxFolderNameLength :: nat where "MaxFolderNameLength = 64"
definition MaxFoldersPerWorkspace :: nat where "MaxFoldersPerWorkspace = 500"

subsection \<open>Walks\<close>

function walk :: "(uuid \<Rightarrow> nat \<Rightarrow> 'a \<Rightarrow> 'a) \<Rightarrow> (uuid \<Rightarrow> uuid list) \<Rightarrow> nat \<Rightarrow> uuid \<Rightarrow> nat
      \<Rightarrow> uuid set \<times> 'a \<Rightarrow> (uuid set \<times> 'a) option"
  and walk_all :: "(uuid \<Rightarrow> nat \<Rightarrow> 'a \<Rightarrow> 'a) \<Rightarrow> (uuid \<Rightarrow> uuid list) \<Rightarrow> nat \<Rightarrow> uuid list \<Rightarrow> nat
      \<Rightarrow> uuid set \<times> 'a \<Rightarrow> (uuid set \<times> 'a) option" where
  "walk visit ch 0 cur depth st = None"
| "walk visit ch (Suc n) cur depth (seen, acc) =
     (if cur \<in> seen then Some (seen, acc)
      else walk_all visit ch n (ch cur) (depth + 1) (insert cur seen, visit cur depth acc))"
| "walk_all visit ch n [] depth st = Some st"
| "walk_all visit ch n (c # cs) depth st =
     (case walk visit ch n c depth st of
        None \<Rightarrow> None
      | Some st' \<Rightarrow> walk_all visit ch n cs depth st')"
  by pat_completeness auto
termination
  by (relation "measures [\<lambda>x. case x of Inl (v, ch, n, _) \<Rightarrow> n | Inr (v, ch, n, _) \<Rightarrow> n,
        \<lambda>x. case x of Inl _ \<Rightarrow> 0 | Inr (v, ch, n, cs, _) \<Rightarrow> Suc (length cs)]") auto

subsection \<open>Assembling the tree\<close>

fun index_by_id :: "(uuid \<rightharpoonup> folder) \<Rightarrow> folder list \<Rightarrow> (uuid \<rightharpoonup> folder)" where
  "index_by_id m [] = m"
| "index_by_id m (f # fs) = index_by_id (m(f_id f \<mapsto> f)) fs"

fun link_up :: "(uuid \<rightharpoonup> folder) \<Rightarrow> folder list \<Rightarrow> uuid list \<Rightarrow> (uuid \<Rightarrow> uuid list)
    \<Rightarrow> uuid list \<times> (uuid \<Rightarrow> uuid list)" where
  "link_up byID [] roots ch = (roots, ch)"
| "link_up byID (f # fs) roots ch =
     (case f_parent_id f of
        None \<Rightarrow> link_up byID fs (roots @ [f_id f]) ch
      | Some p \<Rightarrow>
          (case byID p of
             None \<Rightarrow> link_up byID fs (roots @ [f_id f]) ch
           | Some _ \<Rightarrow> link_up byID fs roots (ch(p := ch p @ [f_id f]))))"

definition place :: "(uuid \<rightharpoonup> folder) \<Rightarrow> uuid \<Rightarrow> nat \<Rightarrow> folder list \<times> (uuid \<times> nat) list
    \<Rightarrow> folder list \<times> (uuid \<times> nat) list" where
  "place byID cur depth acc =
     (case acc of (nodes, idx) \<Rightarrow>
        let f = (case byID cur of Some f \<Rightarrow> f | None \<Rightarrow> zero_folder)
        in (nodes @ [f\<lparr>f_depth := depth\<rparr>], (cur, length nodes) # idx))"

fun walk_rest :: "(uuid \<Rightarrow> nat \<Rightarrow> 'a \<Rightarrow> 'a) \<Rightarrow> (uuid \<Rightarrow> uuid list) \<Rightarrow> nat \<Rightarrow> folder list
    \<Rightarrow> uuid set \<times> 'a \<Rightarrow> (uuid set \<times> 'a) option" where
  "walk_rest visit ch n [] st = Some st"
| "walk_rest visit ch n (f # fs) st =
     (if f_id f \<notin> fst st then
        (case walk visit ch n (f_id f) 1 st of
           None \<Rightarrow> None
         | Some st' \<Rightarrow> walk_rest visit ch n fs st')
      else walk_rest visit ch n fs st)"

definition NewFolderTree :: "folder list \<Rightarrow> folder_tree option" where
  "NewFolderTree folders =
     (let byID = index_by_id Map.empty folders;
          (roots, ch) = link_up byID folders [] (\<lambda>_. []);
          n = Suc (length folders) in
      case walk_all (place byID) ch n roots 1 ({}, [], []) of
        None \<Rightarrow> None
      | Some st \<Rightarrow>
          (case walk_rest (place byID) ch n folders st of
             None \<Rightarrow> None
           | Some (_, nodes, idx) \<Rightarrow>
               Some \<lparr>ft_nodes = nodes, ft_index = idx, ft_children = ch\<rparr>))"

subsection \<open>Questions\<close>

definition Flat :: "folder_tree \<Rightarrow> folder list" where
  "Flat t = ft_nodes t"

definition Len :: "folder_tree \<Rightarrow> nat" where
  "Len t = length (ft_nodes t)"

definition Get :: "folder_tree \<Rightarrow> uuid \<Rightarrow> folder option" where
  "Get t i =
     (case map_of (ft_index t) i of
        None \<Rightarrow> None
      | Some k \<Rightarrow> Some (ft_nodes t ! k))"

definition Depth :: "folder_tree \<Rightarrow> uuid option \<Rightarrow> nat" where
  "Depth t i =
     (case i of
        None \<Rightarrow> 0
      | Some x \<Rightarrow> (case Get t x of None \<Rightarrow> 0 | Some f \<Rightarrow> f_depth f))"

definition deepest :: "uuid \<Rightarrow> nat \<Rightarrow> nat \<Rightarrow> nat" where
  "deepest cur depth best = (if depth > best then depth else best)"

definition Height :: "folder_tree \<Rightarrow> uuid \<Rightarrow> nat option" where
  "Height t i =
     map_option snd (walk deepest (ft_children t) (Suc (length (ft_nodes t))) i 1 ({}, 0))"

function ancestor_loop :: "folder_tree \<Rightarrow> uuid \<Rightarrow> uuid set \<Rightarrow> uuid \<Rightarrow> bool" where
  "ancestor_loop t ancestor seen cur =
     (if cur = ancestor then True
      else if cur \<in> seen then True
      else case Get t cur of
             None \<Rightarrow> False
           | Some f \<Rightarrow>
               (case f_parent_id f of
                  None \<Rightarrow> False
                | Some p \<Rightarrow> ancestor_loop t ancestor (insert cur seen) p))"
  by pat_completeness auto
termination
proof (relation "measure (\<lambda>(t, a, seen, cur). card (fst ` set (ft_index t) - seen))", goal_cases)
  case (2 t ancestor seen cur f p)
  then have "cur \<in> fst ` set (ft_index t) - seen"
    by (auto simp: Get_def split: option.splits dest: map_of_SomeD intro: rev_image_eqI)
  moreover have "fst ` set (ft_index t) - insert cur seen = fst ` set (ft_index t) - seen - {cur}"
    by auto
  ultimately show ?case
    by (auto simp only: in_measure prod.case intro!: card_Diff1_less)
qed simp

declare ancestor_loop.simps [simp del]

definition IsAncestor :: "folder_tree \<Rightarrow> uuid \<Rightarrow> uuid \<Rightarrow> bool" where
  "IsAncestor t ancestor i = ancestor_loop t ancestor {} i"

definition sameParent :: "uuid option \<Rightarrow> uuid option \<Rightarrow> bool" where
  "sameParent a b =
     (case (a, b) of
        (None, None) \<Rightarrow> True
      | (Some x, Some y) \<Rightarrow> x = y
      | _ \<Rightarrow> False)"

definition SiblingNamed :: "folder_tree \<Rightarrow> uuid option \<Rightarrow> string \<Rightarrow> folder option" where
  "SiblingNamed t parent name =
     (let want = to_lower (trim_space name) in
      find (\<lambda>f. sameParent (f_parent_id f) parent \<and> to_lower (f_name f) = want) (ft_nodes t))"

text \<open>\<open>MoveRefusal\<close> answers a refusal or nothing; the outer option is the walk of \<open>Height\<close>.
  \<open>depth_and_name\<close> is the part of its body below the parent's checks, which both shapes of
  \<open>parent\<close> fall through to.\<close>

definition depth_and_name :: "folder_tree \<Rightarrow> uuid \<Rightarrow> uuid option \<Rightarrow> folder \<Rightarrow> field_error option option" where
  "depth_and_name t i parent moving =
     (case Height t i of
        None \<Rightarrow> None
      | Some h \<Rightarrow>
          if Depth t parent + h > MaxFolderDepth then Some (Some (field_err ''parent_id'' ''too_deep''))
          else (case SiblingNamed t parent (f_name moving) of
                  None \<Rightarrow> Some None
                | Some existing \<Rightarrow>
                    if f_id existing \<noteq> i then Some (Some (field_err ''parent_id'' ''conflict''))
                    else Some None))"

definition MoveRefusal :: "folder_tree \<Rightarrow> uuid \<Rightarrow> uuid option \<Rightarrow> field_error option option" where
  "MoveRefusal t i parent =
     (case Get t i of
        None \<Rightarrow> Some (Some (field_err ''id'' ''not_found''))
      | Some moving \<Rightarrow>
          (case parent of
             None \<Rightarrow> depth_and_name t i parent moving
           | Some p \<Rightarrow>
               if Get t p = None then Some (Some (field_err ''parent_id'' ''not_found''))
               else if IsAncestor t i p then Some (Some (field_err ''parent_id'' ''cycle''))
               else depth_and_name t i parent moving))"

definition SameParent :: "uuid option \<Rightarrow> uuid option \<Rightarrow> bool" where
  "SameParent a b = sameParent a b"

subsection \<open>Names and order\<close>

definition isControl :: "nat \<Rightarrow> bool" where
  "isControl r \<longleftrightarrow> r < 32 \<or> r = 127"

definition ValidateFolderName :: "string \<Rightarrow> field_error list + string" where
  "ValidateFolderName name =
     (let trimmed = trim_space name in
      if trimmed = '''' then Inl [field_err ''name'' ''required'']
      else if rune_count trimmed > MaxFolderNameLength then Inl [field_err ''name'' ''too_long'']
      else if (\<exists>r \<in> set (runes trimmed). isControl r) then Inl [field_err ''name'' ''invalid'']
      else Inr trimmed)"

text \<open>\<open>uuid.UUID.String\<close> is not code of the repository: it is the parameter \<open>us\<close>.\<close>

definition SortFoldersByName :: "(uuid \<Rightarrow> string) \<Rightarrow> folder list \<Rightarrow> folder list" where
  "SortFoldersByName us folders =
     sort_key (\<lambda>f. (to_lower (f_name f), us (f_id f))) folders"

end
