(* ===== verification/Folders_Correct.thy ===== *)
theory Folders_Correct
  imports Folders
begin

section \<open>What the folder walks compute\<close>

text \<open>
  The walks of \<open>Folders\<close> are studied once, on the walk that only records the folders it visits
  (\<open>trace\<close>); every other walk is a fold over that record. From it: enough fuel is one more than
  the number of folders, the flat list is a permutation of the input, the depth of a folder is its
  number of ancestors in a forest, and a move \<open>MoveRefusal\<close> lets through leaves a forest no deeper
  than \<open>MaxFolderDepth\<close>.
\<close>

subsection \<open>Traces\<close>

definition trace :: "uuid \<Rightarrow> nat \<Rightarrow> (uuid \<times> nat) list \<Rightarrow> (uuid \<times> nat) list" where
  "trace i d tr = tr @ [(i, d)]"

definition replay :: "(uuid \<Rightarrow> nat \<Rightarrow> 'a \<Rightarrow> 'a) \<Rightarrow> (uuid \<times> nat) list \<Rightarrow> 'a \<Rightarrow> 'a" where
  "replay visit tr a = foldl (\<lambda>a p. visit (fst p) (snd p) a) a tr"

lemma replay_simps [simp]:
  "replay visit [] a = a"
  "replay visit (tr @ [p]) a = visit (fst p) (snd p) (replay visit tr a)"
  by (simp_all add: replay_def)

lemma walk_replay:
  "walk visit ch n cur d (seen, replay visit tr a)
     = map_option (\<lambda>(s, t). (s, replay visit t a)) (walk trace ch n cur d (seen, tr))"
  "walk_all visit ch n cs d (seen, replay visit tr a)
     = map_option (\<lambda>(s, t). (s, replay visit t a)) (walk_all trace ch n cs d (seen, tr))"
proof (induction trace ch n cur d "(seen, tr)" and trace ch n cs d "(seen, tr)"
       arbitrary: seen tr and seen tr rule: walk_walk_all.induct)
  case (2 ch n cur depth seen acc)
  show ?case using 2 by (simp add: trace_def)
next
  case (4 ch n c cs depth)
  show ?case using 4 by (auto split: option.splits)
qed simp_all

lemma walk_rest_replay:
  "walk_rest visit ch n fs (seen, replay visit tr a)
     = map_option (\<lambda>(s, t). (s, replay visit t a)) (walk_rest trace ch n fs (seen, tr))"
proof (induction fs arbitrary: seen tr)
  case (Cons f fs)
  show ?case by (auto simp: walk_replay Cons split: option.splits)
qed simp

text \<open>What one walk adds: new folders, each once, closed under children.\<close>

definition extends :: "(uuid \<Rightarrow> uuid list) \<Rightarrow> uuid set \<Rightarrow> (uuid \<times> nat) list
    \<Rightarrow> uuid set \<Rightarrow> (uuid \<times> nat) list \<Rightarrow> bool" where
  "extends ch seen tr seen' tr' \<longleftrightarrow>
     (\<exists>new. tr' = tr @ new \<and> seen' = seen \<union> fst ` set new \<and> distinct (map fst new)
        \<and> fst ` set new \<inter> seen = {} \<and> (\<forall>c \<in> fst ` set new. set (ch c) \<subseteq> seen'))"

lemma extends_refl: "extends ch s t s t"
  by (simp add: extends_def)

lemma extends_trans:
  assumes "extends ch s t s1 t1" "extends ch s1 t1 s2 t2"
  shows "extends ch s t s2 t2"
proof -
  obtain n1 n2 where n: "t1 = t @ n1" "s1 = s \<union> fst ` set n1" "distinct (map fst n1)"
      "fst ` set n1 \<inter> s = {}" "\<forall>c \<in> fst ` set n1. set (ch c) \<subseteq> s1"
      "t2 = t1 @ n2" "s2 = s1 \<union> fst ` set n2" "distinct (map fst n2)"
      "fst ` set n2 \<inter> s1 = {}" "\<forall>c \<in> fst ` set n2. set (ch c) \<subseteq> s2"
    using assms by (auto simp: extends_def)
  show ?thesis
    unfolding extends_def
    by (rule exI [of _ "n1 @ n2"]) (use n in \<open>auto; fastforce\<close>)
qed

lemma extends_mono: "extends ch s t s' t' \<Longrightarrow> s \<subseteq> s'"
  by (auto simp: extends_def)

lemma extends_visit:
  assumes "extends ch (insert c s) (t @ [(c, d)]) s' t'" "c \<notin> s" "set (ch c) \<subseteq> s'"
  shows "extends ch s t s' t'"
proof -
  obtain n where n: "t' = (t @ [(c, d)]) @ n" "s' = insert c s \<union> fst ` set n" "distinct (map fst n)"
      "fst ` set n \<inter> insert c s = {}" "\<forall>c \<in> fst ` set n. set (ch c) \<subseteq> s'"
    using assms(1) by (auto simp: extends_def)
  show ?thesis
    unfolding extends_def
    by (rule exI [of _ "(c, d) # n"]) (use n assms in auto)
qed

lemma walk_extends:
  "walk trace ch n cur d (seen, tr) = Some (s', t') \<Longrightarrow> extends ch seen tr s' t' \<and> cur \<in> s'"
  "walk_all trace ch n cs d (seen, tr) = Some (s', t') \<Longrightarrow> extends ch seen tr s' t' \<and> set cs \<subseteq> s'"
proof (induction trace ch n cur d "(seen, tr)" and trace ch n cs d "(seen, tr)"
       arbitrary: seen tr s' t' and seen tr s' t' rule: walk_walk_all.induct)
  case (2 ch n cur depth seen acc)
  show ?case
  proof (cases "cur \<in> seen")
    case True with 2 show ?thesis by (auto simp: extends_refl)
  next
    case False
    with 2 have "extends ch (insert cur seen) (acc @ [(cur, depth)]) s' t' \<and> set (ch cur) \<subseteq> s'"
      by (simp add: trace_def)
    then show ?thesis
      using extends_visit [of ch cur seen acc depth s' t'] False extends_mono by blast
  qed
next
  case (4 ch n c cs depth)
  from "4.prems" obtain s1 t1 where 1: "walk trace ch n c depth (seen, tr) = Some (s1, t1)"
    and 2: "walk_all trace ch n cs depth (s1, t1) = Some (s', t')"
    by (auto split: option.splits)
  from "4.hyps"(1) [OF 1] "4.hyps"(2) [OF 1 2] show ?case
    by (auto intro: extends_trans dest: extends_mono)
qed (auto simp: extends_refl)

lemma walk_rest_extends:
  "walk_rest trace ch n fs (seen, tr) = Some (s', t')
     \<Longrightarrow> extends ch seen tr s' t' \<and> f_id ` set fs \<subseteq> s'"
proof (induction fs arbitrary: seen tr)
  case (Cons f fs)
  show ?case
  proof (cases "f_id f \<in> seen")
    case True with Cons show ?thesis by (auto dest!: Cons.IH extends_mono)
  next
    case False
    with Cons.prems obtain s1 t1 where 1: "walk trace ch n (f_id f) 1 (seen, tr) = Some (s1, t1)"
      and 2: "walk_rest trace ch n fs (s1, t1) = Some (s', t')"
      by (auto split: option.splits)
    from walk_extends(1) [OF 1] Cons.IH [OF 2] show ?thesis
      by (auto intro: extends_trans dest: extends_mono)
  qed
qed (simp add: extends_refl)

lemma walk_rest_done: "f_id ` set fs \<subseteq> fst st \<Longrightarrow> walk_rest visit ch n fs st = Some st"
  by (induction fs) auto

text \<open>What holds of the first folder and passes to children holds of every visit.\<close>

lemma walk_visits:
  assumes step: "\<And>p d c. P p d \<Longrightarrow> c \<in> set (ch p) \<Longrightarrow> P c (d + 1)"
  shows "walk trace ch n cur d (seen, tr) = Some (s', t') \<Longrightarrow> \<forall>(c, d) \<in> set tr. P c d \<Longrightarrow> P cur d
           \<Longrightarrow> \<forall>(c, d) \<in> set t'. P c d"
    and "walk_all trace ch n cs d (seen, tr) = Some (s', t') \<Longrightarrow> \<forall>(c, d) \<in> set tr. P c d
           \<Longrightarrow> \<forall>c \<in> set cs. P c d \<Longrightarrow> \<forall>(c, d) \<in> set t'. P c d"
  using step
proof (induction trace ch n cur d "(seen, tr)" and trace ch n cs d "(seen, tr)"
       arbitrary: seen tr s' t' and seen tr s' t' rule: walk_walk_all.induct)
  case (2 ch n cur depth seen acc)
  then show ?case by (cases "cur \<in> seen") (auto simp: trace_def)
next
  case (4 ch n c cs depth)
  from "4.prems" obtain s1 t1 where 1: "walk trace ch n c depth (seen, tr) = Some (s1, t1)"
    and 2: "walk_all trace ch n cs depth (s1, t1) = Some (s', t')"
    by (auto split: option.splits)
  from "4.hyps"(1) [OF 1] "4.hyps"(2) [OF 1 2] "4.prems" show ?case by simp
qed auto

lemma walk_rest_visits:
  assumes step: "\<And>p d c. P p d \<Longrightarrow> c \<in> set (ch p) \<Longrightarrow> P c (d + 1)"
  shows "walk_rest trace ch n fs (seen, tr) = Some (s', t') \<Longrightarrow> \<forall>(c, d) \<in> set tr. P c d
           \<Longrightarrow> \<forall>f \<in> set fs. P (f_id f) 1 \<Longrightarrow> \<forall>(c, d) \<in> set t'. P c d"
proof (induction fs arbitrary: seen tr)
  case (Cons f fs)
  show ?case
  proof (cases "f_id f \<in> seen")
    case False
    with Cons.prems obtain s1 t1 where 1: "walk trace ch n (f_id f) 1 (seen, tr) = Some (s1, t1)"
      and 2: "walk_rest trace ch n fs (s1, t1) = Some (s', t')"
      by (auto split: option.splits)
    have "\<forall>(c, d) \<in> set t1. P c d"
      by (rule walk_visits(1) [where P = P, OF step 1]) (use Cons.prems in auto)
    with Cons.IH [OF 2] Cons.prems show ?thesis by simp
  qed (use Cons in auto)
qed simp

subsection \<open>Fuel\<close>

lemma walk_shrinks:
  "walk trace ch n cur d (seen, tr) = Some (s', t') \<Longrightarrow> finite V \<Longrightarrow> card (V - s') \<le> card (V - seen)"
  by (rule card_mono) (auto dest!: walk_extends(1) extends_mono)

lemma walk_some:
  assumes V: "finite V" "\<And>c. c \<in> V \<Longrightarrow> set (ch c) \<subseteq> V"
  shows "cur \<in> V \<Longrightarrow> card (V - seen) < n \<Longrightarrow> walk trace ch n cur d (seen, tr) \<noteq> None"
    and "set cs \<subseteq> V \<Longrightarrow> card (V - seen) < n \<Longrightarrow> walk_all trace ch n cs d (seen, tr) \<noteq> None"
  using V
proof (induction trace ch n cur d "(seen, tr)" and trace ch n cs d "(seen, tr)"
       arbitrary: seen tr and seen tr rule: walk_walk_all.induct)
  case (2 ch n cur depth seen acc)
  show ?case
  proof (cases "cur \<in> seen")
    case False
    have "card (V - insert cur seen) < card (V - seen)"
      by (rule psubset_card_mono) (use 2 False in auto)
    with 2 False show ?thesis by (simp add: trace_def)
  qed simp
next
  case (4 ch n c cs depth)
  obtain s1 t1 where 1: "walk trace ch n c depth (seen, tr) = Some (s1, t1)"
    using "4.hyps"(1) "4.prems" by fastforce
  show ?case using "4.hyps"(2) [OF 1] "4.prems" 1 walk_shrinks [OF 1, of V] by simp
qed auto

lemma walk_rest_some:
  assumes V: "finite V" "\<And>c. c \<in> V \<Longrightarrow> set (ch c) \<subseteq> V"
  shows "f_id ` set fs \<subseteq> V \<Longrightarrow> card (V - seen) < n \<Longrightarrow> walk_rest trace ch n fs (seen, tr) \<noteq> None"
proof (induction fs arbitrary: seen tr)
  case (Cons f fs)
  show ?case
  proof (cases "f_id f \<in> seen")
    case False
    obtain s1 t1 where 1: "walk trace ch n (f_id f) 1 (seen, tr) = Some (s1, t1)"
      using walk_some(1) [OF V, where cur = "f_id f" and seen = seen and n = n and d = 1 and tr = tr]
        Cons.prems by fastforce
    show ?thesis using Cons False 1 walk_shrinks [OF 1 V(1)] by fastforce
  qed (use Cons in simp)
qed simp

subsection \<open>The assembled tree\<close>

abbreviation ids :: "folder list \<Rightarrow> uuid set" where
  "ids fs \<equiv> f_id ` set fs"

abbreviation by_id :: "folder list \<Rightarrow> uuid \<rightharpoonup> folder" where
  "by_id fs \<equiv> index_by_id Map.empty fs"

lemma index_by_id_dom: "dom (index_by_id m fs) = dom m \<union> ids fs"
  by (induction fs arbitrary: m) auto

lemma index_by_id_keep: "i \<notin> ids fs \<Longrightarrow> index_by_id m fs i = m i"
  by (induction fs arbitrary: m) auto

lemma index_by_id_some: "distinct (map f_id fs) \<Longrightarrow> f \<in> set fs \<Longrightarrow> index_by_id m fs (f_id f) = Some f"
  by (induction fs arbitrary: m) (auto simp: index_by_id_keep)

lemma index_by_id_mem: "index_by_id m fs i = Some f \<Longrightarrow> m i = Some f \<or> f \<in> set fs \<and> f_id f = i"
proof (induction fs arbitrary: m)
  case (Cons g fs)
  from Cons.IH [of "m(f_id g \<mapsto> g)"] Cons.prems show ?case
    by (auto simp del: fun_upd_apply simp: fun_upd_def [symmetric]) (auto split: if_splits)
qed simp

lemma by_id_mem: "by_id fs i = Some f \<Longrightarrow> f \<in> set fs \<and> f_id f = i"
  using index_by_id_mem by fastforce

lemma by_id_iff: "distinct (map f_id fs) \<Longrightarrow> by_id fs i = Some f \<longleftrightarrow> f \<in> set fs \<and> f_id f = i"
  using by_id_mem index_by_id_some by metis

lemma by_id_None: "by_id fs i = None \<longleftrightarrow> i \<notin> ids fs"
proof -
  have "dom (by_id fs) = ids fs" using index_by_id_dom [of Map.empty fs] by simp
  then show ?thesis by blast
qed

text \<open>The parent a folder has in the tree: none for a root, none for an orphan.\<close>

definition parent_in :: "folder list \<Rightarrow> uuid \<Rightarrow> uuid option" where
  "parent_in fs i =
     (case by_id fs i of
        None \<Rightarrow> None
      | Some f \<Rightarrow>
          (case f_parent_id f of
             None \<Rightarrow> None
           | Some p \<Rightarrow> if p \<in> ids fs then Some p else None))"

definition child_of :: "(uuid \<rightharpoonup> folder) \<Rightarrow> folder \<Rightarrow> uuid \<Rightarrow> bool" where
  "child_of byID f p \<longleftrightarrow> f_parent_id f = Some p \<and> byID p \<noteq> None"

lemma link_up_closed:
  "link_up byID fs roots ch =
     (roots @ map f_id (filter (\<lambda>f. \<forall>p. \<not> child_of byID f p) fs),
      \<lambda>p. ch p @ map f_id (filter (\<lambda>f. child_of byID f p) fs))"
proof (induction fs arbitrary: roots ch)
  case (Cons f fs)
  show ?case
    by (cases "f_parent_id f"; cases "byID (the (f_parent_id f))")
      (auto simp: Cons.IH child_of_def fun_eq_iff)
qed simp

definition roots_of :: "folder list \<Rightarrow> uuid list" where
  "roots_of fs = fst (link_up (by_id fs) fs [] (\<lambda>_. []))"

definition children_of :: "folder list \<Rightarrow> uuid \<Rightarrow> uuid list" where
  "children_of fs = snd (link_up (by_id fs) fs [] (\<lambda>_. []))"

lemma roots_of_eq: "roots_of fs = map f_id (filter (\<lambda>f. \<forall>p. \<not> child_of (by_id fs) f p) fs)"
  by (simp add: roots_of_def link_up_closed)

lemma children_of_eq: "children_of fs p = map f_id (filter (\<lambda>f. child_of (by_id fs) f p) fs)"
  by (simp add: children_of_def link_up_closed)

lemma roots_of_subset: "set (roots_of fs) \<subseteq> ids fs"
  by (auto simp: roots_of_eq)

lemma children_of_subset: "set (children_of fs p) \<subseteq> ids fs"
  by (auto simp: children_of_eq)

lemma parent_in_child_of:
  "distinct (map f_id fs) \<Longrightarrow> f \<in> set fs \<Longrightarrow> parent_in fs (f_id f) = Some p \<longleftrightarrow> child_of (by_id fs) f p"
  by (auto simp: parent_in_def child_of_def index_by_id_some by_id_None split: option.splits)

lemma parent_in_ids: "parent_in fs i = Some p \<Longrightarrow> i \<in> ids fs \<and> p \<in> ids fs"
  by (auto simp: parent_in_def dest: by_id_mem split: option.splits if_splits)

lemma roots_of_iff:
  "distinct (map f_id fs) \<Longrightarrow> i \<in> set (roots_of fs) \<longleftrightarrow> i \<in> ids fs \<and> parent_in fs i = None"
  by (auto simp: roots_of_eq parent_in_child_of [symmetric])

lemma children_of_iff:
  assumes "distinct (map f_id fs)"
  shows "c \<in> set (children_of fs p) \<longleftrightarrow> parent_in fs c = Some p"
proof -
  have "c \<in> set (children_of fs p) \<longleftrightarrow> (\<exists>f \<in> set fs. f_id f = c \<and> child_of (by_id fs) f p)"
    by (auto simp: children_of_eq)
  also have "\<dots> \<longleftrightarrow> (\<exists>f \<in> set fs. f_id f = c \<and> parent_in fs (f_id f) = Some p)"
    using parent_in_child_of [OF assms] by blast
  finally show ?thesis using parent_in_ids [of fs c p] by auto
qed

definition depth_trace :: "folder list \<Rightarrow> (uuid set \<times> (uuid \<times> nat) list) option" where
  "depth_trace fs =
     (case walk_all trace (children_of fs) (Suc (length fs)) (roots_of fs) 1 ({}, []) of
        None \<Rightarrow> None
      | Some st \<Rightarrow> walk_rest trace (children_of fs) (Suc (length fs)) fs st)"

lemma depth_trace_some: "depth_trace fs \<noteq> None"
proof -
  let ?n = "Suc (length fs)"
  have n: "card (ids fs - s) < ?n" for s
    using card_mono [of "ids fs" "ids fs - s"] card_length [of "map f_id fs"] by simp
  note V = finite_imageI [OF finite_set] children_of_subset
  obtain s1 t1 where 1: "walk_all trace (children_of fs) ?n (roots_of fs) 1 ({}, []) = Some (s1, t1)"
    using walk_some(2) [OF V roots_of_subset n, where d = 1 and tr = "[]"] by fastforce
  show ?thesis
    using walk_rest_some [OF V subset_refl n] 1 by (simp add: depth_trace_def)
qed

lemma depth_trace_spec:
  assumes "depth_trace fs = Some (s, tr)"
  shows "distinct (map fst tr)" "fst ` set tr = ids fs" "s = fst ` set tr"
proof -
  obtain s1 t1 where 1: "walk_all trace (children_of fs) (Suc (length fs)) (roots_of fs) 1 ({}, []) = Some (s1, t1)"
    and 2: "walk_rest trace (children_of fs) (Suc (length fs)) fs (s1, t1) = Some (s, tr)"
    using assms by (auto simp: depth_trace_def split: option.splits)
  have "extends (children_of fs) {} [] s tr"
    using walk_extends(2) [OF 1] walk_rest_extends [OF 2] by (blast intro: extends_trans)
  then show d: "distinct (map fst tr)" and s: "s = fst ` set tr"
    by (auto simp: extends_def)
  have "\<forall>(c, d) \<in> set t1. c \<in> ids fs"
    by (rule walk_visits(2) [OF _ 1])
      (use roots_of_subset [of fs] subsetD [OF children_of_subset [of fs]] in auto)
  with 2 have "\<forall>(c, d) \<in> set tr. c \<in> ids fs"
    by (rule walk_rest_visits [rotated 1]) (use subsetD [OF children_of_subset [of fs]] in auto)
  then show "fst ` set tr = ids fs" using walk_rest_extends [OF 2] s by auto
qed

definition node :: "folder list \<Rightarrow> uuid \<Rightarrow> nat \<Rightarrow> folder" where
  "node fs i d = (case by_id fs i of Some f \<Rightarrow> f | None \<Rightarrow> zero_folder)\<lparr>f_depth := d\<rparr>"

definition tree_of :: "folder list \<Rightarrow> (uuid \<times> nat) list \<Rightarrow> folder_tree" where
  "tree_of fs tr =
     (case replay (place (by_id fs)) tr ([], []) of
        (nodes, idx) \<Rightarrow> \<lparr>ft_nodes = nodes, ft_index = idx, ft_children = children_of fs\<rparr>)"

lemma NewFolderTree_trace: "NewFolderTree fs = map_option (\<lambda>(s, tr). tree_of fs tr) (depth_trace fs)"
proof -
  have l: "link_up (by_id fs) fs [] (\<lambda>_. []) = (roots_of fs, children_of fs)"
    by (simp add: roots_of_def children_of_def)
  have a: "walk_all (place (by_id fs)) ch n cs d ({}, [], []) = map_option
      (\<lambda>(s, t). (s, replay (place (by_id fs)) t ([], []))) (walk_all trace ch n cs d ({}, []))" for ch n cs d
    using walk_replay(2) [of "place (by_id fs)" ch n cs d "{}" "[]" "([], [])"] by simp
  show ?thesis
    by (auto simp: NewFolderTree_def Let_def l a depth_trace_def walk_rest_replay tree_of_def
          split: option.splits prod.splits)
qed

lemma NewFolderTree_total: "\<exists>t. NewFolderTree fs = Some t"
  using depth_trace_some [of fs] by (auto simp: NewFolderTree_trace)

lemma NewFolderTree_obtain:
  assumes "NewFolderTree fs = Some t"
  obtains tr where "depth_trace fs = Some (fst ` set tr, tr)" "t = tree_of fs tr"
    "distinct (map fst tr)" "fst ` set tr = ids fs"
  using assms depth_trace_spec by (auto simp: NewFolderTree_trace)

lemma place_pair:
  "place (by_id fs) i d (nodes, idx) = (nodes @ [node fs i d], (i, length nodes) # idx)"
  by (simp add: place_def node_def)

lemma replay_place:
  "fst (replay (place (by_id fs)) tr ([], [])) = map (\<lambda>(i, d). node fs i d) tr"
  "map_of (snd (replay (place (by_id fs)) tr ([], []))) i = Some k \<Longrightarrow> k < length tr"
  "distinct (map fst tr) \<Longrightarrow>
     map_option (\<lambda>k. case tr ! k of (i, d) \<Rightarrow> node fs i d)
         (map_of (snd (replay (place (by_id fs)) tr ([], []))) i)
       = map_option (node fs i) (map_of tr i)"
proof (induction tr arbitrary: k rule: rev_induct)
  case (snoc p tr)
  obtain nodes idx where r: "replay (place (by_id fs)) tr ([], []) = (nodes, idx)" by fastforce
  have nodes: "nodes = map (\<lambda>(i, d). node fs i d) tr" using snoc.IH(1) r by simp
  then have n: "length nodes = length tr" by simp
  { case 1 show ?case by (cases p) (simp add: r place_pair nodes) }
  { case 2 then show ?case
      using snoc.IH(2) [of k] n r by (cases p) (auto simp: place_pair split: if_splits) }
  { case 3
    then have IH: "map_option (\<lambda>k. case tr ! k of (i, d) \<Rightarrow> node fs i d) (map_of idx i)
        = map_option (node fs i) (map_of tr i)"
      using snoc.IH(3) r by simp
    show ?case
    proof (cases "i = fst p")
      case True
      then have "map_of tr i = None" using 3 by (auto simp: map_of_eq_None_iff)
      then show ?thesis using True r n by (cases p) (simp add: place_pair map_add_def)
    next
      case False
      have "map_option (\<lambda>k. case (tr @ [p]) ! k of (i, d) \<Rightarrow> node fs i d) (map_of idx i)
          = map_option (\<lambda>k. case tr ! k of (i, d) \<Rightarrow> node fs i d) (map_of idx i)"
        using snoc.IH(2) r by (auto simp: nth_append intro!: option.map_cong split: option.splits)
      then show ?thesis
        using IH False r by (cases p) (simp add: place_pair map_add_def option.case_eq_if split: if_splits)
    qed }
qed simp_all

lemma Flat_tree_of: "Flat (tree_of fs tr) = map (\<lambda>(i, d). node fs i d) tr"
  using replay_place(1) [of fs tr] by (auto simp: Flat_def tree_of_def split: prod.splits)

lemma ft_children_tree_of: "ft_children (tree_of fs tr) = children_of fs"
  by (simp add: tree_of_def split: prod.splits)

lemma Get_tree_of:
  assumes "distinct (map fst tr)"
  shows "Get (tree_of fs tr) i = map_option (node fs i) (map_of tr i)"
proof -
  obtain nodes idx where r: "replay (place (by_id fs)) tr ([], []) = (nodes, idx)" by fastforce
  have "nodes = map (\<lambda>(i, d). node fs i d) tr" using replay_place(1) [of fs tr] r by simp
  then have "Get (tree_of fs tr) i = map_option (\<lambda>k. case tr ! k of (i, d) \<Rightarrow> node fs i d) (map_of idx i)"
    using replay_place(2) [of fs tr i] r by (auto simp: Get_def tree_of_def split: option.splits)
  then show ?thesis using replay_place(3) [OF assms, of fs i] r by simp
qed

lemma f_id_node: "i \<in> ids fs \<Longrightarrow> f_id (node fs i d) = i"
  by (cases "by_id fs i") (auto simp: node_def by_id_None dest: by_id_mem)

lemma f_id_zero_depth [simp]: "f_id (f\<lparr>f_depth := d\<rparr>) = f_id f"
  by simp

subsection \<open>Levels of a forest\<close>

text \<open>
  \<open>level par n i\<close> is the number of folders on the way up from \<open>i\<close>, itself included, when it is
  at most \<open>n\<close>: \<open>None\<close> when the way up is longer or never ends.
\<close>

fun level :: "(uuid \<rightharpoonup> uuid) \<Rightarrow> nat \<Rightarrow> uuid \<Rightarrow> nat option" where
  "level par 0 i = None"
| "level par (Suc n) i =
     (case par i of None \<Rightarrow> Some 1 | Some p \<Rightarrow> map_option Suc (level par n p))"

definition bounded_forest :: "nat \<Rightarrow> folder list \<Rightarrow> bool" where
  "bounded_forest n fs \<longleftrightarrow> (\<forall>f \<in> set fs. level (parent_in fs) n (f_id f) \<noteq> None)"

inductive at_level :: "(uuid \<rightharpoonup> uuid) \<Rightarrow> uuid \<Rightarrow> nat \<Rightarrow> bool" for par where
  root: "par i = None \<Longrightarrow> at_level par i 1"
| child: "par i = Some p \<Longrightarrow> at_level par p d \<Longrightarrow> at_level par i (Suc d)"

inductive_cases at_levelE: "at_level par i d"

lemma level_at: "level par n i = Some d \<Longrightarrow> at_level par i d \<and> d \<le> n"
proof (induction n arbitrary: i d)
  case (Suc n)
  show ?case
  proof (cases "par i")
    case None
    then show ?thesis using Suc.prems at_level.root [of par i] by simp
  qed (use Suc in \<open>auto intro: at_level.child\<close>)
qed simp

lemma at_level_pos: "at_level par i d \<Longrightarrow> 0 < d"
  by (erule at_levelE) auto

lemma at_level_level: "at_level par i d \<Longrightarrow> d \<le> n \<Longrightarrow> level par n i = Some d"
proof (induction arbitrary: n rule: at_level.induct)
  case (root i) then show ?case by (cases n) auto
next
  case (child i p d) then show ?case by (cases n) auto
qed

lemma at_level_unique: "at_level par i d \<Longrightarrow> at_level par i d' \<Longrightarrow> d = d'"
  by (metis at_level_level le_cases option.inject)

lemma bounded_forest_iff:
  "bounded_forest n fs \<longleftrightarrow> (\<forall>i \<in> ids fs. \<exists>d \<le> n. at_level (parent_in fs) i d)"
  unfolding bounded_forest_def by (auto dest: level_at at_level_level) (metis level_at option.exhaust)

text \<open>The \<open>k\<close>-th folder above.\<close>

fun up :: "(uuid \<rightharpoonup> uuid) \<Rightarrow> nat \<Rightarrow> uuid \<Rightarrow> uuid option" where
  "up par 0 i = Some i"
| "up par (Suc k) i = (case par i of None \<Rightarrow> None | Some p \<Rightarrow> up par k p)"

lemma at_level_up: "up par k i = Some j \<Longrightarrow> at_level par j d \<Longrightarrow> at_level par i (k + d)"
  by (induction k arbitrary: i) (auto split: option.splits intro: at_level.child)

lemma up_at_level: "up par k i = Some j \<Longrightarrow> at_level par i d \<Longrightarrow> k < d \<and> at_level par j (d - k)"
proof (induction k arbitrary: i d)
  case 0 then show ?case by (simp add: at_level_pos)
next
  case (Suc k)
  then obtain p where p: "par i = Some p" "up par k p = Some j" by (auto split: option.splits)
  with Suc.prems obtain d' where "d = Suc d'" "at_level par p d'" by (auto elim: at_levelE)
  with Suc.IH [OF p(2)] show ?case by simp
qed

subsection \<open>Depth, height and the cycle rule in a forest\<close>

abbreviation forest :: "folder list \<Rightarrow> bool" where
  "forest fs \<equiv> distinct (map f_id fs) \<and> (\<forall>i \<in> ids fs. \<exists>d. at_level (parent_in fs) i d)"

lemma forest_trace:
  assumes "forest fs" "depth_trace fs = Some (s, tr)"
  shows "\<forall>(c, d) \<in> set tr. at_level (parent_in fs) c d"
proof -
  let ?P = "at_level (parent_in fs)"
  obtain s1 t1 where 1: "walk_all trace (children_of fs) (Suc (length fs)) (roots_of fs) 1 ({}, []) = Some (s1, t1)"
    and 2: "walk_rest trace (children_of fs) (Suc (length fs)) fs (s1, t1) = Some (s, tr)"
    using assms by (auto simp: depth_trace_def split: option.splits)
  have ex: "extends (children_of fs) {} [] s1 t1" "set (roots_of fs) \<subseteq> s1"
    using walk_extends(2) [OF 1] by auto
  then have closed: "c \<in> s1 \<Longrightarrow> set (children_of fs c) \<subseteq> s1" for c
    by (auto simp: extends_def)
  have "?P i d \<Longrightarrow> i \<in> ids fs \<Longrightarrow> i \<in> s1" for i d
  proof (induction rule: at_level.induct)
    case (root i) then show ?case using ex(2) assms(1) roots_of_iff by auto
  next
    case (child i p d)
    then show ?case using closed [of p] assms(1) children_of_iff parent_in_ids by blast
  qed
  then have "walk_rest trace (children_of fs) (Suc (length fs)) fs (s1, t1) = Some (s1, t1)"
    using assms(1) by (intro walk_rest_done) auto
  with 2 have "tr = t1" by simp
  moreover have "\<forall>(c, d) \<in> set t1. ?P c d"
    by (rule walk_visits(2) [OF _ 1])
      (use assms(1) roots_of_iff children_of_iff in \<open>auto intro: at_level.intros at_level.root [simplified]\<close>)
  ultimately show ?thesis by simp
qed

lemma Depth_forest:
  assumes "forest fs" "NewFolderTree fs = Some t" "at_level (parent_in fs) i d" "i \<in> ids fs"
  shows "Depth t (Some i) = d"
proof -
  obtain tr where tr: "depth_trace fs = Some (fst ` set tr, tr)" "t = tree_of fs tr"
    "distinct (map fst tr)" "fst ` set tr = ids fs"
    using NewFolderTree_obtain [OF assms(2)] .
  from assms(4) tr(4) obtain d' where d': "map_of tr i = Some d'"
    by (metis map_of_eq_None_iff option.exhaust)
  then have "at_level (parent_in fs) i d'"
    using forest_trace [OF assms(1) tr(1)] by (auto dest: map_of_SomeD)
  with assms(3) have "d' = d" by (rule at_level_unique [rotated])
  with d' tr show ?thesis by (simp add: Depth_def Get_tree_of node_def)
qed

lemma replay_deepest: "(c, d) \<in> set tr \<Longrightarrow> d \<le> replay deepest tr b"
  by (induction tr arbitrary: c d rule: rev_induct) (fastforce simp: deepest_def)+

lemma length_nodes:
  assumes "NewFolderTree fs = Some t"
  shows "length (ft_nodes t) = card (ids fs)"
proof -
  obtain tr where tr: "t = tree_of fs tr" "distinct (map fst tr)" "fst ` set tr = ids fs"
    using NewFolderTree_obtain [OF assms] by metis
  then show ?thesis
    using Flat_tree_of [of fs tr] distinct_card [of "map fst tr"] by (simp add: Flat_def)
qed

lemma Height_trace:
  assumes "NewFolderTree fs = Some t" "i \<in> ids fs"
  obtains s tr where "Height t i = Some (replay deepest tr 0)"
    "walk trace (children_of fs) (Suc (card (ids fs))) i 1 ({}, []) = Some (s, tr)"
proof -
  have ch: "ft_children t = children_of fs"
    using NewFolderTree_obtain [OF assms(1)] ft_children_tree_of by metis
  obtain s tr where w: "walk trace (children_of fs) (Suc (card (ids fs))) i 1 ({}, []) = Some (s, tr)"
    using walk_some(1) [where V = "ids fs" and ch = "children_of fs" and cur = i and seen = "{}"
        and n = "Suc (card (ids fs))" and d = 1 and tr = "[]"] children_of_subset assms(2)
    by fastforce
  show thesis
    by (rule that [OF _ w])
      (use walk_replay(1) [of deepest "children_of fs" "Suc (card (ids fs))" i 1 "{}" "[]" 0] w
       in \<open>simp add: Height_def ch length_nodes [OF assms(1)]\<close>)
qed

lemma Height_ge:
  assumes "forest fs" "NewFolderTree fs = Some t" "i \<in> ids fs" "Height t i = Some h"
    and "up (parent_in fs) k x = Some i"
  shows "k + 1 \<le> h"
proof -
  let ?P = "\<lambda>c d. \<exists>j. up (parent_in fs) j c = Some i \<and> d = j + 1"
  obtain s tr where h: "Height t i = Some (replay deepest tr 0)"
    and w: "walk trace (children_of fs) (Suc (card (ids fs))) i 1 ({}, []) = Some (s, tr)"
    using Height_trace [OF assms(2,3)] .
  have ch: "c \<in> set (children_of fs p) \<longleftrightarrow> parent_in fs c = Some p" for c p
    using assms(1) children_of_iff by blast
  from walk_extends(1) [OF w] have s: "s = fst ` set tr" "i \<in> s"
    and cl: "c \<in> s \<Longrightarrow> set (children_of fs c) \<subseteq> s" for c
    by (auto simp: extends_def)
  have "up (parent_in fs) k x = Some i \<Longrightarrow> x \<in> s" for k x
  proof (induction k arbitrary: x)
    case (Suc k) then show ?case using cl ch by (fastforce split: option.splits)
  qed (use s in simp)
  from this [OF assms(5)] s(1) obtain d where d: "(x, d) \<in> set tr" by auto
  have "\<forall>(c, d) \<in> set tr. ?P c d"
  proof (rule walk_visits(1) [OF _ w])
    show "?P i 1" by (auto intro: exI [of _ 0])
    show "\<And>p d c. ?P p d \<Longrightarrow> c \<in> set (children_of fs p) \<Longrightarrow> ?P c (d + 1)"
      using ch by (metis add.commute option.simps(5) plus_1_eq_Suc up.simps(2))
  qed simp
  with d obtain j where j: "up (parent_in fs) j x = Some i" "d = j + 1" by fastforce
  obtain e where e: "at_level (parent_in fs) i e" using assms(1,3) by blast
  have "j + e = k + e"
    using at_level_up [OF j(1) e] at_level_up [OF assms(5) e] by (rule at_level_unique)
  with j replay_deepest [OF d, of 0] h assms(4) show ?thesis by simp
qed

lemma Get_new:
  assumes "NewFolderTree fs = Some t"
  shows "(Get t i = None) = (i \<notin> ids fs)"
    and "Get t i = Some f \<Longrightarrow> \<exists>d g. by_id fs i = Some g \<and> f = g\<lparr>f_depth := d\<rparr>"
proof -
  obtain tr where tr: "t = tree_of fs tr" "distinct (map fst tr)" "fst ` set tr = ids fs"
    using NewFolderTree_obtain [OF assms] by metis
  then show none: "(Get t i = None) = (i \<notin> ids fs)"
    by (simp add: Get_tree_of map_of_eq_None_iff)
  show "\<exists>d g. by_id fs i = Some g \<and> f = g\<lparr>f_depth := d\<rparr>" if g: "Get t i = Some f"
  proof -
    obtain x where x: "by_id fs i = Some x" using none g by_id_None by fastforce
    with g tr(1,2) show ?thesis by (auto simp: Get_tree_of node_def)
  qed
qed

lemma not_ancestor_up:
  assumes "NewFolderTree fs = Some t"
  shows "\<not> ancestor_loop t a seen cur \<Longrightarrow> up (parent_in fs) k cur \<noteq> Some a"
  using assms
proof (induction t a seen cur arbitrary: k rule: ancestor_loop.induct)
  case (1 t a seen cur)
  from "1.prems"(1) have ne: "cur \<noteq> a" "cur \<notin> seen"
    by (subst (asm) ancestor_loop.simps; simp split: if_splits)+
  show ?case
  proof (cases k)
    case (Suc k')
    show ?thesis
    proof (cases "parent_in fs cur")
      case (Some p)
      then obtain g where g: "by_id fs cur = Some g" "f_parent_id g = Some p"
        by (auto simp: parent_in_def split: option.splits if_splits)
      with Get_new [OF "1.prems"(2), of cur] obtain f where f: "Get t cur = Some f" "f_parent_id f = Some p"
        by (metis by_id_None folder.select_convs(3) folder.surjective folder.update_convs(5)
            option.exhaust option.inject)
      with "1.prems"(1) ne have "\<not> ancestor_loop t a (insert cur seen) p"
        by (simp add: ancestor_loop.simps [of t a seen cur])
      from "1.IH" [OF ne f this "1.prems"(2)] Some Suc show ?thesis by simp
    qed (use Suc in simp)
  qed (use ne in simp)
qed

subsection \<open>A move the rule lets through\<close>

text \<open>\<open>refile\<close> is the row the statement \<open>MoveFolder\<close> of \<open>store/query/folders.sql\<close> changes.\<close>

definition refile :: "uuid \<Rightarrow> uuid option \<Rightarrow> folder list \<Rightarrow> folder list" where
  "refile i parent fs = map (\<lambda>f. if f_id f = i then f\<lparr>f_parent_id := parent\<rparr> else f) fs"

lemma refile_ids: "map f_id (refile i parent fs) = map f_id fs"
  by (simp add: refile_def)

lemma refile_id_set: "ids (refile i parent fs) = ids fs"
  using refile_ids [of i parent fs] by (metis set_map)

lemma by_id_refile:
  assumes "distinct (map f_id fs)"
  shows "by_id (refile i parent fs) x
     = map_option (\<lambda>f. if x = i then f\<lparr>f_parent_id := parent\<rparr> else f) (by_id fs x)"
proof (cases "by_id fs x")
  case None
  then have "by_id (refile i parent fs) x = None" by (simp only: by_id_None refile_id_set not_False_eq_True)
  with None show ?thesis by simp
next
  case (Some f)
  then have f: "f \<in> set fs" "f_id f = x" using by_id_mem by auto
  define g where "g = (if f_id f = i then f\<lparr>f_parent_id := parent\<rparr> else f)"
  have "g \<in> set (refile i parent fs)" "f_id g = x"
    using f by (auto simp: refile_def g_def)
  then have "by_id (refile i parent fs) x = Some g"
    using by_id_iff [of "refile i parent fs" x g] assms by (simp only: refile_ids)
  with Some f show ?thesis by (auto simp: g_def)
qed

lemma parent_in_refile:
  assumes "distinct (map f_id fs)" "i \<in> ids fs" "\<And>p. parent = Some p \<Longrightarrow> p \<in> ids fs"
  shows "parent_in (refile i parent fs) x = (if x = i then parent else parent_in fs x)"
proof -
  have "by_id fs i \<noteq> None" using assms(2) by_id_None by blast
  with assms(3) show ?thesis
    unfolding parent_in_def by_id_refile [OF assms(1)] refile_id_set
    by (auto split: option.splits)
qed

lemma at_level_keep:
  assumes "\<And>x. x \<noteq> i \<Longrightarrow> par' x = par x"
  shows "at_level par x d \<Longrightarrow> \<forall>k. up par k x \<noteq> Some i \<Longrightarrow> at_level par' x d"
proof (induction rule: at_level.induct)
  case (root x)
  then have "x \<noteq> i" by (metis up.simps(1))
  with root assms show ?case using at_level.root [of par' x] by simp
next
  case (child x p d)
  have "x \<noteq> i" using child.prems by (metis up.simps(1))
  moreover have "up par k p \<noteq> Some i" for k
    using child.prems child.hyps(1) by (auto dest: spec [of _ "Suc k"])
  ultimately show ?case using child assms by (auto intro: at_level.child)
qed

lemma at_level_below:
  assumes "\<And>x. x \<noteq> i \<Longrightarrow> par' x = par x" "at_level par i d" "at_level par' i e"
  shows "up par k x = Some i \<Longrightarrow> at_level par' x (k + e)"
proof (induction k arbitrary: x)
  case (Suc k)
  then obtain p where p: "par x = Some p" "up par k p = Some i" by (auto split: option.splits)
  have "x \<noteq> i"
  proof
    assume "x = i"
    with Suc.prems at_level_up [OF _ assms(2)] at_level_unique [OF assms(2)] show False by fastforce
  qed
  with p assms(1) Suc.IH show ?case by (auto intro: at_level.child)
qed (use assms in simp)

lemma MoveRefusal_none:
  assumes "NewFolderTree fs = Some t" "MoveRefusal t i parent = Some None"
  obtains h where "i \<in> ids fs" "Height t i = Some h" "Depth t parent + h \<le> MaxFolderDepth"
    "\<And>p. parent = Some p \<Longrightarrow> p \<in> ids fs \<and> \<not> IsAncestor t i p"
proof -
  from assms(2) obtain m where m: "Get t i = Some m"
    by (auto simp: MoveRefusal_def split: option.splits)
  with assms(2) have dn: "depth_and_name t i parent m = Some None"
    and p: "\<And>p. parent = Some p \<Longrightarrow> Get t p \<noteq> None \<and> \<not> IsAncestor t i p"
    by (auto simp: MoveRefusal_def split: option.splits if_splits)
  from dn obtain h where h: "Height t i = Some h" "Depth t parent + h \<le> MaxFolderDepth"
    by (auto simp: depth_and_name_def split: option.splits if_splits)
  show thesis
    by (rule that [OF _ h]) (use m p Get_new(1) [OF assms(1)] in \<open>metis option.distinct(1)\<close>)+
qed

lemma MoveRefusal_total: "NewFolderTree fs = Some t \<Longrightarrow> \<exists>r. MoveRefusal t i parent = Some r"
proof -
  assume t: "NewFolderTree fs = Some t"
  have "Height t i \<noteq> None" if "Get t i \<noteq> None"
    using Height_trace [OF t, of i] Get_new(1) [OF t, of i] that by (metis option.distinct(1))
  then show ?thesis
    by (auto simp: MoveRefusal_def depth_and_name_def split: option.splits)
qed

lemma forest_of_bounded:
  "bounded_forest n fs \<Longrightarrow> distinct (map f_id fs) \<Longrightarrow> forest fs"
  by (auto simp: bounded_forest_iff)

lemma move_levels:
  assumes "forest fs" "NewFolderTree fs = Some t" "MoveRefusal t i parent = Some None"
  shows "at_level (parent_in (refile i parent fs)) i (Suc (Depth t parent))"
    and "x \<in> ids fs \<Longrightarrow> \<exists>d. at_level (parent_in (refile i parent fs)) x d
           \<and> (d \<le> MaxFolderDepth \<or> at_level (parent_in fs) x d)"
proof -
  let ?par = "parent_in fs" and ?par' = "parent_in (refile i parent fs)"
  obtain h where i: "i \<in> ids fs" and h: "Height t i = Some h" "Depth t parent + h \<le> MaxFolderDepth"
    and p: "\<And>p. parent = Some p \<Longrightarrow> p \<in> ids fs \<and> \<not> IsAncestor t i p"
    using MoveRefusal_none [OF assms(2,3)] by blast
  have par': "?par' x = (if x = i then parent else ?par x)" for x
    by (rule parent_in_refile) (use assms(1) i p in auto)
  have ne: "x \<noteq> i \<Longrightarrow> ?par' x = ?par x" for x by (simp add: par')
  show new: "at_level ?par' i (Suc (Depth t parent))"
  proof (cases parent)
    case None
    with par' have "?par' i = None" by simp
    from at_level.root [where par = ?par', OF this] None show ?thesis by (simp add: Depth_def)
  next
    case (Some q)
    then have q: "q \<in> ids fs" "\<not> ancestor_loop t i {} q" using p by (auto simp: IsAncestor_def)
    then obtain d where d: "at_level ?par q d" using assms(1) by blast
    have "at_level ?par' q d"
      by (rule at_level_keep [OF ne d]) (use not_ancestor_up [OF assms(2) q(2)] in auto)
    moreover have "Depth t parent = d" using Depth_forest [OF assms(1,2) d q(1)] Some by simp
    moreover have "?par' i = Some q" using par' Some by simp
    ultimately show ?thesis by (simp add: at_level.child)
  qed
  show "\<exists>d. at_level ?par' x d \<and> (d \<le> MaxFolderDepth \<or> at_level ?par x d)" if x: "x \<in> ids fs"
  proof (cases "\<exists>k. up ?par k x = Some i")
    case True
    then obtain k where k: "up ?par k x = Some i" by blast
    obtain d where "at_level ?par i d" using assms(1) i by blast
    with at_level_below [OF ne _ new k] have "at_level ?par' x (k + Suc (Depth t parent))" by blast
    moreover have "k + 1 \<le> h" by (rule Height_ge [OF assms(1,2) i h(1) k])
    ultimately show ?thesis using h(2) by (intro exI [of _ "k + Suc (Depth t parent)"]) auto
  next
    case False
    obtain d where d: "at_level ?par x d" using assms(1) x by blast
    with at_level_keep [OF ne d] False show ?thesis by blast
  qed
qed

lemma move_sound:
  assumes "distinct (map f_id fs)" "bounded_forest MaxFolderDepth fs" "NewFolderTree fs = Some t"
    and "MoveRefusal t i parent = Some None"
  shows "bounded_forest MaxFolderDepth (refile i parent fs)"
  unfolding bounded_forest_iff
proof
  fix x assume "x \<in> ids (refile i parent fs)"
  then have x: "x \<in> ids fs" by (simp only: refile_id_set)
  have f: "forest fs" by (rule forest_of_bounded) fact+
  obtain d where "d \<le> MaxFolderDepth" "at_level (parent_in fs) x d"
    using assms(2) x by (auto simp: bounded_forest_iff)
  then show "\<exists>d \<le> MaxFolderDepth. at_level (parent_in (refile i parent fs)) x d"
    using move_levels(2) [OF f assms(3,4) x] at_level_unique by metis
qed

subsection \<open>Properties\<close>

text \<open>C2. Assembling a tree loses no folder, whatever the data holds: for any list of folders with
  distinct ids, orphans and parent cycles included, \<open>NewFolderTree\<close> returns, and its flat list is a
  permutation of the input once the computed depth is put aside.\<close>

theorem NewFolderTree_loses_nothing:
  assumes "distinct (map f_id fs)"
  shows "\<exists>t. NewFolderTree fs = Some t
     \<and> mset (map (f_depth_update (\<lambda>_. 0)) (Flat t)) = mset (map (f_depth_update (\<lambda>_. 0)) fs)"
proof -
  obtain t where t: "NewFolderTree fs = Some t" using NewFolderTree_total by blast
  obtain tr where tr: "t = tree_of fs tr" "distinct (map fst tr)" "fst ` set tr = ids fs"
    using NewFolderTree_obtain [OF t] by metis
  let ?g = "\<lambda>i. (the (by_id fs i))\<lparr>f_depth := 0\<rparr>"
  have some: "by_id fs i = Some (the (by_id fs i))" if "i \<in> ids fs" for i
    using by_id_None [of fs i] that by auto
  have "map (f_depth_update (\<lambda>_. 0)) (Flat t) = map ?g (map fst tr)"
    using tr(3) some by (fastforce simp: tr(1) Flat_tree_of node_def split: option.splits)
  moreover have "map (f_depth_update (\<lambda>_. 0)) fs = map ?g (map f_id fs)"
    using assms by (auto simp: index_by_id_some)
  moreover have "mset (map fst tr) = mset (map f_id fs)"
    by (rule set_eq_iff_mset_eq_distinct [THEN iffD1, OF tr(2) assms]) (simp add: tr(3))
  ultimately show ?thesis using t by (metis mset_map)
qed

definition folder_row :: "uuid \<Rightarrow> uuid option \<Rightarrow> string \<Rightarrow> folder" where
  "folder_row i parent name = zero_folder\<lparr>f_id := i, f_parent_id := parent, f_name := name\<rparr>"

theorem NewFolderTree_loses_nothing_witness:
  "\<exists>t. NewFolderTree [folder_row 1 (Some 2) ''a'', folder_row 2 (Some 1) ''b'', folder_row 3 (Some 9) ''c''] = Some t
     \<and> mset (map (f_depth_update (\<lambda>_. 0)) (Flat t))
       = mset (map (f_depth_update (\<lambda>_. 0))
          [folder_row 1 (Some 2) ''a'', folder_row 2 (Some 1) ''b'', folder_row 3 (Some 9) ''c''])"
  by (rule NewFolderTree_loses_nothing) (simp add: folder_row_def)

text \<open>In a forest no deeper than \<open>n\<close>, the depth the tree reports for a folder is the number of
  folders on its way to the top, itself included.\<close>

theorem Depth_counts_ancestors:
  assumes "distinct (map f_id fs)" "bounded_forest n fs" "NewFolderTree fs = Some t" "f \<in> set fs"
  shows "level (parent_in fs) n (f_id f) = Some (Depth t (Some (f_id f)))"
proof -
  obtain d where d: "d \<le> n" "at_level (parent_in fs) (f_id f) d"
    using assms(2,4) by (auto simp: bounded_forest_iff)
  have "Depth t (Some (f_id f)) = d"
    by (rule Depth_forest [OF _ assms(3) d(2)]) (use assms forest_of_bounded in auto)
  with d at_level_level show ?thesis by simp
qed

lemma folder_chain_tree:
  "NewFolderTree [folder_row 1 None ''a'', folder_row 2 (Some 1) ''b'', folder_row 3 (Some 2) ''c'', folder_row 4 None ''d'']
   = Some \<lparr>ft_nodes = [(folder_row 1 None ''a'')\<lparr>f_depth := 1\<rparr>, (folder_row 2 (Some 1) ''b'')\<lparr>f_depth := 2\<rparr>,
        (folder_row 3 (Some 2) ''c'')\<lparr>f_depth := 3\<rparr>, (folder_row 4 None ''d'')\<lparr>f_depth := 1\<rparr>],
      ft_index = [(4, 3), (3, 2), (2, 1), (1, 0)],
      ft_children = (\<lambda>_. [])(1 := [2], 2 := [3])\<rparr>"
  by (simp add: NewFolderTree_def folder_row_def zero_folder_def Let_def place_def)

lemma folder_chain_bounded:
  "bounded_forest MaxFolderDepth
    [folder_row 1 None ''a'', folder_row 2 (Some 1) ''b'', folder_row 3 (Some 2) ''c'', folder_row 4 None ''d'']"
  by (simp add: bounded_forest_def parent_in_def folder_row_def zero_folder_def MaxFolderDepth_def
        eval_nat_numeral)

theorem Depth_counts_ancestors_witness:
  "\<exists>t. NewFolderTree [folder_row 1 None ''a'', folder_row 2 (Some 1) ''b'', folder_row 3 (Some 2) ''c'', folder_row 4 None ''d''] = Some t
    \<and> level (parent_in [folder_row 1 None ''a'', folder_row 2 (Some 1) ''b'', folder_row 3 (Some 2) ''c'', folder_row 4 None ''d''])
        MaxFolderDepth (f_id (folder_row 3 (Some 2) ''c''))
      = Some (Depth t (Some (f_id (folder_row 3 (Some 2) ''c''))))"
  by (rule exI, rule conjI, rule folder_chain_tree,
      rule Depth_counts_ancestors [OF _ folder_chain_bounded folder_chain_tree])
    (simp_all add: folder_row_def)

text \<open>C1. \<open>MoveRefusal\<close> always decides, and a move it lets through keeps the tree a tree: after the
  row update the folders still form a forest (no folder is its own ancestor) and none is deeper than
  \<open>MaxFolderDepth\<close>.\<close>

theorem MoveRefusal_sound:
  assumes "distinct (map f_id fs)" "bounded_forest MaxFolderDepth fs" "NewFolderTree fs = Some t"
  shows "\<exists>r. MoveRefusal t i parent = Some r
    \<and> (r = None \<longrightarrow> bounded_forest MaxFolderDepth (refile i parent fs))"
  using MoveRefusal_total [OF assms(3)] move_sound [OF assms] by blast

theorem MoveRefusal_sound_witness:
  "bounded_forest MaxFolderDepth (refile 2 (Some 4)
    [folder_row 1 None ''a'', folder_row 2 (Some 1) ''b'', folder_row 3 (Some 2) ''c'', folder_row 4 None ''d''])"
  using MoveRefusal_sound [OF _ folder_chain_bounded folder_chain_tree, of 2 "Some 4"]
  by (simp add: folder_row_def zero_folder_def MoveRefusal_def Get_def IsAncestor_def ancestor_loop.simps
      depth_and_name_def Height_def deepest_def Depth_def MaxFolderDepth_def SiblingNamed_def
      sameParent_def)

text \<open>On an assembled tree, whatever its rows, \<open>MoveRefusal\<close> refuses as a cycle every move that
  would put a folder under itself or under one of the folders below it.\<close>

theorem MoveRefusal_refuses_cycles:
  assumes "NewFolderTree fs = Some t" "i \<in> f_id ` set fs" "p \<in> f_id ` set fs"
    and "up (parent_in fs) k p = Some i"
  shows "MoveRefusal t i (Some p) = Some (Some (field_err ''parent_id'' ''cycle''))"
proof -
  have "IsAncestor t i p"
    using not_ancestor_up [OF assms(1)] assms(4) by (auto simp: IsAncestor_def)
  then show ?thesis
    using assms(2,3) Get_new(1) [OF assms(1), of i] Get_new(1) [OF assms(1), of p]
    by (cases "Get t i") (auto simp: MoveRefusal_def)
qed

theorem MoveRefusal_refuses_cycles_witness:
  "\<exists>t. NewFolderTree [folder_row 1 None ''a'', folder_row 2 (Some 1) ''b'', folder_row 3 (Some 2) ''c'', folder_row 4 None ''d''] = Some t
    \<and> MoveRefusal t 1 (Some 3) = Some (Some (field_err ''parent_id'' ''cycle''))"
  by (rule exI, rule conjI, rule folder_chain_tree,
      rule MoveRefusal_refuses_cycles [OF folder_chain_tree, where k = 2])
    (simp_all add: folder_row_def zero_folder_def parent_in_def eval_nat_numeral)

end
