(* ===== verification/Folder_Service.thy ===== *)
theory Folder_Service
  imports Folders_Correct
begin

section \<open>The folder service and its table\<close>

text \<open>
  \<open>internal/link/folder.go\<close> over the tables of \<open>store/migrations/00300_links.sql\<close> and
  \<open>02400_folders.sql\<close>: the statements of \<open>store/query/folders.sql\<close> with the constraints that bind
  them (primary key, sibling-name index, foreign keys with their \<open>ON DELETE\<close> clauses), and the
  methods of \<open>link.Service\<close> that decide what reaches them.

  \<open>CreateFolder\<close> and \<open>MoveFolder\<close> read, decide and write in one transaction that holds every folder
  row of the workspace (\<open>LockWorkspaceFolders\<close>), so each is one step; \<open>RenameFolder\<close> reads the tree
  outside any transaction, so what it read is an argument of its own, possibly out of date. A
  statement may fail at any point of the sequence (\<open>tx_point\<close>), a commit before or after it took
  effect. Collation (\<open>lower(name)\<close> and the order of strings) is PostgreSQL's: the record
  \<open>pg_text\<close>. No statement writes \<open>deleted_at\<close>, which is left out; so are the log lines and the
  quoted prose of the errors.
\<close>

subsection \<open>Who asks\<close>

record identity =
  id_user :: uuid
  id_workspace :: uuid
  id_permissions :: "string set"

definition Can :: "identity option \<Rightarrow> string \<Rightarrow> bool" where
  "Can i p = (case i of None \<Rightarrow> False | Some x \<Rightarrow> p \<in> id_permissions x)"

definition PermRead :: string where "PermRead = ''links.read''"
definition PermCreate :: string where "PermCreate = ''links.create''"
definition PermUpdate :: string where "PermUpdate = ''links.update''"
definition PermDelete :: string where "PermDelete = ''links.delete''"

subsection \<open>The tables\<close>

record link_row =
  lr_id :: uuid
  lr_workspace :: uuid
  lr_folder :: "uuid option"
  lr_deleted :: bool

record folder_db =
  fd_folders :: "folder list"
  fd_links :: "link_row list"

record pg_text =
  pg_lower :: "string \<Rightarrow> string"
  pg_collate :: "string \<Rightarrow> string"

datatype 'a written = Written 'a | NoRows | UniqueViolation | ForeignKeyViolation

definition rows_of :: "uuid \<Rightarrow> folder_db \<Rightarrow> folder list" where
  "rows_of ws db = filter (\<lambda>f. f_workspace_id f = ws) (fd_folders db)"

definition link_count :: "uuid \<Rightarrow> folder_db \<Rightarrow> uuid \<Rightarrow> int64" where
  "link_count ws db i =
     word_of_nat (length (filter (\<lambda>l. lr_workspace l = ws \<and> \<not> lr_deleted l \<and> lr_folder l = Some i) (fd_links db)))"

definition ListFolders :: "pg_text \<Rightarrow> uuid \<Rightarrow> folder_db \<Rightarrow> folder list" where
  "ListFolders pg ws db =
     sort_key (\<lambda>f. (pg_collate pg (pg_lower pg (f_name f)), f_id f))
       (map (\<lambda>f. f\<lparr>f_link_count := link_count ws db (f_id f)\<rparr>) (rows_of ws db))"

text \<open>The key of \<open>folders_sibling_name_key\<close>.\<close>

definition sibling_key :: "pg_text \<Rightarrow> folder \<Rightarrow> uuid \<times> uuid \<times> string" where
  "sibling_key pg f =
     (f_workspace_id f, (case f_parent_id f of None \<Rightarrow> uuid_nil | Some p \<Rightarrow> p), pg_lower pg (f_name f))"

definition parent_exists :: "folder_db \<Rightarrow> uuid option \<Rightarrow> bool" where
  "parent_exists db parent = (case parent of None \<Rightarrow> True | Some p \<Rightarrow> p \<in> ids (fd_folders db))"

definition insert_folder :: "pg_text \<Rightarrow> folder \<Rightarrow> folder_db \<Rightarrow> folder written \<times> folder_db" where
  "insert_folder pg row db =
     (if f_id row \<in> ids (fd_folders db) \<or> list_ex (\<lambda>g. sibling_key pg g = sibling_key pg row) (fd_folders db)
      then (UniqueViolation, db)
      else if \<not> parent_exists db (f_parent_id row) then (ForeignKeyViolation, db)
      else (Written row, db\<lparr>fd_folders := fd_folders db @ [row]\<rparr>))"

text \<open>An \<open>UPDATE\<close> of the row with this id in this workspace.\<close>

definition update_folder :: "pg_text \<Rightarrow> uuid \<Rightarrow> uuid \<Rightarrow> (folder \<Rightarrow> folder) \<Rightarrow> folder_db
    \<Rightarrow> folder written \<times> folder_db" where
  "update_folder pg i ws change db =
     (case find (\<lambda>f. f_id f = i \<and> f_workspace_id f = ws) (fd_folders db) of
        None \<Rightarrow> (NoRows, db)
      | Some f \<Rightarrow>
          let row = change f in
          if list_ex (\<lambda>g. f_id g \<noteq> i \<and> sibling_key pg g = sibling_key pg row) (fd_folders db)
          then (UniqueViolation, db)
          else if \<not> parent_exists db (f_parent_id row) then (ForeignKeyViolation, db)
          else (Written row,
                db\<lparr>fd_folders := map (\<lambda>g. if f_id g = i \<and> f_workspace_id g = ws then change g else g)
                      (fd_folders db)\<rparr>))"

definition rename_row :: "pg_text \<Rightarrow> uuid \<Rightarrow> uuid \<Rightarrow> string \<Rightarrow> instant \<Rightarrow> folder_db \<Rightarrow> folder written \<times> folder_db" where
  "rename_row pg i ws name now db =
     update_folder pg i ws (\<lambda>f. f\<lparr>f_name := name, f_updated_at := now\<rparr>) db"

definition move_row :: "pg_text \<Rightarrow> uuid \<Rightarrow> uuid \<Rightarrow> uuid option \<Rightarrow> instant \<Rightarrow> folder_db \<Rightarrow> folder written \<times> folder_db" where
  "move_row pg i ws parent now db =
     update_folder pg i ws (\<lambda>f. f\<lparr>f_parent_id := parent, f_updated_at := now\<rparr>) db"

text \<open>\<open>ON DELETE CASCADE\<close>: the rows whose parent is gone go too, until none is left.\<close>

definition orphan :: "folder list \<Rightarrow> folder \<Rightarrow> bool" where
  "orphan fs f = (case f_parent_id f of None \<Rightarrow> False | Some p \<Rightarrow> p \<notin> ids fs)"

function cascade :: "folder list \<Rightarrow> folder list" where
  "cascade fs = (if list_ex (orphan fs) fs then cascade (filter (\<lambda>f. \<not> orphan fs f) fs) else fs)"
  by pat_completeness auto
termination
  by (relation "measure length") (auto simp: list_ex_iff intro!: length_filter_less)

declare cascade.simps [simp del]

text \<open>\<open>ON DELETE SET NULL\<close>: a link filed in a folder that is gone is unfiled.\<close>

definition unfile :: "folder list \<Rightarrow> link_row \<Rightarrow> link_row" where
  "unfile fs l =
     (case lr_folder l of
        None \<Rightarrow> l
      | Some i \<Rightarrow> if i \<in> ids fs then l else l\<lparr>lr_folder := None\<rparr>)"

definition delete_row :: "uuid \<Rightarrow> uuid \<Rightarrow> folder_db \<Rightarrow> nat \<times> folder_db" where
  "delete_row i ws db =
     (let hit = (\<lambda>f. f_id f = i \<and> f_workspace_id f = ws) in
      if list_ex hit (fd_folders db) then
        (let left = cascade (filter (\<lambda>f. \<not> hit f) (fd_folders db))
         in (1, \<lparr>fd_folders = left, fd_links = map (unfile left) (fd_links db)\<rparr>))
      else (0, db))"

subsection \<open>Failures\<close>

datatype tx_point = AtBegin | AtLock | AtList | AtWrite | AtCommit bool

datatype folder_failure = ErrForbidden | ErrNotFound | Refused validation_errors | Failed

text \<open>The end of a transaction: \<open>AtCommit applied\<close> is a commit that reported an error.\<close>

definition commit_tx :: "tx_point option \<Rightarrow> 'a \<Rightarrow> folder_db \<Rightarrow> folder_db \<Rightarrow> (folder_failure + 'a) \<times> folder_db" where
  "commit_tx fault res old new =
     (case fault of
        Some (AtCommit applied) \<Rightarrow> (Inl Failed, if applied then new else old)
      | _ \<Rightarrow> (Inr res, new))"

subsection \<open>The service\<close>

definition folderNameTaken :: field_error where "folderNameTaken = field_err ''name'' ''conflict''"
definition folderTooDeep :: field_error where "folderTooDeep = field_err ''parent_id'' ''too_deep''"

definition folderFromRow :: "folder \<Rightarrow> nat \<Rightarrow> int64 \<Rightarrow> folder" where
  "folderFromRow row depth n = row\<lparr>f_depth := depth, f_link_count := n\<rparr>"

definition loadFolderTree :: "pg_text \<Rightarrow> uuid \<Rightarrow> folder_db \<Rightarrow> folder_tree option" where
  "loadFolderTree pg ws db = NewFolderTree (ListFolders pg ws db)"

definition name_errors :: "string \<Rightarrow> string \<times> validation_errors" where
  "name_errors raw = (case ValidateFolderName raw of Inl errs \<Rightarrow> ('''', errs) | Inr name \<Rightarrow> (name, []))"

text \<open>The errors of \<open>CreateFolder\<close>, in the order they are appended.\<close>

definition create_errors :: "folder_tree \<Rightarrow> uuid option \<Rightarrow> string \<Rightarrow> validation_errors \<Rightarrow> validation_errors" where
  "create_errors t parent name errs =
     errs
     @ (case parent of None \<Rightarrow> [] | Some p \<Rightarrow> if Get t p = None then [field_err ''parent_id'' ''not_found''] else [])
     @ (if Depth t parent + 1 > MaxFolderDepth then [folderTooDeep] else [])
     @ (if Len t \<ge> MaxFoldersPerWorkspace then [field_err ''name'' ''too_many''] else [])
     @ (if name \<noteq> '''' then (case SiblingNamed t parent name of None \<Rightarrow> [] | Some _ \<Rightarrow> [folderNameTaken]) else [])"

text \<open>\<open>fresh\<close> is the id \<open>uuid.NewV7\<close> gave. The outer option is the assembly of the tree.\<close>

definition CreateFolder :: "pg_text \<Rightarrow> identity option \<Rightarrow> string \<Rightarrow> uuid option \<Rightarrow> uuid \<Rightarrow> instant
    \<Rightarrow> tx_point option \<Rightarrow> folder_db \<Rightarrow> ((folder_failure + folder) \<times> folder_db) option" where
  "CreateFolder pg who raw parent fresh now fault db =
     (if \<not> Can who PermCreate then Some (Inl ErrForbidden, db)
      else
        let ws = id_workspace (the who); (name, errs) = name_errors raw in
        if fault = Some AtBegin \<or> fault = Some AtLock \<or> fault = Some AtList then Some (Inl Failed, db)
        else case loadFolderTree pg ws db of
          None \<Rightarrow> None
        | Some t \<Rightarrow>
            let refused = create_errors t parent name errs in
            if length refused > 0 then Some (Inl (Refused refused), db)
            else if fault = Some AtWrite then Some (Inl Failed, db)
            else
              let row = \<lparr>f_id = fresh, f_workspace_id = ws, f_parent_id = parent, f_name = name,
                         f_depth = 0, f_link_count = 0, f_created_at = now, f_updated_at = now\<rparr> in
              case insert_folder pg row db of
                (Written r, db') \<Rightarrow> Some (commit_tx fault (folderFromRow r (Depth t parent + 1) 0) db db')
              | (UniqueViolation, _) \<Rightarrow> Some (Inl (Refused [folderNameTaken]), db)
              | (_, _) \<Rightarrow> Some (Inl Failed, db))"

text \<open>\<open>read\<close> is what \<open>ListFolders\<close> answered when the method asked.\<close>

definition RenameFolder :: "pg_text \<Rightarrow> identity option \<Rightarrow> uuid \<Rightarrow> string \<Rightarrow> folder list \<Rightarrow> instant
    \<Rightarrow> tx_point option \<Rightarrow> folder_db \<Rightarrow> ((folder_failure + folder) \<times> folder_db) option" where
  "RenameFolder pg who i raw read now fault db =
     (if \<not> Can who PermUpdate then Some (Inl ErrForbidden, db)
      else
        let ws = id_workspace (the who); (name, errs) = name_errors raw in
        if fault = Some AtList then Some (Inl Failed, db)
        else case NewFolderTree read of
          None \<Rightarrow> None
        | Some t \<Rightarrow>
            (case Get t i of
               None \<Rightarrow> Some (Inl ErrNotFound, db)
             | Some current \<Rightarrow>
                 let refused = errs @
                   (if name \<noteq> '''' then
                      (case SiblingNamed t (f_parent_id current) name of
                         None \<Rightarrow> []
                       | Some existing \<Rightarrow> if f_id existing \<noteq> i then [folderNameTaken] else [])
                    else []) in
                 if length refused > 0 then Some (Inl (Refused refused), db)
                 else if fault = Some AtWrite then Some (Inl Failed, db)
                 else case rename_row pg i ws name now db of
                   (Written r, db') \<Rightarrow>
                     Some (commit_tx fault (folderFromRow r (f_depth current) (f_link_count current)) db db')
                 | (NoRows, _) \<Rightarrow> Some (Inl ErrNotFound, db)
                 | (UniqueViolation, _) \<Rightarrow> Some (Inl (Refused [folderNameTaken]), db)
                 | (_, _) \<Rightarrow> Some (Inl Failed, db)))"

definition MoveFolder :: "pg_text \<Rightarrow> identity option \<Rightarrow> uuid \<Rightarrow> uuid option \<Rightarrow> instant
    \<Rightarrow> tx_point option \<Rightarrow> folder_db \<Rightarrow> ((folder_failure + folder) \<times> folder_db) option" where
  "MoveFolder pg who i parent now fault db =
     (if \<not> Can who PermUpdate then Some (Inl ErrForbidden, db)
      else
        let ws = id_workspace (the who) in
        if fault = Some AtBegin \<or> fault = Some AtLock \<or> fault = Some AtList then Some (Inl Failed, db)
        else case loadFolderTree pg ws db of
          None \<Rightarrow> None
        | Some t \<Rightarrow>
            (case Get t i of
               None \<Rightarrow> Some (Inl ErrNotFound, db)
             | Some current \<Rightarrow>
                 (case MoveRefusal t i parent of
                    None \<Rightarrow> None
                  | Some (Some refusal) \<Rightarrow> Some (Inl (Refused [refusal]), db)
                  | Some None \<Rightarrow>
                      if fault = Some AtWrite then Some (Inl Failed, db)
                      else case move_row pg i ws parent now db of
                        (Written r, db') \<Rightarrow>
                          Some (commit_tx fault (folderFromRow r (Depth t parent + 1) (f_link_count current)) db db')
                      | (NoRows, _) \<Rightarrow> Some (Inl ErrNotFound, db)
                      | (UniqueViolation, _) \<Rightarrow> Some (Inl (Refused [folderNameTaken]), db)
                      | (_, _) \<Rightarrow> Some (Inl Failed, db))))"

definition DeleteFolder :: "identity option \<Rightarrow> uuid \<Rightarrow> tx_point option \<Rightarrow> folder_db
    \<Rightarrow> (folder_failure + unit) \<times> folder_db" where
  "DeleteFolder who i fault db =
     (if \<not> Can who PermDelete then (Inl ErrForbidden, db)
      else if fault = Some AtWrite then (Inl Failed, db)
      else case delete_row i (id_workspace (the who)) db of
        (n, db') \<Rightarrow> if n = 0 then (Inl ErrNotFound, db) else commit_tx fault () db db')"

definition Folders_list :: "pg_text \<Rightarrow> identity option \<Rightarrow> tx_point option \<Rightarrow> folder_db
    \<Rightarrow> (folder_failure + folder_tree) option" where
  "Folders_list pg who fault db =
     (if \<not> Can who PermRead then Some (Inl ErrForbidden)
      else if fault = Some AtList then Some (Inl Failed)
      else map_option Inr (loadFolderTree pg (id_workspace (the who)) db))"

definition resolveFolder :: "uuid \<Rightarrow> uuid option \<Rightarrow> tx_point option \<Rightarrow> folder_db \<Rightarrow> validation_errors" where
  "resolveFolder ws folder fault db =
     (case folder of
        None \<Rightarrow> []
      | Some i \<Rightarrow>
          if fault = Some AtList then [field_err ''folder_id'' ''unavailable'']
          else if list_ex (\<lambda>f. f_id f = i \<and> f_workspace_id f = ws) (fd_folders db) then []
          else [field_err ''folder_id'' ''not_found''])"

end
