(* ===== verification/Folder_Service_Correct.thy ===== *)
theory Folder_Service_Correct
  imports Folder_Service
begin

section \<open>Properties of the folder service\<close>

text \<open>
  What the folder rows satisfy after any sequence of requests, and what deleting a folder removes.
  A tree depends on its rows through their ids and parents only (\<open>row_view\<close>), which is how a listing
  ordered by name and carrying link counts is related to the table.
\<close>

subsection \<open>Rows seen through their ids and parents\<close>

definition row_view :: "folder \<Rightarrow> uuid \<times> uuid option" where
  "row_view f = (f_id f, f_parent_id f)"

lemma ids_view: "ids fs = fst ` row_view ` set fs"
  by (auto simp: row_view_def image_image)

lemma distinct_view: "distinct (map f_id fs) = distinct (map fst (map row_view fs))"
  by (simp add: row_view_def comp_def)

lemma parent_in_view:
  assumes "distinct (map f_id fs)"
  shows "parent_in fs i = (case map_of (map row_view fs) i of
     None \<Rightarrow> None | Some None \<Rightarrow> None | Some (Some p) \<Rightarrow> if p \<in> ids fs then Some p else None)"
proof (cases "i \<in> ids fs")
  case True
  then obtain f where f: "f \<in> set fs" "f_id f = i" by auto
  then have "by_id fs i = Some f" using by_id_iff [OF assms] by auto
  moreover have "map_of (map row_view fs) i = Some (f_parent_id f)"
    using f assms by (intro map_of_is_SomeI) (auto simp: row_view_def comp_def intro!: image_eqI [of _ _ f])
  ultimately show ?thesis by (simp add: parent_in_def split: option.splits)
next
  case False
  then have "by_id fs i = None" "map_of (map row_view fs) i = None"
    using by_id_None by (auto simp: map_of_eq_None_iff row_view_def)
  then show ?thesis by (simp add: parent_in_def)
qed

lemma view_cong:
  assumes "distinct (map f_id fs)" "mset (map row_view fs) = mset (map row_view gs)"
  shows "distinct (map f_id gs)" "ids gs = ids fs" "parent_in gs = parent_in fs"
proof -
  have d: "mset (map fst (map row_view fs)) = mset (map fst (map row_view gs))"
    using arg_cong [OF assms(2), of "image_mset fst"] by (simp add: image_mset.compositionality)
  then show g: "distinct (map f_id gs)"
    using assms(1) unfolding distinct_view by (metis mset_eq_imp_distinct_iff)
  show i: "ids gs = ids fs"
    using arg_cong [OF assms(2), of "\<lambda>m. fst ` set_mset m"] by (simp add: ids_view)
  have "map_of (map row_view gs) = map_of (map row_view fs)"
    using assms g unfolding distinct_view
    by (intro map_of_inject_set [THEN iffD2]) (auto simp flip: set_mset_mset)
  with i show "parent_in gs = parent_in fs"
    by (simp add: fun_eq_iff parent_in_view [OF g] parent_in_view [OF assms(1)] split: option.split)
qed

lemma bounded_view:
  assumes "distinct (map f_id fs)" "mset (map row_view fs) = mset (map row_view gs)"
  shows "bounded_forest n gs = bounded_forest n fs"
  by (simp add: bounded_forest_iff view_cong [OF assms])

lemma at_level_within:
  assumes "\<And>x. x \<in> S \<Longrightarrow> par' x = par x" "\<And>x p. x \<in> S \<Longrightarrow> par x = Some p \<Longrightarrow> p \<in> S"
  shows "at_level par x d \<Longrightarrow> x \<in> S \<Longrightarrow> at_level par' x d"
proof (induction rule: at_level.induct)
  case (root x)
  then show ?case using assms(1) at_level.root [of par' x] by simp
next
  case (child x p d)
  then show ?case using assms by (auto intro: at_level.child)
qed

subsection \<open>The listing\<close>

lemma listing_view: "mset (map row_view (ListFolders pg ws db)) = mset (map row_view (rows_of ws db))"
  by (simp add: ListFolders_def row_view_def [abs_def] comp_def image_mset.compositionality)

lemma ListFolders_mem:
  assumes "g \<in> set (ListFolders pg ws db)"
  obtains f where "f \<in> set (rows_of ws db)" "f_id g = f_id f" "f_name g = f_name f"
    "f_parent_id g = f_parent_id f" "f_workspace_id g = f_workspace_id f"
  using assms by (auto simp: ListFolders_def)

subsection \<open>The invariant\<close>

definition name_ok :: "string \<Rightarrow> bool" where
  "name_ok name \<longleftrightarrow> name \<noteq> '''' \<and> rune_count name \<le> MaxFolderNameLength \<and> (\<forall>r \<in> set (runes name). \<not> isControl r)"

definition workspace_of :: "folder_db \<Rightarrow> uuid \<Rightarrow> uuid \<Rightarrow> bool" where
  "workspace_of db i ws \<longleftrightarrow> (\<exists>g \<in> set (fd_folders db). f_id g = i \<and> f_workspace_id g = ws)"

definition workspace_ok :: "uuid \<Rightarrow> folder_db \<Rightarrow> bool" where
  "workspace_ok ws db \<longleftrightarrow>
     bounded_forest MaxFolderDepth (rows_of ws db) \<and> length (rows_of ws db) \<le> MaxFoldersPerWorkspace"

definition folders_ok :: "pg_text \<Rightarrow> folder_db \<Rightarrow> bool" where
  "folders_ok pg db \<longleftrightarrow>
     distinct (map f_id (fd_folders db))
     \<and> distinct (map (sibling_key pg) (fd_folders db))
     \<and> (\<forall>f \<in> set (fd_folders db). name_ok (f_name f)
          \<and> (\<forall>p. f_parent_id f = Some p \<longrightarrow> workspace_of db p (f_workspace_id f)))
     \<and> (\<forall>ws. workspace_ok ws db)
     \<and> (\<forall>l \<in> set (fd_links db). \<forall>i. lr_folder l = Some i \<longrightarrow> workspace_of db i (lr_workspace l))"

lemma rows_distinct: "distinct (map f_id (fd_folders db)) \<Longrightarrow> distinct (map f_id (rows_of ws db))"
  by (simp add: rows_of_def distinct_map_filter)

lemma workspace_of_rows: "workspace_of db i ws \<longleftrightarrow> i \<in> ids (rows_of ws db)"
  by (auto simp: workspace_of_def rows_of_def)

lemma rows_closed:
  assumes "folders_ok pg db" "f \<in> set (rows_of ws db)" "f_parent_id f = Some p"
  shows "p \<in> ids (rows_of ws db)"
proof -
  have "f \<in> set (fd_folders db)" "f_workspace_id f = ws" using assms(2) by (auto simp: rows_of_def)
  then show ?thesis using assms(1,3) workspace_of_rows by (fastforce simp: folders_ok_def)
qed

lemma parent_in_closed:
  assumes "distinct (map f_id fs)" "f \<in> set fs" "\<And>p. f_parent_id f = Some p \<Longrightarrow> p \<in> ids fs"
  shows "parent_in fs (f_id f) = f_parent_id f"
  using assms by_id_iff [OF assms(1), of "f_id f" f] by (auto simp: parent_in_def split: option.splits)

lemma listing_ok:
  assumes "folders_ok pg db"
  shows "distinct (map f_id (ListFolders pg ws db))" "ids (ListFolders pg ws db) = ids (rows_of ws db)"
    "parent_in (ListFolders pg ws db) = parent_in (rows_of ws db)"
    "bounded_forest MaxFolderDepth (ListFolders pg ws db)"
proof -
  have d: "distinct (map f_id (rows_of ws db))" using assms rows_distinct by (auto simp: folders_ok_def)
  note v = listing_view [of pg ws db, symmetric]
  show "distinct (map f_id (ListFolders pg ws db))" "ids (ListFolders pg ws db) = ids (rows_of ws db)"
    "parent_in (ListFolders pg ws db) = parent_in (rows_of ws db)"
    by (rule view_cong [OF d v])+
  show "bounded_forest MaxFolderDepth (ListFolders pg ws db)"
    using assms bounded_view [OF d v] by (simp add: folders_ok_def workspace_ok_def)
qed

lemma name_errors_ok: "name_errors raw = (name, []) \<Longrightarrow> name_ok name"
  by (auto simp: name_errors_def ValidateFolderName_def name_ok_def Let_def split: if_splits sum.splits)

subsection \<open>One operation at a time\<close>

lemma insert_folder_written:
  assumes "insert_folder pg row db = (Written r, db')"
  shows "r = row" "db' = db\<lparr>fd_folders := fd_folders db @ [row]\<rparr>" "f_id row \<notin> ids (fd_folders db)"
    "sibling_key pg row \<notin> sibling_key pg ` set (fd_folders db)"
  using assms by (auto simp: insert_folder_def list_ex_iff split: if_splits)

lemma at_level_new:
  assumes "distinct (map f_id (fs @ [row]))" "forest fs" "\<forall>g \<in> set fs. \<forall>p. f_parent_id g = Some p \<longrightarrow> p \<in> ids fs"
  shows "x \<in> ids fs \<Longrightarrow> at_level (parent_in fs) x d \<Longrightarrow> at_level (parent_in (fs @ [row])) x d"
    and "f_parent_id row = None \<Longrightarrow> at_level (parent_in (fs @ [row])) (f_id row) 1"
    and "f_parent_id row = Some p \<Longrightarrow> p \<in> ids fs \<Longrightarrow> at_level (parent_in fs) p d
         \<Longrightarrow> at_level (parent_in (fs @ [row])) (f_id row) (Suc d)"
proof -
  let ?new = "parent_in (fs @ [row])"
  have df: "distinct (map f_id fs)" using assms(1) by simp
  have old: "?new y = parent_in fs y" if y: "y \<in> ids fs" for y
  proof -
    from y obtain g where g: "g \<in> set fs" "f_id g = y" by auto
    have "?new (f_id g) = f_parent_id g"
      by (rule parent_in_closed [OF assms(1)]) (use g assms(3) in auto)
    moreover have "parent_in fs (f_id g) = f_parent_id g"
      by (rule parent_in_closed [OF df g(1)]) (use g assms(3) in auto)
    ultimately show ?thesis using g by simp
  qed
  have cl: "parent_in fs y = Some q \<Longrightarrow> q \<in> ids fs" for y q using parent_in_ids by blast
  show keep: "at_level ?new x d" if "x \<in> ids fs" "at_level (parent_in fs) x d" for x d
    by (rule at_level_within [where S = "ids fs", OF old cl that(2,1)])
  have row: "?new (f_id row) = f_parent_id row" if "\<And>q. f_parent_id row = Some q \<Longrightarrow> q \<in> ids (fs @ [row])"
    by (rule parent_in_closed [OF assms(1)]) (use that in auto)
  show "at_level ?new (f_id row) 1" if "f_parent_id row = None"
    using row that by (intro at_level.root) simp
  show "at_level ?new (f_id row) (Suc d)" if "f_parent_id row = Some p" "p \<in> ids fs" "at_level (parent_in fs) p d"
    using row that keep by (intro at_level.child) auto
qed

lemma workspace_of_insert:
  "workspace_of db i ws \<Longrightarrow> workspace_of (db\<lparr>fd_folders := fd_folders db @ [row]\<rparr>) i ws"
  by (auto simp: workspace_of_def)

lemma rows_of_insert:
  "rows_of ws (db\<lparr>fd_folders := fd_folders db @ [row]\<rparr>)
   = rows_of ws db @ (if f_workspace_id row = ws then [row] else [])"
  by (simp add: rows_of_def)

lemma insert_ok:
  assumes ok: "folders_ok pg db" and ins: "insert_folder pg row db = (Written r, db')" and name: "name_ok (f_name row)"
    and ws: "ws = f_workspace_id row" and t: "loadFolderTree pg ws db = Some t"
    and parent: "\<And>p. f_parent_id row = Some p \<Longrightarrow> Get t p \<noteq> None"
    and caps: "Depth t (f_parent_id row) + 1 \<le> MaxFolderDepth" "Len t < MaxFoldersPerWorkspace"
  shows "folders_ok pg db'"
proof -
  note i = insert_folder_written [OF ins]
  note l = listing_ok [OF ok, of ws]
  let ?fs = "rows_of ws db"
  have t': "NewFolderTree (ListFolders pg ws db) = Some t" using t by (simp add: loadFolderTree_def)
  have d: "distinct (map f_id (fd_folders db))" using ok by (simp add: folders_ok_def)
  have dr: "distinct (map f_id (?fs @ [row]))" using rows_distinct [OF d, of ws] i(3) by (auto simp: rows_of_def)
  have p_in: "p \<in> ids ?fs" if "f_parent_id row = Some p" for p
    using parent [OF that] Get_new(1) [OF t', of p] unfolding l(2) by (simp only: not_not simp_thms)
  have b: "bounded_forest MaxFolderDepth ?fs" using ok by (simp add: folders_ok_def workspace_ok_def)
  have f: "forest ?fs" by (rule forest_of_bounded [OF b]) (use dr in simp)
  have lf: "forest (ListFolders pg ws db)" by (rule forest_of_bounded [OF l(4,1)])
  have cl: "\<forall>g \<in> set ?fs. \<forall>p. f_parent_id g = Some p \<longrightarrow> p \<in> ids ?fs"
    using rows_closed [OF ok, of _ ws] by blast
  note new = at_level_new [OF dr f cl]
  have row_level: "\<exists>e \<le> MaxFolderDepth. at_level (parent_in (?fs @ [row])) (f_id row) e"
  proof (cases "f_parent_id row")
    case None
    then show ?thesis using new(2) by (intro exI [of _ 1]) (simp add: MaxFolderDepth_def)
  next
    case (Some p)
    then obtain e where e: "at_level (parent_in ?fs) p e" using f p_in by blast
    then have "Depth t (Some p) = e"
      using Depth_forest [OF lf t', of p e] l(2,3) p_in [OF Some] by simp
    then show ?thesis using new(3) [OF Some p_in [OF Some] e] caps(1) Some by auto
  qed
  have forest': "bounded_forest MaxFolderDepth (?fs @ [row])"
    unfolding bounded_forest_iff
  proof
    fix x assume "x \<in> ids (?fs @ [row])"
    then consider "x \<in> ids ?fs" | "x = f_id row" by auto
    then show "\<exists>e \<le> MaxFolderDepth. at_level (parent_in (?fs @ [row])) x e"
    proof cases
      case 1
      then obtain e where "e \<le> MaxFolderDepth" "at_level (parent_in ?fs) x e"
        using b unfolding bounded_forest_iff by blast
      with new(1) [OF 1] show ?thesis by blast
    qed (use row_level in simp)
  qed
  have "length (ft_nodes t) = length ?fs"
    using length_nodes [OF t'] l(2) distinct_card [of "map f_id ?fs"] dr by simp
  then have n: "length (?fs @ [row]) \<le> MaxFoldersPerWorkspace" using caps(2) by (simp add: Len_def)
  have "workspace_ok w db'" for w
    using ok forest' n ws by (auto simp: workspace_ok_def i(2) rows_of_insert folders_ok_def)
  moreover have "workspace_of db' p ws" if "f_parent_id row = Some p" for p
    using p_in [OF that] workspace_of_insert by (simp add: workspace_of_rows [symmetric] i(2))
  moreover have "workspace_of db q v \<Longrightarrow> workspace_of db' q v" for q v
    using workspace_of_insert by (simp add: i(2))
  ultimately show ?thesis
    using ok i(3,4) name ws unfolding folders_ok_def i(2) by simp
qed

lemma update_folder_written:
  assumes "update_folder pg i ws change db = (Written r, db')" "distinct (map f_id (fd_folders db))"
  obtains f where "f \<in> set (fd_folders db)" "f_id f = i" "f_workspace_id f = ws" "r = change f"
    "db' = db\<lparr>fd_folders := map (\<lambda>g. if f_id g = i then change g else g) (fd_folders db)\<rparr>"
    "\<forall>g \<in> set (fd_folders db). f_id g \<noteq> i \<longrightarrow> sibling_key pg g \<noteq> sibling_key pg r"
proof -
  obtain f where f: "find (\<lambda>f. f_id f = i \<and> f_workspace_id f = ws) (fd_folders db) = Some f"
    using assms(1) by (auto simp: update_folder_def split: option.splits)
  note m = find_Some_set [OF f]
  have u: "(f_id g = i \<and> f_workspace_id g = ws) = (f_id g = i)" if "g \<in> set (fd_folders db)" for g
    using that m assms(2) by (metis distinct_map inj_onD)
  have e: "map (\<lambda>g. if f_id g = i \<and> f_workspace_id g = ws then change g else g) (fd_folders db)
      = map (\<lambda>g. if f_id g = i then change g else g) (fd_folders db)"
    by (rule map_cong) (use u in auto)
  have "r = change f"
    "db' = db\<lparr>fd_folders := map (\<lambda>g. if f_id g = i \<and> f_workspace_id g = ws then change g else g) (fd_folders db)\<rparr>"
    "\<forall>g \<in> set (fd_folders db). f_id g \<noteq> i \<longrightarrow> sibling_key pg g \<noteq> sibling_key pg r"
    using assms(1) f by (auto simp: update_folder_def Let_def list_ex_iff split: if_splits)
  with m show thesis unfolding e by (intro that [of f]) simp_all
qed

lemma distinct_map_update:
  "distinct (map h fs) \<Longrightarrow> distinct (map f_id fs) \<Longrightarrow> \<forall>g \<in> set fs. f_id g \<noteq> i \<longrightarrow> h g \<noteq> k
   \<Longrightarrow> \<forall>g \<in> set fs. f_id g = i \<longrightarrow> h (c g) = k
   \<Longrightarrow> distinct (map (\<lambda>g. h (if f_id g = i then c g else g)) fs)"
proof (induction fs)
  case (Cons x fs)
  have same: "h (if f_id g = i then c g else g) = h g" if "f_id g \<noteq> i" for g using that by simp
  have IH: "distinct (map (\<lambda>g. h (if f_id g = i then c g else g)) fs)" using Cons by simp
  have "h (if f_id g = i then c g else g) \<noteq> h (if f_id x = i then c x else x)" if g: "g \<in> set fs" for g
  proof -
    have "f_id g \<noteq> f_id x" "h g \<noteq> h x" using Cons.prems(1,2) g by (auto intro: rev_image_eqI)
    then show ?thesis using Cons.prems(3,4) g by (cases "f_id g = i"; cases "f_id x = i") auto
  qed
  with IH show ?case by fastforce
qed simp

lemma update_ok:
  assumes ok: "folders_ok pg db" and upd: "update_folder pg i ws change db = (Written r, db')"
    and keeps: "\<And>f. f_id (change f) = f_id f \<and> f_workspace_id (change f) = f_workspace_id f"
    and row: "\<And>f. f \<in> set (rows_of ws db) \<Longrightarrow> f_id f = i \<Longrightarrow> name_ok (f_name (change f))
       \<and> (\<forall>p. f_parent_id (change f) = Some p \<longrightarrow> p \<in> ids (rows_of ws db))"
    and levels: "bounded_forest MaxFolderDepth (map (\<lambda>g. if f_id g = i then change g else g) (rows_of ws db))"
  shows "folders_ok pg db'"
proof -
  let ?u = "\<lambda>g. if f_id g = i then change g else g"
  have d: "distinct (map f_id (fd_folders db))" using ok by (simp add: folders_ok_def)
  obtain f where f: "f \<in> set (fd_folders db)" "f_id f = i" "f_workspace_id f = ws" "r = change f"
    and db': "db' = db\<lparr>fd_folders := map ?u (fd_folders db)\<rparr>"
    and k: "\<forall>g \<in> set (fd_folders db). f_id g \<noteq> i \<longrightarrow> sibling_key pg g \<noteq> sibling_key pg r"
    using update_folder_written [OF upd d] .
  have one: "g = f" if "g \<in> set (fd_folders db)" "f_id g = i" for g
    using that f d by (metis distinct_map inj_onD)
  have ids: "map f_id (fd_folders db') = map f_id (fd_folders db)"
    using keeps by (simp add: db')
  have ws_same: "f_workspace_id (?u g) = f_workspace_id g" for g using keeps by simp
  have rows: "rows_of v db' = map ?u (rows_of v db)" for v
    by (simp add: rows_of_def db' filter_map comp_def ws_same)
  have other: "rows_of v db' = rows_of v db" if "v \<noteq> ws" for v
  proof -
    have "map ?u (rows_of v db) = map (\<lambda>g. g) (rows_of v db)"
    proof (rule map_cong [OF refl])
      fix g assume "g \<in> set (rows_of v db)"
      then have g: "g \<in> set (fd_folders db)" "f_workspace_id g = v" by (simp_all add: rows_of_def)
      with one [OF g(1)] f(3) that have "f_id g \<noteq> i" by metis
      then show "?u g = g" by simp
    qed
    then show ?thesis by (simp add: rows)
  qed
  have wo: "workspace_of db' q v = workspace_of db q v" for q v
  proof -
    have "f_id (?u g) = f_id g" for g using keeps by simp
    then show ?thesis unfolding workspace_of_rows rows set_map image_image by (simp only: )
  qed
  have "workspace_ok v db'" for v
    using ok levels other [of v] by (cases "v = ws") (auto simp: workspace_ok_def rows folders_ok_def)
  moreover have "distinct (map (sibling_key pg) (fd_folders db'))"
  proof -
    have "distinct (map (sibling_key pg) (fd_folders db))" using ok by (simp add: folders_ok_def)
    from distinct_map_update [OF this d k, of change] one f(4)
    have "distinct (map (\<lambda>g. sibling_key pg (?u g)) (fd_folders db))" by blast
    then show ?thesis by (simp add: db' comp_def)
  qed
  moreover have "name_ok (f_name g) \<and> (\<forall>p. f_parent_id g = Some p \<longrightarrow> workspace_of db' p (f_workspace_id g))"
    if "g \<in> set (fd_folders db')" for g
  proof -
    have "g \<in> ?u ` set (fd_folders db)" using that by (simp add: db')
    then obtain g0 where g0: "g0 \<in> set (fd_folders db)" "g = ?u g0" by (rule imageE)
    show ?thesis
    proof (cases "f_id g0 = i")
      case True
      then have "g0 = f" using one g0(1) by blast
      moreover have "f \<in> set (rows_of ws db)" using f by (simp add: rows_of_def)
      ultimately show ?thesis
        using row [of f, folded workspace_of_rows] f g0(2) True keeps [of f] by (simp add: wo)
    next
      case False
      then show ?thesis using g0 ok by (simp add: folders_ok_def wo)
    qed
  qed
  moreover have "fd_links db' = fd_links db" by (simp add: db')
  ultimately show ?thesis
    using ok ids by (simp add: folders_ok_def wo)
qed

lemma view_update:
  "map row_view (map (\<lambda>g. if f_id g = i then g\<lparr>f_parent_id := parent, f_updated_at := now\<rparr> else g) fs)
   = map row_view (refile i parent fs)"
  by (simp add: refile_def row_view_def)

lemma view_refile:
  assumes "mset (map row_view fs) = mset (map row_view gs)"
  shows "mset (map row_view (refile i parent fs)) = mset (map row_view (refile i parent gs))"
proof -
  let ?g = "\<lambda>(a, b). (a, if a = i then parent else b)"
  have "map row_view (refile i parent xs) = map ?g (map row_view xs)" for xs
    by (simp add: refile_def row_view_def)
  then have "mset (map row_view (refile i parent xs)) = image_mset ?g (mset (map row_view xs))" for xs
    by (simp only: mset_map)
  then show ?thesis by (simp only: assms)
qed

lemma rename_ok:
  assumes ok: "folders_ok pg db" and upd: "rename_row pg i ws name now db = (Written r, db')" and name: "name_ok name"
  shows "folders_ok pg db'"
proof (rule update_ok [OF ok upd [unfolded rename_row_def]])
  let ?fs = "rows_of ws db"
  let ?new = "map (\<lambda>g. if f_id g = i then g\<lparr>f_name := name, f_updated_at := now\<rparr> else g) ?fs"
  have d: "distinct (map f_id ?fs)" using ok rows_distinct by (auto simp: folders_ok_def)
  have e: "map row_view ?new = map row_view ?fs" by (simp add: row_view_def)
  have "bounded_forest MaxFolderDepth ?new = bounded_forest MaxFolderDepth ?fs"
    by (rule bounded_view [OF d]) (simp only: e)
  then show "bounded_forest MaxFolderDepth ?new" using ok by (simp add: folders_ok_def workspace_ok_def)
qed (use name rows_closed [OF ok] in auto)

lemma move_ok:
  assumes ok: "folders_ok pg db" and upd: "move_row pg i ws parent now db = (Written r, db')"
    and t: "loadFolderTree pg ws db = Some t" and m: "MoveRefusal t i parent = Some None"
  shows "folders_ok pg db'"
proof (rule update_ok [OF ok upd [unfolded move_row_def]])
  let ?fs = "rows_of ws db" and ?ls = "ListFolders pg ws db"
  let ?new = "map (\<lambda>g. if f_id g = i then g\<lparr>f_parent_id := parent, f_updated_at := now\<rparr> else g) ?fs"
  note l = listing_ok [OF ok, of ws]
  have t': "NewFolderTree ?ls = Some t" using t by (simp add: loadFolderTree_def)
  have "bounded_forest MaxFolderDepth (refile i parent ?ls)" by (rule move_sound [OF l(1,4) t' m])
  moreover have "bounded_forest MaxFolderDepth ?new = bounded_forest MaxFolderDepth (refile i parent ?ls)"
  proof (rule bounded_view)
    show "distinct (map f_id (refile i parent ?ls))" by (simp only: refile_ids l(1))
    show "mset (map row_view (refile i parent ?ls)) = mset (map row_view ?new)"
      unfolding view_update by (rule view_refile [OF listing_view])
  qed
  ultimately show "bounded_forest MaxFolderDepth ?new" by simp
  show "name_ok (f_name (f\<lparr>f_parent_id := parent, f_updated_at := now\<rparr>))
      \<and> (\<forall>p. f_parent_id (f\<lparr>f_parent_id := parent, f_updated_at := now\<rparr>) = Some p \<longrightarrow> p \<in> ids ?fs)"
    if "f \<in> set ?fs" for f
  proof -
    have "name_ok (f_name f)" using ok that by (auto simp: folders_ok_def rows_of_def)
    moreover have "p \<in> ids ?fs" if "parent = Some p" for p
      using MoveRefusal_none [OF t' m] that unfolding l(2) by blast
    ultimately show ?thesis by simp
  qed
qed auto

subsection \<open>Deletion\<close>

lemma cascade_filter: "\<exists>P. cascade fs = filter P fs"
proof (induction fs rule: cascade.induct)
  case (1 fs)
  show ?case
  proof (cases "list_ex (orphan fs) fs")
    case True
    with 1 obtain P where "cascade (filter (\<lambda>f. \<not> orphan fs f) fs) = filter P (filter (\<lambda>f. \<not> orphan fs f) fs)"
      by blast
    then show ?thesis using True by (auto simp: cascade.simps [of fs])
  next
    case False
    then have "cascade fs = filter (\<lambda>_. True) fs" by (simp add: cascade.simps [of fs])
    then show ?thesis by (intro exI [of _ "\<lambda>_. True"])
  qed
qed

lemma cascade_closed: "f \<in> set (cascade fs) \<Longrightarrow> f_parent_id f = Some p \<Longrightarrow> p \<in> ids (cascade fs)"
proof (induction fs rule: cascade.induct)
  case (1 fs)
  then show ?case
    by (cases "list_ex (orphan fs) fs")
      (auto simp: cascade.simps [of fs] list_ex_iff orphan_def split: option.splits)
qed

text \<open>A part of the rows whose parents it holds survives.\<close>

lemma cascade_keeps:
  "S \<subseteq> set fs \<Longrightarrow> \<forall>f \<in> S. \<forall>p. f_parent_id f = Some p \<longrightarrow> p \<in> f_id ` S \<Longrightarrow> S \<subseteq> set (cascade fs)"
proof (induction fs rule: cascade.induct)
  case (1 fs)
  have "f_id ` S \<subseteq> ids fs" using 1(2) by blast
  then have ok: "f \<in> S \<Longrightarrow> \<not> orphan fs f" for f using 1(3) by (auto simp: orphan_def split: option.splits)
  show ?case
  proof (cases "list_ex (orphan fs) fs")
    case True
    have "S \<subseteq> set (filter (\<lambda>f. \<not> orphan fs f) fs)" using 1(2) ok by auto
    from 1(1) [OF True this 1(3)] show ?thesis using True by (simp add: cascade.simps [of fs])
  next
    case False
    then show ?thesis using 1(2) by (simp add: cascade.simps [of fs])
  qed
qed

definition below :: "folder_db \<Rightarrow> uuid \<Rightarrow> uuid \<Rightarrow> bool" where
  "below db i j \<longleftrightarrow> (\<exists>k. up (parent_in (fd_folders db)) k j = Some i)"

lemma folders_parent:
  assumes "folders_ok pg db" "f \<in> set (fd_folders db)"
  shows "parent_in (fd_folders db) (f_id f) = f_parent_id f"
  by (rule parent_in_closed)
    (use assms in \<open>auto simp: folders_ok_def workspace_of_def\<close>)

lemma up_stays:
  assumes "\<And>f p. f \<in> S \<Longrightarrow> par (f_id f) = Some p \<Longrightarrow> p \<in> f_id ` S"
  shows "x \<in> f_id ` S \<Longrightarrow> up par k x = Some i \<Longrightarrow> i \<in> f_id ` S"
  by (induction k arbitrary: x) (use assms in \<open>fastforce split: option.splits\<close>)+

lemma cascade_subtree:
  assumes ok: "folders_ok pg db"
  shows "cascade (filter (\<lambda>f. f_id f \<noteq> i) (fd_folders db)) = filter (\<lambda>f. \<not> below db i (f_id f)) (fd_folders db)"
    (is "?left = _")
proof -
  let ?fs = "fd_folders db"
  let ?S = "{f \<in> set ?fs. \<not> below db i (f_id f)}"
  obtain P where P: "?left = filter P (filter (\<lambda>f. f_id f \<noteq> i) ?fs)" using cascade_filter by blast
  have "?S \<subseteq> set ?left"
  proof (rule cascade_keeps)
    have "below db i i" unfolding below_def by (rule exI [of _ 0]) simp
    then show "?S \<subseteq> set (filter (\<lambda>f. f_id f \<noteq> i) ?fs)" by auto
    show "\<forall>f \<in> ?S. \<forall>p. f_parent_id f = Some p \<longrightarrow> p \<in> f_id ` ?S"
    proof (intro ballI allI impI)
      fix f p assume f: "f \<in> ?S" and p: "f_parent_id f = Some p"
      then have "f \<in> set ?fs" by simp
      with ok p obtain g where g: "g \<in> set ?fs" "f_id g = p"
        by (fastforce simp: folders_ok_def workspace_of_def)
      have "\<not> below db i p"
      proof
        assume "below db i p"
        then obtain k where "up (parent_in ?fs) k p = Some i" by (auto simp: below_def)
        then have "up (parent_in ?fs) (Suc k) (f_id f) = Some i"
          using folders_parent [OF ok] f p by simp
        then have "below db i (f_id f)" unfolding below_def by (rule exI)
        then show False using f by simp
      qed
      with g show "p \<in> f_id ` ?S" by blast
    qed
  qed
  moreover have "\<not> below db i (f_id f)" if f: "f \<in> set ?left" for f
  proof
    assume "below db i (f_id f)"
    then obtain k where k: "up (parent_in ?fs) k (f_id f) = Some i" by (auto simp: below_def)
    have "i \<in> f_id ` set ?left"
    proof (rule up_stays [OF _ _ k])
      fix g p assume g: "g \<in> set ?left" "parent_in ?fs (f_id g) = Some p"
      then have "f_parent_id g = Some p" using folders_parent [OF ok, of g] P by auto
      then show "p \<in> f_id ` set ?left" using cascade_closed [OF g(1)] by blast
    qed (use f in blast)
    then show False using P by auto
  qed
  ultimately have "set ?left = ?S" using P by auto
  then have "P f \<and> f_id f \<noteq> i \<longleftrightarrow> \<not> below db i (f_id f)" if "f \<in> set ?fs" for f
    using that P by auto
  then show ?thesis unfolding P filter_filter by (intro filter_cong) auto
qed

lemma delete_row_eq:
  assumes ok: "folders_ok pg db" and del: "delete_row i ws db = (n, db')" "n \<noteq> 0"
  shows "workspace_of db i ws"
    "db' = \<lparr>fd_folders = filter (\<lambda>f. \<not> below db i (f_id f)) (fd_folders db),
       fd_links = map (unfile (filter (\<lambda>f. \<not> below db i (f_id f)) (fd_folders db))) (fd_links db)\<rparr>"
proof -
  let ?hit = "\<lambda>f. f_id f = i \<and> f_workspace_id f = ws"
  have h: "list_ex ?hit (fd_folders db)"
    using del by (auto simp: delete_row_def Let_def split: if_splits)
  then obtain f where f: "f \<in> set (fd_folders db)" "f_id f = i" "f_workspace_id f = ws" by (auto simp: list_ex_iff)
  then show "workspace_of db i ws" by (auto simp: workspace_of_def)
  have d: "distinct (map f_id (fd_folders db))" using ok by (simp add: folders_ok_def)
  have "g = f" if "g \<in> set (fd_folders db)" "f_id g = i" for g using that f d by (metis distinct_map inj_onD)
  then have "?hit g = (f_id g = i)" if "g \<in> set (fd_folders db)" for g using that f(3) by metis
  then have "filter (\<lambda>g. \<not> ?hit g) (fd_folders db) = filter (\<lambda>g. f_id g \<noteq> i) (fd_folders db)"
    by (intro filter_cong) simp_all
  then show "db' = \<lparr>fd_folders = filter (\<lambda>f. \<not> below db i (f_id f)) (fd_folders db),
       fd_links = map (unfile (filter (\<lambda>f. \<not> below db i (f_id f)) (fd_folders db))) (fd_links db)\<rparr>"
    using del h cascade_subtree [OF ok, of i] by (simp add: delete_row_def Let_def split: if_splits)
qed

lemma below_parent:
  assumes "folders_ok pg db" "f \<in> set (fd_folders db)" "f_parent_id f = Some p" "below db i p"
  shows "below db i (f_id f)"
proof -
  from assms(4) obtain k where "up (parent_in (fd_folders db)) k p = Some i" by (auto simp: below_def)
  then have "up (parent_in (fd_folders db)) (Suc k) (f_id f) = Some i"
    using folders_parent [OF assms(1,2)] assms(3) by simp
  then show ?thesis unfolding below_def by (rule exI)
qed

lemma delete_ok:
  assumes ok: "folders_ok pg db" and del: "delete_row i ws db = (n, db')" "n \<noteq> 0"
  shows "folders_ok pg db'"
proof -
  let ?P = "\<lambda>f. \<not> below db i (f_id f)"
  have f': "fd_folders db' = filter ?P (fd_folders db)"
    and l': "fd_links db' = map (unfile (filter ?P (fd_folders db))) (fd_links db)"
    using delete_row_eq(2) [OF ok del] by simp_all
  have d: "distinct (map f_id (fd_folders db))" using ok by (simp add: folders_ok_def)
  have rows: "rows_of v db' = filter ?P (rows_of v db)" for v
    by (simp add: rows_of_def f' conj_commute)
  have left: "p \<in> ids (rows_of v db')" if "f \<in> set (rows_of v db')" "f_parent_id f = Some p" for f p v
  proof -
    have f: "f \<in> set (rows_of v db)" "?P f" using that(1) by (auto simp: rows)
    then have "p \<in> ids (rows_of v db)" using rows_closed [OF ok _ that(2)] by blast
    moreover have "\<not> below db i p"
      using below_parent [OF ok _ that(2)] f by (auto simp: rows_of_def)
    ultimately show ?thesis by (auto simp: rows)
  qed
  have "workspace_ok v db'" for v
  proof -
    have dv: "distinct (map f_id (rows_of v db))" by (rule rows_distinct [OF d])
    then have dv': "distinct (map f_id (rows_of v db'))" by (simp add: rows distinct_map_filter)
    have "at_level (parent_in (rows_of v db')) x e"
      if x: "at_level (parent_in (rows_of v db)) x e" "x \<in> ids (rows_of v db')" for x e
    proof (rule at_level_within [OF _ _ x])
      fix y assume "y \<in> ids (rows_of v db')"
      then obtain f where f: "f \<in> set (rows_of v db')" "f_id f = y" by auto
      then have f0: "f \<in> set (rows_of v db)" by (simp add: rows)
      have new: "parent_in (rows_of v db') (f_id f) = f_parent_id f"
        by (rule parent_in_closed [OF dv' f(1)]) (rule left [OF f(1)])
      have old: "parent_in (rows_of v db) (f_id f) = f_parent_id f"
        by (rule parent_in_closed [OF dv f0]) (rule rows_closed [OF ok f0])
      show "parent_in (rows_of v db') y = parent_in (rows_of v db) y" using old new f(2) by simp
      show "p \<in> ids (rows_of v db')" if "parent_in (rows_of v db) y = Some p" for p
        using left [OF f(1)] old f(2) that by simp
    qed
    then have "bounded_forest MaxFolderDepth (rows_of v db')"
      using ok unfolding folders_ok_def workspace_ok_def bounded_forest_iff rows by auto blast
    moreover have "length (rows_of v db') \<le> MaxFoldersPerWorkspace"
      using ok length_filter_le [of ?P "rows_of v db"] unfolding folders_ok_def workspace_ok_def rows
      by (meson le_trans)
    ultimately show ?thesis by (simp add: workspace_ok_def)
  qed
  moreover have "workspace_of db' p (f_workspace_id f)"
    if "f \<in> set (fd_folders db')" "f_parent_id f = Some p" for f p
    using left [of f "f_workspace_id f" p] that by (simp add: workspace_of_rows) (simp add: rows_of_def)
  moreover have "workspace_of db' j (lr_workspace l)"
    if l: "l \<in> set (fd_links db')" "lr_folder l = Some j" for l j
  proof -
    obtain l0 where l0: "l0 \<in> set (fd_links db)" "l = unfile (fd_folders db') l0"
      using l(1) unfolding l' f' by auto
    then have "l = l0" "j \<in> ids (fd_folders db')"
      using l(2) by (auto simp: unfile_def split: option.splits if_splits)
    moreover have "workspace_of db j (lr_workspace l)"
      using ok l0(1) \<open>l = l0\<close> l(2) by (simp add: folders_ok_def)
    then obtain g where g: "g \<in> set (fd_folders db)" "f_id g = j" "f_workspace_id g = lr_workspace l"
      by (auto simp: workspace_of_def)
    ultimately show ?thesis using g d unfolding f' workspace_of_def by auto
  qed
  moreover have "distinct (map f_id (fd_folders db'))" "distinct (map (sibling_key pg) (fd_folders db'))"
    using ok by (simp_all add: folders_ok_def f' distinct_map_filter)
  ultimately show ?thesis
    using ok by (simp add: folders_ok_def) (simp add: f')
qed

subsection \<open>The service as a machine\<close>

text \<open>A request, with everything the environment decides: who asks, the fresh id, the clock, what a
  rename read, and where the database fails. \<open>OpFile\<close> is the part of \<open>Service.Create\<close> and
  \<open>Service.Update\<close> of links that files one, once \<open>resolveFolder\<close> had nothing to say.\<close>

datatype folder_op =
    OpCreate "identity option" string "uuid option" uuid instant "tx_point option"
  | OpRename "identity option" uuid string "folder list" instant "tx_point option"
  | OpMove "identity option" uuid "uuid option" instant "tx_point option"
  | OpDelete "identity option" uuid "tx_point option"
  | OpFile uuid uuid "uuid option" "tx_point option"

definition file_link :: "uuid \<Rightarrow> uuid \<Rightarrow> uuid option \<Rightarrow> tx_point option \<Rightarrow> folder_db \<Rightarrow> folder_db" where
  "file_link ws link folder fault db =
     (if resolveFolder ws folder fault db \<noteq> [] then db
      else db\<lparr>fd_links := \<lparr>lr_id = link, lr_workspace = ws, lr_folder = folder, lr_deleted = False\<rparr>
                 # filter (\<lambda>l. lr_id l \<noteq> link) (fd_links db)\<rparr>)"

fun folder_step :: "pg_text \<Rightarrow> folder_op \<Rightarrow> folder_db \<Rightarrow> folder_db option" where
  "folder_step pg (OpCreate who raw parent fresh now fault) db =
     map_option snd (CreateFolder pg who raw parent fresh now fault db)"
| "folder_step pg (OpRename who i raw read now fault) db =
     map_option snd (RenameFolder pg who i raw read now fault db)"
| "folder_step pg (OpMove who i parent now fault) db =
     map_option snd (MoveFolder pg who i parent now fault db)"
| "folder_step pg (OpDelete who i fault) db = Some (snd (DeleteFolder who i fault db))"
| "folder_step pg (OpFile ws link folder fault) db = Some (file_link ws link folder fault db)"

definition no_folders :: folder_db where
  "no_folders = \<lparr>fd_folders = [], fd_links = []\<rparr>"

lemma commit_ok: "P old \<Longrightarrow> P new \<Longrightarrow> P (snd (commit_tx fault res old new))"
  by (simp add: commit_tx_def split: option.split tx_point.split)

text \<open>A call that returns and leaves a state with the property.\<close>

definition keeps :: "(folder_db \<Rightarrow> bool) \<Rightarrow> ('r \<times> folder_db) option \<Rightarrow> bool" where
  "keeps P x \<longleftrightarrow> (\<exists>r. x = Some r \<and> P (snd r))"

lemma keeps_Some [simp]: "keeps P (Some r) = P (snd r)"
  by (simp add: keeps_def)

lemma loadFolderTree_total: "loadFolderTree pg ws db \<noteq> None"
  using NewFolderTree_total by (auto simp: loadFolderTree_def)

lemma create_step:
  assumes ok: "folders_ok pg db"
  shows "keeps (folders_ok pg) (CreateFolder pg who raw parent fresh now fault db)"
proof -
  let ?ws = "id_workspace (the who)"
  obtain name errs where n: "name_errors raw = (name, errs)" by fastforce
  obtain t where t: "loadFolderTree pg ?ws db = Some t" using loadFolderTree_total by blast
  define row where "row = \<lparr>f_id = fresh, f_workspace_id = ?ws, f_parent_id = parent, f_name = name,
                         f_depth = 0, f_link_count = 0, f_created_at = now, f_updated_at = now\<rparr>"
  obtain w db' where w: "insert_folder pg row db = (w, db')" by fastforce
  have "folders_ok pg db'" if "create_errors t parent name errs = []" "w = Written r" for r
  proof (rule insert_ok [OF ok w [unfolded that(2)] _ _ t])
    show "name_ok (f_name row)"
      using that(1) name_errors_ok n by (simp add: create_errors_def row_def)
    show "Get t p \<noteq> None" if "f_parent_id row = Some p" for p
      using that \<open>create_errors t parent name errs = []\<close> by (auto simp: create_errors_def row_def split: if_splits)
    show "Depth t (f_parent_id row) + 1 \<le> MaxFolderDepth" "Len t < MaxFoldersPerWorkspace"
      using that(1) by (auto simp: create_errors_def row_def split: if_splits)
  qed (simp add: row_def)
  then have c: "folders_ok pg (snd (commit_tx fault res db db'))"
    if "create_errors t parent name errs = []" "w = Written r" for r res :: folder
    using that by (intro commit_ok [where P = "folders_ok pg", OF ok])
  note w = w [unfolded row_def]
  show ?thesis
    by (cases "create_errors t parent name errs = []"; cases w) (simp_all add: CreateFolder_def n t Let_def ok w c)
qed

lemma rename_step:
  assumes ok: "folders_ok pg db"
  shows "keeps (folders_ok pg) (RenameFolder pg who i raw read now fault db)"
proof -
  let ?ws = "id_workspace (the who)"
  obtain name errs where n: "name_errors raw = (name, errs)" by fastforce
  obtain t where t: "NewFolderTree read = Some t" using NewFolderTree_total by blast
  obtain w db' where w: "rename_row pg i ?ws name now db = (w, db')" by fastforce
  have "folders_ok pg db'" if "errs = []" "w = Written r" for r
    by (rule rename_ok [OF ok w [unfolded that(2)] name_errors_ok]) (use n that in simp)
  moreover have "name \<noteq> ''''" if "errs = []"
    using name_errors_ok n that by (auto simp: name_ok_def)
  moreover have "folders_ok pg (snd (commit_tx fault res db db'))" if "errs = []" "w = Written r" for r res :: folder
    using calculation(1) that by (intro commit_ok [where P = "folders_ok pg", OF ok])
  ultimately show ?thesis
    using ok w
    by (cases "errs = []"; cases w) (simp_all add: RenameFolder_def n t Let_def split: option.split)
qed

lemma move_step:
  assumes ok: "folders_ok pg db"
  shows "keeps (folders_ok pg) (MoveFolder pg who i parent now fault db)"
proof -
  let ?ws = "id_workspace (the who)"
  obtain t where t: "loadFolderTree pg ?ws db = Some t" using loadFolderTree_total by blast
  obtain w db' where w: "move_row pg i ?ws parent now db = (w, db')" by fastforce
  have "folders_ok pg db'" if "MoveRefusal t i parent = Some None" "w = Written r" for r
    by (rule move_ok [OF ok w [unfolded that(2)] t that(1)])
  then have c: "folders_ok pg (snd (commit_tx fault res db db'))"
    if "MoveRefusal t i parent = Some None" "w = Written r" for r res :: folder
    using that by (intro commit_ok [where P = "folders_ok pg", OF ok])
  obtain ref where "MoveRefusal t i parent = Some ref"
    using MoveRefusal_total [of "ListFolders pg ?ws db" t i parent] t by (auto simp: loadFolderTree_def)
  then show ?thesis
    by (cases ref; cases w) (simp_all add: MoveFolder_def Let_def ok w t c split: option.split)
qed

lemma delete_step: "folders_ok pg db \<Longrightarrow> folders_ok pg (snd (DeleteFolder who i fault db))"
proof -
  assume ok: "folders_ok pg db"
  obtain n db' where d: "delete_row i (id_workspace (the who)) db = (n, db')" by fastforce
  have "n \<noteq> 0 \<Longrightarrow> folders_ok pg (snd (commit_tx fault () db db'))"
    by (rule commit_ok [where P = "folders_ok pg", OF ok delete_ok [OF ok d]])
  then show ?thesis using ok by (simp add: DeleteFolder_def d)
qed

lemma file_step: "folders_ok pg db \<Longrightarrow> folders_ok pg (file_link ws link folder fault db)"
  by (auto simp: file_link_def resolveFolder_def folders_ok_def workspace_of_def workspace_ok_def rows_of_def
      list_ex_iff split: if_splits option.splits)

lemma folder_step_ok: "folders_ok pg db \<Longrightarrow> \<exists>db'. folder_step pg x db = Some db' \<and> folders_ok pg db'"
proof (cases x)
  case (OpCreate who raw parent fresh now fault)
  then show "folders_ok pg db \<Longrightarrow> ?thesis" using create_step by (fastforce simp: keeps_def)
next
  case (OpRename who i raw read now fault)
  then show "folders_ok pg db \<Longrightarrow> ?thesis" using rename_step by (fastforce simp: keeps_def)
next
  case (OpMove who i parent now fault)
  then show "folders_ok pg db \<Longrightarrow> ?thesis" using move_step by (fastforce simp: keeps_def)
qed (simp_all add: delete_step file_step)

interpretation folder_service: invariant_machine "folder_step pg" "folders_ok pg" for pg
  by unfold_locales (rule folder_step_ok)

subsection \<open>Properties\<close>

text \<open>C21. Whatever sequence of requests reaches the folder service (any callers, ids and parents, renames
  decided on any earlier reading, statements that fail and commits that fail before or after taking
  effect), every request returns and in every workspace the folders form a forest at most
  \<open>MaxFolderDepth\<close> deep and at most \<open>MaxFoldersPerWorkspace\<close> large, with valid names, no two siblings
  of one lowered name, and every parent and every filed link inside its own workspace.\<close>

theorem folders_stay_a_forest:
  "\<exists>db. run_machine (folder_step pg) ops no_folders = Some db \<and> folders_ok pg db"
  by (rule folder_service.run_good)
    (simp add: folders_ok_def no_folders_def workspace_ok_def rows_of_def bounded_forest_def)

text \<open>Deleting a folder removes it and exactly the folders below it, unfiles exactly the links filed
  in one of those, and loses no link.\<close>

theorem DeleteFolder_removes_the_branch:
  assumes "folders_ok pg db" "DeleteFolder who i None db = (Inr (), db')"
  shows "fd_folders db' = filter (\<lambda>f. \<not> below db i (f_id f)) (fd_folders db)
    \<and> fd_links db' = map (\<lambda>l. case lr_folder l of
          Some j \<Rightarrow> if below db i j then l\<lparr>lr_folder := None\<rparr> else l
        | None \<Rightarrow> l) (fd_links db)"
proof -
  let ?left = "filter (\<lambda>f. \<not> below db i (f_id f)) (fd_folders db)"
  obtain n where n: "delete_row i (id_workspace (the who)) db = (n, db')" "n \<noteq> 0"
    using assms(2) by (auto simp: DeleteFolder_def commit_tx_def split: if_splits prod.splits)
  have "unfile ?left l = (case lr_folder l of
          Some j \<Rightarrow> if below db i j then l\<lparr>lr_folder := None\<rparr> else l | None \<Rightarrow> l)"
    if l: "l \<in> set (fd_links db)" for l
  proof (cases "lr_folder l")
    case (Some j)
    then have "workspace_of db j (lr_workspace l)" using assms(1) l by (simp add: folders_ok_def)
    then have "j \<in> ids ?left \<longleftrightarrow> \<not> below db i j" by (auto simp: workspace_of_def)
    then show ?thesis using Some by (simp add: unfile_def)
  qed (simp add: unfile_def)
  then show ?thesis using delete_row_eq(2) [OF assms(1) n] by simp
qed

definition sample_folders :: folder_db where
  "sample_folders =
     \<lparr>fd_folders = [folder_row 1 None ''a'', folder_row 2 (Some 1) ''b'', folder_row 3 None ''c''],
      fd_links = [\<lparr>lr_id = 7, lr_workspace = 0, lr_folder = Some 2, lr_deleted = False\<rparr>,
                  \<lparr>lr_id = 8, lr_workspace = 0, lr_folder = Some 3, lr_deleted = False\<rparr>]\<rparr>"

definition sample_editor :: "identity option" where
  "sample_editor = Some \<lparr>id_user = 5, id_workspace = 0, id_permissions = {PermCreate, PermDelete}\<rparr>"

lemma sample_folders_ok: "folders_ok \<lparr>pg_lower = id, pg_collate = id\<rparr> sample_folders"
proof -
  have b: "bounded_forest MaxFolderDepth (rows_of ws sample_folders)" for ws
    by (cases "ws = 0") (simp_all add: bounded_forest_def parent_in_def folder_row_def zero_folder_def
      sample_folders_def rows_of_def MaxFolderDepth_def eval_nat_numeral)
  have "length (rows_of ws sample_folders) \<le> 3" for ws
    unfolding rows_of_def sample_folders_def by (rule order_trans [OF length_filter_le]) simp
  then have "length (rows_of ws sample_folders) \<le> MaxFoldersPerWorkspace" for ws
    by (rule order_trans) (simp add: MaxFoldersPerWorkspace_def)
  with b have "workspace_ok ws sample_folders" for ws by (simp add: workspace_ok_def)
  then show ?thesis
    by (simp add: folders_ok_def sample_folders_def folder_row_def zero_folder_def sibling_key_def
      workspace_of_def name_ok_def MaxFolderNameLength_def isControl_def rune_count_def runes_ascii is_ascii_def code_def)
qed

theorem DeleteFolder_removes_the_branch_witness:
  "fd_folders (snd (DeleteFolder sample_editor 1 None sample_folders))
     = filter (\<lambda>f. \<not> below sample_folders 1 (f_id f)) (fd_folders sample_folders)"
proof -
  have "fst (DeleteFolder sample_editor 1 None sample_folders) = Inr ()"
    by (simp add: DeleteFolder_def sample_editor_def sample_folders_def Can_def PermDelete_def PermCreate_def
      delete_row_def folder_row_def zero_folder_def commit_tx_def cascade.simps orphan_def Let_def)
  then have "DeleteFolder sample_editor 1 None sample_folders
      = (Inr (), snd (DeleteFolder sample_editor 1 None sample_folders))"
    by (simp add: prod_eq_iff)
  from DeleteFolder_removes_the_branch [OF sample_folders_ok this] show ?thesis by blast
qed

end
