(* ===== verification/Alias.thy ===== *)
theory Alias
  imports Domain
begin

section \<open>Aliases\<close>

text \<open>
  \<open>internal/alias\<close>: the canonical form of an alias, the policy that validates one, the shape test
  the redirect path uses as a pre-filter, the word lists, and the generator of random codes.

  The word lists are embedded files; \<open>lists\<close> holds what \<open>init\<close> makes of their text, and
  \<open>load_lists\<close> is that function, \<open>None\<close> its panic. Randomness, cancellation and the taken test come
  from outside: they are the operations of an environment with a state of its own (\<open>gen_env\<close>).
\<close>

definition Alphabet :: string where
  "Alphabet = ''023456789abcdefghjkmnpqrstuvwxyz''"

definition DefaultLength :: int where "DefaultLength = 7"
definition MaxGeneratedLength :: int where "MaxGeneratedLength = 12"
definition MinLength :: int where "MinLength = 3"
definition MaxLength :: int where "MaxLength = 64"
definition attemptsPerLength :: nat where "attemptsPerLength = 4"

lemmas alias_bounds = DefaultLength_def MaxGeneratedLength_def MinLength_def MaxLength_def

datatype Reason = ReasonEmpty | ReasonTooShort | ReasonTooLong | ReasonInvalidChars
  | ReasonEdgeSeparator | ReasonReserved | ReasonProfane

definition Canonical :: "string \<Rightarrow> string" where
  "Canonical input = to_lower (trim_space input)"

subsection \<open>Word lists\<close>

record lists =
  reserved :: "string list"
  profaneWords :: "string list"
  profaneSubstrings :: "string list"

definition newline :: char where
  "newline = char_of (10::nat)"

definition parseLines :: "string \<Rightarrow> string list" where
  "parseLines raw =
     map to_lower (filter (\<lambda>line. \<not> (line = '''' \<or> prefix ''#'' line))
       (map trim_space (split_on newline raw)))"

definition leet_rune :: "nat \<Rightarrow> nat" where
  "leet_rune r =
     (if r = code (CHR ''0'') then code (CHR ''o'')
      else if r = code (CHR ''1'') then code (CHR ''i'')
      else if r = code (CHR ''3'') then code (CHR ''e'')
      else if r = code (CHR ''4'') \<or> r = code (CHR ''@'') then code (CHR ''a'')
      else if r = code (CHR ''5'') \<or> r = code (CHR ''$'') then code (CHR ''s'')
      else if r = code (CHR ''7'') then code (CHR ''t'')
      else if r = code (CHR ''8'') then code (CHR ''b'')
      else r)"

definition normalizeLeet :: "string \<Rightarrow> string" where
  "normalizeLeet s = string_of_runes (map leet_rune (runes s))"

definition isSeparator :: "char \<Rightarrow> bool" where
  "isSeparator c \<longleftrightarrow> c = CHR ''-'' \<or> c = CHR ''_''"

definition stripSeparators :: "string \<Rightarrow> string" where
  "stripSeparators s = filter (\<lambda>c. \<not> isSeparator c) s"

text \<open>\<open>strings.FieldsFunc\<close> for a test on ASCII characters: the maximal runs that fail it.\<close>

fun fields_func :: "(char \<Rightarrow> bool) \<Rightarrow> string \<Rightarrow> string \<Rightarrow> string list" where
  "fields_func p cur [] = (if cur = [] then [] else [rev cur])"
| "fields_func p cur (c # cs) =
     (if p c then (if cur = [] then fields_func p [] cs else rev cur # fields_func p [] cs)
      else fields_func p (c # cur) cs)"

fun profanity_entries :: "string list \<Rightarrow> string list \<times> string list \<Rightarrow> (string list \<times> string list) option" where
  "profanity_entries [] (ws, subs) = Some (ws, subs)"
| "profanity_entries (line # ls) (ws, subs) =
     (case cut (CHR '':'') line of (pre, term, ok) \<Rightarrow>
        if \<not> ok then None
        else if pre = ''word'' then profanity_entries ls (normalizeLeet term # ws, subs)
        else if pre = ''sub'' then profanity_entries ls (ws, subs @ [normalizeLeet term])
        else None)"

definition load_lists :: "string \<Rightarrow> string \<Rightarrow> lists option" where
  "load_lists reservedRaw profanityRaw =
     map_option (\<lambda>(ws, subs). \<lparr>reserved = parseLines reservedRaw, profaneWords = ws, profaneSubstrings = subs\<rparr>)
       (profanity_entries (parseLines profanityRaw) ([], []))"

definition builtin_IsReserved :: "lists \<Rightarrow> string \<Rightarrow> bool" where
  "builtin_IsReserved ls s \<longleftrightarrow> Canonical s \<in> set (reserved ls)"

definition IsProfane :: "lists \<Rightarrow> string \<Rightarrow> bool" where
  "IsProfane ls s =
     (let normalized = normalizeLeet (Canonical s) in
      if stripSeparators normalized \<in> set (profaneWords ls) then True
      else if list_ex (\<lambda>token. token \<in> set (profaneWords ls)) (fields_func isSeparator [] normalized) then True
      else list_ex (\<lambda>sub. contains_sub (stripSeparators normalized) sub) (profaneSubstrings ls))"

subsection \<open>Validation\<close>

record Policy =
  ReservedExtra :: "string list"
  ProfanityDisabled :: bool
  MinUserLength :: int
  GeneratedLength :: int

definition zero_policy :: Policy where
  "zero_policy = \<lparr>ReservedExtra = [], ProfanityDisabled = False, MinUserLength = 0, GeneratedLength = 0\<rparr>"

definition minUserLength :: "Policy \<Rightarrow> int" where
  "minUserLength p =
     (if MinUserLength p \<le> 0 then MinLength
      else if MinUserLength p > MaxLength then MaxLength
      else MinUserLength p)"

definition generatedLength :: "Policy \<Rightarrow> int" where
  "generatedLength p =
     (if GeneratedLength p \<le> 0 then DefaultLength
      else if GeneratedLength p < MinLength then MinLength
      else if GeneratedLength p > MaxGeneratedLength then MaxGeneratedLength
      else GeneratedLength p)"

definition allowed_byte :: "char \<Rightarrow> bool" where
  "allowed_byte c \<longleftrightarrow>
     97 \<le> code c \<and> code c \<le> 122 \<or> 48 \<le> code c \<and> code c \<le> 57 \<or> c = CHR ''-'' \<or> c = CHR ''_''"

definition isAllowedASCII :: "string \<Rightarrow> bool" where
  "isAllowedASCII s = list_all allowed_byte s"

definition IsReserved :: "lists \<Rightarrow> Policy \<Rightarrow> string \<Rightarrow> bool" where
  "IsReserved ls p s =
     (if builtin_IsReserved ls s then True
      else list_ex (\<lambda>extra. Canonical extra = Canonical s) (ReservedExtra p))"

definition Validate :: "lists \<Rightarrow> Policy \<Rightarrow> string \<Rightarrow> Reason + string" where
  "Validate ls p input =
     (let s = Canonical input; n = int (rune_count s) in
      if s = '''' then Inl ReasonEmpty
      else if n < minUserLength p then
        (if \<not> isAllowedASCII s then Inl ReasonInvalidChars else Inl ReasonTooShort)
      else if n > MaxLength then Inl ReasonTooLong
      else if \<not> isAllowedASCII s then Inl ReasonInvalidChars
      else if isSeparator (hd s) \<or> isSeparator (last s) then Inl ReasonEdgeSeparator
      else if IsReserved ls p s then Inl ReasonReserved
      else if \<not> ProfanityDisabled p \<and> IsProfane ls s then Inl ReasonProfane
      else Inr s)"

definition WellFormed :: "string \<Rightarrow> bool" where
  "WellFormed s =
     (if int (length s) < MinLength \<or> int (length s) > MaxLength then False
      else if \<not> isAllowedASCII s then False
      else \<not> isSeparator (hd s) \<and> \<not> isSeparator (last s))"

subsection \<open>Generation\<close>

datatype gen_error = LengthOutOfRange | ReadRandom string | ExhaustedAttempts
  | ContextDone string | CheckAvailability string | NoFreeCode

record 's gen_env =
  ge_read :: "nat \<Rightarrow> 's \<Rightarrow> (string + 8 word list) \<times> 's"
  ge_ctx_err :: "'s \<Rightarrow> string option"
  ge_taken :: "string \<Rightarrow> 's \<Rightarrow> (string + bool) \<times> 's"

definition code_of_bytes :: "8 word list \<Rightarrow> string" where
  "code_of_bytes buf = map (\<lambda>b. Alphabet ! (unat b mod length Alphabet)) buf"

fun random_attempts :: "lists \<Rightarrow> 's gen_env \<Rightarrow> nat \<Rightarrow> nat \<Rightarrow> 's \<Rightarrow> (gen_error + string) \<times> 's" where
  "random_attempts ls e n 0 s = (Inl ExhaustedAttempts, s)"
| "random_attempts ls e n (Suc k) s =
     (case ge_read e n s of
        (Inl err, s') \<Rightarrow> (Inl (ReadRandom err), s')
      | (Inr buf, s') \<Rightarrow>
          (case Validate ls zero_policy (code_of_bytes buf) of
             Inr _ \<Rightarrow> (Inr (code_of_bytes buf), s')
           | Inl _ \<Rightarrow> random_attempts ls e n k s'))"

definition Random :: "lists \<Rightarrow> 's gen_env \<Rightarrow> int \<Rightarrow> 's \<Rightarrow> (gen_error + string) \<times> 's" where
  "Random ls e len s =
     (if len < MinLength \<or> len > MaxLength then (Inl LengthOutOfRange, s)
      else random_attempts ls e (nat len) 100 s)"

fun try_length :: "lists \<Rightarrow> 's gen_env \<Rightarrow> int \<Rightarrow> nat \<Rightarrow> 's \<Rightarrow> (gen_error + string) option \<times> 's" where
  "try_length ls e len 0 s = (None, s)"
| "try_length ls e len (Suc k) s =
     (case ge_ctx_err e s of
        Some err \<Rightarrow> (Some (Inl (ContextDone err)), s)
      | None \<Rightarrow>
          (case Random ls e len s of
             (Inl err, s') \<Rightarrow> (Some (Inl err), s')
           | (Inr candidate, s') \<Rightarrow>
               (case ge_taken e candidate s' of
                  (Inl err, s'') \<Rightarrow> (Some (Inl (CheckAvailability err)), s'')
                | (Inr inUse, s'') \<Rightarrow>
                    if \<not> inUse then (Some (Inr candidate), s'') else try_length ls e len k s'')))"

function try_lengths :: "lists \<Rightarrow> 's gen_env \<Rightarrow> int \<Rightarrow> 's \<Rightarrow> (gen_error + string) \<times> 's" where
  "try_lengths ls e len s =
     (if len \<le> MaxGeneratedLength then
        (case try_length ls e len attemptsPerLength s of
           (Some r, s') \<Rightarrow> (r, s')
         | (None, s') \<Rightarrow> try_lengths ls e (len + 1) s')
      else (Inl NoFreeCode, s))"
  by pat_completeness auto
termination
  by (relation "measure (\<lambda>(ls, e, len, s). nat (MaxGeneratedLength + 1 - len))") auto

declare try_lengths.simps [simp del]

definition Generate :: "lists \<Rightarrow> 's gen_env \<Rightarrow> Policy \<Rightarrow> 's \<Rightarrow> (gen_error + string) \<times> 's" where
  "Generate ls e p s = try_lengths ls e (generatedLength p) s"

subsection \<open>Lemmas\<close>

lemma allowed_byte_plain:
  "allowed_byte c \<Longrightarrow> code c < 128 \<and> \<not> (65 \<le> code c \<and> code c \<le> 90) \<and> \<not> space1 c"
  by (auto simp: allowed_byte_def space1_def code_def)

lemma allowed_ascii: "isAllowedASCII s \<Longrightarrow> is_ascii s"
  by (auto simp: isAllowedASCII_def is_ascii_def list_all_iff dest: allowed_byte_plain)

lemma Canonical_allowed:
  assumes "isAllowedASCII s"
  shows "Canonical s = s"
proof -
  have b: "\<forall>c \<in> set s. code c < 128 \<and> \<not> (65 \<le> code c \<and> code c \<le> 90) \<and> \<not> space1 c"
    using assms allowed_byte_plain by (auto simp: isAllowedASCII_def list_all_iff)
  have "trim_space s = s" by (rule trim_space_fixed) (use b in auto)
  moreover have "to_lower s = s" by (rule to_lower_fixed) (use b in auto)
  ultimately show ?thesis by (simp add: Canonical_def)
qed

lemma Validate_Inr:
  "Validate ls p input = Inr s \<longleftrightarrow>
     s = Canonical input \<and> s \<noteq> '''' \<and> minUserLength p \<le> int (length s) \<and> int (length s) \<le> MaxLength
     \<and> isAllowedASCII s \<and> \<not> isSeparator (hd s) \<and> \<not> isSeparator (last s)
     \<and> \<not> IsReserved ls p s \<and> (ProfanityDisabled p \<or> \<not> IsProfane ls s)"
proof (cases "isAllowedASCII (Canonical input)")
  case True
  then have "rune_count (Canonical input) = length (Canonical input)"
    by (intro rune_count_ascii allowed_ascii)
  then show ?thesis by (auto simp: Validate_def Let_def)
next
  case False
  then show ?thesis by (auto simp: Validate_def Let_def)
qed

lemma minUserLength_range: "MinUserLength p \<le> 0 \<or> 3 \<le> MinUserLength p \<Longrightarrow> MinLength \<le> minUserLength p"
  by (auto simp: minUserLength_def alias_bounds)

lemma generatedLength_range: "MinLength \<le> generatedLength p \<and> generatedLength p \<le> MaxGeneratedLength"
  by (auto simp: generatedLength_def alias_bounds)

lemma Alphabet_length: "length Alphabet = 32"
  by (simp add: Alphabet_def)

lemma code_of_bytes_alphabet: "set (code_of_bytes buf) \<subseteq> set Alphabet"
  by (auto simp: code_of_bytes_def Alphabet_length)

definition reads_fully :: "'s gen_env \<Rightarrow> bool" where
  "reads_fully e \<longleftrightarrow> (\<forall>n s buf. fst (ge_read e n s) = Inr buf \<longrightarrow> length buf = n)"

definition good_code :: "lists \<Rightarrow> nat \<Rightarrow> string \<Rightarrow> bool" where
  "good_code ls n c \<longleftrightarrow> length c = n \<and> set c \<subseteq> set Alphabet \<and> (\<exists>c'. Validate ls zero_policy c = Inr c')"

lemma random_attempts_good:
  assumes "reads_fully e"
  shows "random_attempts ls e n k s = (Inr c, s') \<Longrightarrow> good_code ls n c"
proof (induction k arbitrary: s)
  case (Suc k)
  obtain r s1 where r: "ge_read e n s = (r, s1)" by fastforce
  show ?case
  proof (cases r)
    case (Inr buf)
    with assms r have "length buf = n" by (simp add: reads_fully_def) (metis fst_conv)
    then show ?thesis
      using Suc r Inr code_of_bytes_alphabet [of buf]
      by (auto simp: good_code_def split: sum.splits) (auto simp: code_of_bytes_def)
  qed (use Suc r in simp)
qed simp

lemma Random_good:
  assumes "reads_fully e" "Random ls e len s = (Inr c, s')"
  shows "MinLength \<le> len \<and> len \<le> MaxLength \<and> good_code ls (nat len) c"
  using assms random_attempts_good [OF assms(1)] by (auto simp: Random_def split: if_splits)

definition fresh_code :: "lists \<Rightarrow> 's gen_env \<Rightarrow> int \<Rightarrow> string \<Rightarrow> bool" where
  "fresh_code ls e len c \<longleftrightarrow>
     good_code ls (nat len) c \<and> MinLength \<le> len \<and> (\<exists>s. fst (ge_taken e c s) = Inr False)"

lemma try_length_fresh:
  assumes "reads_fully e"
  shows "try_length ls e len k s = (Some (Inr c), s') \<Longrightarrow> fresh_code ls e len c"
proof (induction k arbitrary: s)
  case (Suc k)
  obtain r s1 where r: "Random ls e len s = (r, s1)" by fastforce
  from Suc.prems r have "ge_ctx_err e s = None" by (auto split: option.splits)
  with Suc.prems r obtain cand where cand: "r = Inr cand" by (cases r) auto
  obtain t s2 where t: "ge_taken e cand s1 = (t, s2)" by fastforce
  with Suc.prems r cand \<open>ge_ctx_err e s = None\<close> obtain inUse where t': "t = Inr inUse"
    by (cases t) auto
  show ?case
  proof (cases inUse)
    case True
    with Suc r cand t t' \<open>ge_ctx_err e s = None\<close> show ?thesis by simp
  next
    case False
    with Suc.prems r cand t t' \<open>ge_ctx_err e s = None\<close> have "cand = c" by simp
    with Random_good [OF assms] r cand t t' False show ?thesis
      by (auto simp: fresh_code_def) (metis fst_conv)
  qed
qed simp

lemma try_lengths_fresh:
  "reads_fully e \<Longrightarrow> try_lengths ls e len s = (Inr c, s')
    \<Longrightarrow> \<exists>n \<ge> len. n \<le> MaxGeneratedLength \<and> fresh_code ls e n c"
proof (induction ls e len s rule: try_lengths.induct)
  case (1 ls e len s)
  from "1.prems" have le: "len \<le> MaxGeneratedLength"
    by (simp add: try_lengths.simps [of ls e len s] split: if_splits)
  obtain r s1 where r: "try_length ls e len attemptsPerLength s = (r, s1)" by fastforce
  show ?case
  proof (cases r)
    case None
    with "1.prems" le r have "try_lengths ls e (len + 1) s1 = (Inr c, s')"
      by (simp add: try_lengths.simps [of ls e len s])
    from "1.IH" [OF le r [symmetric] None "1.prems"(1) this] show ?thesis by (smt (verit))
  next
    case (Some x)
    with "1.prems" le r have "x = Inr c" by (simp add: try_lengths.simps [of ls e len s])
    with try_length_fresh [OF "1.prems"(1)] r Some le show ?thesis by blast
  qed
qed

lemma byte_residues:
  assumes "k < 32"
  shows "card {b :: 8 word. unat b mod 32 = k} = 8"
proof -
  have inj: "inj_on unat {b :: 8 word. unat b mod 32 = k}" by (auto intro: inj_onI word_unat_eq_iff [THEN iffD2])
  have "unat ` {b :: 8 word. unat b mod 32 = k} = (\<lambda>j. 32 * j + k) ` {..<8}"
  proof
    show "unat ` {b :: 8 word. unat b mod 32 = k} \<subseteq> (\<lambda>j. 32 * j + k) ` {..<8}"
    proof
      fix n assume "n \<in> unat ` {b :: 8 word. unat b mod 32 = k}"
      then obtain b :: "8 word" where b: "n = unat b" "unat b mod 32 = k" by blast
      then have "n = 32 * (n div 32) + k" using mult_div_mod_eq [of 32 n] by simp
      moreover have "n < 256" using unsigned_less [of b] b by simp
      then have "n div 32 < 8" by simp
      ultimately show "n \<in> (\<lambda>j. 32 * j + k) ` {..<8}" by blast
    qed
    show "(\<lambda>j. 32 * j + k) ` {..<8} \<subseteq> unat ` {b :: 8 word. unat b mod 32 = k}"
    proof
      fix n assume "n \<in> (\<lambda>j. 32 * j + k) ` {..<8}"
      then obtain j where j: "j < 8" "n = 32 * j + k" by blast
      with assms have "n < 256" by simp
      then have "unat (word_of_nat n :: 8 word) = n" by (simp add: unat_of_nat)
      with j assms show "n \<in> unat ` {b :: 8 word. unat b mod 32 = k}"
        by (intro image_eqI [of _ _ "word_of_nat n"]) simp_all
    qed
  qed
  moreover have "card ((\<lambda>j. 32 * j + k) ` {..<8::nat}) = 8"
    by (subst card_image) (auto intro: inj_onI)
  ultimately show ?thesis using card_image [OF inj] by simp
qed

lemma Alphabet_nth_eq:
  assumes "k < 32" "j < 32"
  shows "Alphabet ! k = Alphabet ! j \<longleftrightarrow> k = j"
proof -
  have "distinct Alphabet" by (simp add: Alphabet_def)
  then show ?thesis using assms by (simp add: nth_eq_iff_index_eq Alphabet_length)
qed

lemma Validate_stored:
  assumes "Validate ls p input = Inr s" "MinUserLength p \<le> 0 \<or> 3 \<le> MinUserLength p"
  shows "WellFormed s \<and> Canonical s = s \<and> Validate ls p s = Inr s"
proof -
  from assms(1) have v: "isAllowedASCII s" "minUserLength p \<le> int (length s)"
    "int (length s) \<le> MaxLength" "\<not> isSeparator (hd s)" "\<not> isSeparator (last s)"
    by (auto simp: Validate_Inr)
  then have "WellFormed s"
    using minUserLength_range [OF assms(2)] by (simp add: WellFormed_def)
  with v Canonical_allowed assms(1) show ?thesis by (auto simp: Validate_Inr)
qed

subsection \<open>Properties\<close>


definition sample_lists :: lists where
  "sample_lists = \<lparr>reserved = [''api''], profaneWords = [''damn''], profaneSubstrings = []\<rparr>"


text \<open>The floor can be lowered past the shape test: with \<open>MinUserLength\<close> 1 or 2, which the
  configuration accepts, an unreserved two-letter alias is validated and stored, and the redirect
  path's pre-filter refuses it, so its link never resolves.\<close>

theorem Validate_accepts_what_WellFormed_refuses:
  assumes "0 < MinUserLength p" "MinUserLength p \<le> 2" "ProfanityDisabled p"
    and "length s = 2" "list_all (\<lambda>c. 97 \<le> code c \<and> code c \<le> 122) s" "\<not> IsReserved ls p s"
  shows "Validate ls p s = Inr s \<and> \<not> WellFormed s"
proof -
  have a: "isAllowedASCII s"
    using assms(5) by (auto simp: isAllowedASCII_def list_all_iff allowed_byte_def)
  have sep: "\<not> isSeparator c" if "c \<in> set s" for c
    using assms(5) that by (auto simp: list_all_iff isSeparator_def code_def)
  have "s \<noteq> []" using assms(4) by auto
  then show ?thesis
    using assms Canonical_allowed [OF a] a sep
    by (auto simp: Validate_Inr WellFormed_def minUserLength_def alias_bounds)
qed

theorem Validate_accepts_what_WellFormed_refuses_witness:
  "Validate sample_lists (zero_policy\<lparr>ProfanityDisabled := True, MinUserLength := 2\<rparr>) ''go'' = Inr ''go''
     \<and> \<not> WellFormed ''go''"
  by (rule Validate_accepts_what_WellFormed_refuses) code_simp+

text \<open>Every code \<open>Generate\<close> returns is one a user could have claimed and nobody holds: it is
  well formed, passes \<open>Validate\<close> under the default policy, uses the alphabet only, has a length
  between the configured one and \<open>MaxGeneratedLength\<close>, and the taken test answered no to it.\<close>

theorem Generate_returns_fresh_valid_code:
  assumes "reads_fully e" "Generate ls e p s = (Inr c, s')"
  shows "WellFormed c \<and> Validate ls zero_policy c = Inr c \<and> set c \<subseteq> set Alphabet
    \<and> generatedLength p \<le> int (length c) \<and> int (length c) \<le> MaxGeneratedLength
    \<and> (\<exists>t. fst (ge_taken e c t) = Inr False)"
proof -
  obtain n where n: "generatedLength p \<le> n" "n \<le> MaxGeneratedLength" "fresh_code ls e n c"
    using try_lengths_fresh [OF assms(1), of ls _ s c s'] assms(2) by (auto simp: Generate_def)
  then have c: "length c = nat n" "set c \<subseteq> set Alphabet" "MinLength \<le> n"
    "\<exists>t. fst (ge_taken e c t) = Inr False"
    and v: "\<exists>c'. Validate ls zero_policy c = Inr c'"
    by (auto simp: fresh_code_def good_code_def)
  have "isAllowedASCII Alphabet" by code_simp
  with c(2) have "isAllowedASCII c" by (auto simp: isAllowedASCII_def list_all_iff)
  with v have "Validate ls zero_policy c = Inr c" by (auto simp: Validate_Inr Canonical_allowed)
  moreover from Validate_stored [OF this] have "WellFormed c" by (simp add: zero_policy_def)
  ultimately show ?thesis using c n by (simp add: alias_bounds)
qed

theorem Generate_returns_fresh_valid_code_witness:
  "\<exists>t. fst (ge_taken \<lparr>ge_read = (\<lambda>n k. (Inr (replicate n (word_of_nat k)), Suc k)), ge_ctx_err = (\<lambda>_. None),
       ge_taken = (\<lambda>c k. (Inr (k < 2), k))\<rparr> ''2222222'' t) = Inr False"
  by (rule Generate_returns_fresh_valid_code
        [where ls = sample_lists and p = zero_policy and s = 1 and s' = 2,
         THEN conjunct2, THEN conjunct2, THEN conjunct2, THEN conjunct2, THEN conjunct2])
    (simp add: reads_fully_def, code_simp)

text \<open>The generator is unbiased: each of the 32 characters of the alphabet stands for exactly 8
  of the 256 values of a random byte.\<close>

theorem code_bytes_unbiased:
  assumes "c \<in> set Alphabet"
  shows "card {b :: 8 word. code_of_bytes [b] = [c]} = 8"
proof -
  obtain k where k: "k < 32" "c = Alphabet ! k"
    using assms by (auto simp: in_set_conv_nth Alphabet_length)
  have "{b :: 8 word. code_of_bytes [b] = [c]} = {b. unat b mod 32 = k}"
    using k Alphabet_nth_eq [of "unat _ mod 32" k] by (auto simp: code_of_bytes_def Alphabet_length)
  with byte_residues [OF k(1)] show ?thesis by simp
qed

theorem code_bytes_unbiased_witness: "card {b :: 8 word. code_of_bytes [b] = ''z''} = 8"
  by (rule code_bytes_unbiased) (simp add: Alphabet_def)

text \<open>The operator's reserved words bind users only: a generated code is validated under the
  default policy whatever policy generates it, so a word of \<open>ReservedExtra\<close> can be issued.\<close>

theorem Generate_can_issue_reserved_extra:
  "\<exists>(e :: unit gen_env) p c. reads_fully e
     \<and> Generate sample_lists e p () = (Inr c, ()) \<and> IsReserved sample_lists p c"
proof (intro exI conjI)
  let ?e = "\<lparr>ge_read = (\<lambda>n k. (Inr (replicate n 9), k)), ge_ctx_err = (\<lambda>_. None),
       ge_taken = (\<lambda>c k. (Inr False, k))\<rparr> :: unit gen_env"
  let ?p = "zero_policy\<lparr>ReservedExtra := [''aaaaaaa'']\<rparr>"
  show "reads_fully ?e" by (simp add: reads_fully_def)
  show "Generate sample_lists ?e ?p () = (Inr ''aaaaaaa'', ())" by code_simp
  show "IsReserved sample_lists ?p ''aaaaaaa''" by code_simp
qed

end
