(* ===== verification/Routing.thy ===== *)
theory Routing
  imports Domain
begin

section \<open>Routing rules\<close>

text \<open>
  \<open>internal/domain/routing.go\<close>: what a rule's conditions mean, which lookups a set of rules
  can ask for, which condition sets may be stored, and the weights and shares of a split test.

  A Go map of parameters is an association list, in the order an iteration visits it. The Go
  interface \<open>RuleSubject\<close> is a record of methods over a state \<open>'s\<close>: asking may do work and
  remember the answer, so a method returns the answer and the next state. \<open>Match\<close> is written
  over that interface, guard by guard, with its early returns. The zoneinfo database behind
  \<open>time.LoadLocation\<close> is a parameter \<open>tzdb\<close>: a zone is its offset from UTC, in seconds, at
  each Unix second.
\<close>

subsection \<open>Data\<close>

record rule_time =
  rt_days :: "string list"
  rt_from :: string
  rt_to :: string
  rt_tz :: string

record rule_conditions =
  rc_country :: "string list"
  rc_region :: "string list"
  rc_city :: "string list"
  rc_language :: "string list"
  rc_browser :: "string list"
  rc_os :: "string list"
  rc_device :: "string list"
  rc_referrer :: "string list"
  rc_query :: "(string \<times> string list) list"
  rc_utm :: "(string \<times> string list) list"
  rc_time :: "rule_time option"
  rc_returning :: "bool option"

definition no_conditions :: rule_conditions where
  "no_conditions =
     \<lparr>rc_country = [], rc_region = [], rc_city = [], rc_language = [], rc_browser = [],
      rc_os = [], rc_device = [], rc_referrer = [], rc_query = [], rc_utm = [],
      rc_time = None, rc_returning = None\<rparr>"

record 's rule_subject =
  rs_country :: "'s \<Rightarrow> string \<times> 's"
  rs_region :: "'s \<Rightarrow> string \<times> 's"
  rs_city :: "'s \<Rightarrow> string \<times> 's"
  rs_language :: "'s \<Rightarrow> string \<times> 's"
  rs_browser :: "'s \<Rightarrow> string \<times> 's"
  rs_os :: "'s \<Rightarrow> string \<times> 's"
  rs_device :: "'s \<Rightarrow> string \<times> 's"
  rs_referrer_host :: "'s \<Rightarrow> string \<times> 's"
  rs_query_param :: "string \<Rightarrow> 's \<Rightarrow> string list \<times> 's"
  rs_returning :: "'s \<Rightarrow> bool \<times> 's"
  rs_now :: "'s \<Rightarrow> instant \<times> 's"

subsection \<open>Time windows\<close>

type_synonym zone = "int \<Rightarrow> int"
type_synonym zoneinfo = "string \<Rightarrow> zone option"

definition utc :: zone where
  "utc = (\<lambda>_. 0)"

text \<open>\<open>RuleTime.location\<close> without its memo table, and with it: the table is keyed by name and
  holds what was loaded, UTC for a name that does not resolve.\<close>

definition load_location :: "zoneinfo \<Rightarrow> string \<Rightarrow> zone" where
  "load_location tzdb name = (case tzdb name of Some z \<Rightarrow> z | None \<Rightarrow> utc)"

definition location :: "zoneinfo \<Rightarrow> rule_time \<Rightarrow> zone" where
  "location tzdb t = (if rt_tz t = '''' then utc else load_location tzdb (rt_tz t))"

definition location_memo ::
    "zoneinfo \<Rightarrow> (string \<rightharpoonup> zone) \<Rightarrow> rule_time \<Rightarrow> zone \<times> (string \<rightharpoonup> zone)" where
  "location_memo tzdb locations t =
     (if rt_tz t = '''' then (utc, locations)
      else case locations (rt_tz t) of
             Some loc \<Rightarrow> (loc, locations)
           | None \<Rightarrow>
               let loc = (case tzdb (rt_tz t) of None \<Rightarrow> utc | Some z \<Rightarrow> z)
               in (loc, locations(rt_tz t \<mapsto> loc)))"

text \<open>The wall clock of an instant in a zone.\<close>

definition local_second :: "zone \<Rightarrow> instant \<Rightarrow> int" where
  "local_second z now = (let u = now div second_ns in u + z u)"

definition clock_hour :: "zone \<Rightarrow> instant \<Rightarrow> int" where
  "clock_hour z now = local_second z now mod 86400 div 3600"

definition clock_minute :: "zone \<Rightarrow> instant \<Rightarrow> int" where
  "clock_minute z now = local_second z now mod 3600 div 60"

text \<open>\<open>time.Format("Mon")\<close>: 1970-01-01 was a Thursday.\<close>

definition format_mon :: "zone \<Rightarrow> instant \<Rightarrow> string" where
  "format_mon z now =
     [''Sun'', ''Mon'', ''Tue'', ''Wed'', ''Thu'', ''Fri'', ''Sat'']
       ! nat ((local_second z now div 86400 + 4) mod 7)"

definition parseClock :: "string \<Rightarrow> int \<times> bool" where
  "parseClock raw =
     (let s = trim_space raw in
      if s = '''' then (0, False)
      else case cut (CHR '':'') s of (h, m, ok) \<Rightarrow>
        if \<not> ok then (0, False)
        else case atoi h of
               None \<Rightarrow> (0, False)
             | Some hh \<Rightarrow>
                 if hh < 0 \<or> hh > 23 then (0, False)
                 else case atoi m of
                        None \<Rightarrow> (0, False)
                      | Some mm \<Rightarrow>
                          if mm < 0 \<or> mm > 59 then (0, False) else (hh * 60 + mm, True))"

definition time_matches :: "zoneinfo \<Rightarrow> rule_time \<Rightarrow> instant \<Rightarrow> bool" where
  "time_matches tzdb t now =
     (let loc = location tzdb t;
          day = to_lower (format_mon loc now) in
      if length (rt_days t) > 0
         \<and> \<not> list_ex (\<lambda>d. equal_fold (trim_space d) day) (rt_days t) then False
      else if rt_from t = '''' \<and> rt_to t = '''' then True
      else
        let (f, ok_from) = parseClock (rt_from t);
            (u, ok_to) = parseClock (rt_to t);
            from = (if \<not> ok_from then 0 else f);
            until = (if \<not> ok_to then 24 * 60 else u);
            mins = clock_hour loc now * 60 + clock_minute loc now
        in if until < from then mins \<ge> from \<or> mins < until
           else mins \<ge> from \<and> mins < until)"

subsection \<open>Matching\<close>

definition matchOne :: "string list \<Rightarrow> string \<Rightarrow> bool" where
  "matchOne want have =
     (if have = '''' then False else list_ex (\<lambda>w. equal_fold w have) want)"

definition anyEqualFold :: "string list \<Rightarrow> string list \<Rightarrow> bool" where
  "anyEqualFold want got = list_ex (\<lambda>w. list_ex (\<lambda>g. equal_fold w g) got) want"

fun matchQuery :: "(string \<times> string list) list \<Rightarrow> string \<Rightarrow> 's rule_subject \<Rightarrow> 's \<Rightarrow> bool \<times> 's" where
  "matchQuery [] pre i s = (True, s)"
| "matchQuery ((name, vals) # want) pre i s =
     (let (got, s') = rs_query_param i (pre @ name) s in
      if length got = 0 then (False, s')
      else if length vals = 0 then matchQuery want pre i s'
      else if \<not> anyEqualFold vals got then (False, s')
      else matchQuery want pre i s')"

text \<open>
  One guard of \<open>Match\<close>, \<open>if isset && !ok(subject.Get()) { return false }\<close>: the subject is asked
  only when the condition is set, and a failed test returns at once.
\<close>

definition guard :: "bool \<Rightarrow> ('s \<Rightarrow> 'a \<times> 's) \<Rightarrow> ('a \<Rightarrow> bool) \<Rightarrow> ('s \<Rightarrow> bool \<times> 's) \<Rightarrow> 's \<Rightarrow> bool \<times> 's" where
  "guard isset get ok k s =
     (if isset then let (a, s') = get s in if ok a then k s' else (False, s') else k s)"

definition Match :: "zoneinfo \<Rightarrow> rule_conditions \<Rightarrow> 's rule_subject \<Rightarrow> 's \<Rightarrow> bool \<times> 's" where
  "Match tzdb c i =
     guard (length (rc_language c) > 0) (rs_language i) (matchOne (rc_language c))
     (guard (length (rc_referrer c) > 0) (rs_referrer_host i) (matchOne (rc_referrer c))
     (guard True (matchQuery (rc_query c) '''' i) (\<lambda>ok. ok)
     (guard True (matchQuery (rc_utm c) ''utm_'' i) (\<lambda>ok. ok)
     (guard (length (rc_device c) > 0) (rs_device i) (matchOne (rc_device c))
     (guard (length (rc_browser c) > 0) (rs_browser i) (matchOne (rc_browser c))
     (guard (length (rc_os c) > 0) (rs_os i) (matchOne (rc_os c))
     (guard (rc_time c \<noteq> None) (rs_now i)
        (\<lambda>now. case rc_time c of Some t \<Rightarrow> time_matches tzdb t now | None \<Rightarrow> True)
     (guard (length (rc_country c) > 0) (rs_country i) (matchOne (rc_country c))
     (guard (length (rc_region c) > 0) (rs_region i) (matchOne (rc_region c))
     (guard (length (rc_city c) > 0) (rs_city i) (matchOne (rc_city c))
     (guard (rc_returning c \<noteq> None) (rs_returning i) (\<lambda>r. rc_returning c = Some r)
     (\<lambda>s. (True, s)))))))))))))"

subsection \<open>What a set of rules needs\<close>

record rule_needs =
  rn_country :: bool
  rn_region :: bool
  rn_city :: bool
  rn_user_agent :: bool
  rn_returning :: bool

definition no_needs :: rule_needs where
  "no_needs = \<lparr>rn_country = False, rn_region = False, rn_city = False,
     rn_user_agent = False, rn_returning = False\<rparr>"

definition Geo :: "rule_needs \<Rightarrow> bool" where
  "Geo n \<longleftrightarrow> rn_country n \<or> rn_region n \<or> rn_city n"

fun NeedsOf_loop :: "rule_needs \<Rightarrow> rule_conditions list \<Rightarrow> rule_needs" where
  "NeedsOf_loop n [] = n"
| "NeedsOf_loop n (c # cs) =
     NeedsOf_loop
       \<lparr>rn_country = rn_country n \<or> length (rc_country c) > 0,
        rn_region = rn_region n \<or> length (rc_region c) > 0,
        rn_city = rn_city n \<or> length (rc_city c) > 0,
        rn_user_agent = rn_user_agent n \<or> length (rc_device c) > 0
          \<or> length (rc_browser c) > 0 \<or> length (rc_os c) > 0,
        rn_returning = rn_returning n \<or> rc_returning c \<noteq> None\<rparr> cs"

definition NeedsOf :: "rule_conditions list \<Rightarrow> rule_needs" where
  "NeedsOf conds = NeedsOf_loop no_needs conds"

end
