(* ===== verification/Routing_Match.thy ===== *)
theory Routing_Match
  imports Routing
begin

section \<open>The meaning of a condition set\<close>

text \<open>
  The abstract meaning of a condition set over the answers a request has (AND across the
  conditions, OR inside one), the contract of the \<open>RuleSubject\<close> interface as a locale, and the
  refinement lemma: \<open>Match\<close> over any subject that keeps the contract computes that meaning.
\<close>

record answers =
  an_country :: string
  an_region :: string
  an_city :: string
  an_language :: string
  an_browser :: string
  an_os :: string
  an_device :: string
  an_referrer_host :: string
  an_query :: "string \<Rightarrow> string list"
  an_returning :: bool
  an_now :: instant

subsection \<open>The specification\<close>

definition list_holds :: "string list \<Rightarrow> string \<Rightarrow> bool" where
  "list_holds want have \<longleftrightarrow> want = [] \<or> have \<noteq> '''' \<and> (\<exists>w \<in> set want. equal_fold w have)"

definition params_hold :: "(string \<times> string list) list \<Rightarrow> string \<Rightarrow> answers \<Rightarrow> bool" where
  "params_hold want pre a \<longleftrightarrow>
     (\<forall>(name, vals) \<in> set want.
        an_query a (pre @ name) \<noteq> []
        \<and> (vals = [] \<or> (\<exists>w \<in> set vals. \<exists>g \<in> set (an_query a (pre @ name)). equal_fold w g)))"

definition conditions_hold :: "zoneinfo \<Rightarrow> rule_conditions \<Rightarrow> answers \<Rightarrow> bool" where
  "conditions_hold tzdb c a \<longleftrightarrow>
     list_holds (rc_country c) (an_country a)
     \<and> list_holds (rc_region c) (an_region a)
     \<and> list_holds (rc_city c) (an_city a)
     \<and> list_holds (rc_language c) (an_language a)
     \<and> list_holds (rc_browser c) (an_browser a)
     \<and> list_holds (rc_os c) (an_os a)
     \<and> list_holds (rc_device c) (an_device a)
     \<and> list_holds (rc_referrer c) (an_referrer_host a)
     \<and> params_hold (rc_query c) '''' a
     \<and> params_hold (rc_utm c) ''utm_'' a
     \<and> (case rc_time c of None \<Rightarrow> True | Some t \<Rightarrow> time_matches tzdb t (an_now a))
     \<and> (case rc_returning c of None \<Rightarrow> True | Some r \<Rightarrow> an_returning a = r)"

subsection \<open>The interface and its contract\<close>

text \<open>
  A method keeps the contract when, in a good state, it returns the answer the state stands
  for, and leaves a good state that stands for the same answers.
\<close>

definition answers_with ::
    "('s \<Rightarrow> bool) \<Rightarrow> ('s \<Rightarrow> 'b) \<Rightarrow> ('s \<Rightarrow> 'a \<times> 's) \<Rightarrow> ('b \<Rightarrow> 'a) \<Rightarrow> bool" where
  "answers_with good ans get f \<longleftrightarrow>
     (\<forall>s. good s \<longrightarrow> fst (get s) = f (ans s) \<and> good (snd (get s)) \<and> ans (snd (get s)) = ans s)"

locale lawful_subject =
  fixes i :: "'s rule_subject"
    and good :: "'s \<Rightarrow> bool"
    and ans :: "'s \<Rightarrow> answers"
  assumes country: "answers_with good ans (rs_country i) an_country"
    and region: "answers_with good ans (rs_region i) an_region"
    and city: "answers_with good ans (rs_city i) an_city"
    and language: "answers_with good ans (rs_language i) an_language"
    and browser: "answers_with good ans (rs_browser i) an_browser"
    and os: "answers_with good ans (rs_os i) an_os"
    and device: "answers_with good ans (rs_device i) an_device"
    and referrer_host: "answers_with good ans (rs_referrer_host i) an_referrer_host"
    and query_param: "answers_with good ans (rs_query_param i n) (\<lambda>a. an_query a n)"
    and returning: "answers_with good ans (rs_returning i) an_returning"
    and now: "answers_with good ans (rs_now i) an_now"
begin

text \<open>A continuation computes a truth value of the answers, in every good state.\<close>

definition computes :: "('s \<Rightarrow> bool \<times> 's) \<Rightarrow> (answers \<Rightarrow> bool) \<Rightarrow> bool" where
  "computes k P \<longleftrightarrow> answers_with good ans k P"

lemma computes_guard:
  assumes "answers_with good ans get f" and "computes k P"
  shows "computes (guard isset get ok k) (\<lambda>a. (isset \<longrightarrow> ok (f a)) \<and> P a)"
  unfolding computes_def answers_with_def
proof (intro allI impI)
  fix s assume s: "good s"
  obtain a s' where g: "get s = (a, s')" by (cases "get s")
  with assms(1) s have a: "a = f (ans s)" "good s'" "ans s' = ans s"
    by (force simp: answers_with_def)+
  have k: "fst (k t) = P (ans t) \<and> good (snd (k t)) \<and> ans (snd (k t)) = ans t" if "good t" for t
    using assms(2) that by (simp add: computes_def answers_with_def)
  show "fst (guard isset get ok k s) = ((isset \<longrightarrow> ok (f (ans s))) \<and> P (ans s))
      \<and> good (snd (guard isset get ok k s)) \<and> ans (snd (guard isset get ok k s)) = ans s"
    using k [OF s] k [OF a(2)] a by (simp add: guard_def g)
qed

lemma computes_return: "computes (\<lambda>s. (True, s)) (\<lambda>_. True)"
  by (simp add: computes_def answers_with_def)

lemma anyEqualFold_iff: "anyEqualFold want got \<longleftrightarrow> (\<exists>w \<in> set want. \<exists>g \<in> set got. equal_fold w g)"
  by (simp add: anyEqualFold_def list_ex_iff)

lemma matchQuery_computes: "answers_with good ans (matchQuery want pre i) (params_hold want pre)"
proof (induction want)
  case Nil
  then show ?case by (simp add: answers_with_def params_hold_def)
next
  case (Cons e want)
  obtain name vals where e: "e = (name, vals)" by (cases e)
  show ?case
    unfolding answers_with_def
  proof (intro allI impI)
    fix s assume "good s"
    obtain got s' where g: "rs_query_param i (pre @ name) s = (got, s')"
      by (cases "rs_query_param i (pre @ name) s")
    with query_param [of "pre @ name"] \<open>good s\<close>
    have s': "got = an_query (ans s) (pre @ name)" "good s'" "ans s' = ans s"
      by (force simp: answers_with_def)+
    with Cons.IH have rest: "fst (matchQuery want pre i s') = params_hold want pre (ans s)"
      "good (snd (matchQuery want pre i s'))" "ans (snd (matchQuery want pre i s')) = ans s"
      by (auto simp: answers_with_def)
    show "fst (matchQuery (e # want) pre i s) = params_hold (e # want) pre (ans s)
        \<and> good (snd (matchQuery (e # want) pre i s)) \<and> ans (snd (matchQuery (e # want) pre i s)) = ans s"
      using s' rest by (auto simp: e g params_hold_def anyEqualFold_iff)
  qed
qed

lemma matchOne_iff: "length want > 0 \<longrightarrow> matchOne want have \<longleftrightarrow> list_holds want have"
  by (auto simp: matchOne_def list_holds_def list_ex_iff)

lemma list_guard: "(length want > 0 \<longrightarrow> matchOne want have) = list_holds want have"
  by (auto simp: matchOne_def list_holds_def list_ex_iff)

lemma Match_computes: "computes (Match tzdb c i) (conditions_hold tzdb c)"
proof -
  let ?Q = "\<lambda>a.
      (length (rc_language c) > 0 \<longrightarrow> matchOne (rc_language c) (an_language a))
    \<and> (length (rc_referrer c) > 0 \<longrightarrow> matchOne (rc_referrer c) (an_referrer_host a))
    \<and> (True \<longrightarrow> params_hold (rc_query c) '''' a) \<and> (True \<longrightarrow> params_hold (rc_utm c) ''utm_'' a)
    \<and> (length (rc_device c) > 0 \<longrightarrow> matchOne (rc_device c) (an_device a))
    \<and> (length (rc_browser c) > 0 \<longrightarrow> matchOne (rc_browser c) (an_browser a))
    \<and> (length (rc_os c) > 0 \<longrightarrow> matchOne (rc_os c) (an_os a))
    \<and> (rc_time c \<noteq> None \<longrightarrow>
         (case rc_time c of Some t \<Rightarrow> time_matches tzdb t (an_now a) | None \<Rightarrow> True))
    \<and> (length (rc_country c) > 0 \<longrightarrow> matchOne (rc_country c) (an_country a))
    \<and> (length (rc_region c) > 0 \<longrightarrow> matchOne (rc_region c) (an_region a))
    \<and> (length (rc_city c) > 0 \<longrightarrow> matchOne (rc_city c) (an_city a))
    \<and> (rc_returning c \<noteq> None \<longrightarrow> rc_returning c = Some (an_returning a)) \<and> True"
  have run: "computes (Match tzdb c i) ?Q"
    unfolding Match_def
    by (rule computes_guard [OF language] computes_guard [OF referrer_host]
        computes_guard [OF matchQuery_computes] computes_guard [OF device]
        computes_guard [OF browser] computes_guard [OF os] computes_guard [OF now]
        computes_guard [OF country] computes_guard [OF region] computes_guard [OF city]
        computes_guard [OF returning] computes_return)+
  have ret: "(rc_returning c \<noteq> None \<longrightarrow> rc_returning c = Some r)
      \<longleftrightarrow> (case rc_returning c of None \<Rightarrow> True | Some r' \<Rightarrow> r = r')" for r
    by (cases "rc_returning c") auto
  have tim: "(rc_time c \<noteq> None \<longrightarrow> (case rc_time c of Some t \<Rightarrow> P t | None \<Rightarrow> True))
      \<longleftrightarrow> (case rc_time c of None \<Rightarrow> True | Some t \<Rightarrow> P t)" for P
    by (cases "rc_time c") auto
  have "?Q = conditions_hold tzdb c"
    unfolding conditions_hold_def list_guard ret tim simp_thms by (rule ext) (simp only: conj_ac)
  with run show ?thesis by (simp only:)
qed

lemma Match_correct:
  assumes "good s"
  shows "fst (Match tzdb c i s) = conditions_hold tzdb c (ans s)"
    and "good (snd (Match tzdb c i s))"
    and "ans (snd (Match tzdb c i s)) = ans s"
  using Match_computes [of tzdb c] assms by (auto simp: computes_def answers_with_def)

end

subsection \<open>Facts of the specification\<close>

lemma params_hold_mset_cong: "mset p = mset q \<Longrightarrow> params_hold p pre a = params_hold q pre a"
  by (simp add: params_hold_def flip: set_mset_mset)

lemma list_holds_blank: "list_holds want '''' \<longleftrightarrow> want = []"
  by (simp add: list_holds_def)

end
