(* ===== verification/Routing_Rules.thy ===== *)
theory Routing_Rules
  imports Routing_Match
begin

section \<open>Which rules may be stored\<close>

text \<open>
  The validation half of \<open>internal/domain/routing.go\<close>: condition sets, weights, split kinds,
  and the percentage each arm of a weighted split shows. Go visits the map literal of
  \<open>ValidateRuleConditions\<close> and the two parameter maps in an unspecified order; the model visits
  them in the order they are written, so the errors it lists are those of the code and their
  order is one the code may produce. A \<open>float64\<close> share is read as the exact quotient.
\<close>

subsection \<open>Condition sets\<close>

definition RuleConditionKinds :: "string list" where
  "RuleConditionKinds = [''country'', ''region'', ''city'', ''language'', ''browser'', ''os'',
     ''device'', ''time'', ''referrer'', ''query'', ''utm'', ''returning'']"

definition ruleDevices :: "string list" where
  "ruleDevices = [''desktop'', ''mobile'', ''tablet'', ''bot'', ''unknown'']"

definition RuleWeekdays :: "string list" where
  "RuleWeekdays = [''mon'', ''tue'', ''wed'', ''thu'', ''fri'', ''sat'', ''sun'']"

definition MaxRuleConditionValues :: nat where "MaxRuleConditionValues = 50"
definition MaxRuleValueLength :: nat where "MaxRuleValueLength = 128"

definition IsEmptyRuleConditions :: "rule_conditions \<Rightarrow> bool" where
  "IsEmptyRuleConditions c \<longleftrightarrow>
     length (rc_country c) = 0 \<and> length (rc_region c) = 0 \<and> length (rc_city c) = 0
     \<and> length (rc_language c) = 0 \<and> length (rc_browser c) = 0 \<and> length (rc_os c) = 0
     \<and> length (rc_device c) = 0 \<and> length (rc_referrer c) = 0
     \<and> length (rc_query c) = 0 \<and> length (rc_utm c) = 0
     \<and> rc_time c = None \<and> rc_returning c = None"

definition containsFold :: "string list \<Rightarrow> string \<Rightarrow> bool" where
  "containsFold xs s \<longleftrightarrow> list_ex (\<lambda>v. equal_fold v (trim_space s)) xs"

definition alpha_byte :: "char \<Rightarrow> bool" where
  "alpha_byte c \<longleftrightarrow> \<not> ((code c < 97 \<or> code c > 122) \<and> (code c < 65 \<or> code c > 90))"

definition isAlpha :: "string \<Rightarrow> bool" where
  "isAlpha s \<longleftrightarrow> list_all alpha_byte s"

definition cond_err :: "string \<Rightarrow> string \<Rightarrow> field_error" where
  "cond_err name c = field_err (''conditions.'' @ name) c"

definition country_errors :: "string list \<Rightarrow> validation_errors" where
  "country_errors isos =
     map (\<lambda>_. cond_err ''country'' ''invalid'') (filter (\<lambda>iso. length iso \<noteq> 2 \<or> \<not> isAlpha iso) isos)"

definition device_errors :: "string list \<Rightarrow> validation_errors" where
  "device_errors ds =
     map (\<lambda>_. cond_err ''device'' ''invalid'') (filter (\<lambda>d. \<not> containsFold ruleDevices d) ds)"

definition language_errors :: "string list \<Rightarrow> validation_errors" where
  "language_errors ls =
     map (\<lambda>_. cond_err ''language'' ''invalid'') (filter (\<lambda>l. l = '''' \<or> length l > 8) ls)"

definition list_bound_errors :: "string \<times> string list \<Rightarrow> validation_errors" where
  "list_bound_errors e =
     (case e of (name, xs) \<Rightarrow>
        (if length xs > MaxRuleConditionValues then [cond_err name ''too_many''] else [])
        @ (if list_ex (\<lambda>v. length v > MaxRuleValueLength) xs
           then [cond_err name ''too_long''] else []))"

definition param_errors :: "string \<times> string list \<Rightarrow> validation_errors" where
  "param_errors e =
     (case e of (name, vals) \<Rightarrow>
        (if name = '''' \<or> length name > MaxRuleValueLength
         then [cond_err ''query'' ''invalid''] else [])
        @ (if length vals > MaxRuleConditionValues then [cond_err ''query'' ''too_many''] else []))"

definition time_errors :: "zoneinfo \<Rightarrow> rule_time \<Rightarrow> validation_errors" where
  "time_errors tzdb t =
     map (\<lambda>_. cond_err ''time.days'' ''invalid'')
       (filter (\<lambda>d. \<not> containsFold RuleWeekdays d) (rt_days t))
     @ (if rt_from t \<noteq> '''' \<and> \<not> snd (parseClock (rt_from t))
        then [cond_err ''time.from'' ''invalid''] else [])
     @ (if rt_to t \<noteq> '''' \<and> \<not> snd (parseClock (rt_to t))
        then [cond_err ''time.to'' ''invalid''] else [])
     @ (if rt_tz t \<noteq> '''' \<and> tzdb (rt_tz t) = None
        then [cond_err ''time.tz'' ''invalid''] else [])
     @ (if length (rt_days t) = 0 \<and> rt_from t = '''' \<and> rt_to t = ''''
        then [cond_err ''time'' ''required''] else [])"

definition ValidateRuleConditions :: "zoneinfo \<Rightarrow> rule_conditions \<Rightarrow> validation_errors" where
  "ValidateRuleConditions tzdb c =
     (if IsEmptyRuleConditions c then [cond_err '''' ''required'']
      else
        country_errors (rc_country c) @ device_errors (rc_device c)
        @ language_errors (rc_language c)
        @ concat (map list_bound_errors
            [(''country'', rc_country c), (''region'', rc_region c), (''city'', rc_city c),
             (''language'', rc_language c), (''browser'', rc_browser c), (''os'', rc_os c),
             (''device'', rc_device c), (''referrer'', rc_referrer c)])
        @ concat (map param_errors (rc_query c)) @ concat (map param_errors (rc_utm c))
        @ (case rc_time c of None \<Rightarrow> [] | Some t \<Rightarrow> time_errors tzdb t))"

subsection \<open>Split tests\<close>

definition RuleKindMatch :: string where "RuleKindMatch = ''match''"
definition RuleKindWeighted :: string where "RuleKindWeighted = ''weighted''"
definition RuleKindSequential :: string where "RuleKindSequential = ''sequential''"
definition RuleKindFallback :: string where "RuleKindFallback = ''fallback''"

lemmas kind_defs = RuleKindMatch_def RuleKindWeighted_def RuleKindSequential_def
  RuleKindFallback_def

definition IsVariantKind :: "string \<Rightarrow> bool" where
  "IsVariantKind kind \<longleftrightarrow>
     (if kind = RuleKindWeighted \<or> kind = RuleKindSequential \<or> kind = RuleKindFallback
      then True else False)"

definition MaxDestinationWeight :: int where "MaxDestinationWeight = 10000"
definition MaxVariantsPerLink :: nat where "MaxVariantsPerLink = 8"
definition MaxRulesPerLink :: nat where "MaxRulesPerLink = 20"

record variant =
  v_id :: uuid
  v_link_id :: uuid
  v_kind :: string
  v_url :: string
  v_weight :: int32
  v_share :: rat
  v_enabled :: bool
  v_position :: int32
  v_created_at :: instant
  v_updated_at :: instant

definition ValidateWeight :: "int32 \<Rightarrow> validation_errors" where
  "ValidateWeight weight =
     (if sint weight < 0 \<or> sint weight > MaxDestinationWeight
      then [field_err ''weight'' ''out_of_range''] else [])"

definition ValidateSplitKind :: "string \<Rightarrow> string \<Rightarrow> validation_errors" where
  "ValidateSplitKind kind existing =
     (if kind \<noteq> RuleKindWeighted \<and> kind \<noteq> RuleKindSequential
      then [field_err ''kind'' ''unsupported'']
      else if existing \<noteq> '''' \<and> existing \<noteq> kind then [field_err ''kind'' ''conflict'']
      else [])"

fun enabled_total :: "int32 \<Rightarrow> variant list \<Rightarrow> int32" where
  "enabled_total tot [] = tot"
| "enabled_total tot (v # vs) =
     enabled_total (if v_enabled v then tot + v_weight v else tot) vs"

definition Shares :: "string \<Rightarrow> variant list \<Rightarrow> variant list" where
  "Shares kind variants =
     (if kind \<noteq> RuleKindWeighted then variants
      else let tot = enabled_total 0 variants in
           if sint tot \<le> 0 then variants
           else map (\<lambda>v. if v_enabled v
                         then v\<lparr>v_share := of_int (sint (v_weight v)) * 100 / of_int (sint tot)\<rparr>
                         else v) variants)"

subsection \<open>Lemmas on condition sets\<close>

lemma parseClock_range:
  assumes "parseClock s = (m, True)"
  shows "0 \<le> m \<and> m < 24 * 60"
proof -
  obtain h mm ok where c: "cut (CHR '':'') (trim_space s) = (h, mm, ok)"
    by (cases "cut (CHR '':'') (trim_space s)")
  note step = assms [unfolded parseClock_def Let_def] c
  have ok: "trim_space s \<noteq> []" ok
    using step by (cases "trim_space s = []"; cases ok; simp)+
  then obtain hi where hi: "atoi h = Some hi" using step by (cases "atoi h"; simp)
  have hb: "\<not> (hi < 0 \<or> hi > 23)" using step ok hi by (cases "hi < 0 \<or> hi > 23"; simp)
  obtain mi where mi: "atoi mm = Some mi" using step ok hi hb by (cases "atoi mm"; simp)
  have mb: "\<not> (mi < 0 \<or> mi > 59)" using step ok hi hb mi by (cases "mi < 0 \<or> mi > 59"; simp)
  have "m = hi * 60 + mi" using step ok hi hb mi mb by simp
  with hb mb show ?thesis by simp
qed

lemma clock_bounds:
  "0 \<le> clock_hour z now \<and> clock_hour z now \<le> 23"
  "0 \<le> clock_minute z now \<and> clock_minute z now \<le> 59"
proof -
  have split: "0 \<le> (x mod k) div q \<and> (x mod k) div q < n" if "0 < q" "k = n * q" "0 < k" for x k q n :: int
  proof -
    have "0 \<le> x mod k" "x mod k < n * q" using that by auto
    moreover have "0 \<le> x mod k mod q" using that(1) by simp
    ultimately have "q * (x mod k div q) < q * n"
      using mult_div_mod_eq [of q "x mod k"] mult.commute [of q n] by linarith
    with \<open>0 < q\<close> \<open>0 \<le> x mod k\<close> show ?thesis
      by (simp add: pos_imp_zdiv_nonneg_iff)
  qed
  show "0 \<le> clock_hour z now \<and> clock_hour z now \<le> 23"
    using split [of 3600 86400 24 "local_second z now"] by (simp add: clock_hour_def)
  show "0 \<le> clock_minute z now \<and> clock_minute z now \<le> 59"
    using split [of 60 3600 60 "local_second z now"] by (simp add: clock_minute_def)
qed

lemma location_memo_load:
  "location_memo tzdb locs t =
     (if rt_tz t = '''' then (utc, locs)
      else case locs (rt_tz t) of
             Some loc \<Rightarrow> (loc, locs)
           | None \<Rightarrow> (load_location tzdb (rt_tz t), locs(rt_tz t \<mapsto> load_location tzdb (rt_tz t))))"
  by (auto simp: location_memo_def load_location_def Let_def split: option.splits)

lemma location_memo_coherent:
  assumes "\<forall>name z. locs name = Some z \<longrightarrow> z = load_location tzdb name"
  shows "fst (location_memo tzdb locs t) = location tzdb t"
    and "\<forall>name z. snd (location_memo tzdb locs t) name = Some z \<longrightarrow> z = load_location tzdb name"
  using assms
  by (auto simp: location_memo_load location_def split: option.splits)

lemma ValidateRuleConditions_nonempty:
  "ValidateRuleConditions tzdb c = [] \<Longrightarrow> \<not> IsEmptyRuleConditions c"
  by (auto simp: ValidateRuleConditions_def)

lemma ValidateRuleConditions_time:
  "ValidateRuleConditions tzdb c = [] \<Longrightarrow> rc_time c = Some t \<Longrightarrow> time_errors tzdb t = []"
  by (auto simp: ValidateRuleConditions_def split: if_splits)

subsection \<open>Lemmas on weights\<close>

lemma sint_add_small:
  fixes a b :: int32
  assumes "0 \<le> sint a" "0 \<le> sint b" "sint a + sint b < 2 ^ 31"
  shows "sint (a + b) = sint a + sint b"
  using assms by (simp add: sint_word_ariths signed_take_bit_int_eq_self)

definition enabled_sum :: "variant list \<Rightarrow> int" where
  "enabled_sum vs = sum_list (map (\<lambda>v. sint (v_weight v)) (filter v_enabled vs))"

lemma enabled_sum_nonneg:
  "\<forall>v \<in> set vs. ValidateWeight (v_weight v) = [] \<Longrightarrow> 0 \<le> enabled_sum vs"
  unfolding enabled_sum_def
  by (rule sum_list_nonneg) (auto simp: ValidateWeight_def split: if_splits)

lemma enabled_sum_bound:
  "\<forall>v \<in> set vs. ValidateWeight (v_weight v) = [] \<Longrightarrow> enabled_sum vs \<le> int (length vs) * 10000"
  unfolding enabled_sum_def
  by (induction vs) (auto simp: ValidateWeight_def MaxDestinationWeight_def algebra_simps split: if_splits)

lemma enabled_total_exact:
  assumes "\<forall>v \<in> set vs. ValidateWeight (v_weight v) = []"
    and "0 \<le> sint t" and "sint t + enabled_sum vs < 2 ^ 31"
  shows "sint (enabled_total t vs) = sint t + enabled_sum vs"
  using assms
proof (induction vs arbitrary: t)
  case Nil
  then show ?case by (simp add: enabled_sum_def)
next
  case (Cons v vs)
  have w: "0 \<le> sint (v_weight v)" and nn: "0 \<le> enabled_sum vs"
    using Cons.prems(1) enabled_sum_nonneg [of vs] by (auto simp: ValidateWeight_def split: if_splits)
  show ?case
  proof (cases "v_enabled v")
    case True
    have "enabled_sum (v # vs) = sint (v_weight v) + enabled_sum vs"
      using True by (simp add: enabled_sum_def)
    moreover from this have "sint (t + v_weight v) = sint t + sint (v_weight v)"
      using Cons.prems(2,3) w nn by (intro sint_add_small) auto
    ultimately show ?thesis using Cons.IH [of "t + v_weight v"] Cons.prems w True by simp
  next
    case False
    then have "enabled_sum (v # vs) = enabled_sum vs" by (simp add: enabled_sum_def)
    with False show ?thesis using Cons.IH [of t] Cons.prems by simp
  qed
qed

lemma sum_list_divide_rat: "sum_list (map (\<lambda>v. f v / (d::rat)) vs) = sum_list (map f vs) / d"
  by (induction vs) (simp_all add: add_divide_distrib)

lemma sum_list_of_int_mult: "sum_list (map (\<lambda>v. of_int (f v) * (c::rat)) vs) = of_int (sum_list (map f vs)) * c"
  by (induction vs) (simp_all add: algebra_simps)

subsection \<open>Properties\<close>

lemma map_filter_shares:
  "map v_share (filter v_enabled (map (\<lambda>v. if v_enabled v then v\<lparr>v_share := f v\<rparr> else v) vs))
     = map f (filter v_enabled vs)"
  by (induction vs) simp_all

text \<open>Shares of a weighted split: for arms whose weights \<open>ValidateWeight\<close> accepts and few enough
  that the 32-bit total cannot wrap (\<open>MaxVariantsPerLink\<close> is 8), the shares of the enabled arms add
  up to 100 unless every enabled weight is zero, and each lies between 0 and 100.\<close>

theorem Shares_sum_to_100:
  assumes "\<forall>v \<in> set vs. ValidateWeight (v_weight v) = []" "length vs \<le> 200000"
    and "\<exists>v \<in> set vs. v_enabled v \<and> v_weight v \<noteq> 0"
  shows "sum_list (map v_share (filter v_enabled (Shares RuleKindWeighted vs))) = 100
    \<and> (\<forall>v \<in> set (Shares RuleKindWeighted vs). v_enabled v \<longrightarrow> 0 \<le> v_share v \<and> v_share v \<le> 100)"
proof -
  let ?T = "enabled_sum vs"
  have bound: "?T < 2 ^ 31" using enabled_sum_bound [OF assms(1)] assms(2) by simp
  have exact: "sint (enabled_total 0 vs) = ?T"
    using enabled_total_exact [OF assms(1), of 0] bound by simp
  have w: "0 \<le> sint (v_weight v)" if "v \<in> set vs" for v
    using assms(1) that by (auto simp: ValidateWeight_def split: if_splits)
  have le: "sint (v_weight v) \<le> ?T" if "v \<in> set vs" "v_enabled v" for v
    unfolding enabled_sum_def
    by (rule member_le_sum_list) (use that w in \<open>auto simp: image_iff\<close>)
  obtain u where u: "u \<in> set vs" "v_enabled u" "v_weight u \<noteq> 0" using assms(3) by blast
  then have "sint (v_weight u) \<noteq> 0" by (simp add: signed_eq_0_iff)
  with w [OF u(1)] le [OF u(1,2)] have pos: "0 < ?T" by linarith
  let ?f = "\<lambda>v. if v_enabled v then v\<lparr>v_share := of_int (sint (v_weight v)) * 100 / of_int ?T\<rparr> else v"
  have S: "Shares RuleKindWeighted vs = map ?f vs"
    using pos by (simp add: Shares_def exact)
  have "map v_share (filter v_enabled (map ?f vs))
      = map (\<lambda>v. of_int (sint (v_weight v)) * 100 / of_int ?T) (filter v_enabled vs)"
    by (rule map_filter_shares)
  then have "sum_list (map v_share (filter v_enabled (map ?f vs))) = of_int ?T * 100 / of_int ?T"
    unfolding \<open>map v_share _ = _\<close> by (simp only: sum_list_divide_rat sum_list_of_int_mult enabled_sum_def)
  moreover have "0 \<le> v_share v \<and> v_share v \<le> 100"
    if "v \<in> set (map ?f vs)" "v_enabled v" for v
  proof -
    obtain v0 where v0: "v0 \<in> set vs" "v_enabled v0"
        "v_share v = of_int (sint (v_weight v0)) * 100 / of_int ?T"
      using \<open>v \<in> set (map ?f vs)\<close> \<open>v_enabled v\<close> by (auto split: if_splits)
    define r where "r = (of_int (sint (v_weight v0)) :: rat)"
    have "r \<le> of_int ?T" "0 \<le> r"
      unfolding r_def using le [OF v0(1,2)] w [OF v0(1)] by (simp_all only: of_int_le_iff of_int_0_le_iff)
    moreover have "v_share v = r * 100 / of_int ?T" using v0(3) by (simp only: r_def)
    ultimately show ?thesis using pos by (simp add: divide_le_eq)
  qed
  ultimately show ?thesis using pos unfolding S by auto
qed

definition arm :: "int32 \<Rightarrow> bool \<Rightarrow> variant" where
  "arm w e = \<lparr>v_id = 0, v_link_id = 0, v_kind = RuleKindWeighted, v_url = '''', v_weight = w,
     v_share = 0, v_enabled = e, v_position = 0, v_created_at = 0, v_updated_at = 0\<rparr>"

theorem Shares_sum_to_100_witness:
  "sum_list (map v_share (filter v_enabled (Shares RuleKindWeighted [arm 3 True, arm 7 False, arm 1 True]))) = 100"
  by (rule Shares_sum_to_100 [THEN conjunct1]) (simp_all add: arm_def ValidateWeight_def MaxDestinationWeight_def)

text \<open>The daily window: two rules whose windows are each other's complement (\<open>from\<close> and \<open>to\<close>
  exchanged, both valid and different clocks, no days, one zone) split every instant between them,
  over midnight included: exactly one of them matches.\<close>

theorem time_windows_partition:
  assumes "parseClock x = (a, True)" "parseClock y = (b, True)" "a \<noteq> b"
  shows "time_matches tzdb \<lparr>rt_days = [], rt_from = x, rt_to = y, rt_tz = tz\<rparr> now
     \<longleftrightarrow> \<not> time_matches tzdb \<lparr>rt_days = [], rt_from = y, rt_to = x, rt_tz = tz\<rparr> now"
proof -
  have "trim_space '''' = ''''" using set_trim_space [of "''''"] by simp
  then have "parseClock '''' = (0, False)" by (simp add: parseClock_def)
  with assms(1,2) have "x \<noteq> ''''" "y \<noteq> ''''" by auto
  let ?z = "location tzdb \<lparr>rt_days = [], rt_from = x, rt_to = y, rt_tz = tz\<rparr>"
  have z: "location tzdb \<lparr>rt_days = [], rt_from = y, rt_to = x, rt_tz = tz\<rparr> = ?z"
    by (simp add: location_def)
  show ?thesis
    using assms \<open>x \<noteq> ''''\<close> \<open>y \<noteq> ''''\<close> by (auto simp: time_matches_def z Let_def)
qed

theorem time_windows_partition_witness:
  "time_matches Map.empty \<lparr>rt_days = [], rt_from = ''22:00'', rt_to = ''06:30'', rt_tz = ''''\<rparr> 0
     \<longleftrightarrow> \<not> time_matches Map.empty \<lparr>rt_days = [], rt_from = ''06:30'', rt_to = ''22:00'', rt_tz = ''''\<rparr> 0"
  by (rule time_windows_partition [where a = 1320 and b = 390]) code_simp+

end
