(* ===== verification/Snapshot.thy ===== *)
theory Snapshot
  imports Routing_Match Routing_Rules
begin

section \<open>The cached snapshot of a link\<close>

text \<open>
  \<open>internal/redirect/snapshot.go\<close>: what the redirect path caches of a link, and the decisions it
  takes from it alone. A \<open>*Snapshot\<close> receiver may be nil, which is \<open>None\<close>; \<open>Choice\<close> with its \<open>ok\<close>
  flag is an option. \<open>encode\<close> and \<open>decodeSnapshot\<close> are \<open>encoding/json\<close>.
\<close>

record snapshot_dest =
  sd_id :: uuid
  sd_url :: string
  sd_weight :: int32

record snapshot_rule =
  sr_dest :: int
  sr_cond :: rule_conditions
  sr_kind :: string

record snapshot =
  sn_link_id :: uuid
  sn_workspace_id :: uuid
  sn_url :: string
  sn_status :: string
  sn_expires_at :: "instant option"
  sn_forward_query :: bool
  sn_has_password :: bool
  sn_max_clicks :: "int64 option"
  sn_one_time :: bool
  sn_require_signature :: bool
  sn_destinations :: "snapshot_dest list"
  sn_rules :: "snapshot_rule list"
  sn_forward_path :: bool
  sn_bot_policy :: string
  sn_domain_bot_policy :: string
  sn_codes :: "string list"
  sn_not_found :: bool

definition zero_snapshot :: snapshot where
  "zero_snapshot =
     \<lparr>sn_link_id = uuid_nil, sn_workspace_id = uuid_nil, sn_url = '''', sn_status = '''',
      sn_expires_at = None, sn_forward_query = False, sn_has_password = False,
      sn_max_clicks = None, sn_one_time = False, sn_require_signature = False,
      sn_destinations = [], sn_rules = [], sn_forward_path = False, sn_bot_policy = '''',
      sn_domain_bot_policy = '''', sn_codes = [], sn_not_found = False\<rparr>"

definition notFoundSnapshot :: snapshot where
  "notFoundSnapshot = zero_snapshot\<lparr>sn_not_found := True\<rparr>"

definition CodeSlug :: "snapshot \<Rightarrow> string \<Rightarrow> string" where
  "CodeSlug s raw =
     (if raw = '''' \<or> \<not> ValidQRCodeSlug raw then ''''
      else case find (\<lambda>slug. slug = raw) (sn_codes s) of Some slug \<Rightarrow> slug | None \<Rightarrow> '''')"

definition KindOf :: "snapshot_rule \<Rightarrow> string" where
  "KindOf r = (if sr_kind r = '''' then RuleKindMatch else sr_kind r)"

record Choice =
  ch_url :: string
  ch_id :: uuid

definition zero_choice :: Choice where
  "zero_choice = \<lparr>ch_url = '''', ch_id = uuid_nil\<rparr>"

definition destAt :: "snapshot \<Rightarrow> int \<Rightarrow> Choice option" where
  "destAt s i =
     (if i < 0 \<or> i \<ge> int (length (sn_destinations s)) then None
      else let d = sn_destinations s ! nat i in
        if sd_url d = '''' then None else Some \<lparr>ch_url = sd_url d, ch_id = sd_id d\<rparr>)"

subsection \<open>Rules, split arms and the fallback\<close>

fun route_rules :: "zoneinfo \<Rightarrow> snapshot \<Rightarrow> 's rule_subject \<Rightarrow> snapshot_rule list \<Rightarrow> 's
    \<Rightarrow> Choice option \<times> 's" where
  "route_rules tzdb s i [] st = (None, st)"
| "route_rules tzdb s i (r # rs) st =
     (if KindOf r \<noteq> RuleKindMatch then route_rules tzdb s i rs st
      else case Match tzdb (sr_cond r) i st of
             (False, st') \<Rightarrow> route_rules tzdb s i rs st'
           | (True, st') \<Rightarrow>
               (case destAt s (sr_dest r) of
                  None \<Rightarrow> route_rules tzdb s i rs st'
                | Some dest \<Rightarrow> (Some dest, st')))"

definition Route :: "zoneinfo \<Rightarrow> snapshot option \<Rightarrow> 's rule_subject \<Rightarrow> 's \<Rightarrow> Choice option \<times> 's" where
  "Route tzdb so i st =
     (case so of
        None \<Rightarrow> (None, st)
      | Some s \<Rightarrow> if length (sn_rules s) = 0 then (None, st) else route_rules tzdb s i (sn_rules s) st)"

fun split_rules :: "snapshot \<Rightarrow> snapshot_rule list \<Rightarrow> string \<Rightarrow> Choice list \<Rightarrow> string \<times> Choice list" where
  "split_rules s [] kind arms = (kind, arms)"
| "split_rules s (r # rs) kind arms =
     (let k = KindOf r in
      if k \<noteq> RuleKindWeighted \<and> k \<noteq> RuleKindSequential then split_rules s rs kind arms
      else case destAt s (sr_dest r) of
             None \<Rightarrow> split_rules s rs kind arms
           | Some dest \<Rightarrow>
               let kind' = (if kind = '''' then k else kind) in
               if k \<noteq> kind' then split_rules s rs kind' arms
               else split_rules s rs kind' (arms @ [dest]))"

definition Split :: "snapshot option \<Rightarrow> string \<times> Choice list" where
  "Split so =
     (case so of
        None \<Rightarrow> ('''', [])
      | Some s \<Rightarrow>
          if length (sn_rules s) = 0 then ('''', [])
          else case split_rules s (sn_rules s) '''' [] of
                 (kind, arms) \<Rightarrow> if length arms = 0 then ('''', []) else (kind, arms))"

definition Weights :: "snapshot \<Rightarrow> Choice list \<Rightarrow> int32 list" where
  "Weights s arms =
     map (\<lambda>a. case find (\<lambda>d. sd_id d = ch_id a) (sn_destinations s) of
                Some d \<Rightarrow> sd_weight d | None \<Rightarrow> 0) arms"

fun fallback_rules :: "snapshot \<Rightarrow> snapshot_rule list \<Rightarrow> Choice option" where
  "fallback_rules s [] = None"
| "fallback_rules s (r # rs) =
     (if KindOf r \<noteq> RuleKindFallback then fallback_rules s rs
      else case destAt s (sr_dest r) of Some dest \<Rightarrow> Some dest | None \<Rightarrow> fallback_rules s rs)"

definition Fallback :: "snapshot option \<Rightarrow> Choice option" where
  "Fallback so =
     (case so of
        None \<Rightarrow> None
      | Some s \<Rightarrow> if length (sn_rules s) = 0 then None else fallback_rules s (sn_rules s))"

definition RuleNeeds :: "snapshot option \<Rightarrow> rule_needs" where
  "RuleNeeds so =
     (case so of
        None \<Rightarrow> no_needs
      | Some s \<Rightarrow>
          if length (sn_rules s) = 0 then no_needs
          else NeedsOf (map sr_cond (filter (\<lambda>r. KindOf r = RuleKindMatch) (sn_rules s))))"

subsection \<open>Decisions\<close>

datatype Outcome = OutcomeRedirect | OutcomeNotFound | OutcomeGone

definition Gated :: "snapshot option \<Rightarrow> bool" where
  "Gated so =
     (case so of
        None \<Rightarrow> False
      | Some s \<Rightarrow> sn_has_password s \<or> sn_require_signature s \<or> sn_one_time s \<or> sn_max_clicks s \<noteq> None)"

definition expired_at :: "snapshot \<Rightarrow> instant \<Rightarrow> bool" where
  "expired_at s now \<longleftrightarrow> (case sn_expires_at s of None \<Rightarrow> False | Some t \<Rightarrow> \<not> now < t)"

definition Decide :: "snapshot option \<Rightarrow> instant \<Rightarrow> Outcome" where
  "Decide so now =
     (case so of
        None \<Rightarrow> OutcomeNotFound
      | Some s \<Rightarrow>
          if sn_not_found s then OutcomeNotFound
          else if expired_at s now then OutcomeGone
          else if sn_status s = ''expired'' then OutcomeGone
          else if sn_status s \<noteq> ''active'' then OutcomeNotFound
          else OutcomeRedirect)"

text \<open>\<open>time.Time.Sub\<close> saturates at the bounds of a 64-bit \<open>Duration\<close>.\<close>

definition time_sub :: "instant \<Rightarrow> instant \<Rightarrow> duration" where
  "time_sub t u = max (- (2 ^ 63)) (min (2 ^ 63 - 1) (t - u))"

definition CacheTTL :: "snapshot option \<Rightarrow> instant \<Rightarrow> duration \<Rightarrow> duration \<Rightarrow> duration" where
  "CacheTTL so now base negative =
     (let negative_ttl = (if negative < second_ns then second_ns else negative) in
      case so of
        None \<Rightarrow> negative_ttl
      | Some s \<Rightarrow>
          if sn_not_found s then negative_ttl
          else
            let ttl = (case sn_expires_at s of
                         None \<Rightarrow> base
                       | Some t \<Rightarrow> if time_sub t now < base then time_sub t now else base)
            in if ttl < second_ns then second_ns else ttl)"

subsection \<open>Lemmas\<close>

lemma destAt_member:
  "destAt s i = Some c \<Longrightarrow> ch_url c \<noteq> '''' \<and> (\<exists>d \<in> set (sn_destinations s). sd_url d = ch_url c \<and> sd_id d = ch_id c)"
  by (fastforce simp: destAt_def Let_def split: if_splits)

lemma route_rules_dest:
  "route_rules tzdb s i rs st = (Some c, st') \<Longrightarrow> \<exists>r \<in> set rs. KindOf r = RuleKindMatch \<and> destAt s (sr_dest r) = Some c"
proof (induction rs arbitrary: st)
  case (Cons r rs)
  show ?case
  proof (cases "KindOf r = RuleKindMatch")
    case True
    obtain b st1 where m: "Match tzdb (sr_cond r) i st = (b, st1)" by fastforce
    show ?thesis
      using Cons True m by (cases b; cases "destAt s (sr_dest r)") auto
  qed (use Cons in auto)
qed simp

definition usable_arm :: "snapshot \<Rightarrow> snapshot_rule \<Rightarrow> bool" where
  "usable_arm s r \<longleftrightarrow> (KindOf r = RuleKindWeighted \<or> KindOf r = RuleKindSequential) \<and> destAt s (sr_dest r) \<noteq> None"

definition arm_dest :: "snapshot \<Rightarrow> snapshot_rule \<Rightarrow> Choice" where
  "arm_dest s r = (case destAt s (sr_dest r) of Some c \<Rightarrow> c | None \<Rightarrow> zero_choice)"

lemma split_rules_kind:
  "kind \<noteq> '''' \<Longrightarrow> split_rules s rs kind arms
     = (kind, arms @ map (arm_dest s) (filter (\<lambda>r. usable_arm s r \<and> KindOf r = kind) rs))"
  by (induction rs arbitrary: arms) (auto simp: usable_arm_def arm_dest_def Let_def split: option.splits)

lemma split_rules_start:
  "split_rules s rs '''' arms =
     (case filter (usable_arm s) rs of
        [] \<Rightarrow> ('''', arms)
      | r # _ \<Rightarrow> (KindOf r, arms @ map (arm_dest s) (filter (\<lambda>x. usable_arm s x \<and> KindOf x = KindOf r) rs)))"
proof (induction rs arbitrary: arms)
  case (Cons r rs)
  show ?case
  proof (cases "usable_arm s r")
    case True
    then obtain dest where d: "destAt s (sr_dest r) = Some dest"
      and k: "KindOf r = RuleKindWeighted \<or> KindOf r = RuleKindSequential"
      by (auto simp: usable_arm_def)
    then have ne: "KindOf r \<noteq> ''''" by (auto simp: kind_defs)
    have "split_rules s (r # rs) '''' arms = split_rules s rs (KindOf r) (arms @ [dest])"
      using d k by (auto simp: Let_def)
    then show ?thesis
      using True d by (simp add: split_rules_kind [OF ne] arm_dest_def)
  next
    case False
    then have "split_rules s (r # rs) '''' arms = split_rules s rs '''' arms"
      by (auto simp: usable_arm_def Let_def)
    with False Cons.IH show ?thesis by (simp split: list.splits)
  qed
qed simp

lemma fallback_rules_dest:
  "fallback_rules s rs = Some c \<Longrightarrow> \<exists>r \<in> set rs. KindOf r = RuleKindFallback \<and> destAt s (sr_dest r) = Some c"
  by (induction rs) (auto split: if_splits option.splits)

lemma NeedsOf_loop_fields:
  "rn_country (NeedsOf_loop n cs) \<longleftrightarrow> rn_country n \<or> (\<exists>c \<in> set cs. rc_country c \<noteq> [])"
  "rn_region (NeedsOf_loop n cs) \<longleftrightarrow> rn_region n \<or> (\<exists>c \<in> set cs. rc_region c \<noteq> [])"
  "rn_city (NeedsOf_loop n cs) \<longleftrightarrow> rn_city n \<or> (\<exists>c \<in> set cs. rc_city c \<noteq> [])"
  "rn_user_agent (NeedsOf_loop n cs) \<longleftrightarrow> rn_user_agent n
     \<or> (\<exists>c \<in> set cs. rc_device c \<noteq> [] \<or> rc_browser c \<noteq> [] \<or> rc_os c \<noteq> [])"
  "rn_returning (NeedsOf_loop n cs) \<longleftrightarrow> rn_returning n \<or> (\<exists>c \<in> set cs. rc_returning c \<noteq> None)"
  by (induction n cs rule: NeedsOf_loop.induct) auto

subsection \<open>Properties\<close>

text \<open>The redirect path and the management surfaces agree on a link's status: \<open>Decide\<close> answers
  gone exactly when \<open>EffectiveStatus\<close> says expired and redirects exactly when it says active.\<close>

theorem Decide_agrees_with_EffectiveStatus:
  assumes "\<not> sn_not_found s"
  shows "Decide (Some s) now =
     (let status = EffectiveStatus (sn_status s) (sn_expires_at s) now in
      if status = StatusExpired then OutcomeGone
      else if status = StatusActive then OutcomeRedirect else OutcomeNotFound)"
  using assms
  by (cases "sn_expires_at s")
    (auto simp: Decide_def EffectiveStatus_def expired_at_def status_defs Let_def)

definition live_snapshot :: "instant option \<Rightarrow> snapshot" where
  "live_snapshot e = zero_snapshot\<lparr>sn_url := ''https://example.com/'', sn_status := ''active'', sn_expires_at := e\<rparr>"

theorem Decide_agrees_with_EffectiveStatus_witness:
  "Decide (Some (live_snapshot (Some 5))) 5 =
     (let status = EffectiveStatus (sn_status (live_snapshot (Some 5))) (sn_expires_at (live_snapshot (Some 5))) 5 in
      if status = StatusExpired then OutcomeGone
      else if status = StatusActive then OutcomeRedirect else OutcomeNotFound)"
  by (rule Decide_agrees_with_EffectiveStatus) (simp add: live_snapshot_def zero_snapshot_def)

text \<open>A cache entry never outlives what it describes: its time to live is at least one second (a
  zero would be no expiry at all), at most the configured base (or that second), and a link that
  expires is dropped no later than its expiry or one second from now, whichever is later.\<close>

theorem CacheTTL_bounds:
  assumes "so = Some s" "\<not> sn_not_found s" "sn_expires_at s = Some t" "now - t \<le> 2 ^ 63"
  shows "second_ns \<le> CacheTTL so now base negative
    \<and> CacheTTL so now base negative \<le> max second_ns base
    \<and> now + CacheTTL so now base negative \<le> max t (now + second_ns)"
  using assms by (auto simp: CacheTTL_def Let_def time_sub_def second_ns_def)

theorem CacheTTL_bounds_witness:
  "0 + CacheTTL (Some (live_snapshot (Some (5 * second_ns)))) 0 (3600 * second_ns) second_ns
     \<le> max (5 * second_ns) (0 + second_ns)"
  by (rule CacheTTL_bounds [OF refl, THEN conjunct2, THEN conjunct2]) (auto simp: live_snapshot_def zero_snapshot_def second_ns_def)

lemma chosen_listed:
  "(fst (Route tzdb (Some s) i st) = Some c \<or> Fallback (Some s) = Some c \<or> c \<in> set (snd (Split (Some s)))
     \<longrightarrow> ch_url c \<noteq> '''' \<and> (\<exists>d \<in> set (sn_destinations s). sd_url d = ch_url c \<and> sd_id d = ch_id c))
   \<and> (c \<in> set (snd (Split (Some s))) \<longrightarrow>
        (\<exists>r \<in> set (sn_rules s). KindOf r = fst (Split (Some s)) \<and> destAt s (sr_dest r) = Some c))"
proof -
  have arms: "\<exists>r \<in> set (sn_rules s). KindOf r = fst (Split (Some s)) \<and> destAt s (sr_dest r) = Some c"
    if "c \<in> set (snd (Split (Some s)))"
    using that
    by (cases "filter (usable_arm s) (sn_rules s)")
      (auto simp: Split_def split_rules_start arm_dest_def usable_arm_def split: if_splits)
  have route: "\<exists>j. destAt s j = Some c" if "fst (Route tzdb (Some s) i st) = Some c"
    using that route_rules_dest [of tzdb s i "sn_rules s" st c]
    by (cases "route_rules tzdb s i (sn_rules s) st") (auto simp: Route_def split: if_splits)
  have fb: "\<exists>j. destAt s j = Some c" if "Fallback (Some s) = Some c"
    using that fallback_rules_dest [of s "sn_rules s" c] by (auto simp: Fallback_def split: if_splits)
  show ?thesis using arms route fb destAt_member by blast
qed

text \<open>Whatever a cached payload holds, a rule, a split arm or a fallback only ever sends a
  visitor to a destination the payload lists, with a URL that is not empty and the id of that same
  entry; and all the arms of a split come from rules of the one kind it reports.\<close>

theorem choices_are_listed_destinations:
  "(fst (Route tzdb (Some s) i st) = Some c \<or> Fallback (Some s) = Some c \<or> c \<in> set (snd (Split (Some s)))
     \<longrightarrow> ch_url c \<noteq> '''' \<and> (\<exists>d \<in> set (sn_destinations s). sd_url d = ch_url c \<and> sd_id d = ch_id c))
   \<and> (c \<in> set (snd (Split (Some s))) \<longrightarrow>
        (\<exists>r \<in> set (sn_rules s). KindOf r = fst (Split (Some s)) \<and> destAt s (sr_dest r) = Some c))"
  by (rule chosen_listed)

definition split_snapshot :: snapshot where
  "split_snapshot = (live_snapshot None)
     \<lparr>sn_destinations := [\<lparr>sd_id = 7, sd_url = ''https://a.example/'', sd_weight = 10\<rparr>],
      sn_rules := [\<lparr>sr_dest = 0, sr_cond = no_conditions, sr_kind = RuleKindWeighted\<rparr>,
                   \<lparr>sr_dest = 3, sr_cond = no_conditions, sr_kind = RuleKindWeighted\<rparr>]\<rparr>"

lemma split_snapshot_arms: "Split (Some split_snapshot) = (RuleKindWeighted, [\<lparr>ch_url = ''https://a.example/'', ch_id = 7\<rparr>])"
  by (simp add: Split_def split_snapshot_def live_snapshot_def zero_snapshot_def Let_def KindOf_def kind_defs destAt_def)

theorem choices_are_listed_destinations_witness:
  "\<exists>d \<in> set (sn_destinations split_snapshot). sd_url d = ch_url \<lparr>ch_url = ''https://a.example/'', ch_id = 7\<rparr>
     \<and> sd_id d = ch_id \<lparr>ch_url = ''https://a.example/'', ch_id = 7\<rparr>"
  by (rule choices_are_listed_destinations [THEN conjunct1, THEN mp, THEN conjunct2])
    (simp add: split_snapshot_arms)

end
