(* ===== verification/NetUrl.thy ===== *)
theory NetUrl
  imports GoString "HOL-Library.Char_ord" "HOL-Library.List_Lexorder"
begin

section \<open>Query strings and percent escapes\<close>

text \<open>
  The part of Go's \<open>net/url\<close> the redirect path uses on query strings and path segments:
  \<open>QueryUnescape\<close>, \<open>PathUnescape\<close>, \<open>QueryEscape\<close>, \<open>ParseQuery\<close> with the values map and \<open>Values.Encode\<close>.
  A values map is the list of its pairs in order of addition; the values of a key are those of its
  pairs, in that order. \<open>ParseQuery\<close> keeps what it could parse and reports whether anything failed.
\<close>

definition is_hex :: "char \<Rightarrow> bool" where
  "is_hex c \<longleftrightarrow> is_digit c \<or> 97 \<le> code c \<and> code c \<le> 102 \<or> 65 \<le> code c \<and> code c \<le> 70"

definition unhex :: "char \<Rightarrow> nat" where
  "unhex c =
     (if is_digit c then code c - 48
      else if 97 \<le> code c then code c - 97 + 10
      else code c - 65 + 10)"

definition hex_digit :: "nat \<Rightarrow> char" where
  "hex_digit n = ''0123456789ABCDEF'' ! n"

fun unescape :: "bool \<Rightarrow> string \<Rightarrow> string option" where
  "unescape query [] = Some []"
| "unescape query (c # cs) =
     (if c = CHR ''%'' then
        (case cs of
           a # b # rest \<Rightarrow>
             if is_hex a \<and> is_hex b
             then map_option (Cons (char_of (16 * unhex a + unhex b))) (unescape query rest)
             else None
         | _ \<Rightarrow> None)
      else map_option (Cons (if query \<and> c = CHR ''+'' then CHR '' '' else c)) (unescape query cs))"

definition QueryUnescape :: "string \<Rightarrow> string option" where
  "QueryUnescape s = unescape True s"

definition PathUnescape :: "string \<Rightarrow> string option" where
  "PathUnescape s = unescape False s"

definition query_safe :: "char \<Rightarrow> bool" where
  "query_safe c \<longleftrightarrow>
     97 \<le> code c \<and> code c \<le> 122 \<or> 65 \<le> code c \<and> code c \<le> 90 \<or> is_digit c
     \<or> c = CHR ''-'' \<or> c = CHR ''_'' \<or> c = CHR ''.'' \<or> c = CHR ''~''"

definition escape_char :: "char \<Rightarrow> string" where
  "escape_char c =
     (if query_safe c then [c]
      else if c = CHR '' '' then ''+''
      else [CHR ''%'', hex_digit (code c div 16), hex_digit (code c mod 16)])"

definition QueryEscape :: "string \<Rightarrow> string" where
  "QueryEscape s = concat (map escape_char s)"

subsection \<open>Values\<close>

type_synonym url_values = "(string \<times> string) list"

definition values_of :: "url_values \<Rightarrow> string \<Rightarrow> string list" where
  "values_of v k = map snd (filter (\<lambda>p. fst p = k) v)"

definition values_get :: "url_values \<Rightarrow> string \<Rightarrow> string" where
  "values_get v k = (case values_of v k of [] \<Rightarrow> '''' | x # _ \<Rightarrow> x)"

definition values_has :: "url_values \<Rightarrow> string \<Rightarrow> bool" where
  "values_has v k \<longleftrightarrow> k \<in> fst ` set v"

definition max_query_params :: nat where
  "max_query_params = 10000"

fun parse_parts :: "string list \<Rightarrow> url_values \<times> bool" where
  "parse_parts [] = ([], True)"
| "parse_parts (part # ps) =
     (let (vs, ok) = parse_parts ps in
      if CHR '';'' \<in> set part then (vs, False)
      else if part = '''' then (vs, ok)
      else case cut (CHR ''='') part of (k, v, _) \<Rightarrow>
        (case (QueryUnescape k, QueryUnescape v) of
           (Some k', Some v') \<Rightarrow> ((k', v') # vs, ok)
         | _ \<Rightarrow> (vs, False)))"

definition ParseQuery :: "string \<Rightarrow> url_values \<times> bool" where
  "ParseQuery q =
     (if count_list q (CHR ''&'') + 1 > max_query_params then ([], False)
      else parse_parts (split_on (CHR ''&'') q))"

text \<open>\<open>Values.Encode\<close>: by key, the values of a key in order.\<close>

definition join_with :: "string \<Rightarrow> string list \<Rightarrow> string" where
  "join_with sep parts =
     (case parts of [] \<Rightarrow> '''' | p # ps \<Rightarrow> p @ concat (map (\<lambda>x. sep @ x) ps))"

definition encode_values :: "url_values \<Rightarrow> string" where
  "encode_values v =
     join_with ''&'' (map (\<lambda>(k, x). QueryEscape k @ ''='' @ QueryEscape x) (sort_key fst v))"

subsection \<open>Round trips\<close>

lemma hex_digit_props:
  assumes "n < 16"
  shows "is_hex (hex_digit n)" "unhex (hex_digit n) = n" "hex_digit n \<noteq> CHR ''&''"
    "hex_digit n \<noteq> CHR '';''" "hex_digit n \<noteq> CHR ''=''"
proof -
  have "\<forall>n \<in> set [0..<16]. is_hex (hex_digit n) \<and> unhex (hex_digit n) = n \<and> hex_digit n \<noteq> CHR ''&''
      \<and> hex_digit n \<noteq> CHR '';'' \<and> hex_digit n \<noteq> CHR ''=''"
    by (simp add: hex_digit_def is_hex_def unhex_def is_digit_def code_def upt_rec numeral_eq_Suc)
  with assms show "is_hex (hex_digit n)" "unhex (hex_digit n) = n" "hex_digit n \<noteq> CHR ''&''"
    "hex_digit n \<noteq> CHR '';''" "hex_digit n \<noteq> CHR ''=''" by auto
qed

lemma query_safe_plain: "query_safe c \<Longrightarrow> c \<noteq> CHR ''%'' \<and> c \<noteq> CHR ''+'' \<and> c \<noteq> CHR ''&'' \<and> c \<noteq> CHR '';'' \<and> c \<noteq> CHR ''=''"
  by (rule ccontr) (auto simp: query_safe_def is_digit_def code_def)

lemma unescape_escape_char: "unescape True (escape_char c @ s) = map_option (Cons c) (unescape True s)"
proof (cases "query_safe c \<or> c = CHR '' ''")
  case True
  then show ?thesis
  proof
    assume "query_safe c"
    with query_safe_plain show ?thesis by (simp add: escape_char_def)
  next
    assume "c = CHR '' ''"
    moreover have "\<not> query_safe (CHR '' '')" by (simp add: query_safe_def is_digit_def code_def)
    ultimately show ?thesis by (simp add: escape_char_def)
  qed
next
  case False
  have "code c div 16 < 16" by (rule less_mult_imp_div_less) simp
  moreover have "code c mod 16 < 16" by simp
  moreover have "char_of (16 * (code c div 16) + code c mod 16) = c"
    by (simp add: code_def)
  ultimately show ?thesis using False hex_digit_props by (simp add: escape_char_def)
qed

lemma QueryUnescape_QueryEscape: "QueryUnescape (QueryEscape s) = Some s"
  unfolding QueryUnescape_def QueryEscape_def
  by (induction s) (simp_all add: unescape_escape_char)

lemma escape_char_plain:
  "c' \<in> set (escape_char c) \<Longrightarrow> c' \<noteq> CHR ''&'' \<and> c' \<noteq> CHR '';'' \<and> c' \<noteq> CHR ''=''"
proof -
  assume c': "c' \<in> set (escape_char c)"
  have "code c div 16 < 16" by (rule less_mult_imp_div_less) simp
  moreover have "code c mod 16 < 16" by simp
  ultimately show ?thesis
    using c' hex_digit_props
    by (auto simp: escape_char_def dest: query_safe_plain split: if_splits)
qed

lemma QueryEscape_plain: "c \<in> set (QueryEscape s) \<Longrightarrow> c \<noteq> CHR ''&'' \<and> c \<noteq> CHR '';'' \<and> c \<noteq> CHR ''=''"
  by (auto simp: QueryEscape_def dest: escape_char_plain)

definition encode_pair :: "string \<times> string \<Rightarrow> string" where
  "encode_pair p = QueryEscape (fst p) @ ''='' @ QueryEscape (snd p)"

lemma encode_pair_plain: "c \<in> set (encode_pair p) \<Longrightarrow> c \<noteq> CHR ''&'' \<and> c \<noteq> CHR '';''"
  by (auto simp: encode_pair_def dest: QueryEscape_plain)

lemma parse_parts_encode: "parse_parts (map encode_pair v) = (v, True)"
proof (induction v)
  case (Cons p v)
  have "CHR '';'' \<notin> set (encode_pair p)" "CHR ''='' \<notin> set (QueryEscape (fst p))"
    using encode_pair_plain QueryEscape_plain by blast+
  moreover have "cut (CHR ''='') (encode_pair p) = (QueryEscape (fst p), QueryEscape (snd p), True)"
    using calculation(2) by (simp add: encode_pair_def cut_append)
  moreover have "encode_pair p \<noteq> ''''" by (simp add: encode_pair_def)
  ultimately show ?case using Cons by (simp add: Let_def QueryUnescape_QueryEscape)
qed simp

lemma split_on_join:
  "\<forall>s \<in> set ss. c \<notin> set s \<Longrightarrow> ss \<noteq> [] \<Longrightarrow> split_on c (join_with [c] ss) = ss"
proof (induction ss)
  case (Cons s ss)
  show ?case
  proof (cases ss)
    case Nil with Cons show ?thesis by (simp add: join_with_def split_on_no)
  next
    case (Cons t ts)
    have "join_with [c] (s # ss) = s @ c # join_with [c] ss" by (simp add: join_with_def Cons)
    with Cons.IH Cons.prems Cons show ?thesis by (simp add: split_on_append)
  qed
qed simp

text \<open>What \<open>Encode\<close> writes, \<open>ParseQuery\<close> reads back, by key.\<close>

lemma ParseQuery_encode:
  assumes "length v < max_query_params"
  shows "ParseQuery (encode_values v) = (sort_key fst v, True)"
proof (cases "v = []")
  case True
  then show ?thesis by (simp add: ParseQuery_def encode_values_def join_with_def max_query_params_def Let_def)
next
  case False
  have e: "encode_values v = join_with ''&'' (map encode_pair (sort_key fst v))"
    by (auto simp: encode_values_def encode_pair_def intro!: arg_cong [where f = "join_with _"] map_cong)
  have "split_on (CHR ''&'') (encode_values v) = map encode_pair (sort_key fst v)"
    unfolding e
  proof (rule split_on_join)
    show "map encode_pair (sort_key fst v) \<noteq> []"
      using False length_sort [of fst v] by (auto simp del: length_sort)
  qed (use encode_pair_plain in auto)
  moreover have "count_list (encode_values v) (CHR ''&'') + 1 \<le> max_query_params"
  proof -
    have "count_list (join_with ''&'' ss) (CHR ''&'') \<le> length ss"
      if "\<forall>s \<in> set ss. CHR ''&'' \<notin> set s" for ss
      using that
    proof (induction ss)
      case (Cons s ss)
      then show ?case by (cases ss) (auto simp: join_with_def count_list_0_iff)
    qed (simp add: join_with_def)
    from this [of "map encode_pair (sort_key fst v)"] show ?thesis
      unfolding e using encode_pair_plain assms by fastforce
  qed
  ultimately show ?thesis by (simp add: ParseQuery_def parse_parts_encode)
qed

end
