(* ===== verification/Request.thy ===== *)
theory Request
  imports Snapshot NetUrl
begin

section \<open>A request as the redirect path reads it\<close>

text \<open>
  What the handlers of \<open>internal/httpx\<close> read of an \<open>*http.Request\<close> and of the values the middleware
  left in its context. An address is its text, empty when the context holds none. \<open>rq_form\<close> is what
  \<open>ParseForm\<close> makes of the body: \<open>None\<close> when it fails, otherwise the posted values.
\<close>

type_synonym addr = string

record request =
  rq_method :: string
  rq_alias :: string
  rq_escaped_path :: string
  rq_raw_query :: string
  rq_user_agent :: string
  rq_referer :: string
  rq_accept_language :: string
  rq_form :: "url_values option"
  rq_addr :: addr
  rq_custom_domain :: "uuid option"

definition MethodHead :: string where "MethodHead = ''HEAD''"
definition MethodPost :: string where "MethodPost = ''POST''"

text \<open>\<open>r.URL.Query()\<close> drops what it could not parse.\<close>

definition url_query :: "request \<Rightarrow> url_values" where
  "url_query r = fst (ParseQuery (rq_raw_query r))"

definition plain_request :: "string \<Rightarrow> string \<Rightarrow> string \<Rightarrow> request" where
  "plain_request meth name q =
     \<lparr>rq_method = meth, rq_alias = name, rq_escaped_path = CHR ''/'' # name, rq_raw_query = q,
      rq_user_agent = ''Mozilla/5.0'', rq_referer = '''', rq_accept_language = '''', rq_form = None,
      rq_addr = ''192.0.2.1'', rq_custom_domain = None\<rparr>"

end
