(* ===== verification/UserAgent.thy ===== *)
theory UserAgent
  imports Domain
begin

section \<open>Reading request headers for analytics and rules\<close>

text \<open>
  \<open>internal/analytics/useragent.go\<close>: the classifier of user agents, the primary language and the
  referrer host. The same functions answer the routing rules and label the recorded clicks.
\<close>

datatype Device = DeviceDesktop | DeviceMobile | DeviceTablet | DeviceBot | DeviceUnknown

definition device_string :: "Device \<Rightarrow> string" where
  "device_string d =
     (case d of DeviceDesktop \<Rightarrow> ''desktop'' | DeviceMobile \<Rightarrow> ''mobile'' | DeviceTablet \<Rightarrow> ''tablet''
      | DeviceBot \<Rightarrow> ''bot'' | DeviceUnknown \<Rightarrow> ''unknown'')"

record Classification =
  cl_device :: Device
  cl_browser :: string
  cl_os :: string
  cl_is_bot :: bool

definition botMarkers :: "string list" where
  "botMarkers =
     [''bot'', ''crawler'', ''spider'', ''crawling'',
      ''slurp'', ''mediapartners'', ''adsbot'', ''feedfetcher'',
      ''curl/'', ''wget/'', ''python-requests'', ''python-urllib'', ''go-http-client'',
      ''java/'', ''okhttp'', ''axios/'', ''node-fetch'', ''got ('', ''libwww-perl'',
      ''httpclient'', ''postmanruntime'', ''insomnia'', ''restsharp'',
      ''headlesschrome'', ''phantomjs'', ''puppeteer'', ''playwright'', ''selenium'',
      ''lighthouse'', ''pagespeed'', ''gtmetrix'', ''pingdom'', ''uptimerobot'',
      ''statuscake'', ''site24x7'', ''newrelicpinger'', ''datadog'',
      ''facebookexternalhit'', ''twitterbot'', ''linkedinbot'', ''slackbot'',
      ''discordbot'', ''telegrambot'', ''whatsapp'', ''skypeuripreview'',
      ''embedly'', ''quora link preview'', ''redditbot'', ''applebot'',
      ''pinterest'', ''vkshare'', ''w3c_validator'', ''developers.google.com/+/web/snippet'',
      ''preview'', ''scanner'', ''monitor'', ''checker'', ''validator'']"

definition deviceOf :: "string \<Rightarrow> Device" where
  "deviceOf lower =
     (let has = contains_sub lower in
      if has ''ipad'' \<or> has ''tablet'' \<or> has ''kindle'' \<or> has ''playbook''
         \<or> has ''android'' \<and> \<not> has ''mobile'' then DeviceTablet
      else if has ''mobi'' \<or> has ''iphone'' \<or> has ''ipod'' \<or> has ''android''
         \<or> has ''windows phone'' \<or> has ''blackberry'' then DeviceMobile
      else if has ''mozilla'' \<or> has ''webkit'' then DeviceDesktop
      else DeviceUnknown)"

definition browserOf :: "string \<Rightarrow> string" where
  "browserOf lower =
     (let has = contains_sub lower in
      if has ''edg/'' \<or> has ''edga/'' \<or> has ''edgios/'' then ''Edge''
      else if has ''opr/'' \<or> has ''opera'' then ''Opera''
      else if has ''vivaldi'' then ''Vivaldi''
      else if has ''brave'' then ''Brave''
      else if has ''samsungbrowser'' then ''Samsung Internet''
      else if has ''firefox'' \<or> has ''fxios'' then ''Firefox''
      else if has ''chrome'' \<or> has ''crios'' then ''Chrome''
      else if has ''safari'' then ''Safari''
      else if has ''msie'' \<or> has ''trident'' then ''Internet Explorer''
      else ''Other'')"

definition osOf :: "string \<Rightarrow> string" where
  "osOf lower =
     (let has = contains_sub lower in
      if has ''windows nt'' \<or> has ''windows'' then ''Windows''
      else if has ''iphone'' \<or> has ''ipad'' \<or> has ''ipod'' then ''iOS''
      else if has ''mac os x'' \<or> has ''macintosh'' then ''macOS''
      else if has ''android'' then ''Android''
      else if has ''cros'' then ''ChromeOS''
      else if has ''linux'' \<or> has ''x11'' then ''Linux''
      else ''Other'')"

definition Classify :: "string \<Rightarrow> Classification" where
  "Classify ua =
     (if ua = '''' then \<lparr>cl_device = DeviceBot, cl_browser = '''', cl_os = '''', cl_is_bot = True\<rparr>
      else let lower = to_lower ua in
        if list_ex (\<lambda>marker. contains_sub lower marker) botMarkers
        then \<lparr>cl_device = DeviceBot, cl_browser = browserOf lower, cl_os = osOf lower, cl_is_bot = True\<rparr>
        else \<lparr>cl_device = deviceOf lower, cl_browser = browserOf lower, cl_os = osOf lower, cl_is_bot = False\<rparr>)"

subsection \<open>Language and referrer\<close>

definition PrimaryLanguage :: "string \<Rightarrow> string" where
  "PrimaryLanguage header =
     (if header = '''' then ''''
      else let a = fst (cut (CHR '','') header);
               b = trim_space (fst (cut (CHR '';'') a));
               c = (case cut (CHR ''-'') b of (lang, _, ok) \<Rightarrow> if ok then lang else b)
           in if length c > 8 then '''' else to_lower c)"

text \<open>\<open>strings.Index(s, sep)\<close> followed by the slice after the match.\<close>

fun after_sub :: "string \<Rightarrow> string \<Rightarrow> string option" where
  "after_sub sep [] = (if sep = [] then Some [] else None)"
| "after_sub sep (c # cs) =
     (if prefix sep (c # cs) then Some (drop (length sep) (c # cs)) else after_sub sep cs)"

definition before_any :: "char list \<Rightarrow> string \<Rightarrow> string" where
  "before_any stops s = takeWhile (\<lambda>c. c \<notin> set stops) s"

definition ReferrerHost :: "string \<Rightarrow> string" where
  "ReferrerHost referrer =
     (if referrer = '''' then ''''
      else let s1 = (case after_sub ''://'' referrer of Some t \<Rightarrow> t | None \<Rightarrow> referrer);
               s2 = before_any ''/?#'' s1;
               s3 = (case cut_last (CHR ''@'') s2 of Some (_, h) \<Rightarrow> h | None \<Rightarrow> s2);
               s4 = (case cut_last (CHR '':'') s3 of
                       Some (h, _) \<Rightarrow> if \<not> contains_sub s3 '']'' then h else s3
                     | None \<Rightarrow> s3);
               s5 = to_lower (trim_space s4)
           in if length s5 > 253 then '''' else s5)"

subsection \<open>Lemmas\<close>

lemma Classify_bot_device: "cl_is_bot (Classify ua) \<longleftrightarrow> cl_device (Classify ua) = DeviceBot"
  by (auto simp: Classify_def deviceOf_def Let_def)

lemma before_any_stops: "set (before_any stops s) \<inter> set stops = {}"
  by (auto simp: before_any_def dest: set_takeWhileD)

lemma cut_last_None: "cut_last c s = None \<longleftrightarrow> c \<notin> set s"
proof (induction s)
  case (Cons x s)
  then show ?case by (cases "cut_last c s") auto
qed simp

lemma cut_last_parts: "cut_last c s = Some (a, b) \<Longrightarrow> s = a @ c # b \<and> c \<notin> set b"
  by (induction s arbitrary: a b) (auto simp: cut_last_None split: option.splits if_splits)

text \<open>Bytes below 128 in an encoded string are the code points below 128 it was made of.\<close>

lemma utf8_decode_small: "r \<in> set (utf8_decode bs) \<Longrightarrow> r < 128 \<Longrightarrow> r \<in> set bs"
proof (induction bs rule: utf8_decode.induct)
  case (2 b bs)
  show ?case
  proof (cases "b < 128")
    case False
    show ?thesis
    proof (cases "decode_multi b bs")
      case None
      with 2 False show ?thesis by (auto simp: rune_error_def)
    next
      case (Some p)
      obtain c n where p: "p = (c, n)" by fastforce
      with Some decode_multi_ge have "128 \<le> c" by auto
      with 2 False Some p have "r \<in> set (drop n bs)" by auto
      then show ?thesis by (auto dest: in_set_dropD)
    qed
  qed (use 2 in auto)
qed simp

lemma utf8_encode_small: "b \<in> set (utf8_encode r) \<Longrightarrow> b < 128 \<Longrightarrow> b = r"
  by (auto simp: utf8_encode_def split: if_splits)

lemma utf8_encode_less: "b \<in> set (utf8_encode r) \<Longrightarrow> b < 256"
  by (auto simp: utf8_encode_def split: if_splits)

lemma string_of_runes_small:
  assumes "c \<in> set (string_of_runes rs)" "code c < 128"
  shows "code c \<in> set rs"
proof -
  obtain r b where r: "r \<in> set rs" "b \<in> set (utf8_encode r)" "c = char_of b"
    using assms(1) by (auto simp: string_of_runes_def)
  with utf8_encode_less have b: "code c = b" by simp
  with utf8_encode_small [OF r(2)] assms(2) have "b = r" by simp
  with b r(1) show ?thesis by simp
qed

text \<open>The two characters above ASCII whose lower case is an ASCII letter: the dotted capital I and
  the Kelvin sign.\<close>

lemma rune_lower_small:
  assumes "rune_lower r < 128" "128 \<le> r"
  shows "97 \<le> rune_lower r"
proof -
  have all: "list_all (\<lambda>e. case e of (lo, hi, st, d) \<Rightarrow>
      128 \<le> int lo + d \<or> (lo = hi \<and> 97 \<le> int lo + d)) lower_ranges"
    by (simp add: lower_ranges_def)
  show ?thesis
  proof (cases "find (in_range r) lower_ranges")
    case None
    with assms show ?thesis by (simp add: rune_lower_def apply_ranges_def)
  next
    case (Some e)
    obtain lo hi st d where e: "e = (lo, hi, st, d)" by (cases e)
    from Some e have "(lo, hi, st, d) \<in> set lower_ranges" "in_range r (lo, hi, st, d)"
      by (auto dest: find_Some_set)
    with all have "128 \<le> int lo + d \<or> (lo = hi \<and> 97 \<le> int lo + d)" "lo \<le> r" "r \<le> hi"
      by (auto simp: list_all_iff)
    then show ?thesis using assms Some e by (auto simp: rune_lower_def apply_ranges_def)
  qed
qed

lemma to_lower_punctuation:
  assumes "c \<in> set (to_lower s)" "code c < 97"
  shows "c \<in> set s"
proof (cases "is_ascii s")
  case True
  with assms obtain x where x: "x \<in> set s" "c = ascii_lower x" by (auto simp: to_lower_ascii)
  then have "c = x" using assms(2) by (auto simp: ascii_lower_def split: if_splits)
  with x show ?thesis by simp
next
  case False
  then have "c \<in> set (string_of_runes (map rune_lower (runes s)))" using assms(1) by (simp add: to_lower_def)
  with string_of_runes_small [OF this] assms(2)
  obtain r where r: "r \<in> set (runes s)" "code c = rune_lower r" by auto
  then have "r < 128" using rune_lower_small [of r] assms(2) by fastforce
  with r assms(2) have "code c = r" by (auto simp: rune_lower_def split: if_splits)
  with r \<open>r < 128\<close> have "code c \<in> set (map code s)" by (auto simp: runes_def dest: utf8_decode_small)
  then show ?thesis by (auto simp: code_inj)
qed

subsection \<open>Properties\<close>

text \<open>Only the host of a referrer is kept: whatever the header holds, the result carries no path,
  query, fragment or user information (none of the characters that would start one), and it fits
  the column.\<close>

theorem ReferrerHost_is_host_only:
  "set (ReferrerHost referrer) \<inter> {CHR ''/'', CHR ''?'', CHR ''#'', CHR ''@''} = {}
     \<and> length (ReferrerHost referrer) \<le> 253"
proof -
  define s1 where "s1 = (case after_sub ''://'' referrer of Some t \<Rightarrow> t | None \<Rightarrow> referrer)"
  define s2 where "s2 = before_any ''/?#'' s1"
  define s3 where "s3 = (case cut_last (CHR ''@'') s2 of Some (_, h) \<Rightarrow> h | None \<Rightarrow> s2)"
  define s4 where "s4 = (case cut_last (CHR '':'') s3 of
      Some (h, _) \<Rightarrow> if \<not> contains_sub s3 '']'' then h else s3 | None \<Rightarrow> s3)"
  let ?S = "{CHR ''/'', CHR ''?'', CHR ''#'', CHR ''@''}"
  have s2: "set s2 \<inter> {CHR ''/'', CHR ''?'', CHR ''#''} = {}"
    unfolding s2_def using before_any_stops [of "''/?#''" s1] by auto
  have "set s3 \<subseteq> set s2 \<and> CHR ''@'' \<notin> set s3"
    unfolding s3_def by (auto simp: cut_last_None split: option.splits dest: cut_last_parts)
  moreover have "set s4 \<subseteq> set s3"
    unfolding s4_def by (auto split: option.splits dest: cut_last_parts)
  ultimately have trimmed: "set (trim_space s4) \<inter> ?S = {}" using s2 set_trim_space [of s4] by auto
  have "c \<notin> ?S" if "c \<in> set (to_lower (trim_space s4))" for c
  proof
    assume "c \<in> ?S"
    moreover from this have "code c < 97" by (auto simp: code_def)
    ultimately show False using to_lower_punctuation [OF that] trimmed by auto
  qed
  then have "set (to_lower (trim_space s4)) \<inter> ?S = {}" by auto
  moreover have "ReferrerHost referrer = (if referrer = '''' then ''''
      else if length (to_lower (trim_space s4)) > 253 then '''' else to_lower (trim_space s4))"
    unfolding ReferrerHost_def Let_def s4_def s3_def s2_def s1_def by (rule refl)
  ultimately show ?thesis by simp
qed

end
