(* ===== verification/RuleSubject.thy ===== *)
theory RuleSubject
  imports Request UserAgent
begin

section \<open>Answering a rule's questions about one request\<close>

text \<open>
  \<open>internal/httpx/redirect_rules.go\<close>: the subject the routing rules are matched against. Each
  expensive answer is worked out at most once and remembered. \<open>su_calls\<close> is the trace of what the
  methods asked outside themselves, newest first: the three lookups of the geographic database, the
  user-agent classifier, the query parser and the Redis membership test.
\<close>

datatype lookup = LookCountry | LookRegion | LookCity | LookUserAgent | LookReturning

record geo_resolver =
  gr_country :: "addr \<Rightarrow> string"
  gr_region :: "addr \<Rightarrow> string"
  gr_city :: "addr \<Rightarrow> string"

type_synonym returning_set = "uuid \<Rightarrow> uuid \<Rightarrow> addr \<Rightarrow> string \<Rightarrow> instant \<Rightarrow> bool"

record subject =
  su_req :: request
  su_snap :: "snapshot option"
  su_now :: instant
  su_geo :: "geo_resolver option"
  su_returning :: "returning_set option"
  su_addr :: addr
  su_country :: string
  su_region :: string
  su_city :: string
  su_have_country :: bool
  su_have_region :: bool
  su_have_city :: bool
  su_browser :: string
  su_os :: string
  su_device :: string
  su_have_ua :: bool
  su_language :: string
  su_referrer :: string
  su_have_language :: bool
  su_have_referrer :: bool
  su_query :: url_values
  su_have_q :: bool
  su_seen :: bool
  su_have_seen :: bool
  su_calls :: "lookup list"

definition newRuleSubject :: "request \<Rightarrow> snapshot option \<Rightarrow> instant \<Rightarrow> geo_resolver option
    \<Rightarrow> returning_set option \<Rightarrow> subject" where
  "newRuleSubject r snap now geo ret =
     \<lparr>su_req = r, su_snap = snap, su_now = now, su_geo = geo, su_returning = ret,
      su_addr = rq_addr r, su_country = '''', su_region = '''', su_city = '''',
      su_have_country = False, su_have_region = False, su_have_city = False,
      su_browser = '''', su_os = '''', su_device = '''', su_have_ua = False,
      su_language = '''', su_referrer = '''', su_have_language = False, su_have_referrer = False,
      su_query = [], su_have_q = False, su_seen = False, su_have_seen = False, su_calls = []\<rparr>"

definition Now :: "subject \<Rightarrow> instant \<times> subject" where
  "Now s = (su_now s, s)"

definition Country :: "subject \<Rightarrow> string \<times> subject" where
  "Country s =
     (let s' = (if \<not> su_have_country s then
                  (case su_geo s of
                     Some g \<Rightarrow> s\<lparr>su_have_country := True, su_country := gr_country g (su_addr s),
                                 su_calls := LookCountry # su_calls s\<rparr>
                   | None \<Rightarrow> s\<lparr>su_have_country := True\<rparr>)
                else s)
      in (su_country s', s'))"

definition Region :: "subject \<Rightarrow> string \<times> subject" where
  "Region s =
     (let s' = (if \<not> su_have_region s then
                  (case su_geo s of
                     Some g \<Rightarrow> s\<lparr>su_have_region := True, su_region := gr_region g (su_addr s),
                                 su_calls := LookRegion # su_calls s\<rparr>
                   | None \<Rightarrow> s\<lparr>su_have_region := True\<rparr>)
                else s)
      in (su_region s', s'))"

definition City :: "subject \<Rightarrow> string \<times> subject" where
  "City s =
     (let s' = (if \<not> su_have_city s then
                  (case su_geo s of
                     Some g \<Rightarrow> s\<lparr>su_have_city := True, su_city := gr_city g (su_addr s),
                                 su_calls := LookCity # su_calls s\<rparr>
                   | None \<Rightarrow> s\<lparr>su_have_city := True\<rparr>)
                else s)
      in (su_city s', s'))"

definition classify :: "subject \<Rightarrow> subject" where
  "classify s =
     (if su_have_ua s then s
      else let cls = Classify (rq_user_agent (su_req s)) in
        s\<lparr>su_have_ua := True, su_browser := cl_browser cls, su_os := cl_os cls,
          su_device := device_string (cl_device cls), su_calls := LookUserAgent # su_calls s\<rparr>)"

definition Browser :: "subject \<Rightarrow> string \<times> subject" where
  "Browser s = (let s' = classify s in (su_browser s', s'))"

definition OS :: "subject \<Rightarrow> string \<times> subject" where
  "OS s = (let s' = classify s in (su_os s', s'))"

definition Device_of :: "subject \<Rightarrow> string \<times> subject" where
  "Device_of s = (let s' = classify s in (su_device s', s'))"

definition Language :: "subject \<Rightarrow> string \<times> subject" where
  "Language s =
     (let s' = (if \<not> su_have_language s
                then s\<lparr>su_have_language := True,
                       su_language := PrimaryLanguage (rq_accept_language (su_req s))\<rparr>
                else s)
      in (su_language s', s'))"

definition Referrer :: "subject \<Rightarrow> string \<times> subject" where
  "Referrer s =
     (let s' = (if \<not> su_have_referrer s
                then s\<lparr>su_have_referrer := True,
                       su_referrer := ReferrerHost (rq_referer (su_req s))\<rparr>
                else s)
      in (su_referrer s', s'))"

definition QueryParam :: "string \<Rightarrow> subject \<Rightarrow> string list \<times> subject" where
  "QueryParam name s =
     (let s' = (if \<not> su_have_q s then s\<lparr>su_have_q := True, su_query := url_query (su_req s)\<rparr> else s)
      in (values_of (su_query s') name, s'))"

definition Returning :: "subject \<Rightarrow> bool \<times> subject" where
  "Returning s =
     (let s' = (if \<not> su_have_seen s then
                  (case (su_returning s, su_snap s) of
                     (Some seen, Some sn) \<Rightarrow>
                       s\<lparr>su_have_seen := True,
                         su_seen := seen (sn_link_id sn) (sn_workspace_id sn) (su_addr s)
                                      (rq_user_agent (su_req s)) (su_now s),
                         su_calls := LookReturning # su_calls s\<rparr>
                   | _ \<Rightarrow> s\<lparr>su_have_seen := True\<rparr>)
                else s)
      in (su_seen s', s'))"

definition ruleSubject :: "subject rule_subject" where
  "ruleSubject =
     \<lparr>rs_country = Country, rs_region = Region, rs_city = City, rs_language = Language,
      rs_browser = Browser, rs_os = OS, rs_device = Device_of, rs_referrer_host = Referrer,
      rs_query_param = QueryParam, rs_returning = Returning, rs_now = Now\<rparr>"

definition route :: "zoneinfo \<Rightarrow> geo_resolver option \<Rightarrow> returning_set option
    \<Rightarrow> request \<Rightarrow> snapshot option \<Rightarrow> instant \<Rightarrow> Choice option \<times> lookup list" where
  "route tzdb geo ret r snap now =
     (case snap of
        None \<Rightarrow> (None, [])
      | Some s \<Rightarrow>
          if length (sn_rules s) = 0 then (None, [])
          else case Route tzdb snap ruleSubject (newRuleSubject r snap now geo ret) of
                 (c, s') \<Rightarrow> (c, su_calls s'))"

definition tracksReturning :: "snapshot option \<Rightarrow> bool" where
  "tracksReturning snap = rn_returning (RuleNeeds snap)"

subsection \<open>The contract of the subject\<close>

text \<open>What a subject's methods answer, read off its request.\<close>

definition subject_answers :: "subject \<Rightarrow> answers" where
  "subject_answers s =
     (let cls = Classify (rq_user_agent (su_req s)); a = su_addr s in
      \<lparr>an_country = (case su_geo s of Some g \<Rightarrow> gr_country g a | None \<Rightarrow> ''''),
       an_region = (case su_geo s of Some g \<Rightarrow> gr_region g a | None \<Rightarrow> ''''),
       an_city = (case su_geo s of Some g \<Rightarrow> gr_city g a | None \<Rightarrow> ''''),
       an_language = PrimaryLanguage (rq_accept_language (su_req s)),
       an_browser = cl_browser cls, an_os = cl_os cls, an_device = device_string (cl_device cls),
       an_referrer_host = ReferrerHost (rq_referer (su_req s)),
       an_query = values_of (url_query (su_req s)),
       an_returning = (case (su_returning s, su_snap s) of
           (Some seen, Some sn) \<Rightarrow> seen (sn_link_id sn) (sn_workspace_id sn) a
              (rq_user_agent (su_req s)) (su_now s)
         | _ \<Rightarrow> False),
       an_now = su_now s\<rparr>)"

text \<open>A remembered answer is the right one; an answer not worked out yet is empty and no call was
  made for it; no call was made twice.\<close>

definition memo :: "bool \<Rightarrow> 'a \<Rightarrow> 'a \<Rightarrow> 'a \<Rightarrow> bool" where
  "memo have x blank y \<longleftrightarrow> x = (if have then y else blank)"

definition subject_good :: "subject \<Rightarrow> bool" where
  "subject_good s \<longleftrightarrow>
     (let a = subject_answers s in
      memo (su_have_country s) (su_country s) '''' (an_country a)
      \<and> memo (su_have_region s) (su_region s) '''' (an_region a)
      \<and> memo (su_have_city s) (su_city s) '''' (an_city a)
      \<and> (su_have_ua s \<longrightarrow> su_browser s = an_browser a \<and> su_os s = an_os a \<and> su_device s = an_device a)
      \<and> (su_have_language s \<longrightarrow> su_language s = an_language a)
      \<and> (su_have_referrer s \<longrightarrow> su_referrer s = an_referrer_host a)
      \<and> (su_have_q s \<longrightarrow> su_query s = url_query (su_req s))
      \<and> memo (su_have_seen s) (su_seen s) False (an_returning a)
      \<and> (LookCountry \<in> set (su_calls s) \<longrightarrow> su_have_country s)
      \<and> (LookRegion \<in> set (su_calls s) \<longrightarrow> su_have_region s)
      \<and> (LookCity \<in> set (su_calls s) \<longrightarrow> su_have_city s)
      \<and> (LookUserAgent \<in> set (su_calls s) \<longrightarrow> su_have_ua s)
      \<and> (LookReturning \<in> set (su_calls s) \<longrightarrow> su_have_seen s)
      \<and> distinct (su_calls s))"

lemma newRuleSubject_good: "subject_good (newRuleSubject r snap now geo ret)"
  by (simp add: subject_good_def newRuleSubject_def memo_def)

text \<open>The answers depend on the request and on what answers it, not on what is remembered.\<close>

lemma subject_answers_memo [simp]:
  "subject_answers (s\<lparr>su_country := x\<rparr>) = subject_answers s"
  "subject_answers (s\<lparr>su_region := x\<rparr>) = subject_answers s"
  "subject_answers (s\<lparr>su_city := x\<rparr>) = subject_answers s"
  "subject_answers (s\<lparr>su_have_country := b\<rparr>) = subject_answers s"
  "subject_answers (s\<lparr>su_have_region := b\<rparr>) = subject_answers s"
  "subject_answers (s\<lparr>su_have_city := b\<rparr>) = subject_answers s"
  "subject_answers (s\<lparr>su_browser := x\<rparr>) = subject_answers s"
  "subject_answers (s\<lparr>su_os := x\<rparr>) = subject_answers s"
  "subject_answers (s\<lparr>su_device := x\<rparr>) = subject_answers s"
  "subject_answers (s\<lparr>su_have_ua := b\<rparr>) = subject_answers s"
  "subject_answers (s\<lparr>su_language := x\<rparr>) = subject_answers s"
  "subject_answers (s\<lparr>su_referrer := x\<rparr>) = subject_answers s"
  "subject_answers (s\<lparr>su_have_language := b\<rparr>) = subject_answers s"
  "subject_answers (s\<lparr>su_have_referrer := b\<rparr>) = subject_answers s"
  "subject_answers (s\<lparr>su_query := q\<rparr>) = subject_answers s"
  "subject_answers (s\<lparr>su_have_q := b\<rparr>) = subject_answers s"
  "subject_answers (s\<lparr>su_seen := b\<rparr>) = subject_answers s"
  "subject_answers (s\<lparr>su_have_seen := b\<rparr>) = subject_answers s"
  "subject_answers (s\<lparr>su_calls := l\<rparr>) = subject_answers s"
  by (simp_all add: subject_answers_def cong: option.case_cong)

lemma subject_answers_sel:
  "an_country (subject_answers s) = (case su_geo s of Some g \<Rightarrow> gr_country g (su_addr s) | None \<Rightarrow> '''')"
  "an_region (subject_answers s) = (case su_geo s of Some g \<Rightarrow> gr_region g (su_addr s) | None \<Rightarrow> '''')"
  "an_city (subject_answers s) = (case su_geo s of Some g \<Rightarrow> gr_city g (su_addr s) | None \<Rightarrow> '''')"
  "an_language (subject_answers s) = PrimaryLanguage (rq_accept_language (su_req s))"
  "an_browser (subject_answers s) = cl_browser (Classify (rq_user_agent (su_req s)))"
  "an_os (subject_answers s) = cl_os (Classify (rq_user_agent (su_req s)))"
  "an_device (subject_answers s) = device_string (cl_device (Classify (rq_user_agent (su_req s))))"
  "an_referrer_host (subject_answers s) = ReferrerHost (rq_referer (su_req s))"
  "an_query (subject_answers s) = values_of (url_query (su_req s))"
  "an_now (subject_answers s) = su_now s"
  by (simp_all add: subject_answers_def Let_def)

lemma an_returning_sel:
  "an_returning (subject_answers s) =
     (case (su_returning s, su_snap s) of
        (Some seen, Some sn) \<Rightarrow> seen (sn_link_id sn) (sn_workspace_id sn) (su_addr s)
           (rq_user_agent (su_req s)) (su_now s)
      | _ \<Rightarrow> False)"
  by (simp add: subject_answers_def Let_def)

lemma answers_withI:
  "(\<And>s. subject_good s \<Longrightarrow> fst (get s) = f (subject_answers s)
      \<and> subject_good (snd (get s)) \<and> subject_answers (snd (get s)) = subject_answers s)
   \<Longrightarrow> answers_with subject_good subject_answers get f"
  by (simp add: answers_with_def)

lemma Country_contract: "answers_with subject_good subject_answers Country an_country"
proof (rule answers_withI)
  fix s assume "subject_good s"
  then show "fst (Country s) = an_country (subject_answers s) \<and> subject_good (snd (Country s))
      \<and> subject_answers (snd (Country s)) = subject_answers s"
    by (cases "su_have_country s"; cases "su_geo s")
      (auto simp: Country_def subject_good_def memo_def Let_def subject_answers_sel(1))
qed

lemma Region_contract: "answers_with subject_good subject_answers Region an_region"
proof (rule answers_withI)
  fix s assume "subject_good s"
  then show "fst (Region s) = an_region (subject_answers s) \<and> subject_good (snd (Region s))
      \<and> subject_answers (snd (Region s)) = subject_answers s"
    by (cases "su_have_region s"; cases "su_geo s")
      (auto simp: Region_def subject_good_def memo_def Let_def subject_answers_sel(2))
qed

lemma City_contract: "answers_with subject_good subject_answers City an_city"
proof (rule answers_withI)
  fix s assume "subject_good s"
  then show "fst (City s) = an_city (subject_answers s) \<and> subject_good (snd (City s))
      \<and> subject_answers (snd (City s)) = subject_answers s"
    by (cases "su_have_city s"; cases "su_geo s")
      (auto simp: City_def subject_good_def memo_def Let_def subject_answers_sel(3))
qed

lemma classify_good:
  assumes "subject_good s"
  shows "subject_good (classify s) \<and> su_have_ua (classify s) \<and> subject_answers (classify s) = subject_answers s"
  using assms
  by (cases "su_have_ua s") (auto simp: classify_def subject_good_def memo_def Let_def subject_answers_sel(5-7))

lemma classified:
  "subject_good s \<Longrightarrow> su_have_ua s \<Longrightarrow> su_browser s = an_browser (subject_answers s)
     \<and> su_os s = an_os (subject_answers s) \<and> su_device s = an_device (subject_answers s)"
  by (simp add: subject_good_def Let_def)

lemma classify_contracts:
  "answers_with subject_good subject_answers Browser an_browser"
  "answers_with subject_good subject_answers OS an_os"
  "answers_with subject_good subject_answers Device_of an_device"
  using classify_good classified
  by (auto intro!: answers_withI simp: Browser_def OS_def Device_of_def Let_def)

lemma header_contracts:
  "answers_with subject_good subject_answers Language an_language"
  "answers_with subject_good subject_answers Referrer an_referrer_host"
  "answers_with subject_good subject_answers (QueryParam n) (\<lambda>a. an_query a n)"
  "answers_with subject_good subject_answers Now an_now"
proof -
  show "answers_with subject_good subject_answers Language an_language"
    by (rule answers_withI) (auto simp: Language_def subject_good_def memo_def Let_def subject_answers_sel(4))
  show "answers_with subject_good subject_answers Referrer an_referrer_host"
    by (rule answers_withI) (auto simp: Referrer_def subject_good_def memo_def Let_def subject_answers_sel(8))
  show "answers_with subject_good subject_answers (QueryParam n) (\<lambda>a. an_query a n)"
    by (rule answers_withI) (auto simp: QueryParam_def subject_good_def memo_def Let_def subject_answers_sel(9))
  show "answers_with subject_good subject_answers Now an_now"
    by (rule answers_withI) (simp add: Now_def subject_answers_sel)
qed

lemma Returning_contract: "answers_with subject_good subject_answers Returning an_returning"
proof (rule answers_withI)
  fix s assume "subject_good s"
  then show "fst (Returning s) = an_returning (subject_answers s) \<and> subject_good (snd (Returning s))
      \<and> subject_answers (snd (Returning s)) = subject_answers s"
    by (cases "su_have_seen s"; cases "su_returning s"; cases "su_snap s")
      (auto simp: Returning_def subject_good_def memo_def Let_def an_returning_sel)
qed

text \<open>First-match evaluation over any subject that keeps the contract.\<close>

definition first_match :: "zoneinfo \<Rightarrow> snapshot \<Rightarrow> answers \<Rightarrow> snapshot_rule list \<Rightarrow> Choice option" where
  "first_match tzdb s a rs =
     (case find (\<lambda>r. KindOf r = RuleKindMatch \<and> conditions_hold tzdb (sr_cond r) a
                    \<and> destAt s (sr_dest r) \<noteq> None) rs of
        None \<Rightarrow> None
      | Some r \<Rightarrow> destAt s (sr_dest r))"

context lawful_subject
begin

lemma route_rules_correct:
  "good st \<Longrightarrow> fst (route_rules tzdb s i rs st) = first_match tzdb s (ans st) rs
     \<and> good (snd (route_rules tzdb s i rs st)) \<and> ans (snd (route_rules tzdb s i rs st)) = ans st"
proof (induction rs arbitrary: st)
  case (Cons r rs)
  show ?case
  proof (cases "KindOf r = RuleKindMatch")
    case True
    obtain b st1 where m: "Match tzdb (sr_cond r) i st = (b, st1)" by fastforce
    with Match_correct [OF Cons.prems, of tzdb "sr_cond r"]
    have b: "b = conditions_hold tzdb (sr_cond r) (ans st)" "good st1" "ans st1 = ans st" by auto
    show ?thesis
    proof (cases b)
      case False
      with True m b Cons.IH [OF b(2)] show ?thesis by (simp add: first_match_def)
    next
      case t: True
      with True m b Cons.IH [OF b(2)] Cons.prems show ?thesis
        by (cases "destAt s (sr_dest r)") (auto simp: first_match_def)
    qed
  next
    case False
    with Cons show ?thesis by (simp add: first_match_def)
  qed
qed (simp add: first_match_def)

end

interpretation subject: lawful_subject ruleSubject subject_good subject_answers
  by unfold_locales (simp_all add: ruleSubject_def Country_contract Region_contract City_contract
    classify_contracts header_contracts Returning_contract)

subsection \<open>What is asked\<close>

text \<open>A method or a continuation that asks at most the lookups of \<open>L\<close>.\<close>

definition asks :: "lookup set \<Rightarrow> (subject \<Rightarrow> 'a \<times> subject) \<Rightarrow> bool" where
  "asks L get \<longleftrightarrow> (\<forall>s. set (su_calls (snd (get s))) \<subseteq> set (su_calls s) \<union> L)"

lemma method_asks:
  "asks {LookCountry} Country" "asks {LookRegion} Region" "asks {LookCity} City"
  "asks {LookUserAgent} Browser" "asks {LookUserAgent} OS" "asks {LookUserAgent} Device_of"
  "asks {} Language" "asks {} Referrer" "asks {} (QueryParam n)" "asks {LookReturning} Returning"
  "asks {} Now"
  by (auto simp: asks_def Country_def Region_def City_def Browser_def OS_def Device_of_def classify_def
      Language_def Referrer_def QueryParam_def Returning_def Now_def Let_def split: option.splits)

lemma asks_guard:
  assumes "asks L get" "asks M k"
  shows "asks ((if isset then L else {}) \<union> M) (guard isset get ok k)"
  unfolding asks_def
proof
  fix s
  obtain a s1 where g: "get s = (a, s1)" by fastforce
  with assms(1) have "set (su_calls s1) \<subseteq> set (su_calls s) \<union> L" by (metis asks_def snd_conv)
  moreover have "set (su_calls (snd (k t))) \<subseteq> set (su_calls t) \<union> M" for t
    using assms(2) by (simp add: asks_def)
  ultimately show "set (su_calls (snd (guard isset get ok k s)))
      \<subseteq> set (su_calls s) \<union> ((if isset then L else {}) \<union> M)"
    using g by (simp add: guard_def) blast
qed

lemma matchQuery_asks: "asks {} (matchQuery want pre ruleSubject)"
proof -
  have "set (su_calls (snd (matchQuery want pre ruleSubject s))) \<subseteq> set (su_calls s)" for s
  proof (induction want arbitrary: s)
    case (Cons e want)
    obtain name vals where e: "e = (name, vals)" by fastforce
    obtain got s1 where g: "QueryParam (pre @ name) s = (got, s1)" by fastforce
    with method_asks(9) [of "pre @ name"] have "set (su_calls s1) \<subseteq> set (su_calls s)"
      by (metis asks_def snd_conv sup_bot.right_neutral)
    with Cons [of s1] g show ?case by (auto simp: e ruleSubject_def)
  qed simp
  then show ?thesis by (simp add: asks_def)
qed

definition lookups_of :: "rule_conditions \<Rightarrow> lookup set" where
  "lookups_of c =
     (if rc_country c \<noteq> [] then {LookCountry} else {})
     \<union> (if rc_region c \<noteq> [] then {LookRegion} else {})
     \<union> (if rc_city c \<noteq> [] then {LookCity} else {})
     \<union> (if rc_device c \<noteq> [] \<or> rc_browser c \<noteq> [] \<or> rc_os c \<noteq> [] then {LookUserAgent} else {})
     \<union> (if rc_returning c \<noteq> None then {LookReturning} else {})"

lemma asks_mono: "asks L k \<Longrightarrow> L \<subseteq> M \<Longrightarrow> asks M k"
  by (fastforce simp: asks_def)

lemma asks_return: "asks {} (\<lambda>s. (b, s))"
  by (simp add: asks_def)

lemma Match_asks: "asks (lookups_of c) (Match tzdb c ruleSubject)"
proof -
  let ?L = "(if length (rc_language c) > 0 then {} else {})
    \<union> ((if length (rc_referrer c) > 0 then {} else {})
    \<union> ((if True then {} else {}) \<union> ((if True then {} else {})
    \<union> ((if length (rc_device c) > 0 then {LookUserAgent} else {})
    \<union> ((if length (rc_browser c) > 0 then {LookUserAgent} else {})
    \<union> ((if length (rc_os c) > 0 then {LookUserAgent} else {})
    \<union> ((if rc_time c \<noteq> None then {} else {})
    \<union> ((if length (rc_country c) > 0 then {LookCountry} else {})
    \<union> ((if length (rc_region c) > 0 then {LookRegion} else {})
    \<union> ((if length (rc_city c) > 0 then {LookCity} else {})
    \<union> ((if rc_returning c \<noteq> None then {LookReturning} else {}) \<union> {})))))))))))"
  have sel: "rs_country ruleSubject = Country" "rs_region ruleSubject = Region" "rs_city ruleSubject = City"
    "rs_language ruleSubject = Language" "rs_browser ruleSubject = Browser" "rs_os ruleSubject = OS"
    "rs_device ruleSubject = Device_of" "rs_referrer_host ruleSubject = Referrer"
    "rs_returning ruleSubject = Returning" "rs_now ruleSubject = Now"
    by (simp_all add: ruleSubject_def)
  have "asks ?L (Match tzdb c ruleSubject)"
    unfolding Match_def sel
    by (intro asks_guard method_asks matchQuery_asks asks_return)
  then show ?thesis by (rule asks_mono) (auto simp: lookups_of_def)
qed

lemma route_rules_asks:
  "asks (\<Union>r \<in> {r \<in> set rs. KindOf r = RuleKindMatch}. lookups_of (sr_cond r)) (route_rules tzdb s ruleSubject rs)"
proof -
  have "set (su_calls (snd (route_rules tzdb s ruleSubject rs st)))
      \<subseteq> set (su_calls st) \<union> (\<Union>r \<in> {r \<in> set rs. KindOf r = RuleKindMatch}. lookups_of (sr_cond r))" for st
  proof (induction rs arbitrary: st)
    case (Cons r rs)
    show ?case
    proof (cases "KindOf r = RuleKindMatch")
      case True
      obtain b st1 where m: "Match tzdb (sr_cond r) ruleSubject st = (b, st1)" by fastforce
      with Match_asks [of "sr_cond r" tzdb]
      have "set (su_calls st1) \<subseteq> set (su_calls st) \<union> lookups_of (sr_cond r)"
        by (metis asks_def snd_conv)
      then show ?thesis
        using Cons [of st1] True m by (cases b; cases "destAt s (sr_dest r)") auto
    next
      case False
      with Cons [of st] show ?thesis by auto
    qed
  qed simp
  then show ?thesis by (simp add: asks_def)
qed

definition needed :: "rule_needs \<Rightarrow> lookup \<Rightarrow> bool" where
  "needed n l =
     (case l of LookCountry \<Rightarrow> rn_country n | LookRegion \<Rightarrow> rn_region n | LookCity \<Rightarrow> rn_city n
      | LookUserAgent \<Rightarrow> rn_user_agent n | LookReturning \<Rightarrow> rn_returning n)"

lemma lookups_needed:
  "r \<in> set (sn_rules s) \<Longrightarrow> KindOf r = RuleKindMatch \<Longrightarrow> l \<in> lookups_of (sr_cond r)
     \<Longrightarrow> needed (RuleNeeds (Some s)) l"
  by (cases l) (auto simp: needed_def RuleNeeds_def NeedsOf_def NeedsOf_loop_fields lookups_of_def split: if_splits)

subsection \<open>Properties\<close>

text \<open>C19. A request is routed by the first enabled match rule, in the order the snapshot carries them,
  whose conditions all hold of the request and whose target is in the payload; and by none when there
  is no such rule. The conditions are AND across kinds, OR within one, with unknown answers matching
  nothing (\<open>conditions_hold\<close>): memoisation and the order of evaluation change nothing.\<close>

theorem route_is_first_match:
  "fst (route tzdb geo ret r (Some s) now)
     = first_match tzdb s (subject_answers (newRuleSubject r (Some s) now geo ret)) (sn_rules s)"
  using subject.route_rules_correct [OF newRuleSubject_good, of tzdb s "sn_rules s" r "Some s" now geo ret]
  by (auto simp: route_def Route_def first_match_def split: prod.splits)

text \<open>Evaluating the rules of a link asks each outside source at most once, and only a source that
  \<open>RuleNeeds\<close> reports: no geographic lookup, no classification and no Redis round trip for a link whose
  rules do not mention it, and nothing at all for a link without rules.\<close>

theorem route_asks_once_and_only_what_is_needed:
  "distinct (snd (route tzdb geo ret r snap now))
     \<and> list_all (needed (RuleNeeds snap)) (snd (route tzdb geo ret r snap now))"
proof (cases snap)
  case (Some s)
  let ?st = "newRuleSubject r snap now geo ret"
  have "subject_good (snd (route_rules tzdb s ruleSubject (sn_rules s) ?st))"
    using subject.route_rules_correct [OF newRuleSubject_good] by blast
  then have "distinct (su_calls (snd (route_rules tzdb s ruleSubject (sn_rules s) ?st)))"
    by (simp add: subject_good_def Let_def)
  moreover have "needed (RuleNeeds snap) l"
    if "l \<in> set (su_calls (snd (route_rules tzdb s ruleSubject (sn_rules s) ?st)))" for l
  proof -
    have "su_calls ?st = []" by (simp add: newRuleSubject_def)
    with that route_rules_asks [of "sn_rules s" tzdb s]
    obtain q where "q \<in> set (sn_rules s)" "KindOf q = RuleKindMatch" "l \<in> lookups_of (sr_cond q)"
      by (fastforce simp: asks_def)
    then show ?thesis using lookups_needed Some by blast
  qed
  ultimately show ?thesis
    using Some by (auto simp: route_def Route_def list_all_iff split: prod.splits)
qed (simp add: route_def)

end
