(* ===== verification/MemCache.thy ===== *)
theory MemCache
  imports Snapshot "HOL-Library.AList"
begin

section \<open>The in-process cache\<close>

text \<open>
  \<open>internal/redirect/memcache.go\<close>: a sharded map with an expiry per entry, reaped when a shard is
  full and cleared when reaping frees nothing. A shard is the association list of its entries, one
  per key. The hash \<open>maphash.String\<close> of a key under the process's seed is the parameter \<open>h\<close>; every
  operation takes it, nothing is assumed of it. Each operation holds the lock of the shards it
  touches, so the operations are the atomic steps of the model.
\<close>

record 'v mem_entry =
  me_snapshot :: 'v
  me_expires :: instant

type_synonym 'v mem_shard = "(string \<times> 'v mem_entry) list"

record 'v mem_cache =
  mc_shards :: "'v mem_shard list"
  mc_mask :: int64
  mc_per_shard :: nat

type_synonym key_hash = "string \<Rightarrow> int64"

definition shardsDefault :: nat where "shardsDefault = 32"
definition shardsSmall :: nat where "shardsSmall = 8"
definition smallCacheMax :: nat where "smallCacheMax = 1024"

lemmas shard_consts = shardsDefault_def shardsSmall_def smallCacheMax_def

definition newMemCache :: "nat \<Rightarrow> 'v mem_cache" where
  "newMemCache sz =
     (let count = (if sz < smallCacheMax then shardsSmall else shardsDefault)
      in \<lparr>mc_shards = replicate count [], mc_mask = word_of_nat (count - 1),
          mc_per_shard = max (sz div count) 64\<rparr>)"

definition shard_of :: "key_hash \<Rightarrow> 'v mem_cache \<Rightarrow> string \<Rightarrow> nat" where
  "shard_of h c key = unat (and (h key) (mc_mask c))"

definition mem_get :: "key_hash \<Rightarrow> 'v mem_cache \<Rightarrow> string \<Rightarrow> instant \<Rightarrow> 'v option" where
  "mem_get h c key now =
     (case map_of (mc_shards c ! shard_of h c key) key of
        None \<Rightarrow> None
      | Some e \<Rightarrow> if now > me_expires e then None else Some (me_snapshot e))"

definition reap :: "instant \<Rightarrow> 'v mem_shard \<Rightarrow> 'v mem_shard" where
  "reap now s = filter (\<lambda>(k, e). \<not> now > me_expires e) s"

definition mem_set :: "key_hash \<Rightarrow> 'v mem_cache \<Rightarrow> string \<Rightarrow> 'v \<Rightarrow> duration \<Rightarrow> instant \<Rightarrow> 'v mem_cache" where
  "mem_set h c key snap ttl now =
     (let i = shard_of h c key;
          s = mc_shards c ! i;
          s1 = (if length s \<ge> mc_per_shard c then
                  (let s' = reap now s in if length s' \<ge> mc_per_shard c then [] else s')
                else s)
      in c\<lparr>mc_shards := (mc_shards c)[i := AList.update key \<lparr>me_snapshot = snap, me_expires = now + ttl\<rparr> s1]\<rparr>)"

definition mem_delete :: "key_hash \<Rightarrow> 'v mem_cache \<Rightarrow> string \<Rightarrow> 'v mem_cache" where
  "mem_delete h c key =
     (let i = shard_of h c key
      in c\<lparr>mc_shards := (mc_shards c)[i := AList.delete key (mc_shards c ! i)]\<rparr>)"

definition mem_delete_prefix :: "'v mem_cache \<Rightarrow> string \<Rightarrow> 'v mem_cache" where
  "mem_delete_prefix c pre =
     c\<lparr>mc_shards := map (filter (\<lambda>(k, e). \<not> prefix pre k)) (mc_shards c)\<rparr>"

definition mem_flush :: "'v mem_cache \<Rightarrow> 'v mem_cache" where
  "mem_flush c = c\<lparr>mc_shards := map (\<lambda>_. []) (mc_shards c)\<rparr>"

definition mem_len :: "'v mem_cache \<Rightarrow> nat" where
  "mem_len c = sum_list (map length (mc_shards c))"

subsection \<open>Invariant\<close>

text \<open>There are as many shards as the mask can select, every shard holds a key once, and no shard
  is over its bound.\<close>

definition mem_ok :: "'v mem_cache \<Rightarrow> bool" where
  "mem_ok c \<longleftrightarrow>
     length (mc_shards c) = Suc (unat (mc_mask c))
     \<and> (\<forall>s \<in> set (mc_shards c). distinct (map fst s) \<and> length s \<le> mc_per_shard c)
     \<and> 0 < mc_per_shard c"

lemma newMemCache_ok: "mem_ok (newMemCache sz)"
  by (auto simp: mem_ok_def newMemCache_def Let_def shard_consts unat_of_nat)

lemma shard_of_less: "mem_ok c \<Longrightarrow> shard_of h c key < length (mc_shards c)"
  by (simp add: mem_ok_def shard_of_def less_Suc_eq_le word_and_le1 word_le_nat_alt [symmetric])

lemma shard_ok:
  "mem_ok c \<Longrightarrow> i < length (mc_shards c)
     \<Longrightarrow> distinct (map fst (mc_shards c ! i)) \<and> length (mc_shards c ! i) \<le> mc_per_shard c"
  by (simp add: mem_ok_def)

lemma shard_of_simps [simp]:
  "shard_of h (c\<lparr>mc_shards := x\<rparr>) key = shard_of h c key"
  by (simp add: shard_of_def)

definition roomy :: "'v mem_cache \<Rightarrow> instant \<Rightarrow> 'v mem_shard \<Rightarrow> 'v mem_shard" where
  "roomy c now s =
     (if length s \<ge> mc_per_shard c then
        (let s' = reap now s in if length s' \<ge> mc_per_shard c then [] else s')
      else s)"

lemma roomy_props:
  assumes "distinct (map fst s)" "0 < mc_per_shard c"
  shows "distinct (map fst (roomy c now s))" "length (roomy c now s) < mc_per_shard c"
    "set (roomy c now s) \<subseteq> set s"
  using assms by (auto simp: roomy_def reap_def Let_def distinct_map_filter)

lemma mem_set_eq:
  "mem_set h c key snap ttl now =
     c\<lparr>mc_shards := (mc_shards c)[shard_of h c key :=
        AList.update key \<lparr>me_snapshot = snap, me_expires = now + ttl\<rparr>
          (roomy c now (mc_shards c ! shard_of h c key))]\<rparr>"
  by (simp add: mem_set_def roomy_def Let_def)

lemma length_AList_update: "length (AList.update k v s) \<le> Suc (length s)"
  by (induction s) auto

lemma mem_set_ok:
  assumes "mem_ok c"
  shows "mem_ok (mem_set h c key snap ttl now)"
proof -
  let ?i = "shard_of h c key"
  let ?s = "roomy c now (mc_shards c ! ?i)"
  have i: "?i < length (mc_shards c)" by (rule shard_of_less [OF assms])
  have "0 < mc_per_shard c" using assms by (simp add: mem_ok_def)
  note r = roomy_props [OF conjunct1 [OF shard_ok [OF assms i]] this, of now]
  have "distinct (map fst (AList.update key e ?s)) \<and> length (AList.update key e ?s) \<le> mc_per_shard c" for e
    using r distinct_update [of ?s key e] length_AList_update [of key e ?s] by simp
  with assms show ?thesis
    unfolding mem_ok_def mem_set_eq
    by (auto dest!: set_update_subset_insert [THEN subsetD])
qed

lemma length_AList_delete: "length (AList.delete k s) \<le> length s"
  by (simp add: AList.delete_eq)

lemma mem_delete_ok:
  assumes "mem_ok c"
  shows "mem_ok (mem_delete h c key)"
proof -
  let ?i = "shard_of h c key"
  have i: "?i < length (mc_shards c)" by (rule shard_of_less [OF assms])
  from shard_ok [OF assms i]
  have "distinct (map fst (AList.delete key (mc_shards c ! ?i)))
      \<and> length (AList.delete key (mc_shards c ! ?i)) \<le> mc_per_shard c"
    using length_AList_delete [of key "mc_shards c ! ?i"] by (auto simp: distinct_delete)
  with assms show ?thesis
    unfolding mem_ok_def mem_delete_def Let_def
    by (auto dest!: set_update_subset_insert [THEN subsetD])
qed

lemma mem_delete_prefix_ok: "mem_ok c \<Longrightarrow> mem_ok (mem_delete_prefix c pre)"
  by (auto simp: mem_ok_def mem_delete_prefix_def distinct_map_filter intro: order_trans [OF length_filter_le])

lemma mem_flush_ok: "mem_ok c \<Longrightarrow> mem_ok (mem_flush c)"
  by (auto simp: mem_ok_def mem_flush_def)

lemma mem_len_bound: "mem_ok c \<Longrightarrow> mem_len c \<le> Suc (unat (mc_mask c)) * mc_per_shard c"
  using sum_list_le_length_mult [of "mc_shards c" length "mc_per_shard c"] by (auto simp: mem_len_def mem_ok_def)

subsection \<open>The contract of a cache tier\<close>

text \<open>
  What a tier promises its clients: a hit within its time to live is what was last written there
  (never another key's value), a write may evict others and never invents one, a deletion and a
  prefix deletion remove exactly what they name, a flush removes everything.
\<close>

locale cache_tier =
  fixes ok :: "'c \<Rightarrow> bool"
    and get :: "'c \<Rightarrow> string \<Rightarrow> instant \<Rightarrow> 'v option"
    and set :: "'c \<Rightarrow> string \<Rightarrow> 'v \<Rightarrow> duration \<Rightarrow> instant \<Rightarrow> 'c"
    and del :: "'c \<Rightarrow> string \<Rightarrow> 'c"
    and del_prefix :: "'c \<Rightarrow> string \<Rightarrow> 'c"
    and flush :: "'c \<Rightarrow> 'c"
  assumes ok_set: "ok c \<Longrightarrow> ok (set c k v ttl now)"
    and ok_del: "ok c \<Longrightarrow> ok (del c k)"
    and ok_del_prefix: "ok c \<Longrightarrow> ok (del_prefix c p)"
    and ok_flush: "ok c \<Longrightarrow> ok (flush c)"
    and get_set_same: "ok c \<Longrightarrow> get (set c k v ttl now) k t = (if t > now + ttl then None else Some v)"
    and get_set_other: "ok c \<Longrightarrow> k' \<noteq> k \<Longrightarrow> get (set c k v ttl now) k' t = Some w \<Longrightarrow> get c k' t = Some w"
    and get_del: "ok c \<Longrightarrow> get (del c k) k' t = (if k' = k then None else get c k' t)"
    and get_del_prefix: "ok c \<Longrightarrow> get (del_prefix c p) k' t = (if prefix p k' then None else get c k' t)"
    and get_flush: "ok c \<Longrightarrow> get (flush c) k' t = None"
    and get_earlier: "ok c \<Longrightarrow> get c k t = Some w \<Longrightarrow> t' \<le> t \<Longrightarrow> get c k t' = Some w"
begin

text \<open>A property of the values a tier serves, key by key and instant by instant, survives every
  operation that writes only values that have it while they live.\<close>

definition serves :: "'c \<Rightarrow> (string \<Rightarrow> 'v \<Rightarrow> instant \<Rightarrow> bool) \<Rightarrow> bool" where
  "serves c P \<longleftrightarrow> ok c \<and> (\<forall>k t v. get c k t = Some v \<longrightarrow> P k v t)"

lemma serves_set:
  assumes "serves c P" "\<And>t. t \<le> now + ttl \<Longrightarrow> P k v t"
  shows "serves (set c k v ttl now) P"
  unfolding serves_def
proof (intro conjI allI impI)
  show "ok (set c k v ttl now)" using assms(1) ok_set by (simp add: serves_def)
  fix k' t w assume g: "get (set c k v ttl now) k' t = Some w"
  show "P k' w t"
  proof (cases "k' = k")
    case True
    with g assms show ?thesis by (auto simp: get_set_same serves_def split: if_splits)
  next
    case False
    with g assms(1) get_set_other show ?thesis by (auto simp: serves_def)
  qed
qed

lemma serves_del: "serves c P \<Longrightarrow> serves (del c k) P"
  by (auto simp: serves_def ok_del get_del split: if_splits)

lemma serves_del_prefix: "serves c P \<Longrightarrow> serves (del_prefix c p) P"
  by (auto simp: serves_def ok_del_prefix get_del_prefix split: if_splits)

lemma serves_flush: "serves c P \<Longrightarrow> serves (flush c) P"
  by (auto simp: serves_def ok_flush get_flush)

lemma serves_del_prefix_gone:
  "serves c P \<Longrightarrow> serves (del_prefix c p) (\<lambda>k v t. P k v t \<and> \<not> prefix p k)"
  by (auto simp: serves_def ok_del_prefix get_del_prefix split: if_splits)

end

subsection \<open>The memory cache keeps the contract\<close>

definition entry_live :: "'v mem_shard \<Rightarrow> string \<Rightarrow> instant \<Rightarrow> 'v option" where
  "entry_live s key now =
     (case map_of s key of
        None \<Rightarrow> None
      | Some e \<Rightarrow> if now > me_expires e then None else Some (me_snapshot e))"

lemma mem_get_live: "mem_get h c key now = entry_live (mc_shards c ! shard_of h c key) key now"
  by (simp add: mem_get_def entry_live_def)

lemma entry_live_update:
  "entry_live (AList.update k e s) k' t
     = (if k' = k then (if t > me_expires e then None else Some (me_snapshot e)) else entry_live s k' t)"
  by (simp add: entry_live_def update_conv')

lemma entry_live_delete: "entry_live (AList.delete k s) k' t = (if k' = k then None else entry_live s k' t)"
  by (simp add: entry_live_def delete_conv')

lemma entry_live_subset:
  assumes "set s' \<subseteq> set s" "distinct (map fst s)" "distinct (map fst s')" "entry_live s' k t = Some v"
  shows "entry_live s k t = Some v"
proof -
  obtain e where e: "map_of s' k = Some e" "\<not> t > me_expires e" "v = me_snapshot e"
    using assms(4) by (auto simp: entry_live_def split: option.splits if_splits)
  then have "map_of s k = Some e" using assms(1,2) by (auto dest: map_of_SomeD)
  with e show ?thesis by (simp add: entry_live_def)
qed

lemma entry_live_filter:
  "distinct (map fst s) \<Longrightarrow> entry_live (filter (\<lambda>(k, e). P k) s) k' t = (if P k' then entry_live s k' t else None)"
  by (induction s) (auto simp: entry_live_def split: option.splits)

interpretation mem: cache_tier mem_ok "mem_get h" "mem_set h" "mem_delete h" mem_delete_prefix mem_flush
  for h :: key_hash
proof unfold_locales
  fix c :: "'v mem_cache" and k k' p :: string and v w :: 'v and ttl now t t' :: int
  assume c: "mem_ok c"
  have i: "shard_of h c x < length (mc_shards c)" for x by (rule shard_of_less [OF c])
  have d: "distinct (map fst (mc_shards c ! shard_of h c x))" for x using shard_ok [OF c i] by blast
  have pos: "0 < mc_per_shard c" using c by (simp add: mem_ok_def)
  show "mem_ok (mem_set h c k v ttl now)" by (rule mem_set_ok [OF c])
  show "mem_ok (mem_delete h c k)" by (rule mem_delete_ok [OF c])
  show "mem_ok (mem_delete_prefix c p)" by (rule mem_delete_prefix_ok [OF c])
  show "mem_ok (mem_flush c)" by (rule mem_flush_ok [OF c])
  show "mem_get h (mem_set h c k v ttl now) k t = (if t > now + ttl then None else Some v)"
    using i [of k] by (simp add: mem_get_live mem_set_eq entry_live_update)
  show "mem_get h c k' t = Some w" if "k' \<noteq> k" "mem_get h (mem_set h c k v ttl now) k' t = Some w"
  proof (cases "shard_of h c k' = shard_of h c k")
    case True
    with that i [of k] have "entry_live (roomy c now (mc_shards c ! shard_of h c k)) k' t = Some w"
      by (simp add: mem_get_live mem_set_eq entry_live_update)
    then show ?thesis
      using entry_live_subset [OF roomy_props(3) d roomy_props(1)] d pos True
      by (metis mem_get_live)
  next
    case False
    with that show ?thesis by (simp add: mem_get_live mem_set_eq)
  qed
  show "mem_get h (mem_delete h c k) k' t = (if k' = k then None else mem_get h c k' t)"
    using i [of k]
    by (cases "shard_of h c k' = shard_of h c k")
      (auto simp: mem_get_live mem_delete_def Let_def entry_live_delete)
  show "mem_get h (mem_delete_prefix c p) k' t = (if prefix p k' then None else mem_get h c k' t)"
    using i [of k'] d [of k'] by (simp add: mem_get_live mem_delete_prefix_def entry_live_filter)
  show "mem_get h (mem_flush c) k' t = None"
    using i [of k'] by (simp add: mem_get_live mem_flush_def entry_live_def)
  show "mem_get h c k t' = Some w" if "mem_get h c k t = Some w" "t' \<le> t"
    using that by (auto simp: mem_get_def split: option.splits if_splits)
qed

end
