(* ===== verification/Resolver.thy ===== *)
theory Resolver
  imports MemCache
begin

section \<open>Resolving an alias through the cache tiers\<close>

text \<open>
  \<open>internal/redirect/resolver.go\<close> and the appliers of \<open>invalidation.go\<close>. What is not code of the
  repository is an argument, gathered in \<open>env\<close>: the text of a uuid, the key hash, the two JSON
  codecs, the query \<open>ResolveAliasForRedirect\<close> (a function of the instant, since the data changes
  under the caches) and the Redis commands, which act on a server state of their own. One call runs
  at one instant, the \<open>time.Now()\<close> it takes. \<open>singleflight\<close> only shares the result of concurrent
  identical calls, so a sequence of calls is a sequence of steps here.
\<close>

datatype redis_reply = GetNil | GetError | GetBytes string

record 'r redis_ops =
  rd_get :: "string \<Rightarrow> instant \<Rightarrow> 'r \<Rightarrow> redis_reply \<times> 'r"
  rd_set :: "string \<Rightarrow> string \<Rightarrow> duration \<Rightarrow> instant \<Rightarrow> 'r \<Rightarrow> 'r"
  rd_del :: "string \<Rightarrow> 'r \<Rightarrow> bool \<times> 'r"
  rd_scan :: "nat \<Rightarrow> string \<Rightarrow> 'r \<Rightarrow> (string list \<times> nat) option \<times> 'r"
  rd_unlink :: "string list \<Rightarrow> 'r \<Rightarrow> bool \<times> 'r"

record query_rule =
  qr_id :: uuid
  qr_url :: string
  qr_kind :: string
  qr_weight :: int32
  qr_conditions :: rule_conditions

record db_row =
  db_id :: uuid
  db_workspace_id :: uuid
  db_primary_url :: string
  db_status :: string
  db_expires_at :: "instant option"
  db_forward_query :: bool
  db_forward_path :: bool
  db_password_hash :: "string option"
  db_max_clicks :: "int64 option"
  db_one_time :: bool
  db_require_signature :: bool
  db_bot_blocking :: string
  db_block_bots :: bool
  db_block_bots_enforced :: bool
  db_rules :: string
  db_code_slugs :: string

datatype db_reply = DbError | DbNoRows | DbRow db_row

record options =
  op_ttl :: duration
  op_negative_ttl :: duration
  op_redis_timeout :: duration
  op_invalidate_budget :: duration
  op_db_timeout :: duration
  op_mem_cache_size :: int

record 'r env =
  en_uuid :: "uuid \<Rightarrow> string"
  en_hash :: key_hash
  en_encode :: "snapshot \<Rightarrow> string option"
  en_decode :: "string \<Rightarrow> snapshot option"
  en_decode_rules :: "string \<Rightarrow> query_rule list option"
  en_decode_slugs :: "string \<Rightarrow> string list option"
  en_query :: "uuid \<Rightarrow> string \<Rightarrow> instant \<Rightarrow> db_reply"
  en_redis :: "'r redis_ops option"
  en_opts :: options

record 'r resolver =
  rv_mem :: "snapshot mem_cache"
  rv_unavailable_until :: int
  rv_redis :: 'r

definition resolver_options :: "options \<Rightarrow> options" where
  "resolver_options opt =
     \<lparr>op_ttl = op_ttl opt, op_negative_ttl = op_negative_ttl opt,
      op_redis_timeout = (if op_redis_timeout opt \<le> 0 then 50 * millisecond_ns else op_redis_timeout opt),
      op_invalidate_budget = (if op_invalidate_budget opt \<le> 0 then 250 * millisecond_ns else op_invalidate_budget opt),
      op_db_timeout = (if op_db_timeout opt \<le> 0 then second_ns else op_db_timeout opt),
      op_mem_cache_size = (if op_mem_cache_size opt \<le> 0 then 10000 else op_mem_cache_size opt)\<rparr>"

definition NewResolver :: "options \<Rightarrow> 'r \<Rightarrow> 'r resolver" where
  "NewResolver opt r =
     \<lparr>rv_mem = newMemCache (nat (op_mem_cache_size (resolver_options opt))), rv_unavailable_until = 0, rv_redis = r\<rparr>"

definition CacheKeyVersion :: string where
  "CacheKeyVersion = ''v3''"

definition keyPrefix :: "(uuid \<Rightarrow> string) \<Rightarrow> uuid \<Rightarrow> string" where
  "keyPrefix us dm = ''lc:a:'' @ CacheKeyVersion @ '':'' @ us dm @ '':''"

definition key :: "(uuid \<Rightarrow> string) \<Rightarrow> uuid \<Rightarrow> string \<Rightarrow> string" where
  "key us dm name = keyPrefix us dm @ name"

datatype Source = SourceMemory | SourceRedis | SourceDatabase | SourceNegative

record Result =
  rs_snapshot :: snapshot
  rs_source :: Source

definition sourceFor :: "snapshot \<Rightarrow> Source \<Rightarrow> Source" where
  "sourceFor s src = (if sn_not_found s then SourceNegative else src)"

subsection \<open>From a row to a snapshot\<close>

definition attachCodes :: "'r env \<Rightarrow> snapshot \<Rightarrow> string \<Rightarrow> snapshot" where
  "attachCodes e s raw =
     (if length raw = 0 then s
      else case en_decode_slugs e raw of
             None \<Rightarrow> s
           | Some slugs \<Rightarrow>
               let kept = (if length slugs > MaxQRCodesPerLink then take MaxQRCodesPerLink slugs else slugs);
                   out = filter ValidQRCodeSlug kept
               in if length out > 0 then s\<lparr>sn_codes := out\<rparr> else s)"

fun attach_loop :: "query_rule list \<Rightarrow> (uuid \<rightharpoonup> nat) \<Rightarrow> snapshot_dest list \<Rightarrow> snapshot_rule list
    \<Rightarrow> snapshot_dest list \<times> snapshot_rule list" where
  "attach_loop [] index ds rs = (ds, rs)"
| "attach_loop (row # rows) index ds rs =
     (if qr_url row = '''' then attach_loop rows index ds rs
      else
        let kind = (if qr_kind row = RuleKindMatch then '''' else qr_kind row) in
        case index (qr_id row) of
          Some at_ \<Rightarrow>
            attach_loop rows index ds
              (rs @ [\<lparr>sr_dest = int at_, sr_cond = qr_conditions row, sr_kind = kind\<rparr>])
        | None \<Rightarrow>
            attach_loop rows (index(qr_id row \<mapsto> length ds))
              (ds @ [\<lparr>sd_id = qr_id row, sd_url = qr_url row, sd_weight = qr_weight row\<rparr>])
              (rs @ [\<lparr>sr_dest = int (length ds), sr_cond = qr_conditions row, sr_kind = kind\<rparr>]))"

definition attachRules :: "'r env \<Rightarrow> snapshot \<Rightarrow> string \<Rightarrow> snapshot" where
  "attachRules e s raw =
     (if length raw = 0 then s
      else case en_decode_rules e raw of
             None \<Rightarrow> s
           | Some rows \<Rightarrow>
               if length rows = 0 then s
               else case attach_loop rows Map.empty [] [] of
                      (ds, rs) \<Rightarrow>
                        if length rs = 0 then s\<lparr>sn_destinations := [], sn_rules := []\<rparr>
                        else s\<lparr>sn_destinations := ds, sn_rules := rs\<rparr>)"

definition row_snapshot :: "'r env \<Rightarrow> db_row \<Rightarrow> snapshot" where
  "row_snapshot e row =
     (let s = zero_snapshot
            \<lparr>sn_link_id := db_id row, sn_workspace_id := db_workspace_id row,
             sn_url := db_primary_url row, sn_status := db_status row,
             sn_expires_at := db_expires_at row, sn_forward_query := db_forward_query row,
             sn_forward_path := db_forward_path row,
             sn_has_password := (db_password_hash row \<noteq> None \<and> db_password_hash row \<noteq> Some ''''),
             sn_max_clicks := db_max_clicks row, sn_one_time := db_one_time row,
             sn_require_signature := db_require_signature row,
             sn_bot_policy := db_bot_blocking row,
             sn_domain_bot_policy := DomainBots (db_block_bots row) (db_block_bots_enforced row)\<rparr>
      in attachCodes e (attachRules e s (db_rules row)) (db_code_slugs row))"

subsection \<open>The tiers\<close>

definition markUnavailable :: "'r env \<Rightarrow> instant \<Rightarrow> 'r resolver \<Rightarrow> 'r resolver" where
  "markUnavailable e now r = r\<lparr>rv_unavailable_until := now + op_db_timeout (en_opts e)\<rparr>"

definition redisUnavailable :: "'r resolver \<Rightarrow> instant \<Rightarrow> bool" where
  "redisUnavailable r now \<longleftrightarrow> rv_unavailable_until r \<noteq> 0 \<and> now < rv_unavailable_until r"

definition cache_ttl :: "'r env \<Rightarrow> snapshot \<Rightarrow> instant \<Rightarrow> duration" where
  "cache_ttl e s now = CacheTTL (Some s) now (op_ttl (en_opts e)) (op_negative_ttl (en_opts e))"

definition fromRedis :: "'r env \<Rightarrow> string \<Rightarrow> instant \<Rightarrow> 'r resolver \<Rightarrow> snapshot option \<times> 'r resolver" where
  "fromRedis e k now r =
     (case en_redis e of
        None \<Rightarrow> (None, r)
      | Some ops \<Rightarrow>
          (case rd_get ops k now (rv_redis r) of
             (GetNil, w) \<Rightarrow> (None, r\<lparr>rv_redis := w\<rparr>)
           | (GetError, w) \<Rightarrow> (None, markUnavailable e now (r\<lparr>rv_redis := w\<rparr>))
           | (GetBytes b, w) \<Rightarrow>
               (case en_decode e b of
                  None \<Rightarrow> (None, r\<lparr>rv_redis := snd (rd_del ops k w)\<rparr>)
                | Some s \<Rightarrow>
                    (Some s, r\<lparr>rv_redis := w,
                               rv_mem := mem_set (en_hash e) (rv_mem r) k s (cache_ttl e s now) now\<rparr>))))"

definition store :: "'r env \<Rightarrow> string \<Rightarrow> snapshot \<Rightarrow> instant \<Rightarrow> 'r resolver \<Rightarrow> 'r resolver" where
  "store e k s now r =
     (let ttl = cache_ttl e s now;
          r1 = r\<lparr>rv_mem := mem_set (en_hash e) (rv_mem r) k s ttl now\<rparr> in
      case en_redis e of
        None \<Rightarrow> r1
      | Some ops \<Rightarrow>
          if redisUnavailable r1 now then r1
          else (case en_encode e s of
                  None \<Rightarrow> r1
                | Some b \<Rightarrow> r1\<lparr>rv_redis := rd_set ops k b ttl now (rv_redis r1)\<rparr>))"

definition fromDatabase :: "'r env \<Rightarrow> uuid \<Rightarrow> string \<Rightarrow> string \<Rightarrow> instant \<Rightarrow> 'r resolver
    \<Rightarrow> snapshot option \<times> 'r resolver" where
  "fromDatabase e dm name k now r =
     (case en_query e dm name now of
        DbError \<Rightarrow> (None, r)
      | DbNoRows \<Rightarrow> (Some notFoundSnapshot, store e k notFoundSnapshot now r)
      | DbRow row \<Rightarrow> (Some (row_snapshot e row), store e k (row_snapshot e row) now r))"

definition Resolve :: "'r env \<Rightarrow> uuid \<Rightarrow> string \<Rightarrow> instant \<Rightarrow> 'r resolver \<Rightarrow> Result option \<times> 'r resolver" where
  "Resolve e dm name now r =
     (let k = key (en_uuid e) dm name in
      case mem_get (en_hash e) (rv_mem r) k now of
        Some s \<Rightarrow> (Some \<lparr>rs_snapshot = s, rs_source = sourceFor s SourceMemory\<rparr>, r)
      | None \<Rightarrow>
          (case fromRedis e k now r of
             (Some s, r1) \<Rightarrow> (Some \<lparr>rs_snapshot = s, rs_source = sourceFor s SourceRedis\<rparr>, r1)
           | (None, r1) \<Rightarrow>
               (case fromDatabase e dm name k now r1 of
                  (None, r2) \<Rightarrow> (None, r2)
                | (Some s, r2) \<Rightarrow> (Some \<lparr>rs_snapshot = s, rs_source = sourceFor s SourceDatabase\<rparr>, r2))))"

definition ResolveCached :: "'r env \<Rightarrow> uuid \<Rightarrow> string \<Rightarrow> instant \<Rightarrow> 'r resolver \<Rightarrow> Result option" where
  "ResolveCached e dm name now r =
     (case mem_get (en_hash e) (rv_mem r) (key (en_uuid e) dm name) now of
        None \<Rightarrow> None
      | Some s \<Rightarrow> Some \<lparr>rs_snapshot = s, rs_source = sourceFor s SourceMemory\<rparr>)"

subsection \<open>Invalidation\<close>

text \<open>
  \<open>invalidateAttempts\<close> deletions are tried. Before each retry the caller waits, and the wait ends
  early when the budget does: \<open>up n\<close> says whether the budget is over at the n-th such moment.
\<close>

definition invalidateAttempts :: nat where
  "invalidateAttempts = 3"

fun retryDelete :: "'r redis_ops \<Rightarrow> (nat \<Rightarrow> bool) \<Rightarrow> string \<Rightarrow> nat \<Rightarrow> nat \<Rightarrow> 'r \<Rightarrow> bool \<times> 'r" where
  "retryDelete ops up k attempt 0 w = (False, w)"
| "retryDelete ops up k attempt (Suc left) w =
     (if attempt > 0 \<and> up (2 * attempt) then (False, w)
      else case rd_del ops k w of
             (True, w') \<Rightarrow> (True, w')
           | (False, w') \<Rightarrow>
               if up (2 * attempt + 1) then (False, w')
               else retryDelete ops up k (attempt + 1) left w')"

fun scanDelete :: "'r redis_ops \<Rightarrow> string \<Rightarrow> nat \<Rightarrow> nat \<Rightarrow> 'r \<Rightarrow> bool \<times> 'r" where
  "scanDelete ops pre cursor 0 w = (False, w)"
| "scanDelete ops pre cursor (Suc rounds) w =
     (case rd_scan ops cursor pre w of
        (None, w1) \<Rightarrow> (False, w1)
      | (Some (keys, next_), w1) \<Rightarrow>
          (case (if length keys > 0 then rd_unlink ops keys w1 else (True, w1)) of
             (False, w2) \<Rightarrow> (False, w2)
           | (True, w2) \<Rightarrow> if next_ = 0 then (True, w2) else scanDelete ops pre next_ rounds w2))"

datatype invalidation = KindAlias string | KindRoot | KindDomain string | KindHost | KindOther string

text \<open>What publishing sends: nothing without Redis.\<close>

definition publish :: "'r env \<Rightarrow> invalidation \<Rightarrow> invalidation list" where
  "publish e msg = (case en_redis e of None \<Rightarrow> [] | Some _ \<Rightarrow> [msg])"

definition InvalidateAlias :: "'r env \<Rightarrow> (nat \<Rightarrow> bool) \<Rightarrow> uuid \<Rightarrow> string \<Rightarrow> 'r resolver
    \<Rightarrow> invalidation list \<times> 'r resolver" where
  "InvalidateAlias e up dm name r =
     (let k = key (en_uuid e) dm name;
          r1 = r\<lparr>rv_mem := mem_delete (en_hash e) (rv_mem r) k\<rparr> in
      case en_redis e of
        None \<Rightarrow> ([], r1)
      | Some ops \<Rightarrow>
          (publish e (KindAlias k),
           r1\<lparr>rv_redis := snd (retryDelete ops up k 0 invalidateAttempts (rv_redis r1))\<rparr>))"

definition InvalidateDomain :: "'r env \<Rightarrow> nat \<Rightarrow> uuid \<Rightarrow> 'r resolver \<Rightarrow> invalidation list \<times> 'r resolver" where
  "InvalidateDomain e rounds dm r =
     (let pre = keyPrefix (en_uuid e) dm;
          r1 = r\<lparr>rv_mem := mem_delete_prefix (rv_mem r) pre\<rparr> in
      case en_redis e of
        None \<Rightarrow> ([], r1)
      | Some ops \<Rightarrow>
          (publish e (KindDomain pre), r1\<lparr>rv_redis := snd (scanDelete ops pre 0 rounds (rv_redis r1))\<rparr>))"

text \<open>A subscriber's part: one received message, and the drop of everything after a lost connection.
  The root page cache and the host cache are told by the two flags.\<close>

record told =
  td_root :: bool
  td_hosts :: bool

definition told_nothing :: told where
  "told_nothing = \<lparr>td_root = False, td_hosts = False\<rparr>"

definition apply_message :: "'r env \<Rightarrow> invalidation \<Rightarrow> 'r resolver \<Rightarrow> told \<times> 'r resolver" where
  "apply_message e msg r =
     (case msg of
        KindAlias k \<Rightarrow>
          (told_nothing, if k = '''' then r else r\<lparr>rv_mem := mem_delete (en_hash e) (rv_mem r) k\<rparr>)
      | KindDomain p \<Rightarrow>
          (told_nothing, if p = '''' then r else r\<lparr>rv_mem := mem_delete_prefix (rv_mem r) p\<rparr>)
      | KindRoot \<Rightarrow> (told_nothing\<lparr>td_root := True\<rparr>, r)
      | KindHost \<Rightarrow> (told_nothing\<lparr>td_hosts := True\<rparr>, r)
      | KindOther _ \<Rightarrow> (told_nothing, r))"

definition flush_all :: "'r resolver \<Rightarrow> told \<times> 'r resolver" where
  "flush_all r = (\<lparr>td_root = True, td_hosts = True\<rparr>, r\<lparr>rv_mem := mem_flush (rv_mem r)\<rparr>)"

subsection \<open>Keys\<close>

text \<open>The text of a uuid: of one length (36), different for different uuids.\<close>

definition uuid_text :: "(uuid \<Rightarrow> string) \<Rightarrow> bool" where
  "uuid_text us \<longleftrightarrow> inj us \<and> (\<forall>u v. length (us u) = length (us v))"

lemma prefix_key_iff:
  assumes "uuid_text us"
  shows "prefix (keyPrefix us dm) (key us dm' name) \<longleftrightarrow> dm = dm'"
proof
  assume "prefix (keyPrefix us dm) (key us dm' name)"
  then have "prefix (us dm @ '':'') (us dm' @ '':'' @ name)"
    by (simp add: keyPrefix_def key_def)
  then obtain rest where "us dm' @ '':'' @ name = us dm @ '':'' @ rest"
    by (auto simp: prefix_def)
  moreover have "length (us dm') = length (us dm)" using assms by (simp add: uuid_text_def)
  ultimately have "us dm' = us dm" by simp
  then show "dm = dm'" using assms by (simp add: uuid_text_def inj_eq)
qed (simp add: key_def)

lemma key_inj:
  assumes "uuid_text us"
  shows "key us dm name = key us dm' name' \<longleftrightarrow> dm = dm' \<and> name = name'"
proof
  assume eq: "key us dm name = key us dm' name'"
  then have "prefix (keyPrefix us dm) (key us dm' name')" by (metis key_def prefixI)
  with prefix_key_iff [OF assms] have "dm = dm'" by blast
  with eq show "dm = dm' \<and> name = name'" by (simp add: key_def)
qed simp

end
