(* ===== verification/Crypto.thy ===== *)
theory Crypto
  imports GoString
begin

unbundle bit_operations_syntax

section \<open>Hashing and encoding\<close>

text \<open>
  The packages \<open>crypto/sha256\<close>, \<open>crypto/hmac\<close> and \<open>encoding/base64\<close> (the unpadded URL alphabet) as
  the program uses them: FIPS 180-4, RFC 2104 and RFC 4648 on bytes. \<open>DecodeString\<close> skips carriage
  returns and line feeds, refuses every other byte outside the alphabet and ignores the spare bits of
  a last incomplete group.
\<close>

type_synonym bytes = "8 word list"

definition bytes_of :: "string \<Rightarrow> bytes" where
  "bytes_of s = map (\<lambda>c. word_of_nat (code c)) s"

lemma bytes_of_inj: "bytes_of s = bytes_of t \<longleftrightarrow> s = t"
proof -
  have "inj (\<lambda>c. word_of_nat (code c) :: 8 word)"
    by (auto intro!: injI simp: word_of_nat_eq_iff take_bit_nat_eq_self code_inj)
  then show ?thesis by (simp add: bytes_of_def inj_map_eq_map)
qed

subsection \<open>SHA-256\<close>

text \<open>The constants are the first 32 bits of the fractional parts of the cube roots of the first 64 primes
  and of the square roots of the first eight.\<close>

fun root_digits :: "nat \<Rightarrow> nat \<Rightarrow> nat \<Rightarrow> nat \<Rightarrow> nat" where
  "root_digits k n 0 acc = acc"
| "root_digits k n (Suc b) acc = root_digits k n b (if (acc + 2 ^ b) ^ k \<le> n then acc + 2 ^ b else acc)"

definition root_fraction :: "nat \<Rightarrow> nat \<Rightarrow> 32 word" where
  "root_fraction k p = word_of_nat (root_digits k (p * 2 ^ (32 * k)) 40 0)"

definition sha_k :: "32 word list" where
  "sha_k = map (root_fraction 3) (filter (\<lambda>p. list_all (\<lambda>d. p mod d \<noteq> 0) [2..<p]) [2..<312])"

definition sha_init :: "32 word list" where
  "sha_init = map (root_fraction 2) [2, 3, 5, 7, 11, 13, 17, 19]"

definition be32 :: "bytes \<Rightarrow> 32 word" where
  "be32 bs = foldl (\<lambda>w b. push_bit 8 w OR ucast b) 0 bs"

definition be_bytes :: "nat \<Rightarrow> nat \<Rightarrow> bytes" where
  "be_bytes n x = map (\<lambda>i. word_of_nat (x div 256 ^ (n - 1 - i))) [0..<n]"

function chunks :: "nat \<Rightarrow> 'a list \<Rightarrow> 'a list list" where
  "chunks k xs = (if k = 0 \<or> xs = [] then [] else take k xs # chunks k (drop k xs))"
  by auto
termination by (relation "measure (length \<circ> snd)") auto

declare chunks.simps [simp del]

definition sha_pad :: "bytes \<Rightarrow> bytes" where
  "sha_pad bs = bs @ [0x80] @ replicate ((119 - length bs mod 64) mod 64) 0 @ be_bytes 8 (8 * length bs)"

definition small0 :: "32 word \<Rightarrow> 32 word" where
  "small0 x = word_rotr 7 x XOR word_rotr 18 x XOR drop_bit 3 x"

definition small1 :: "32 word \<Rightarrow> 32 word" where
  "small1 x = word_rotr 17 x XOR word_rotr 19 x XOR drop_bit 10 x"

definition big0 :: "32 word \<Rightarrow> 32 word" where
  "big0 x = word_rotr 2 x XOR word_rotr 13 x XOR word_rotr 22 x"

definition big1 :: "32 word \<Rightarrow> 32 word" where
  "big1 x = word_rotr 6 x XOR word_rotr 11 x XOR word_rotr 25 x"

text \<open>The schedule is kept latest word first while it grows.\<close>

fun schedule :: "nat \<Rightarrow> 32 word list \<Rightarrow> 32 word list" where
  "schedule 0 w = rev w"
| "schedule (Suc n) w = schedule n ((small1 (w ! 1) + w ! 6 + small0 (w ! 14) + w ! 15) # w)"

fun sha_round :: "32 word list \<Rightarrow> 32 word \<times> 32 word \<Rightarrow> 32 word list" where
  "sha_round [a, b, c, d, e, f, g, h] (k, w) =
     (let t1 = h + big1 e + ((e AND f) XOR (NOT e AND g)) + k + w;
          t2 = big0 a + ((a AND b) XOR (a AND c) XOR (b AND c))
      in [t1 + t2, a, b, c, d + t1, e, f, g])"
| "sha_round s _ = s"

definition sha_block :: "32 word list \<Rightarrow> bytes \<Rightarrow> 32 word list" where
  "sha_block s b =
     map2 (+) s (foldl sha_round s (zip sha_k (schedule 48 (rev (map be32 (chunks 4 b))))))"

definition sha256 :: "bytes \<Rightarrow> bytes" where
  "sha256 bs =
     concat (map (\<lambda>w. be_bytes 4 (unat w)) (foldl sha_block sha_init (chunks 64 (sha_pad bs))))"

subsection \<open>HMAC\<close>

definition hmac_key :: "bytes \<Rightarrow> bytes" where
  "hmac_key k = (let k' = (if length k > 64 then sha256 k else k) in k' @ replicate (64 - length k') 0)"

definition hmac_sha256 :: "bytes \<Rightarrow> bytes \<Rightarrow> bytes" where
  "hmac_sha256 k m =
     (let kp = hmac_key k
      in sha256 (map (\<lambda>b. b XOR 0x5c) kp @ sha256 (map (\<lambda>b. b XOR 0x36) kp @ m)))"

subsection \<open>Base64, URL alphabet, no padding\<close>

definition b64_alphabet :: string where
  "b64_alphabet = ''ABCDEFGHIJKLMNOPQRSTUVWXYZabcdefghijklmnopqrstuvwxyz0123456789-_''"

definition b64_digit :: "nat \<Rightarrow> char" where
  "b64_digit n = b64_alphabet ! n"

definition b64_value :: "char \<Rightarrow> nat option" where
  "b64_value c =
     (let n = code c in
      if 65 \<le> n \<and> n \<le> 90 then Some (n - 65)
      else if 97 \<le> n \<and> n \<le> 122 then Some (n - 97 + 26)
      else if 48 \<le> n \<and> n \<le> 57 then Some (n - 48 + 52)
      else if n = 45 then Some 62
      else if n = 95 then Some 63
      else None)"

fun sextets :: "nat list \<Rightarrow> nat list" where
  "sextets (a # b # c # rest) =
     (a div 4) # (a mod 4 * 16 + b div 16) # (b mod 16 * 4 + c div 64) # (c mod 64) # sextets rest"
| "sextets [a, b] = [a div 4, a mod 4 * 16 + b div 16, b mod 16 * 4]"
| "sextets [a] = [a div 4, a mod 4 * 16]"
| "sextets [] = []"

fun octets :: "nat list \<Rightarrow> nat list option" where
  "octets (a # b # c # d # rest) =
     map_option (\<lambda>r. (a * 4 + b div 16) # (b mod 16 * 16 + c div 4) # (c mod 4 * 64 + d) # r) (octets rest)"
| "octets [a, b, c] = Some [a * 4 + b div 16, b mod 16 * 16 + c div 4]"
| "octets [a, b] = Some [a * 4 + b div 16]"
| "octets [a] = None"
| "octets [] = Some []"

fun b64_values :: "string \<Rightarrow> nat list option" where
  "b64_values [] = Some []"
| "b64_values (c # cs) =
     (case b64_value c of
        None \<Rightarrow> None
      | Some v \<Rightarrow> map_option (Cons v) (b64_values cs))"

definition RawURL_encode :: "bytes \<Rightarrow> string" where
  "RawURL_encode bs = map b64_digit (sextets (map unat bs))"

definition RawURL_decode :: "string \<Rightarrow> bytes option" where
  "RawURL_decode s =
     map_option (map word_of_nat)
       (Option.bind (b64_values (filter (\<lambda>c. c \<noteq> CHR 0x0A \<and> c \<noteq> CHR 0x0D) s)) octets)"

lemma b64_alphabet_length: "length b64_alphabet = 64"
  by (simp add: b64_alphabet_def)

lemma b64_digit_props:
  assumes "n < 64"
  shows "b64_value (b64_digit n) = Some n" "b64_digit n \<noteq> CHR 0x0A" "b64_digit n \<noteq> CHR 0x0D"
proof -
  have "map b64_value b64_alphabet = map Some [0..<64]"
    by (simp add: b64_alphabet_def b64_value_def code_def upt_rec)
  then have "map b64_value b64_alphabet ! n = map Some [0..<64] ! n"
    by (rule arg_cong)
  then show v: "b64_value (b64_digit n) = Some n"
    using assms by (simp add: b64_digit_def b64_alphabet_length)
  show "b64_digit n \<noteq> CHR 0x0A" "b64_digit n \<noteq> CHR 0x0D"
    using v by (auto simp: b64_value_def code_def)
qed

lemma sextets_less: "list_all (\<lambda>b. b < 256) bs \<Longrightarrow> list_all (\<lambda>v. v < 64) (sextets bs)"
  by (induction bs rule: sextets.induct) (auto simp: less_mult_imp_div_less)

lemma octets_sextets: "list_all (\<lambda>b. b < 256) bs \<Longrightarrow> octets (sextets bs) = Some bs"
  by (induction bs rule: sextets.induct) (auto simp: div_mult2_eq [symmetric])

lemma b64_values_digits: "list_all (\<lambda>v. v < 64) vs \<Longrightarrow> b64_values (map b64_digit vs) = Some vs"
  by (induction vs) (auto simp: b64_digit_props)

lemma RawURL_decode_encode: "RawURL_decode (RawURL_encode bs) = Some bs"
proof -
  have u: "list_all (\<lambda>b. b < 256) (map unat bs)"
    using unsigned_less [where 'b = 8] by (fastforce simp: list_all_iff)
  have d: "list_all (\<lambda>v. v < 64) (sextets (map unat bs))"
    using u by (rule sextets_less)
  then have "filter (\<lambda>c. c \<noteq> CHR 0x0A \<and> c \<noteq> CHR 0x0D) (RawURL_encode bs) = RawURL_encode bs"
    by (auto simp: RawURL_encode_def list_all_iff b64_digit_props intro!: filter_True)
  then show ?thesis
    using octets_sextets [OF u] b64_values_digits [OF d]
    by (simp add: RawURL_decode_def RawURL_encode_def comp_def)
qed

end
