(* ===== verification/Signature.thy ===== *)
theory Signature
  imports NetUrl Crypto
begin

section \<open>Signed URLs\<close>

text \<open>
  \<open>internal/gate/signature.go\<close>: the parameters a signed URL carries, their verification and their
  removal from a forwarded query. The text of a domain id (\<open>uuid.String\<close>, of \<open>google/uuid\<close>) is the
  parameter \<open>us\<close>; the binding theorem assumes of it what the package documents, that two ids have two
  texts and that a text holds no line feed. Instants are nanoseconds, so \<open>Unix\<close> divides and
  \<open>time.Unix\<close> multiplies, the latter through the 64-bit second count \<open>time.Time\<close> keeps since year 1.
\<close>

definition SigParam :: string where "SigParam = ''sig''"
definition ExpParam :: string where "ExpParam = ''exp''"
definition sigVersion :: string where "sigVersion = ''lc1''"
definition SecretLength :: nat where "SecretLength = 32"

datatype signature_error = ErrNoSignature | ErrBadSignature | ErrExpired | ErrNoSecret

definition unix_to_internal :: int where
  "unix_to_internal = 62135596800"

definition unix_seconds :: "instant \<Rightarrow> int" where
  "unix_seconds t = t div second_ns"

definition time_unix :: "int \<Rightarrow> instant" where
  "time_unix sec = second_ns * (sint (word_of_int (sec + unix_to_internal) :: int64) - unix_to_internal)"

definition format_int :: "int \<Rightarrow> string" where
  "format_int n = (if n < 0 then CHR ''-'' # itoa_nat (nat (- n)) else itoa_nat (nat n))"

definition line_feed :: string where "line_feed = [CHR 0x0A]"

definition mac_message :: "(uuid \<Rightarrow> string) \<Rightarrow> uuid \<Rightarrow> string \<Rightarrow> string \<Rightarrow> string" where
  "mac_message us domain_id name expiry =
     sigVersion @ line_feed @ us domain_id @ line_feed @ name @ line_feed @ expiry"

definition mac :: "(uuid \<Rightarrow> string) \<Rightarrow> bytes \<Rightarrow> uuid \<Rightarrow> string \<Rightarrow> string \<Rightarrow> bytes" where
  "mac us secret domain_id name expiry = hmac_sha256 secret (bytes_of (mac_message us domain_id name expiry))"

definition Sign :: "(uuid \<Rightarrow> string) \<Rightarrow> bytes \<Rightarrow> uuid \<Rightarrow> string \<Rightarrow> instant \<Rightarrow> signature_error + url_values" where
  "Sign us secret domain_id name expires =
     (if length secret = 0 then Inl ErrNoSecret
      else let expiry = format_int (unix_seconds expires)
           in Inr [(ExpParam, expiry), (SigParam, RawURL_encode (mac us secret domain_id name expiry))])"

text \<open>A verified request is \<open>None\<close>, as \<open>nil\<close> is in the source.\<close>

definition Verify :: "(uuid \<Rightarrow> string) \<Rightarrow> bytes \<Rightarrow> uuid \<Rightarrow> string \<Rightarrow> url_values \<Rightarrow> instant \<Rightarrow> signature_error option" where
  "Verify us secret domain_id name q now =
     (if length secret = 0 then Some ErrNoSecret
      else
        let got = values_get q SigParam; expiry = values_get q ExpParam in
        if got = '''' \<or> expiry = '''' then Some ErrNoSignature
        else case RawURL_decode got of
          None \<Rightarrow> Some ErrBadSignature
        | Some got_sum \<Rightarrow>
            if got_sum \<noteq> mac us secret domain_id name expiry then Some ErrBadSignature
            else case atoi expiry of
              None \<Rightarrow> Some ErrBadSignature
            | Some sec \<Rightarrow> if \<not> now < time_unix sec then Some ErrExpired else None)"

definition values_del :: "url_values \<Rightarrow> string \<Rightarrow> url_values" where
  "values_del v k = filter (\<lambda>p. fst p \<noteq> k) v"

definition StripSignature :: "string \<Rightarrow> string" where
  "StripSignature raw =
     (if raw = '''' then raw
      else case ParseQuery raw of (q, ok) \<Rightarrow>
        if \<not> ok then raw
        else if \<not> values_has q SigParam \<and> \<not> values_has q ExpParam then raw
        else encode_values (values_del (values_del q SigParam) ExpParam))"

lemmas sig_consts = SigParam_def ExpParam_def sigVersion_def line_feed_def

subsection \<open>Numbers\<close>

lemma digit_not_sign: "is_digit c \<Longrightarrow> c \<noteq> CHR ''-'' \<and> c \<noteq> CHR ''+''"
  by (auto simp: is_digit_def code_def)

lemma atoi_format_int:
  assumes "- (2 ^ 63) \<le> n" "n < 2 ^ 63"
  shows "atoi (format_int n) = Some n"
proof -
  show ?thesis
  proof (cases "n < 0")
    case True
    have "itoa_nat (nat (- n)) \<noteq> []" "list_all is_digit (itoa_nat (nat (- n)))"
      using itoa_nat_digits by blast+
    then show ?thesis
      using True assms by (simp add: atoi_def format_int_def digits_value_itoa)
  next
    case False
    obtain c cs where e: "itoa_nat (nat n) = c # cs" "list_all is_digit (c # cs)"
      using itoa_nat_digits [of "nat n"] by (cases "itoa_nat (nat n)") auto
    have "digits_value (c # cs) = nat n"
      using digits_value_itoa [of "nat n"] e(1) by simp
    then show ?thesis
      using False assms e digit_not_sign [of c] by (auto simp: atoi_def format_int_def)
  qed
qed

lemma format_int_nonempty: "format_int n \<noteq> ''''"
  using itoa_nat_digits by (auto simp: format_int_def)

lemma format_int_no_newline: "CHR 0x0A \<notin> set (format_int n)"
proof -
  have "\<not> is_digit (CHR 0x0A)" by (simp add: is_digit_def code_def)
  then show ?thesis
    using itoa_nat_digits by (auto simp: format_int_def list_all_iff)
qed

subsection \<open>Binding\<close>

lemma newline_split:
  assumes "a @ CHR 0x0A # b = a' @ CHR 0x0A # b'" "CHR 0x0A \<notin> set a" "CHR 0x0A \<notin> set a'"
  shows "a = a' \<and> b = b'"
  using assms by (induction a arbitrary: a') (case_tac a'; auto)+

lemma newline_split_last:
  assumes "a @ CHR 0x0A # b = a' @ CHR 0x0A # b'" "CHR 0x0A \<notin> set b" "CHR 0x0A \<notin> set b'"
  shows "a = a' \<and> b = b'"
proof -
  have "rev b @ CHR 0x0A # rev a = rev b' @ CHR 0x0A # rev a'"
    using arg_cong [OF assms(1), of rev] by simp
  then show ?thesis
    using newline_split [of "rev b" "rev a" "rev b'" "rev a'"] assms(2,3) by simp
qed

lemma mac_message_inj:
  assumes "mac_message us d a e = mac_message us d' a' e'"
    and "inj us" "\<And>u. CHR 0x0A \<notin> set (us u)" "CHR 0x0A \<notin> set e" "CHR 0x0A \<notin> set e'"
  shows "d = d' \<and> a = a' \<and> e = e'"
proof -
  have "us d @ CHR 0x0A # (a @ CHR 0x0A # e) = us d' @ CHR 0x0A # (a' @ CHR 0x0A # e')"
    using assms(1) by (simp add: mac_message_def sig_consts)
  then have "us d = us d'" "a @ CHR 0x0A # e = a' @ CHR 0x0A # e'"
    using newline_split assms(3) by blast+
  then show ?thesis
    using newline_split_last assms(2,4,5) by (metis injD)
qed

lemma atoi_no_newline: "atoi s = Some n \<Longrightarrow> CHR 0x0A \<notin> set s"
proof -
  assume a: "atoi s = Some n"
  have nd: "\<not> is_digit (CHR 0x0A)" by (simp add: is_digit_def code_def)
  show ?thesis
    using a nd by (cases s) (auto simp: atoi_def Let_def list_all_iff split: if_splits)
qed

lemma RawURL_encode_nonempty: "RawURL_encode bs = '''' \<longleftrightarrow> bs = []"
  by (cases "map unat bs" rule: sextets.cases) (auto simp: RawURL_encode_def)

lemma sha256_length: "length (sha256 bs) = 4 * length (foldl sha_block sha_init (chunks 64 (sha_pad bs)))"
  by (simp add: sha256_def length_concat comp_def be_bytes_def sum_list_triv)

lemma sha_round_length: "length (sha_round s kw) = length s"
  by (cases "(s, kw)" rule: sha_round.cases) (simp_all add: Let_def)

lemma sha_block_length: "length (sha_block s b) = length s"
proof -
  have "length (foldl sha_round s kws) = length s" for kws
    by (induction kws arbitrary: s) (simp_all add: sha_round_length)
  then show ?thesis by (simp add: sha_block_def)
qed

lemma length_sha256: "length (sha256 bs) = 32"
proof -
  have "length (foldl sha_block s bss) = length s" for s bss
    by (induction bss arbitrary: s) (simp_all add: sha_block_length)
  then show ?thesis by (simp add: sha256_length sha_init_def)
qed

lemma mac_nonempty: "RawURL_encode (mac us k d a e) \<noteq> ''''"
proof -
  have "length (mac us k d a e) = 32"
    by (simp add: mac_def hmac_sha256_def Let_def length_sha256)
  then show ?thesis by (auto simp: RawURL_encode_nonempty)
qed

subsection \<open>Properties\<close>

text \<open>The instants \<open>time.Time\<close> represents, whose second counts fit both in \<open>Unix\<close> and internally.\<close>

definition representable :: "instant \<Rightarrow> bool" where
  "representable t \<longleftrightarrow> - (2 ^ 63) \<le> unix_seconds t \<and> unix_seconds t + unix_to_internal < 2 ^ 63"

lemma time_unix_seconds: "representable t \<Longrightarrow> time_unix (unix_seconds t) = second_ns * unix_seconds t"
proof -
  assume r: "representable t"
  have "sint (word_of_int m :: int64) = m" if "- (2 ^ 63) \<le> m" "m < 2 ^ 63" for m
    using that by (simp add: sint_sbintrunc' signed_take_bit_int_eq_self)
  from this [of "unix_seconds t + unix_to_internal"] r show ?thesis
    unfolding time_unix_def by (simp add: representable_def unix_to_internal_def)
qed

lemma Sign_values:
  assumes "Sign us k d a t = Inr params"
  shows "k \<noteq> []" "values_get params ExpParam = format_int (unix_seconds t)"
    "values_get params SigParam = RawURL_encode (mac us k d a (format_int (unix_seconds t)))"
    "length params = 2"
    "values_of (sort_key fst params) x = values_of params x"
  using assms
  by (auto simp: Sign_def values_get_def values_of_def sig_consts Let_def sort_key_stable split: if_splits)

lemma values_get_sort [simp]: "values_get (sort_key fst v) k = values_get v k"
  by (simp add: values_get_def values_of_def sort_key_stable)

lemma minted_verifies:
  assumes "Sign us secret d name expires = Inr params" "representable expires"
  shows "Verify us secret d name (fst (ParseQuery (encode_values params))) now =
           (if now < second_ns * (expires div second_ns) then None else Some ErrExpired)"
proof -
  note s = Sign_values [OF assms(1)]
  have q: "fst (ParseQuery (encode_values params)) = sort_key fst params"
    using s(4) by (simp add: ParseQuery_encode max_query_params_def)
  have a: "atoi (format_int (unix_seconds expires)) = Some (unix_seconds expires)"
    using assms(2) by (intro atoi_format_int) (auto simp: representable_def unix_to_internal_def)
  show ?thesis
    using s(1) a time_unix_seconds [OF assms(2)]
    by (simp add: Verify_def q s(2,3) mac_nonempty format_int_nonempty RawURL_decode_encode Let_def
        unix_seconds_def [of expires])
qed

text \<open>C5. A minted signature verifies exactly until its expiry: the parameters \<open>Sign\<close> returns, written
  into a URL and parsed back, are accepted for the same secret, domain and alias at every instant
  before the second the expiry was truncated to, and are refused as expired from then on.\<close>

theorem Sign_then_Verify:
  assumes "Sign us secret d name expires = Inr params" "representable expires"
  shows "Verify us secret d name (fst (ParseQuery (encode_values params))) now =
           (if now < second_ns * (expires div second_ns) then None else Some ErrExpired)"
  using assms by (rule minted_verifies)

definition plain_uuid :: "uuid \<Rightarrow> string" where
  "plain_uuid u = itoa_nat (unat u)"

theorem Sign_then_Verify_witness:
  "Verify plain_uuid [7] 3 ''promo''
     (fst (ParseQuery (encode_values (projr (Sign plain_uuid [7] 3 ''promo'' (90 * second_ns + 5))))))
     (90 * second_ns) = Some ErrExpired"
proof -
  have "\<exists>params. Sign plain_uuid [7] 3 ''promo'' (90 * second_ns + 5) = Inr params"
    by (simp add: Sign_def Let_def)
  then obtain params where p: "Sign plain_uuid [7] 3 ''promo'' (90 * second_ns + 5) = Inr params" ..
  have "representable (90 * second_ns + 5)"
    by (simp add: representable_def unix_seconds_def unix_to_internal_def second_ns_def)
  from Sign_then_Verify [OF p this, of "90 * second_ns"] show ?thesis
    unfolding p sum.sel by (simp add: second_ns_def)
qed

text \<open>C6. A signature is bound to what it was minted for: if a request carrying the signature minted
  for a domain, alias and expiry is accepted for some domain and alias, then these are the same, the
  request carries the minted expiry and comes before it; the only other possibility is that the hash
  takes the same value on the two distinct messages of the mint and of the request.\<close>

theorem Verify_binds:
  assumes "Sign us secret d name expires = Inr params" "representable expires"
    and "values_get q SigParam = values_get params SigParam"
    and "Verify us secret d' name' q now = None"
    and "inj us" "\<And>u. CHR 0x0A \<notin> set (us u)"
  shows "d' = d \<and> name' = name \<and> values_get q ExpParam = values_get params ExpParam \<and>
           now < second_ns * (expires div second_ns) \<or>
         mac_message us d' name' (values_get q ExpParam) \<noteq> mac_message us d name (values_get params ExpParam) \<and>
           mac us secret d' name' (values_get q ExpParam) = mac us secret d name (values_get params ExpParam)"
proof -
  note s = Sign_values [OF assms(1)]
  let ?e = "values_get q ExpParam" and ?minted = "format_int (unix_seconds expires)"
  have "mac us secret d name ?minted = mac us secret d' name' ?e \<and> (\<exists>n. atoi ?e = Some n \<and> now < time_unix n)"
    using assms(4)
    by (simp add: Verify_def assms(3) s(3) RawURL_decode_encode Let_def split: if_splits option.splits)
  then obtain n where v: "mac us secret d name ?minted = mac us secret d' name' ?e" "atoi ?e = Some n" "now < time_unix n"
    by blast
  show ?thesis
  proof (cases "mac_message us d' name' ?e = mac_message us d name ?minted")
    case True
    then have eq: "d' = d \<and> name' = name \<and> ?e = ?minted"
      using assms(5,6) atoi_no_newline [OF v(2)] format_int_no_newline by (rule mac_message_inj)
    have "atoi ?minted = Some (unix_seconds expires)"
      using assms(2) by (intro atoi_format_int) (auto simp: representable_def unix_to_internal_def)
    then have "now < second_ns * unix_seconds expires"
      using v eq time_unix_seconds [OF assms(2)] by simp
    then show ?thesis
      using eq by (simp add: s(2) unix_seconds_def)
  qed (use v s(2) in auto)
qed

theorem Verify_binds_witness:
  "\<exists>params q. Sign plain_uuid [7] 3 ''promo'' second_ns = Inr params \<and>
     values_get q SigParam = values_get params SigParam \<and> Verify plain_uuid [7] 3 ''promo'' q 0 = None \<and>
     (values_get q ExpParam = values_get params ExpParam \<or>
      mac_message plain_uuid 3 ''promo'' (values_get q ExpParam) \<noteq>
        mac_message plain_uuid 3 ''promo'' (values_get params ExpParam))"
proof -
  obtain params where p: "Sign plain_uuid [7] 3 ''promo'' second_ns = Inr params"
    by (simp add: Sign_def Let_def)
  have r: "representable second_ns"
    by (simp add: representable_def unix_seconds_def unix_to_internal_def second_ns_def)
  have nd: "\<not> is_digit (CHR 0x0A)" by (simp add: is_digit_def code_def)
  have u: "inj plain_uuid" "\<And>u. CHR 0x0A \<notin> set (plain_uuid u)"
  proof -
    show "inj plain_uuid"
      by (rule injI) (metis plain_uuid_def digits_value_itoa unsigned_word_eqI)
    show "CHR 0x0A \<notin> set (plain_uuid u)" for u
      using itoa_nat_digits [of "unat u"] nd by (auto simp: plain_uuid_def list_all_iff)
  qed
  let ?q = "fst (ParseQuery (encode_values params))"
  have q: "values_get ?q SigParam = values_get params SigParam"
    using Sign_values(4) [OF p] by (simp add: ParseQuery_encode max_query_params_def)
  have v: "Verify plain_uuid [7] 3 ''promo'' ?q 0 = None"
    unfolding minted_verifies [OF p r] by (simp add: second_ns_def)
  show ?thesis
    using Verify_binds [OF p r q v u] p q v by blast
qed

subsection \<open>Stripping\<close>

lemma length_parse_parts: "length (fst (parse_parts ps)) \<le> length ps"
  by (induction ps) (auto simp: Let_def split_beta split: option.splits)

lemma length_split_on: "length (split_on c s) = Suc (count_list s c)"
  by (induction s) (auto split: list.splits)

lemma length_ParseQuery: "length (fst (ParseQuery raw)) \<le> max_query_params"
  using length_parse_parts [of "split_on (CHR ''&'') raw"]
  by (auto simp: ParseQuery_def length_split_on)

lemma values_of_del: "values_of (values_del v k) x = (if x = k then [] else values_of v x)"
  by (auto simp: values_of_def values_del_def filter_empty_conv intro!: arg_cong [where f = "map snd"] filter_cong)

lemma values_of_sort [simp]: "values_of (sort_key fst v) k = values_of v k"
  by (simp add: values_of_def sort_key_stable)

lemma values_of_has: "values_of v k = [] \<longleftrightarrow> \<not> values_has v k"
  by (auto simp: values_of_def values_has_def filter_empty_conv)

lemma length_del_less: "values_has v k \<Longrightarrow> length (values_del v k) < length v"
  by (auto simp: values_has_def values_del_def intro!: length_filter_less)

lemma length_del_le: "length (values_del v k) \<le> length v"
  by (simp add: values_del_def)

lemma stripped_values:
  assumes "ParseQuery raw = (q, True)"
  shows "snd (ParseQuery (StripSignature raw)) \<and>
    values_of (fst (ParseQuery (StripSignature raw))) x =
      (if x = SigParam \<or> x = ExpParam then [] else values_of q x)"
proof (cases "raw = '''' \<or> \<not> values_has q SigParam \<and> \<not> values_has q ExpParam")
  case True
  then have "StripSignature raw = raw"
    using assms by (auto simp: StripSignature_def)
  moreover have "\<not> values_has q SigParam \<and> \<not> values_has q ExpParam"
    using True assms by (auto simp: ParseQuery_def max_query_params_def values_has_def)
  ultimately show ?thesis
    using assms by (auto simp: values_of_has)
next
  case False
  let ?v = "values_del (values_del q SigParam) ExpParam"
  have s: "StripSignature raw = encode_values ?v"
    using False assms by (auto simp: StripSignature_def)
  have "length ?v < length q"
  proof (cases "values_has q SigParam")
    case True
    then show ?thesis
      using length_del_less [OF True] length_del_le [of "values_del q SigParam" ExpParam] by simp
  next
    case no_sig: False
    then have "values_del q SigParam = q"
      by (force simp: values_del_def values_has_def intro!: filter_True)
    then show ?thesis
      using False no_sig length_del_less [of q ExpParam] by simp
  qed
  then have "length ?v < max_query_params"
    using length_ParseQuery [of raw] assms by simp
  then show ?thesis
    by (auto simp: s ParseQuery_encode values_of_del)
qed

text \<open>Stripping removes the signature and nothing else: from a query that parses, what is forwarded
  parses to the same values under every other name and to none under the two names of a signed URL.\<close>

theorem StripSignature_removes_only_the_signature:
  assumes "ParseQuery raw = (q, True)"
  shows "snd (ParseQuery (StripSignature raw)) \<and>
    values_of (fst (ParseQuery (StripSignature raw))) x =
      (if x = SigParam \<or> x = ExpParam then [] else values_of q x)"
  using assms by (rule stripped_values)

theorem StripSignature_removes_only_the_signature_witness:
  "values_of (fst (ParseQuery (StripSignature ''a=1&sig=x&exp=9''))) ''a'' = [''1''] \<and>
   values_of (fst (ParseQuery (StripSignature ''a=1&sig=x&exp=9''))) SigParam = []"
proof -
  have "ParseQuery ''a=1&sig=x&exp=9'' = ([(''a'', ''1''), (''sig'', ''x''), (''exp'', ''9'')], True)"
    by (simp add: ParseQuery_def max_query_params_def QueryUnescape_def)
  note h = StripSignature_removes_only_the_signature [OF this]
  show ?thesis
    using h [of "''a''"] h [of SigParam] by (simp add: sig_consts values_of_def)
qed

end
