(* ===== verification/Url.thy ===== *)
theory Url
  imports NetUrl
begin

section \<open>URLs\<close>

text \<open>
  The part of Go's \<open>net/url\<close> the redirect path uses on a destination: \<open>Parse\<close>, \<open>URL.EscapedPath\<close> and
  \<open>URL.String\<close>. The check and decoding of a host (\<open>parseHost\<close>: ports, bracketed literals, zones),
  which changes between releases, is the argument \<open>ph\<close> of \<open>Parse\<close>; what is assumed of it is stated where it is used (\<open>reads_back\<close>).
\<close>

datatype url_mode = EncodePath | EncodeHost | EncodeUserPassword | EncodeFragment

definition alnum :: "char \<Rightarrow> bool" where
  "alnum c \<longleftrightarrow> 97 \<le> code c \<and> code c \<le> 122 \<or> 65 \<le> code c \<and> code c \<le> 90 \<or> is_digit c"

text \<open>\<open>shouldEscape\<close>, in the order of its tests.\<close>

definition should_escape :: "url_mode \<Rightarrow> char \<Rightarrow> bool" where
  "should_escape mode c =
     (if alnum c then False
      else if mode = EncodeHost \<and> c \<in> set ''!$&()*+,;=:[]<>'' then False
      else if mode = EncodeHost \<and> (c = CHR 0x27 \<or> c = CHR 0x22) then False
      else if c \<in> set ''-_.~'' then False
      else if c \<in> set ''$&+,/:;=?@'' then
        (case mode of
           EncodePath \<Rightarrow> c = CHR ''?''
         | EncodeUserPassword \<Rightarrow> c \<in> set ''@/?:''
         | EncodeFragment \<Rightarrow> False
         | EncodeHost \<Rightarrow> True)
      else if mode = EncodeFragment \<and> c \<in> set ''!()*'' then False
      else True)"

definition url_escape :: "url_mode \<Rightarrow> string \<Rightarrow> string" where
  "url_escape mode s =
     concat (map (\<lambda>c. if should_escape mode c
                      then [CHR ''%'', hex_digit (code c div 16), hex_digit (code c mod 16)] else [c]) s)"

definition valid_char :: "url_mode \<Rightarrow> char \<Rightarrow> bool" where
  "valid_char mode c \<longleftrightarrow> c \<in> set ''!$&()*+,;=:@[]%'' \<or> c = CHR 0x27 \<or> \<not> should_escape mode c"

definition valid_encoded :: "url_mode \<Rightarrow> string \<Rightarrow> bool" where
  "valid_encoded mode s = list_all (valid_char mode) s"

lemma valid_char_intros:
  "alnum c \<Longrightarrow> valid_char m c" "\<not> should_escape m c \<Longrightarrow> valid_char m c"
  "valid_char m (CHR ''%'')" "valid_char EncodePath (CHR ''/'')" "\<not> should_escape EncodePath (CHR ''/'')"
  by (simp_all add: valid_char_def should_escape_def alnum_def is_digit_def code_def)

record url =
  ul_scheme :: string
  ul_opaque :: string
  ul_user :: "(string \<times> string option) option"
  ul_host :: string
  ul_path :: string
  ul_raw_path :: string
  ul_omit_host :: bool
  ul_force_query :: bool
  ul_raw_query :: string
  ul_fragment :: string
  ul_raw_fragment :: string

definition empty_url :: url where
  "empty_url =
     \<lparr>ul_scheme = '''', ul_opaque = '''', ul_user = None, ul_host = '''', ul_path = '''', ul_raw_path = '''',
      ul_omit_host = False, ul_force_query = False, ul_raw_query = '''', ul_fragment = '''', ul_raw_fragment = ''''\<rparr>"

subsection \<open>Parsing\<close>

definition is_ctl :: "char \<Rightarrow> bool" where
  "is_ctl c \<longleftrightarrow> code c < 32 \<or> code c = 127"

definition is_letter :: "char \<Rightarrow> bool" where
  "is_letter c \<longleftrightarrow> 97 \<le> code c \<and> code c \<le> 122 \<or> 65 \<le> code c \<and> code c \<le> 90"

text \<open>\<open>getScheme\<close>: what follows the scheme's colon, or the whole text when there is no scheme.\<close>

fun scheme_loop :: "string \<Rightarrow> string \<Rightarrow> string \<Rightarrow> (string \<times> string) option" where
  "scheme_loop raw before [] = Some ('''', raw)"
| "scheme_loop raw before (c # cs) =
     (if is_letter c then scheme_loop raw (before @ [c]) cs
      else if is_digit c \<or> c \<in> set ''+-.'' then
        (if before = '''' then Some ('''', raw) else scheme_loop raw (before @ [c]) cs)
      else if c = CHR '':'' then (if before = '''' then None else Some (before, cs))
      else Some ('''', raw))"

definition valid_userinfo :: "string \<Rightarrow> bool" where
  "valid_userinfo s = list_all (\<lambda>c. alnum c \<or> c \<in> set ''-._:~!$&()*+,;=%@'' \<or> c = CHR 0x27) s"

definition parse_authority :: "(string \<Rightarrow> string option) \<Rightarrow> string
    \<Rightarrow> ((string \<times> string option) option \<times> string) option" where
  "parse_authority ph s =
     (case cut_last (CHR ''@'') s of
        None \<Rightarrow> map_option (Pair None) (ph s)
      | Some (info, hostpart) \<Rightarrow>
          (case ph hostpart of
             None \<Rightarrow> None
           | Some h \<Rightarrow>
               if \<not> valid_userinfo info then None
               else case cut (CHR '':'') info of
                 (name, pass, colon) \<Rightarrow>
                   if \<not> colon then map_option (\<lambda>n. (Some (n, None), h)) (unescape False info)
                   else (case (unescape False name, unescape False pass) of
                           (Some n, Some p) \<Rightarrow> Some (Some (n, Some p), h)
                         | _ \<Rightarrow> None)))"

definition set_path :: "url \<Rightarrow> string \<Rightarrow> url option" where
  "set_path u p =
     map_option (\<lambda>path. u\<lparr>ul_path := path, ul_raw_path := (if p = url_escape EncodePath path then '''' else p)\<rparr>)
       (unescape False p)"

definition set_fragment :: "url \<Rightarrow> string \<Rightarrow> url option" where
  "set_fragment u f =
     map_option (\<lambda>frag. u\<lparr>ul_fragment := frag,
                          ul_raw_fragment := (if f = url_escape EncodeFragment frag then '''' else f)\<rparr>)
       (unescape False f)"

definition parse_rest :: "(string \<Rightarrow> string option) \<Rightarrow> url \<Rightarrow> string \<Rightarrow> url option" where
  "parse_rest ph u rest =
     (if \<not> prefix ''/'' rest \<and> ul_scheme u \<noteq> '''' then Some (u\<lparr>ul_opaque := rest\<rparr>)
      else if \<not> prefix ''/'' rest \<and> CHR '':'' \<in> set (fst (cut (CHR ''/'') rest)) then None
      else if (ul_scheme u \<noteq> '''' \<or> \<not> prefix ''///'' rest) \<and> prefix ''//'' rest then
        (let body = drop 2 rest;
             authority = takeWhile (\<lambda>c. c \<noteq> CHR ''/'') body;
             path = dropWhile (\<lambda>c. c \<noteq> CHR ''/'') body
         in case parse_authority ph authority of
              None \<Rightarrow> None
            | Some (user, h) \<Rightarrow> set_path (u\<lparr>ul_user := user, ul_host := h\<rparr>) path)
      else if ul_scheme u \<noteq> '''' \<and> prefix ''/'' rest then set_path (u\<lparr>ul_omit_host := True\<rparr>) rest
      else set_path u rest)"

definition parse_no_fragment :: "(string \<Rightarrow> string option) \<Rightarrow> string \<Rightarrow> url option" where
  "parse_no_fragment ph raw =
     (if list_ex is_ctl raw then None
      else if raw = ''*'' then Some (empty_url\<lparr>ul_path := ''*''\<rparr>)
      else case scheme_loop raw '''' raw of
        None \<Rightarrow> None
      | Some (scheme, rest) \<Rightarrow>
          (let u = empty_url\<lparr>ul_scheme := to_lower scheme\<rparr> in
           if suffix ''?'' rest \<and> count_list rest (CHR ''?'') = 1
           then parse_rest ph (u\<lparr>ul_force_query := True\<rparr>) (butlast rest)
           else case cut (CHR ''?'') rest of
             (path, q, _) \<Rightarrow> parse_rest ph (u\<lparr>ul_raw_query := q\<rparr>) path))"

definition Parse :: "(string \<Rightarrow> string option) \<Rightarrow> string \<Rightarrow> url option" where
  "Parse ph raw =
     (case cut (CHR ''#'') raw of
        (before, frag, _) \<Rightarrow>
          (case parse_no_fragment ph before of
             None \<Rightarrow> None
           | Some u \<Rightarrow> if frag = '''' then Some u else set_fragment u frag))"

subsection \<open>Printing\<close>

definition EscapedPath :: "url \<Rightarrow> string" where
  "EscapedPath u =
     (if ul_raw_path u \<noteq> '''' \<and> valid_encoded EncodePath (ul_raw_path u)
         \<and> unescape False (ul_raw_path u) = Some (ul_path u) then ul_raw_path u
      else if ul_path u = ''*'' then ''*''
      else url_escape EncodePath (ul_path u))"

definition EscapedFragment :: "url \<Rightarrow> string" where
  "EscapedFragment u =
     (if ul_raw_fragment u \<noteq> '''' \<and> valid_encoded EncodeFragment (ul_raw_fragment u)
         \<and> unescape False (ul_raw_fragment u) = Some (ul_fragment u) then ul_raw_fragment u
      else url_escape EncodeFragment (ul_fragment u))"

definition user_text :: "string \<times> string option \<Rightarrow> string" where
  "user_text ui =
     url_escape EncodeUserPassword (fst ui) @
     (case snd ui of None \<Rightarrow> '''' | Some p \<Rightarrow> CHR '':'' # url_escape EncodeUserPassword p)"

text \<open>Scheme, user and host, as \<open>String\<close> writes them in front of the path.\<close>

definition origin_text :: "url \<Rightarrow> string" where
  "origin_text u =
     (if ul_scheme u \<noteq> '''' then ul_scheme u @ '':'' else '''') @
     (if ul_scheme u \<noteq> '''' \<or> ul_host u \<noteq> '''' \<or> ul_user u \<noteq> None then
        (if ul_omit_host u \<and> ul_host u = '''' \<and> ul_user u = None then ''''
         else (if ul_host u \<noteq> '''' \<or> ul_path u \<noteq> '''' \<or> ul_user u \<noteq> None then ''//'' else '''') @
              (case ul_user u of None \<Rightarrow> '''' | Some ui \<Rightarrow> user_text ui @ ''@'') @
              (if ul_host u \<noteq> '''' then url_escape EncodeHost (ul_host u) else ''''))
      else '''')"

definition path_text :: "url \<Rightarrow> string" where
  "path_text u =
     (let path = EscapedPath u in
      (if path \<noteq> '''' \<and> hd path \<noteq> CHR ''/'' \<and> ul_host u \<noteq> '''' then ''/'' else '''') @
      (if origin_text u = '''' \<and> \<not> (path \<noteq> '''' \<and> hd path \<noteq> CHR ''/'' \<and> ul_host u \<noteq> '''')
          \<and> CHR '':'' \<in> set (fst (cut (CHR ''/'') path)) then ''./'' else '''') @ path)"

definition query_text :: "url \<Rightarrow> string" where
  "query_text u =
     (if ul_force_query u \<or> ul_raw_query u \<noteq> '''' then CHR ''?'' # ul_raw_query u else '''') @
     (if ul_fragment u \<noteq> '''' then CHR ''#'' # EscapedFragment u else '''')"

definition url_string :: "url \<Rightarrow> string" where
  "url_string u =
     (if ul_opaque u \<noteq> '''' then (if ul_scheme u \<noteq> '''' then ul_scheme u @ '':'' else '''') @ ul_opaque u
      else origin_text u @ path_text u) @ query_text u"

lemma unescape_plain: "CHR ''%'' \<notin> set s \<Longrightarrow> unescape False s = Some s"
  by (induction s) auto

lemma unescape_append: "unescape q a = Some x \<Longrightarrow> unescape q (a @ b) = map_option ((@) x) (unescape q b)"
proof (induction q a arbitrary: x rule: unescape.induct)
  case (2 query c cs)
  then show ?case
    by (auto simp: option.map_comp comp_def split: if_splits list.splits intro!: option.map_cong0)
next
  case (1 query)
  then show ?case by (cases "unescape query b") auto
qed

end
