(* ===== verification/DeepLink.thy ===== *)
theory DeepLink
  imports Request Signature Url
begin

section \<open>The destination a visitor is sent to\<close>

text \<open>
  The string work of \<open>internal/httpx/redirect.go\<close> on the destination: deep-link path forwarding
  (\<open>forwardable\<close>, \<open>pathRemainder\<close>, \<open>appendPath\<close>, \<open>joinable\<close>) and the forwarded query
  (\<open>withForwardedQuery\<close>, \<open>appendQuery\<close>, \<open>appendRaw\<close>, \<open>countPairs\<close>, \<open>countValues\<close>). The argument \<open>ph\<close> is
  the host check of \<open>url.Parse\<close>. A range over a values map visits its keys in some order and the
  values of one key in theirs; \<open>Encode\<close> sorts by key, so the order does not reach the result and the
  list's own order stands for it.
\<close>

definition MaxForwardedPath :: nat where "MaxForwardedPath = 4096"
definition MaxForwardedSegments :: nat where "MaxForwardedSegments = 64"

definition joinable :: "string \<Rightarrow> bool" where
  "joinable rest =
     (if length rest > MaxForwardedPath \<or> count_list rest (CHR ''/'') \<ge> MaxForwardedSegments then False
      else list_all (\<lambda>seg. case PathUnescape seg of
                             None \<Rightarrow> False
                           | Some decoded \<Rightarrow> \<not> (decoded = ''.'' \<or> decoded = ''..''))
             (split_on (CHR ''/'') rest))"

definition pathRemainder :: "string \<Rightarrow> string \<times> bool" where
  "pathRemainder escaped =
     (case cut (CHR ''/'') (trim_prefix ''/'' escaped) of
        (_, rest, found) \<Rightarrow> if \<not> found then ('''', False) else (rest, True))"

definition appendPath :: "(string \<Rightarrow> string option) \<Rightarrow> string \<Rightarrow> string \<Rightarrow> string option" where
  "appendPath ph target rest =
     (if \<not> joinable rest then None
      else case Parse ph target of
        None \<Rightarrow> None
      | Some u \<Rightarrow>
          (let joined = trim_suffix ''/'' (EscapedPath u) @ ''/'' @ rest in
           case PathUnescape joined of
             None \<Rightarrow> None
           | Some unescaped \<Rightarrow> Some (url_string (u\<lparr>ul_path := unescaped, ul_raw_path := joined\<rparr>))))"

definition forwardable :: "(string \<Rightarrow> string option) \<Rightarrow> snapshot option \<Rightarrow> string \<Rightarrow> request \<Rightarrow> string option" where
  "forwardable ph snap destination r =
     (case snap of
        None \<Rightarrow> None
      | Some s \<Rightarrow>
          (case pathRemainder (rq_escaped_path r) of
             (rest, deep) \<Rightarrow>
               if \<not> deep then Some destination
               else if \<not> sn_forward_path s then None
               else appendPath ph destination rest))"

definition countPairs :: "string \<Rightarrow> nat" where
  "countPairs raw = length (filter (\<lambda>part. part \<noteq> '''') (split_on (CHR ''&'') raw))"

definition countValues :: "url_values \<Rightarrow> nat" where
  "countValues v = length v"

definition taken_in_raw :: "string \<Rightarrow> string \<Rightarrow> bool" where
  "taken_in_raw raw k \<longleftrightarrow>
     contains_sub (''&'' @ raw @ ''&'') (''&'' @ QueryEscape k @ ''='') \<or> prefix (QueryEscape k @ ''='') raw"

definition appendRaw :: "url \<Rightarrow> url_values \<Rightarrow> string" where
  "appendRaw u extra =
     (let add = filter (\<lambda>(k, v). \<not> taken_in_raw (ul_raw_query u) k) extra in
      if add = [] then url_string u
      else let encoded = encode_values add in
        url_string (u\<lparr>ul_raw_query := (if ul_raw_query u = '''' then encoded
                                        else ul_raw_query u @ ''&'' @ encoded)\<rparr>))"

definition merge_values :: "url_values \<Rightarrow> url_values \<Rightarrow> url_values" where
  "merge_values existing extra = existing @ filter (\<lambda>(k, v). \<not> values_has existing k) extra"

definition appendQuery :: "(string \<Rightarrow> string option) \<Rightarrow> string \<Rightarrow> string \<Rightarrow> string" where
  "appendQuery ph target incoming =
     (case Parse ph target of
        None \<Rightarrow> target
      | Some u \<Rightarrow>
          (case ParseQuery incoming of
             (extra, ok) \<Rightarrow>
               if \<not> ok then target
               else case ParseQuery (ul_raw_query u) of
                 (existing, parsed) \<Rightarrow>
                   if \<not> parsed \<or> countPairs (ul_raw_query u) \<noteq> countValues existing then appendRaw u extra
                   else url_string (u\<lparr>ul_raw_query := encode_values (merge_values existing extra)\<rparr>)))"

definition withForwardedQuery :: "(string \<Rightarrow> string option) \<Rightarrow> string \<Rightarrow> request \<Rightarrow> snapshot \<Rightarrow> string" where
  "withForwardedQuery ph target r snap =
     (if \<not> sn_forward_query snap \<or> rq_raw_query r = '''' then target
      else let raw = StripSignature (rq_raw_query r) in
        if raw = '''' then target else appendQuery ph target raw)"

subsection \<open>Escaped paths\<close>

lemma valid_encoded_append: "valid_encoded m (a @ b) \<longleftrightarrow> valid_encoded m a \<and> valid_encoded m b"
  by (simp add: valid_encoded_def)

lemma hex_digit_alnum: "n < 16 \<Longrightarrow> alnum (hex_digit n)"
proof -
  assume "n < 16"
  then have "n \<in> set [0..<16]" by simp
  moreover have "\<forall>n \<in> set [0..<16]. alnum (hex_digit n)"
    by (simp add: hex_digit_def alnum_def is_digit_def code_def upt_rec)
  ultimately show ?thesis by blast
qed

lemma valid_encoded_escape: "valid_encoded m (url_escape m s)"
proof (induction s)
  case (Cons c s)
  have "code c div 16 < 16" by (rule less_mult_imp_div_less) simp
  then show ?case
    using Cons hex_digit_alnum [of "code c div 16"] hex_digit_alnum [of "code c mod 16"]
    by (auto simp: url_escape_def valid_encoded_def valid_char_intros)
qed (simp add: url_escape_def valid_encoded_def)

lemma valid_encoded_EscapedPath: "valid_encoded EncodePath (EscapedPath u)"
  using valid_encoded_escape [of EncodePath "ul_path u"]
  by (simp add: EscapedPath_def) (simp add: valid_encoded_def valid_char_def)

definition rooted :: "string \<Rightarrow> bool" where
  "rooted p \<longleftrightarrow> p = '''' \<or> (\<exists>q. p = CHR ''/'' # q)"

lemma rooted_escape: "rooted p \<Longrightarrow> rooted (url_escape EncodePath p)"
  by (auto simp: rooted_def url_escape_def valid_char_intros)

lemma rooted_unescape: "rooted p \<Longrightarrow> unescape False p = Some q \<Longrightarrow> rooted q"
  by (auto simp: rooted_def)

definition well_rooted :: "url \<Rightarrow> bool" where
  "well_rooted u \<longleftrightarrow> rooted (ul_path u) \<and> rooted (ul_raw_path u)"

lemma set_path_rooted:
  assumes "set_path u p = Some v" "rooted p"
  shows "well_rooted v" "ul_host v = ul_host u"
proof -
  show "ul_host v = ul_host u"
    using assms by (auto simp: set_path_def)
  show "well_rooted v"
    using assms rooted_unescape by (auto simp: set_path_def well_rooted_def) (simp add: rooted_def)
qed

lemma set_fragment_same:
  "set_fragment u f = Some v \<Longrightarrow> well_rooted v = well_rooted u \<and> ul_host v = ul_host u"
  by (auto simp: set_fragment_def well_rooted_def)

lemma rooted_dropWhile: "rooted (dropWhile (\<lambda>c. c \<noteq> CHR ''/'') s)"
  by (induction s) (auto simp: rooted_def)

lemma parse_rest_rooted:
  assumes "parse_rest ph u rest = Some v" "ul_host u = ''''" "ul_host v \<noteq> ''''"
  shows "well_rooted v"
proof -
  have host: "ul_host w = ul_host x" if "set_path x p = Some w" for x w p
    using that by (auto simp: set_path_def)
  have no_host: False if "set_path w p = Some v" "ul_host w = ''''" for w p
    using host [OF that(1)] that(2) assms(3) by simp
  have no_opaque: "v \<noteq> u\<lparr>ul_opaque := rest\<rparr>"
    using assms(2,3) by auto
  obtain user h where "set_path (u\<lparr>ul_user := user, ul_host := h\<rparr>) (dropWhile (\<lambda>c. c \<noteq> CHR ''/'') (drop 2 rest)) = Some v"
    using assms(1) no_opaque no_host [of u] no_host [of "u\<lparr>ul_omit_host := True\<rparr>"] assms(2)
    unfolding parse_rest_def Let_def
    by (simp split: if_split_asm option.split_asm prod.split_asm) (blast+)
  then show ?thesis
    using rooted_dropWhile by (rule set_path_rooted(1))
qed

lemma parse_no_fragment_rooted:
  assumes "parse_no_fragment ph raw = Some u" "ul_host u \<noteq> ''''"
  shows "well_rooted u"
proof -
  obtain x rest where "parse_rest ph x rest = Some u" "ul_host x = ''''"
    using assms
    by (auto simp: parse_no_fragment_def Let_def empty_url_def split: if_splits option.splits prod.splits)
  then show ?thesis
    using assms(2) by (rule parse_rest_rooted)
qed

lemma Parse_rooted:
  assumes "Parse ph raw = Some u" "ul_host u \<noteq> ''''"
  shows "well_rooted u"
proof -
  obtain before frag found where c: "cut (CHR ''#'') raw = (before, frag, found)"
    by (metis prod_cases3)
  obtain v where "parse_no_fragment ph before = Some v" "frag = '''' \<and> u = v \<or> set_fragment v frag = Some u"
    using assms by (auto simp: Parse_def c split: option.splits if_splits)
  then show ?thesis
    using assms(2) parse_no_fragment_rooted set_fragment_same by metis
qed

lemma EscapedPath_rooted: "well_rooted u \<Longrightarrow> rooted (EscapedPath u)"
proof -
  assume w: "well_rooted u"
  have "\<not> rooted ''*''" by (simp add: rooted_def)
  then have "ul_path u \<noteq> ''*''" using w by (auto simp: well_rooted_def)
  then show ?thesis
    using w rooted_escape [of "ul_path u"] by (simp add: EscapedPath_def well_rooted_def)
qed

lemma trim_suffix_rooted: "rooted p \<Longrightarrow> rooted (trim_suffix ''/'' p)"
proof -
  have "rooted (take n p)" if "rooted p" for n
    using that by (cases n; cases p) (auto simp: rooted_def)
  then show "rooted p \<Longrightarrow> rooted (trim_suffix ''/'' p)"
    by (simp add: trim_suffix_def)
qed

lemma valid_encoded_trim: "valid_encoded m p \<Longrightarrow> valid_encoded m (trim_suffix q p)"
  by (auto simp: valid_encoded_def trim_suffix_def list_all_iff dest: in_set_takeD)

lemma valid_slash: "valid_encoded EncodePath ''/''"
  by (simp add: valid_encoded_def valid_char_intros)

lemma appendPath_text:
  assumes "appendPath ph target rest = Some t" "Parse ph target = Some u"
    and "ul_host u \<noteq> ''''" "ul_opaque u = ''''" "valid_encoded EncodePath rest"
  shows "t = origin_text u @ trim_suffix ''/'' (EscapedPath u) @ ''/'' @ rest @ query_text u"
proof -
  let ?joined = "trim_suffix ''/'' (EscapedPath u) @ ''/'' @ rest"
  obtain p where p: "unescape False ?joined = Some p"
      "t = url_string (u\<lparr>ul_path := p, ul_raw_path := ?joined\<rparr>)"
    using assms(1,2) by (auto simp: appendPath_def PathUnescape_def Let_def split: if_splits option.splits)
  let ?u = "u\<lparr>ul_path := p, ul_raw_path := ?joined\<rparr>"
  have "valid_encoded EncodePath ?joined"
    using valid_encoded_trim [OF valid_encoded_EscapedPath] assms(5) valid_slash
    unfolding valid_encoded_append by blast
  then have e: "EscapedPath ?u = ?joined"
    using p(1) by (simp add: EscapedPath_def)
  obtain q where q: "?joined = CHR ''/'' # q"
    using trim_suffix_rooted [OF EscapedPath_rooted [OF Parse_rooted [OF assms(2,3)]]]
    by (auto simp: rooted_def)
  have "path_text ?u = ?joined"
    unfolding path_text_def e using q by (simp add: Let_def)
  moreover have "origin_text ?u = origin_text u" "query_text ?u = query_text u"
    using assms(3) by (simp_all add: origin_text_def query_text_def EscapedFragment_def)
  ultimately show ?thesis
    using assms(4) by (simp add: p(2) url_string_def)
qed

subsection \<open>Forwarded values\<close>

lemma values_of_append: "values_of (a @ b) x = values_of a x @ values_of b x"
  by (simp add: values_of_def)

lemma values_of_merge:
  "values_of (merge_values existing extra) x =
     (if values_has existing x then values_of existing x else values_of extra x)"
proof -
  have "values_of (filter (\<lambda>(k, v). \<not> values_has existing k) extra) x =
      (if values_has existing x then [] else values_of extra x)"
    by (induction extra) (auto simp: values_of_def)
  then show ?thesis
    using values_of_has [of existing x] by (auto simp: merge_values_def values_of_append)
qed

text \<open>C7. A deep link stays below the destination: whatever path a visitor asks for under an alias, what
  is forwarded is the destination's own scheme, user and host, its own path, a slash and the visitor's
  bytes unchanged, and the destination's own query and fragment; and no segment of the visitor's path
  decodes to a dot segment, within the bounds on length and number of segments.\<close>

theorem deep_link_stays_below_destination:
  assumes "forwardable ph (Some s) dest r = Some t" "pathRemainder (rq_escaped_path r) = (rest, True)"
    and "Parse ph dest = Some u" "ul_host u \<noteq> ''''" "ul_opaque u = ''''" "valid_encoded EncodePath rest"
  shows "sn_forward_path s \<and>
    t = origin_text u @ trim_suffix ''/'' (EscapedPath u) @ ''/'' @ rest @ query_text u \<and>
    length rest \<le> MaxForwardedPath \<and> length (split_on (CHR ''/'') rest) \<le> MaxForwardedSegments \<and>
    (\<forall>seg \<in> set (split_on (CHR ''/'') rest). PathUnescape seg \<notin> {None, Some ''.'', Some ''..''})"
proof -
  have f: "sn_forward_path s" "appendPath ph dest rest = Some t"
    using assms(1,2) by (auto simp: forwardable_def split: if_splits)
  have j: "joinable rest"
    using f(2) by (auto simp: appendPath_def split: if_splits)
  have "list_all (\<lambda>seg. PathUnescape seg \<notin> {None, Some ''.'', Some ''..''}) (split_on (CHR ''/'') rest)"
    using j by (auto simp: joinable_def list_all_iff split: if_splits option.splits)
  moreover have "length rest \<le> MaxForwardedPath \<and> length (split_on (CHR ''/'') rest) \<le> MaxForwardedSegments"
    using j by (auto simp: joinable_def length_split_on split: if_splits)
  ultimately show ?thesis
    using f(1) appendPath_text [OF f(2) assms(3-6)] by (simp add: list_all_iff)
qed

definition deep_snapshot :: snapshot where
  "deep_snapshot = (live_snapshot None)\<lparr>sn_forward_path := True, sn_forward_query := True\<rparr>"

definition sample_url :: url where
  "sample_url =
     \<lparr>ul_scheme = ''https'', ul_opaque = '''', ul_user = None, ul_host = ''x.io'', ul_path = ''/a'',
      ul_raw_path = '''', ul_omit_host = False, ul_force_query = False, ul_raw_query = ''k=1'',
      ul_fragment = '''', ul_raw_fragment = ''''\<rparr>"

lemma parse_sample: "Parse Some ''https://x.io/a?k=1'' = Some sample_url"
  by (simp add: Parse_def parse_no_fragment_def is_ctl_def is_letter_def code_def empty_url_def sample_url_def
        parse_rest_def parse_authority_def set_path_def url_escape_def should_escape_def alnum_def
        is_digit_def to_lower_ascii is_ascii_def ascii_lower_def suffix_def)

theorem deep_link_stays_below_destination_witness:
  "forwardable Some (Some deep_snapshot) ''https://x.io/a?k=1''
     ((plain_request ''GET'' ''go'' '''')\<lparr>rq_escaped_path := ''/go/b''\<rparr>) = Some ''https://x.io/a/b?k=1''"
proof -
  let ?r = "(plain_request ''GET'' ''go'' '''')\<lparr>rq_escaped_path := ''/go/b''\<rparr>"
  note u = parse_sample
  have p: "pathRemainder (rq_escaped_path ?r) = (''b'', True)"
    by (simp add: pathRemainder_def trim_prefix_def)
  have j: "appendPath Some ''https://x.io/a?k=1'' ''b'' \<noteq> None"
    by (simp add: sample_url_def appendPath_def joinable_def MaxForwardedPath_def MaxForwardedSegments_def PathUnescape_def u
        EscapedPath_def url_escape_def should_escape_def alnum_def is_digit_def code_def trim_suffix_def Let_def
        suffix_def)
  then obtain t where t: "forwardable Some (Some deep_snapshot) ''https://x.io/a?k=1'' ?r = Some t"
    using p by (auto simp: forwardable_def deep_snapshot_def)
  have v: "valid_encoded EncodePath ''b''"
    by (simp add: valid_encoded_def valid_char_def should_escape_def alnum_def code_def)
  show ?thesis
    using deep_link_stays_below_destination [OF t p u _ _ v] t
    by (simp add: sample_url_def origin_text_def query_text_def EscapedPath_def url_escape_def should_escape_def alnum_def
        is_digit_def code_def trim_suffix_def suffix_def)
qed

text \<open>The destination's own parameters win and a signature is never forwarded: when the destination's
  query is read without loss, the forwarded URL carries, for every name, the destination's values if it
  has any, nothing for the two parameters of a signed URL, and the visitor's values otherwise.\<close>

theorem forwarded_query_merges:
  assumes "sn_forward_query snap" "rq_raw_query r \<noteq> ''''" "ParseQuery (rq_raw_query r) = (q, True)"
    and "Parse ph target = Some u" "ParseQuery (ul_raw_query u) = (existing, True)"
    and "countPairs (ul_raw_query u) = countValues existing"
  shows "withForwardedQuery ph target r snap = target \<and> (\<forall>x. x \<noteq> SigParam \<and> x \<noteq> ExpParam \<longrightarrow> values_of q x = []) \<or>
    (\<exists>m. withForwardedQuery ph target r snap = url_string (u\<lparr>ul_raw_query := encode_values m\<rparr>) \<and>
       (\<forall>x. values_of m x = (if values_has existing x then values_of existing x
                             else if x = SigParam \<or> x = ExpParam then [] else values_of q x)))"
proof -
  let ?raw = "StripSignature (rq_raw_query r)"
  obtain extra where e: "ParseQuery ?raw = (extra, True)"
    using stripped_values [OF assms(3)] by (cases "ParseQuery ?raw") auto
  have v: "values_of extra x = (if x = SigParam \<or> x = ExpParam then [] else values_of q x)" for x
    using stripped_values [OF assms(3), of x] e by simp
  show ?thesis
  proof (cases "?raw = ''''")
    case True
    then have "extra = []"
      using e by (auto simp: ParseQuery_def max_query_params_def)
    then have "\<forall>x. x \<noteq> SigParam \<and> x \<noteq> ExpParam \<longrightarrow> values_of q x = []"
      using v by (metis (full_types) values_of_has values_has_def list.set(1) image_empty empty_iff)
    then show ?thesis
      using True assms(1,2) by (simp add: withForwardedQuery_def)
  next
    case False
    then have "withForwardedQuery ph target r snap =
        url_string (u\<lparr>ul_raw_query := encode_values (merge_values existing extra)\<rparr>)"
      using assms e by (simp add: withForwardedQuery_def appendQuery_def)
    then show ?thesis
      using values_of_merge v by fastforce
  qed
qed

theorem forwarded_query_merges_witness:
  "\<exists>m. withForwardedQuery Some ''https://x.io/a?k=1'' (plain_request ''GET'' ''go'' ''k=2&sig=z&b=3'') deep_snapshot =
      url_string (the (Parse Some ''https://x.io/a?k=1'')\<lparr>ul_raw_query := encode_values m\<rparr>) \<and>
     values_of m ''k'' = [''1''] \<and> values_of m ''b'' = [''3''] \<and> values_of m SigParam = []"
proof -
  note u = parse_sample
  have q: "ParseQuery (rq_raw_query (plain_request ''GET'' ''go'' ''k=2&sig=z&b=3'')) =
      ([(''k'', ''2''), (''sig'', ''z''), (''b'', ''3'')], True)"
    by (simp add: plain_request_def ParseQuery_def max_query_params_def QueryUnescape_def)
  have e: "ParseQuery (ul_raw_query sample_url) = ([(''k'', ''1'')], True)"
    by (simp add: ParseQuery_def max_query_params_def QueryUnescape_def sample_url_def)
  have c: "countPairs (ul_raw_query sample_url) = countValues [(''k'', ''1'')]"
    by (simp add: countPairs_def countValues_def sample_url_def)
  have s: "sn_forward_query deep_snapshot" "rq_raw_query (plain_request ''GET'' ''go'' ''k=2&sig=z&b=3'') \<noteq> ''''"
    by (simp_all add: deep_snapshot_def plain_request_def)
  have nb: "values_of [(''k'', ''2''), (''sig'', ''z''), (''b'', ''3'')] ''b'' \<noteq> []"
    by (simp add: values_of_def)
  show ?thesis
    using forwarded_query_merges [OF s q u e c]
  proof (elim disjE conjE exE)
    assume "\<forall>x. x \<noteq> SigParam \<and> x \<noteq> ExpParam \<longrightarrow>
      values_of [(''k'', ''2''), (''sig'', ''z''), (''b'', ''3'')] x = []"
    then show ?thesis using nb by (auto simp: sig_consts)
  next
    fix m
    assume "withForwardedQuery Some ''https://x.io/a?k=1'' (plain_request ''GET'' ''go'' ''k=2&sig=z&b=3'') deep_snapshot =
        url_string (sample_url\<lparr>ul_raw_query := encode_values m\<rparr>)"
      "\<forall>x. values_of m x = (if values_has [(''k'', ''1'')] x then values_of [(''k'', ''1'')] x
        else if x = SigParam \<or> x = ExpParam then []
        else values_of [(''k'', ''2''), (''sig'', ''z''), (''b'', ''3'')] x)"
    then show ?thesis
      by (intro exI [of _ m]) (simp add: u values_has_def values_of_def sig_consts)
  qed
qed

end
