(* ===== verification/AddonInline.thy ===== *)
theory AddonInline
  imports Request Url
begin

section \<open>Add-ons on the redirect path\<close>

text \<open>
  \<open>internal/addon/redirect.go\<close>: what an inline add-on may do to a decided redirect. A loaded module is
  the function \<open>invokeInline\<close> makes of it: from the decision and the rest of the state to its answer, or
  to none when it was refused a slot, killed, trapped or silent. \<open>check_answer\<close> is the part of
  \<open>decodeRedirectAnswer\<close> after the JSON decoding; \<open>Inline\<close> runs the modules in load order and
  \<open>applyQuery\<close> substitutes a query. \<open>ph\<close> is the host check of \<open>url.Parse\<close>.
\<close>

record redirect_decision =
  dc_link_id :: uuid
  dc_workspace_id :: uuid
  dc_alias :: string
  dc_destination :: string

record redirect_answer =
  ra_verdict :: string
  ra_rewrite :: bool
  ra_query :: string

record inline_result =
  ir_vetoed :: bool
  ir_destination :: string
  ir_rewritten :: bool

definition VerdictVeto :: string where "VerdictVeto = ''veto''"
definition RedirectVerdicts :: "string list" where "RedirectVerdicts = ['''', ''allow'', VerdictVeto]"
definition maxRedirectQuery :: nat where "maxRedirectQuery = 2048"

definition isVerdict :: "string \<Rightarrow> bool" where
  "isVerdict v = list_ex (\<lambda>x. v = x) RedirectVerdicts"

definition query_char :: "char \<Rightarrow> bool" where
  "query_char c \<longleftrightarrow> alnum c \<or> c \<in> set ''-._~%!$&()*+,;=:@/?'' \<or> c = CHR 0x27"

definition validQuery :: "string \<Rightarrow> bool" where
  "validQuery q = list_all query_char q"

definition check_answer :: "redirect_answer \<Rightarrow> redirect_answer option" where
  "check_answer a =
     (if \<not> isVerdict (ra_verdict a) then None
      else if \<not> ra_rewrite a \<and> ra_query a \<noteq> '''' then None
      else if length (ra_query a) > maxRedirectQuery then None
      else if ra_rewrite a \<and> \<not> validQuery (ra_query a) then None
      else Some a)"

definition user_string :: "url \<Rightarrow> string" where
  "user_string u = (case ul_user u of None \<Rightarrow> '''' | Some ui \<Rightarrow> user_text ui)"

definition applyQuery :: "(string \<Rightarrow> string option) \<Rightarrow> string \<Rightarrow> string \<Rightarrow> string option" where
  "applyQuery ph destination query =
     (case Parse ph destination of
        None \<Rightarrow> None
      | Some before \<Rightarrow>
          (let rewritten = url_string (before\<lparr>ul_raw_query := query, ul_force_query := False\<rparr>) in
           case Parse ph rewritten of
             None \<Rightarrow> None
           | Some after \<Rightarrow>
               if ul_scheme after \<noteq> ul_scheme before \<or> ul_host after \<noteq> ul_host before \<or>
                  ul_path after \<noteq> ul_path before \<or> EscapedPath after \<noteq> EscapedPath before \<or>
                  ul_opaque after \<noteq> ul_opaque before \<or> ul_fragment after \<noteq> ul_fragment before \<or>
                  user_string after \<noteq> user_string before then None
               else if ul_raw_query after \<noteq> query then None
               else Some rewritten))"

type_synonym 'x inline_module = "redirect_decision \<Rightarrow> 'x \<Rightarrow> redirect_answer option \<times> 'x"

fun inline_loop :: "(string \<Rightarrow> string option) \<Rightarrow> 'x inline_module list \<Rightarrow> redirect_decision \<Rightarrow> inline_result
    \<Rightarrow> 'x \<Rightarrow> inline_result \<times> 'x" where
  "inline_loop ph [] d out x = (out, x)"
| "inline_loop ph (m # ms) d out x =
     (case m (d\<lparr>dc_destination := ir_destination out\<rparr>) x of
        (None, x1) \<Rightarrow> inline_loop ph ms d out x1
      | (Some answer, x1) \<Rightarrow>
          if ra_verdict answer = VerdictVeto then (out\<lparr>ir_vetoed := True\<rparr>, x1)
          else if \<not> ra_rewrite answer then inline_loop ph ms d out x1
          else case applyQuery ph (ir_destination out) (ra_query answer) of
                 None \<Rightarrow> inline_loop ph ms d out x1
               | Some rewritten \<Rightarrow>
                   if rewritten \<noteq> ir_destination out
                   then inline_loop ph ms d (out\<lparr>ir_destination := rewritten, ir_rewritten := True\<rparr>) x1
                   else inline_loop ph ms d out x1)"

definition Inline :: "(string \<Rightarrow> string option) \<Rightarrow> 'x inline_module list \<Rightarrow> redirect_decision \<Rightarrow> 'x
    \<Rightarrow> inline_result \<times> 'x" where
  "Inline ph modules d x =
     inline_loop ph modules d \<lparr>ir_vetoed = False, ir_destination = dc_destination d, ir_rewritten = False\<rparr> x"

definition HasInline :: "'x inline_module list \<Rightarrow> bool" where
  "HasInline modules \<longleftrightarrow> length modules > 0"

subsection \<open>The bound on what an add-on can change\<close>

text \<open>Two destinations that parse to the same place: everything but the query agrees.\<close>

definition same_place :: "(string \<Rightarrow> string option) \<Rightarrow> string \<Rightarrow> string \<Rightarrow> bool" where
  "same_place ph a b \<longleftrightarrow>
     (case (Parse ph a, Parse ph b) of
        (Some u, Some v) \<Rightarrow>
          ul_scheme u = ul_scheme v \<and> ul_host u = ul_host v \<and> ul_path u = ul_path v \<and>
          EscapedPath u = EscapedPath v \<and> ul_opaque u = ul_opaque v \<and> ul_fragment u = ul_fragment v \<and>
          user_string u = user_string v
      | _ \<Rightarrow> False)"

lemma same_place_trans: "same_place ph a b \<Longrightarrow> same_place ph b c \<Longrightarrow> same_place ph a c"
  by (auto simp: same_place_def split: option.splits)

lemma applyQuery_same_place:
  assumes "applyQuery ph a q = Some b"
  shows "same_place ph a b \<and> map_option ul_raw_query (Parse ph b) = Some q"
proof -
  obtain u v where "Parse ph a = Some u" "Parse ph b = Some v"
    and c: "ul_scheme v = ul_scheme u" "ul_host v = ul_host u" "ul_path v = ul_path u" "EscapedPath v = EscapedPath u"
      "ul_opaque v = ul_opaque u" "ul_fragment v = ul_fragment u" "user_string v = user_string u" "ul_raw_query v = q"
    using assms by (auto simp: applyQuery_def Let_def split: option.splits if_splits)
  then show ?thesis by (simp add: same_place_def)
qed

lemma inline_loop_same_place:
  "same_place ph (ir_destination out) (ir_destination (fst (inline_loop ph ms d out x))) \<or>
   ir_destination (fst (inline_loop ph ms d out x)) = ir_destination out"
proof (induction ms arbitrary: out x)
  case (Cons m ms)
  obtain r x1 where m: "m (d\<lparr>dc_destination := ir_destination out\<rparr>) x = (r, x1)" by fastforce
  show ?case
  proof (cases r)
    case (Some answer)
    note s = Some
    show ?thesis
    proof (cases "ra_verdict answer = VerdictVeto \<or> \<not> ra_rewrite answer")
      case True
      then show ?thesis using Cons.IH [of out x1] by (auto simp: m s)
    next
      case False
      show ?thesis
      proof (cases "applyQuery ph (ir_destination out) (ra_query answer)")
        case None
        then show ?thesis using Cons.IH [of out x1] False by (simp add: m s)
      next
        case (Some b)
        let ?out = "out\<lparr>ir_destination := b, ir_rewritten := True\<rparr>"
        have "same_place ph (ir_destination out) b"
          using applyQuery_same_place [OF Some] by simp
        moreover have "inline_loop ph (m # ms) d out x =
            (if b \<noteq> ir_destination out then inline_loop ph ms d ?out x1 else inline_loop ph ms d out x1)"
          using False Some by (simp add: m s)
        moreover have "ir_destination ?out = b" by simp
        ultimately show ?thesis
          using Cons.IH [of ?out x1] Cons.IH [of out x1] same_place_trans by metis
      qed
    qed
  qed (use Cons.IH [of out x1] in \<open>simp add: m\<close>)
qed simp

text \<open>An inline add-on has one power over a destination, its query: whatever modules are loaded,
  whatever they answer and however they fail, the destination they leave is the decided one, or parses
  to the same scheme, user, host, path and fragment.\<close>

theorem inline_changes_only_the_query:
  "same_place ph (dc_destination d) (ir_destination (fst (Inline ph modules d x))) \<or>
   ir_destination (fst (Inline ph modules d x)) = dc_destination d"
  using inline_loop_same_place [of ph "\<lparr>ir_vetoed = False, ir_destination = dc_destination d, ir_rewritten = False\<rparr>"]
  by (simp add: Inline_def)

text \<open>A module that answers nothing, or allows without rewriting, changes nothing.\<close>

lemma Inline_silent:
  assumes "\<And>m d x. m \<in> set modules \<Longrightarrow>
      case fst (m d x) of None \<Rightarrow> True | Some a \<Rightarrow> ra_verdict a \<noteq> VerdictVeto \<and> \<not> ra_rewrite a"
  shows "fst (Inline ph modules d x) = \<lparr>ir_vetoed = False, ir_destination = dc_destination d, ir_rewritten = False\<rparr>"
proof -
  have "fst (inline_loop ph modules d out x) = out" for out
    using assms
  proof (induction modules arbitrary: x)
    case (Cons m ms)
    obtain r x1 where m: "m (d\<lparr>dc_destination := ir_destination out\<rparr>) x = (r, x1)" by fastforce
    have "case r of None \<Rightarrow> True | Some a \<Rightarrow> ra_verdict a \<noteq> VerdictVeto \<and> \<not> ra_rewrite a"
      using Cons.prems [of m "d\<lparr>dc_destination := ir_destination out\<rparr>" x] m by simp
    then show ?case
      using Cons.IH [of x1] Cons.prems by (cases r) (simp_all add: m)
  qed simp
  then show ?thesis by (simp add: Inline_def)
qed

end
