(* ===== verification/Password.thy ===== *)
theory Password
  imports Crypto
begin

section \<open>Passwords\<close>

text \<open>
  \<open>internal/auth/password.go\<close>: the stored form of a password (a PHC string holding the cost parameters,
  the salt and the key), hashing, verification and the question whether a stored hash is weaker than
  the current policy. The key derivation, \<open>argon2.IDKey\<close> of \<open>golang.org/x/crypto\<close>, is the parameter
  \<open>argon2\<close>: its arguments in the order of the call, \<open>None\<close> when it panics (no round or no lane). The
  semaphore around it bounds memory and does not change a result; it is not modelled.
\<close>

type_synonym idkey = "bytes \<Rightarrow> bytes \<Rightarrow> 32 word \<Rightarrow> 32 word \<Rightarrow> 8 word \<Rightarrow> 32 word \<Rightarrow> bytes option"

record Params =
  MemoryKiB :: "32 word"
  Iterations :: "32 word"
  Parallelism :: "8 word"
  SaltLength :: "32 word"
  KeyLength :: "32 word"

definition DefaultParams :: Params where
  "DefaultParams = \<lparr>MemoryKiB = 64 * 1024, Iterations = 3, Parallelism = 2, SaltLength = 16, KeyLength = 32\<rparr>"

definition MaxPasswordLength :: nat where "MaxPasswordLength = 4096"
definition MinPasswordLength :: nat where "MinPasswordLength = 12"
definition maxHashFieldLen :: nat where "maxHashFieldLen = 1024"
definition argon2_version :: int where "argon2_version = 19"

definition NewHasher :: "Params \<Rightarrow> Params" where
  "NewHasher p =
     p\<lparr>SaltLength := (if SaltLength p = 0 then SaltLength DefaultParams else SaltLength p),
       KeyLength := (if KeyLength p = 0 then KeyLength DefaultParams else KeyLength p)\<rparr>"

subsection \<open>The standard alphabet of Base64\<close>

text \<open>\<open>base64.RawStdEncoding\<close> differs from the URL encoding in its last two digits.\<close>

definition std_char :: "char \<Rightarrow> char" where
  "std_char c = (if c = CHR ''-'' then CHR ''+'' else if c = CHR ''_'' then CHR ''/'' else c)"

definition url_char :: "char \<Rightarrow> char" where
  "url_char c = (if c = CHR ''+'' then CHR ''-'' else if c = CHR ''/'' then CHR ''_'' else c)"

definition RawStd_encode :: "bytes \<Rightarrow> string" where
  "RawStd_encode bs = map std_char (RawURL_encode bs)"

definition RawStd_decode :: "string \<Rightarrow> bytes option" where
  "RawStd_decode s =
     (if CHR ''-'' \<in> set s \<or> CHR ''_'' \<in> set s then None else RawURL_decode (map url_char s))"

subsection \<open>Scanning numbers\<close>

text \<open>\<open>fmt.Sscanf\<close> as \<open>decode\<close> uses it: the literal text of the format, then for \<open>%d\<close> white space without a
  line feed, a sign where the operand is signed, digits, and a value of the operand's width. What
  follows the format is not looked at.\<close>

definition skip_space :: "string \<Rightarrow> string option" where
  "skip_space s =
     (let rest = trim_left s in
      if CHR 0x0A \<in> set (take (length s - length rest) s) then None else Some rest)"

definition scan_digits :: "string \<Rightarrow> (nat \<times> string) option" where
  "scan_digits s =
     (let ds = takeWhile is_digit s in
      if ds = '''' then None else Some (digits_value ds, drop (length ds) s))"

definition scan_uint :: "nat \<Rightarrow> string \<Rightarrow> (nat \<times> string) option" where
  "scan_uint w s =
     (case skip_space s of
        None \<Rightarrow> None
      | Some s1 \<Rightarrow>
          (case scan_digits s1 of
             None \<Rightarrow> None
           | Some (n, s2) \<Rightarrow> if n < 2 ^ w then Some (n, s2) else None))"

definition scan_int :: "string \<Rightarrow> (int \<times> string) option" where
  "scan_int s =
     (case skip_space s of
        None \<Rightarrow> None
      | Some s1 \<Rightarrow>
          let neg = prefix ''-'' s1; s2 = (if prefix ''-'' s1 \<or> prefix ''+'' s1 then drop 1 s1 else s1) in
          (case scan_digits s2 of
             None \<Rightarrow> None
           | Some (n, s3) \<Rightarrow>
               let v = (if neg then - int n else int n) in
               if - (2 ^ 63) \<le> v \<and> v < 2 ^ 63 then Some (v, s3) else None))"

definition scan_lit :: "string \<Rightarrow> string \<Rightarrow> string option" where
  "scan_lit lit s = (if prefix lit s then Some (drop (length lit) s) else None)"

definition scan_version :: "string \<Rightarrow> int option" where
  "scan_version s = Option.bind (scan_lit ''v='' s) (\<lambda>r. map_option fst (scan_int r))"

definition scan_costs :: "string \<Rightarrow> (nat \<times> nat \<times> nat) option" where
  "scan_costs s =
     Option.bind (scan_lit ''m='' s) (\<lambda>s1. Option.bind (scan_uint 32 s1) (\<lambda>(m, s2).
     Option.bind (scan_lit '',t='' s2) (\<lambda>s3. Option.bind (scan_uint 32 s3) (\<lambda>(t, s4).
     Option.bind (scan_lit '',p='' s4) (\<lambda>s5. Option.bind (scan_uint 8 s5) (\<lambda>(p, s6).
     Some (m, t, p)))))))"

subsection \<open>The stored form\<close>

definition encode_hash :: "Params \<Rightarrow> bytes \<Rightarrow> bytes \<Rightarrow> string" where
  "encode_hash p salt key =
     ''$argon2id$v='' @ itoa_nat (nat argon2_version)
     @ ''$m='' @ itoa_nat (unat (MemoryKiB p)) @ '',t='' @ itoa_nat (unat (Iterations p))
     @ '',p='' @ itoa_nat (unat (Parallelism p))
     @ ''$'' @ RawStd_encode salt @ ''$'' @ RawStd_encode key"

datatype decode_error = ErrInvalidHash | ErrUnsupportedID | UnsupportedVersion int

definition hash_field :: "string \<Rightarrow> bytes option" where
  "hash_field s =
     (case RawStd_decode s of
        None \<Rightarrow> None
      | Some b \<Rightarrow> if length b = 0 \<or> maxHashFieldLen < length b then None else Some b)"

definition decode_fields :: "string \<Rightarrow> string \<Rightarrow> string \<Rightarrow> decode_error + (Params \<times> bytes \<times> bytes)" where
  "decode_fields costs salt_text key_text =
     (case scan_costs costs of
        None \<Rightarrow> Inl ErrInvalidHash
      | Some (m, t, p) \<Rightarrow>
          if m = 0 \<or> t = 0 \<or> p = 0 then Inl ErrInvalidHash
          else (case (hash_field salt_text, hash_field key_text) of
                  (Some salt, Some key) \<Rightarrow>
                    Inr (\<lparr>MemoryKiB = word_of_nat m, Iterations = word_of_nat t, Parallelism = word_of_nat p,
                          SaltLength = word_of_nat (length salt), KeyLength = word_of_nat (length key)\<rparr>,
                         salt, key)
                | _ \<Rightarrow> Inl ErrInvalidHash))"

definition decode_hash :: "string \<Rightarrow> decode_error + (Params \<times> bytes \<times> bytes)" where
  "decode_hash encoded =
     (case split_on (CHR ''$'') encoded of
        [lead, alg, ver, costs, salt_text, key_text] \<Rightarrow>
          if lead \<noteq> '''' then Inl ErrInvalidHash
          else if alg \<noteq> ''argon2id'' then Inl ErrUnsupportedID
          else (case scan_version ver of
                  None \<Rightarrow> Inl ErrInvalidHash
                | Some v \<Rightarrow>
                    if v \<noteq> argon2_version then Inl (UnsupportedVersion v)
                    else decode_fields costs salt_text key_text)
      | _ \<Rightarrow> Inl ErrInvalidHash)"

subsection \<open>Hashing and verifying\<close>

datatype hash_result = Hashed string | TooShort | TooLong | NoSalt | HashPanics

text \<open>\<open>salt\<close> is what \<open>rand.Read\<close> filled, \<open>None\<close> when it failed.\<close>

definition Hasher_Hash :: "idkey \<Rightarrow> Params \<Rightarrow> bytes option \<Rightarrow> string \<Rightarrow> hash_result" where
  "Hasher_Hash argon2 h salt password =
     (if length password < MinPasswordLength then TooShort
      else if MaxPasswordLength < length password then TooLong
      else (case salt of
              None \<Rightarrow> NoSalt
            | Some sl \<Rightarrow>
                (case argon2 (bytes_of password) sl (Iterations h) (MemoryKiB h) (Parallelism h) (KeyLength h) of
                   None \<Rightarrow> HashPanics
                 | Some key \<Rightarrow> Hashed (encode_hash h sl key))))"

datatype verify_result = Matches | Mismatch | HashError

definition Hasher_Verify :: "idkey \<Rightarrow> string \<Rightarrow> string \<Rightarrow> verify_result" where
  "Hasher_Verify argon2 password encoded =
     (case decode_hash encoded of
        Inl e \<Rightarrow> HashError
      | Inr (p, salt, want) \<Rightarrow>
          if MaxPasswordLength < length password then Mismatch
          else if argon2 (bytes_of password) salt (Iterations p) (MemoryKiB p) (Parallelism p) (KeyLength p)
                  = Some want
               then Matches else Mismatch)"

definition NeedsRehash :: "Params \<Rightarrow> string \<Rightarrow> bool" where
  "NeedsRehash h encoded =
     (case decode_hash encoded of
        Inl e \<Rightarrow> True
      | Inr (p, salt, key) \<Rightarrow>
          MemoryKiB p < MemoryKiB h \<or> Iterations p < Iterations h
          \<or> Parallelism p < Parallelism h \<or> KeyLength p < KeyLength h)"

subsection \<open>Printing and parsing\<close>

lemma url_std_char: "c \<noteq> CHR ''+'' \<Longrightarrow> c \<noteq> CHR ''/'' \<Longrightarrow> url_char (std_char c) = c"
  by (auto simp: url_char_def std_char_def)

lemma RawURL_encode_chars:
  assumes "c \<in> set (RawURL_encode bs)"
  shows "\<exists>n. b64_value c = Some n"
proof -
  have "list_all (\<lambda>b. b < 256) (map unat bs)"
    using unsigned_less [where 'b = 8] by (fastforce simp: list_all_iff)
  then have "list_all (\<lambda>v. v < 64) (sextets (map unat bs))" by (rule sextets_less)
  with assms show ?thesis by (auto simp: RawURL_encode_def list_all_iff b64_digit_props)
qed

lemma RawStd_encode_chars:
  assumes "c \<in> set (RawStd_encode bs)"
  shows "c \<noteq> CHR ''-'' \<and> c \<noteq> CHR ''_'' \<and> c \<noteq> CHR ''$''"
proof -
  obtain d where d: "c = std_char d" "d \<in> set (RawURL_encode bs)"
    using assms by (auto simp: RawStd_encode_def)
  obtain n where "b64_value d = Some n" using RawURL_encode_chars [OF d(2)] by blast
  with d(1) show ?thesis by (auto simp: std_char_def b64_value_def code_def)
qed

lemma RawStd_decode_encode: "RawStd_decode (RawStd_encode bs) = Some bs"
proof -
  have "map url_char (RawStd_encode bs) = RawURL_encode bs"
    unfolding RawStd_encode_def map_map comp_def
  proof (rule map_idI)
    fix c assume "c \<in> set (RawURL_encode bs)"
    then obtain n where "b64_value c = Some n" using RawURL_encode_chars by blast
    then show "url_char (std_char c) = c" by (intro url_std_char) (auto simp: b64_value_def code_def)
  qed
  with RawStd_encode_chars [of _ bs] show ?thesis by (auto simp: RawStd_decode_def RawURL_decode_encode)
qed

lemma trim_left_digits:
  assumes "ds \<noteq> ''''" "list_all is_digit ds"
  shows "trim_left (ds @ s) = ds @ s"
proof -
  obtain c cs where c: "ds = c # cs" "is_digit c" using assms by (cases ds) auto
  then have "\<not> space1 c" "\<And>b. \<not> space2 c b" "\<And>b d. \<not> space3 c b d"
    by (auto simp: is_digit_def space1_def space2_def space3_def)
  moreover obtain t where "ds @ s = c # t" using c by simp
  ultimately show ?thesis
    by (cases t; cases "tl t") (auto simp: trim_left_def neq_Nil_conv)
qed

lemma scan_number:
  assumes "s = '''' \<or> \<not> is_digit (hd s)"
  shows "skip_space (itoa_nat n @ s) = Some (itoa_nat n @ s)" "scan_digits (itoa_nat n @ s) = Some (n, s)"
  using trim_left_digits [of "itoa_nat n" s] takeWhile_digits [of "itoa_nat n" s] itoa_nat_digits [of n] assms
  by (simp_all add: skip_space_def scan_digits_def digits_value_itoa)

lemma scan_printed:
  assumes "s = '''' \<or> \<not> is_digit (hd s)"
  shows "n < 2 ^ w \<Longrightarrow> scan_uint w (itoa_nat n @ s) = Some (n, s)"
    and "n < 2 ^ 63 \<Longrightarrow> scan_int (itoa_nat n @ s) = Some (int n, s)"
proof -
  show "n < 2 ^ w \<Longrightarrow> scan_uint w (itoa_nat n @ s) = Some (n, s)"
    using scan_number [OF assms] by (simp add: scan_uint_def)
  obtain c cs where c: "itoa_nat n = c # cs" "is_digit c"
    using itoa_nat_digits [of n] by (cases "itoa_nat n") auto
  then have "\<not> prefix ''-'' (itoa_nat n @ s)" "\<not> prefix ''+'' (itoa_nat n @ s)"
    by (auto simp: is_digit_def code_def)
  then show "n < 2 ^ 63 \<Longrightarrow> scan_int (itoa_nat n @ s) = Some (int n, s)"
    using scan_number [OF assms, of n] by (simp add: scan_int_def Let_def)
qed

lemma scan_lit_append: "scan_lit lit (lit @ s) = Some s"
  by (simp add: scan_lit_def)

lemma scan_costs_printed:
  assumes "m < 2 ^ 32" "t < 2 ^ 32" "p < 2 ^ 8"
  shows "scan_costs (''m='' @ itoa_nat m @ '',t='' @ itoa_nat t @ '',p='' @ itoa_nat p) = Some (m, t, p)"
proof -
  have comma: "\<not> is_digit (CHR '','')" by (simp add: is_digit_def code_def)
  have "scan_uint 32 (itoa_nat m @ '',t='' @ itoa_nat t @ '',p='' @ itoa_nat p)
      = Some (m, '',t='' @ itoa_nat t @ '',p='' @ itoa_nat p)"
    using assms(1) comma by (intro scan_printed) simp_all
  moreover have "scan_uint 32 (itoa_nat t @ '',p='' @ itoa_nat p) = Some (t, '',p='' @ itoa_nat p)"
    using assms(2) comma by (intro scan_printed) simp_all
  moreover have "scan_uint 8 (itoa_nat p) = Some (p, '''')"
    using assms(3) scan_printed(1) [of "''''" p 8] by simp
  ultimately show ?thesis by (simp only: scan_costs_def scan_lit_append Option.bind.simps prod.case)
qed

lemma scan_version_printed: "scan_version (''v='' @ itoa_nat (nat argon2_version)) = Some argon2_version"
proof -
  have "scan_int (itoa_nat (nat argon2_version)) = Some (int (nat argon2_version), '''')"
    using scan_printed(2) [of "''''" "nat argon2_version"] by (simp add: argon2_version_def)
  then show ?thesis
    by (simp only: scan_version_def scan_lit_append Option.bind.simps) (simp add: argon2_version_def)
qed

text \<open>The parameters a hash can be stored with and read back.\<close>

definition storable :: "Params \<Rightarrow> bytes \<Rightarrow> bytes \<Rightarrow> bool" where
  "storable p salt key \<longleftrightarrow>
     MemoryKiB p \<noteq> 0 \<and> Iterations p \<noteq> 0 \<and> Parallelism p \<noteq> 0
     \<and> length salt = unat (SaltLength p) \<and> length key = unat (KeyLength p)
     \<and> 0 < length salt \<and> length salt \<le> maxHashFieldLen \<and> 0 < length key \<and> length key \<le> maxHashFieldLen"

lemma no_dollar: "CHR ''$'' \<notin> set (itoa_nat n)" "CHR ''$'' \<notin> set (RawStd_encode bs)"
  using itoa_nat_digits [of n] RawStd_encode_chars [of _ bs]
  by (auto simp: list_all_iff is_digit_def code_def)

lemma decode_encode_hash:
  assumes "storable p salt key"
  shows "decode_hash (encode_hash p salt key) = Inr (p, salt, key)"
proof -
  let ?costs = "''m='' @ itoa_nat (unat (MemoryKiB p)) @ '',t='' @ itoa_nat (unat (Iterations p))
     @ '',p='' @ itoa_nat (unat (Parallelism p))"
  let ?ver = "''v='' @ itoa_nat (nat argon2_version)"
  have e: "encode_hash p salt key
      = '''' @ CHR ''$'' # ''argon2id'' @ CHR ''$'' # ?ver @ CHR ''$'' # ?costs
        @ CHR ''$'' # RawStd_encode salt @ CHR ''$'' # RawStd_encode key"
    by (simp add: encode_hash_def)
  have "CHR ''$'' \<notin> set ''''" "CHR ''$'' \<notin> set ?ver" "CHR ''$'' \<notin> set ?costs" "CHR ''$'' \<notin> set ''argon2id''"
    using no_dollar(1) by simp_all
  then have "split_on (CHR ''$'') (encode_hash p salt key)
      = ['''', ''argon2id'', ?ver, ?costs, RawStd_encode salt, RawStd_encode key]"
    unfolding e using no_dollar(2)
    by (simp only: split_on_append split_on_no not_False_eq_True)
  moreover have "scan_costs ?costs
      = Some (unat (MemoryKiB p), unat (Iterations p), unat (Parallelism p))"
    using unsigned_less [of "MemoryKiB p"] unsigned_less [of "Iterations p"] unsigned_less [of "Parallelism p"]
    by (intro scan_costs_printed) simp_all
  moreover have "SaltLength p \<noteq> 0" "KeyLength p \<noteq> 0" using assms by (auto simp: storable_def)
  ultimately show ?thesis
    using assms scan_version_printed
    by (simp add: decode_hash_def decode_fields_def hash_field_def RawStd_decode_encode storable_def
        unat_eq_0)
qed

text \<open>What is documented of \<open>argon2.IDKey\<close>: with a round and a lane it returns a key of the asked length.\<close>

definition lawful_idkey :: "idkey \<Rightarrow> bool" where
  "lawful_idkey argon2 \<longleftrightarrow>
     (\<forall>pw salt t m p k. t \<noteq> 0 \<longrightarrow> p \<noteq> 0 \<longrightarrow> (\<exists>key. argon2 pw salt t m p k = Some key \<and> length key = unat k))"

definition usable :: "Params \<Rightarrow> bytes \<Rightarrow> bool" where
  "usable h salt \<longleftrightarrow>
     MemoryKiB h \<noteq> 0 \<and> Iterations h \<noteq> 0 \<and> Parallelism h \<noteq> 0
     \<and> length salt = unat (SaltLength h) \<and> 0 < length salt \<and> length salt \<le> maxHashFieldLen
     \<and> 0 < unat (KeyLength h) \<and> unat (KeyLength h) \<le> maxHashFieldLen"

text \<open>A password of 12 to 4096 bytes hashed under a usable policy is stored, verifies, and under any
  later policy is rehashed exactly when one of its four costs is below the policy's; another text verifies
  against the stored hash only if it is at most 4096 bytes long and derives the same key.\<close>

theorem Hash_then_Verify:
  assumes "lawful_idkey argon2" "usable h salt"
    and "MinPasswordLength \<le> length password" "length password \<le> MaxPasswordLength"
  shows "\<exists>stored key. Hasher_Hash argon2 h (Some salt) password = Hashed stored
    \<and> argon2 (bytes_of password) salt (Iterations h) (MemoryKiB h) (Parallelism h) (KeyLength h) = Some key
    \<and> Hasher_Verify argon2 password stored = Matches
    \<and> (\<forall>other. Hasher_Verify argon2 other stored
         = (if length other \<le> MaxPasswordLength
              \<and> argon2 (bytes_of other) salt (Iterations h) (MemoryKiB h) (Parallelism h) (KeyLength h) = Some key
            then Matches else Mismatch))
    \<and> (\<forall>h2. NeedsRehash h2 stored \<longleftrightarrow> MemoryKiB h < MemoryKiB h2 \<or> Iterations h < Iterations h2
         \<or> Parallelism h < Parallelism h2 \<or> KeyLength h < KeyLength h2)"
proof -
  obtain key where key: "length key = unat (KeyLength h)"
    "argon2 (bytes_of password) salt (Iterations h) (MemoryKiB h) (Parallelism h) (KeyLength h) = Some key"
    using assms(1,2) unfolding lawful_idkey_def usable_def by blast
  have "storable h salt key" using assms(2) key(1)
    by (simp add: storable_def usable_def del: length_greater_0_conv)
  note decode_encode_hash [OF this]
  then show ?thesis
    using assms(3,4) key by (simp add: Hasher_Hash_def Hasher_Verify_def NeedsRehash_def)
qed

definition sample_idkey :: idkey where
  "sample_idkey pw salt t m p k =
     (if t = 0 \<or> p = 0 then None else Some (take (unat k) (pw @ salt) @ replicate (unat k - length (pw @ salt)) 0))"

theorem Hash_then_Verify_witness:
  "\<exists>stored key. Hasher_Hash sample_idkey DefaultParams (Some (replicate 16 9)) ''correct horse'' = Hashed stored
    \<and> sample_idkey (bytes_of ''correct horse'') (replicate 16 9) (Iterations DefaultParams)
        (MemoryKiB DefaultParams) (Parallelism DefaultParams) (KeyLength DefaultParams) = Some key
    \<and> Hasher_Verify sample_idkey ''correct horse'' stored = Matches
    \<and> (\<forall>other. Hasher_Verify sample_idkey other stored
         = (if length other \<le> MaxPasswordLength
              \<and> sample_idkey (bytes_of other) (replicate 16 9) (Iterations DefaultParams)
                  (MemoryKiB DefaultParams) (Parallelism DefaultParams) (KeyLength DefaultParams) = Some key
            then Matches else Mismatch))
    \<and> (\<forall>h2. NeedsRehash h2 stored \<longleftrightarrow> MemoryKiB DefaultParams < MemoryKiB h2
         \<or> Iterations DefaultParams < Iterations h2
         \<or> Parallelism DefaultParams < Parallelism h2 \<or> KeyLength DefaultParams < KeyLength h2)"
  by (rule Hash_then_Verify)
    (auto simp: lawful_idkey_def sample_idkey_def usable_def DefaultParams_def maxHashFieldLen_def
      MinPasswordLength_def MaxPasswordLength_def)

end
