(* ===== verification/Gate.thy ===== *)
theory Gate
  imports Request Password
begin

section \<open>The gates in front of a destination\<close>

text \<open>
  \<open>internal/gate/gate.go\<close> and the statements of \<open>store/query/gates.sql\<close> it runs: the password check,
  the durable click budget, the rotation of a sequential split and the cached signing secret. A
  statement is atomic (it is its own transaction). It can fail before it takes effect or, when the
  deadline passes while the server commits, after: \<open>gd_faults\<close> says which for the n-th statement.
  Counters are unbounded integers here; the column is a \<open>bigint\<close>. The password hasher
  (\<open>Password.Hasher_Verify\<close> on the process's parameters) is the function \<open>gs_hasher\<close>.
\<close>

record budget_row =
  br_workspace :: uuid
  br_consumed :: int
  br_exhausted_at :: "instant option"
  br_rotation :: int

datatype fault = NoFault | FailBefore | FailAfter

record cached_secret =
  cs_secret :: bytes
  cs_expires :: instant

record gate_service =
  gd_budget :: "uuid \<rightharpoonup> budget_row"
  gd_hashes :: "uuid \<rightharpoonup> string option"
  gd_secrets :: "uuid \<rightharpoonup> bytes option"
  gd_faults :: "nat \<Rightarrow> fault"
  gd_statements :: nat
  gs_hasher :: "(string \<Rightarrow> string \<Rightarrow> verify_result) option"
  gs_keys :: "uuid \<rightharpoonup> cached_secret"
  gs_key_ttl :: duration

subsection \<open>Statements\<close>

definition run_statement ::
    "(gate_service \<Rightarrow> 'a \<times> gate_service) \<Rightarrow> gate_service \<Rightarrow> 'a option \<times> gate_service" where
  "run_statement stmt g =
     (let g1 = g\<lparr>gd_statements := Suc (gd_statements g)\<rparr> in
      case gd_faults g (gd_statements g) of
        NoFault \<Rightarrow> (case stmt g1 of (x, g2) \<Rightarrow> (Some x, g2))
      | FailBefore \<Rightarrow> (None, g1)
      | FailAfter \<Rightarrow> (None, snd (stmt g1)))"

text \<open>\<open>ConsumeClickBudget\<close>: the row it returns (the new count), or none.\<close>

definition ConsumeClickBudget :: "uuid \<Rightarrow> uuid \<Rightarrow> int \<Rightarrow> instant \<Rightarrow> gate_service
    \<Rightarrow> int option \<times> gate_service" where
  "ConsumeClickBudget link ws limit now g =
     (if \<not> 1 \<le> limit then (None, g)
      else case gd_budget g link of
        None \<Rightarrow>
          (Some 1, g\<lparr>gd_budget := (gd_budget g)(link \<mapsto>
             \<lparr>br_workspace = ws, br_consumed = 1,
              br_exhausted_at = (if 1 \<ge> limit then Some now else None), br_rotation = 0\<rparr>)\<rparr>)
      | Some row \<Rightarrow>
          if br_consumed row < limit then
            (Some (br_consumed row + 1), g\<lparr>gd_budget := (gd_budget g)(link \<mapsto> row
               \<lparr>br_consumed := br_consumed row + 1,
                br_exhausted_at := (if br_consumed row + 1 \<ge> limit then Some now else br_exhausted_at row)\<rparr>)\<rparr>)
          else (None, g))"

definition GetClickBudget :: "uuid \<Rightarrow> gate_service \<Rightarrow> (int \<times> instant option) option \<times> gate_service" where
  "GetClickBudget link g =
     (map_option (\<lambda>row. (br_consumed row, br_exhausted_at row)) (gd_budget g link), g)"

definition NextVariantRotation :: "uuid \<Rightarrow> uuid \<Rightarrow> gate_service \<Rightarrow> int \<times> gate_service" where
  "NextVariantRotation link ws g =
     (case gd_budget g link of
        None \<Rightarrow>
          (1, g\<lparr>gd_budget := (gd_budget g)(link \<mapsto>
             \<lparr>br_workspace = ws, br_consumed = 0, br_exhausted_at = None, br_rotation = 1\<rparr>)\<rparr>)
      | Some row \<Rightarrow>
          (br_rotation row + 1,
           g\<lparr>gd_budget := (gd_budget g)(link \<mapsto> row\<lparr>br_rotation := br_rotation row + 1\<rparr>)\<rparr>))"

definition PeekVariantRotation :: "uuid \<Rightarrow> uuid \<Rightarrow> gate_service \<Rightarrow> int option \<times> gate_service" where
  "PeekVariantRotation link ws g =
     (case gd_budget g link of
        None \<Rightarrow> (None, g)
      | Some row \<Rightarrow> if br_workspace row = ws then (Some (br_rotation row), g) else (None, g))"

definition GetLinkPasswordHash :: "uuid \<Rightarrow> gate_service \<Rightarrow> string option option \<times> gate_service" where
  "GetLinkPasswordHash link g = (gd_hashes g link, g)"

definition GetWorkspaceSigningSecret :: "uuid \<Rightarrow> gate_service \<Rightarrow> bytes option option \<times> gate_service" where
  "GetWorkspaceSigningSecret ws g = (gd_secrets g ws, g)"

definition EnsureWorkspaceSigningSecret :: "bytes \<Rightarrow> uuid \<Rightarrow> gate_service \<Rightarrow> bytes option \<times> gate_service" where
  "EnsureWorkspaceSigningSecret candidate ws g =
     (case gd_secrets g ws of
        None \<Rightarrow> (None, g)
      | Some old \<Rightarrow>
          (let secret = (case old of Some s \<Rightarrow> s | None \<Rightarrow> candidate)
           in (Some secret, g\<lparr>gd_secrets := (gd_secrets g)(ws \<mapsto> Some secret)\<rparr>)))"

subsection \<open>The service\<close>

definition DefaultSecretTTL :: duration where "DefaultSecretTTL = minute_ns"
definition DefaultDBTimeout :: duration where "DefaultDBTimeout = 250 * millisecond_ns"

definition secret_ttl :: "duration \<Rightarrow> duration" where
  "secret_ttl cfg = (if cfg \<le> 0 then DefaultSecretTTL else cfg)"

datatype password_result = PasswordOk | PasswordWrong | ErrNoPassword | PasswordError

definition VerifyPassword :: "uuid \<Rightarrow> string \<Rightarrow> gate_service \<Rightarrow> password_result \<times> gate_service" where
  "VerifyPassword link password g =
     (case gs_hasher g of
        None \<Rightarrow> (PasswordError, g)
      | Some verify \<Rightarrow>
          (case run_statement (GetLinkPasswordHash link) g of
             (None, g1) \<Rightarrow> (PasswordError, g1)
           | (Some None, g1) \<Rightarrow> (ErrNoPassword, g1)
           | (Some (Some hash), g1) \<Rightarrow>
               if hash = None \<or> hash = Some '''' then (ErrNoPassword, g1)
               else (case verify password (the hash) of
                       Matches \<Rightarrow> (PasswordOk, g1)
                     | Mismatch \<Rightarrow> (PasswordWrong, g1)
                     | HashError \<Rightarrow> (PasswordError, g1))))"

definition ClickLimit :: "bool \<Rightarrow> int64 option \<Rightarrow> int \<times> bool" where
  "ClickLimit one_time max_clicks =
     (let (limit, have) = (case max_clicks of Some m \<Rightarrow> (sint m, True) | None \<Rightarrow> (0, False)) in
      if one_time \<and> (\<not> have \<or> limit > 1) then (1, True) else (limit, have))"

text \<open>An error is \<open>None\<close>.\<close>

definition Consume :: "uuid \<Rightarrow> uuid \<Rightarrow> int \<Rightarrow> instant \<Rightarrow> gate_service \<Rightarrow> bool option \<times> gate_service" where
  "Consume link ws limit now g =
     (case run_statement (ConsumeClickBudget link ws limit now) g of
        (None, g1) \<Rightarrow> (None, g1)
      | (Some None, g1) \<Rightarrow> (Some False, g1)
      | (Some (Some _), g1) \<Rightarrow> (Some True, g1))"

definition Rotate :: "uuid \<Rightarrow> uuid \<Rightarrow> gate_service \<Rightarrow> int option \<times> gate_service" where
  "Rotate link ws g = run_statement (NextVariantRotation link ws) g"

definition PeekRotation :: "uuid \<Rightarrow> uuid \<Rightarrow> gate_service \<Rightarrow> int option \<times> gate_service" where
  "PeekRotation link ws g =
     (case run_statement (PeekVariantRotation link ws) g of
        (None, g1) \<Rightarrow> (None, g1)
      | (Some None, g1) \<Rightarrow> (Some 1, g1)
      | (Some (Some position), g1) \<Rightarrow> (Some (position + 1), g1))"

definition Budget :: "uuid \<Rightarrow> gate_service \<Rightarrow> (int \<times> instant option) option \<times> gate_service" where
  "Budget link g =
     (case run_statement (GetClickBudget link) g of
        (None, g1) \<Rightarrow> (None, g1)
      | (Some None, g1) \<Rightarrow> (Some (0, None), g1)
      | (Some (Some row), g1) \<Rightarrow> (Some row, g1))"

datatype secret_result = SecretOk bytes | ErrNoSecretStored | SecretError

definition cacheSecret :: "uuid \<Rightarrow> bytes \<Rightarrow> instant \<Rightarrow> gate_service \<Rightarrow> gate_service" where
  "cacheSecret ws secret now g =
     g\<lparr>gs_keys := (gs_keys g)(ws \<mapsto> \<lparr>cs_secret = secret, cs_expires = now + gs_key_ttl g\<rparr>)\<rparr>"

definition secret_of :: "bytes \<Rightarrow> secret_result" where
  "secret_of s = (if length s = 0 then ErrNoSecretStored else SecretOk s)"

definition Secret :: "uuid \<Rightarrow> instant \<Rightarrow> gate_service \<Rightarrow> secret_result \<times> gate_service" where
  "Secret ws now g =
     (let query = (case run_statement (GetWorkspaceSigningSecret ws) g of
                     (None, g1) \<Rightarrow> (SecretError, g1)
                   | (Some row, g1) \<Rightarrow>
                       let secret = (case row of Some (Some s) \<Rightarrow> s | _ \<Rightarrow> [])
                       in (secret_of secret, cacheSecret ws secret now g1)) in
      case gs_keys g ws of
        None \<Rightarrow> query
      | Some entry \<Rightarrow> if now < cs_expires entry then (secret_of (cs_secret entry), g) else query)"

definition EnsureSecret :: "bytes option \<Rightarrow> uuid \<Rightarrow> instant \<Rightarrow> gate_service \<Rightarrow> bytes option \<times> gate_service" where
  "EnsureSecret random ws now g =
     (case random of
        None \<Rightarrow> (None, g)
      | Some candidate \<Rightarrow>
          (case run_statement (EnsureWorkspaceSigningSecret candidate ws) g of
             (None, g1) \<Rightarrow> (None, g1)
           | (Some None, g1) \<Rightarrow> (None, g1)
           | (Some (Some secret), g1) \<Rightarrow> (Some secret, cacheSecret ws secret now g1)))"

subsection \<open>The gatekeeper interface\<close>

text \<open>\<open>Gatekeeper\<close> of \<open>internal/httpx/redirect_gates.go\<close>: the methods the redirect handler calls.\<close>

record 'g gatekeeper =
  gk_verify_password :: "uuid \<Rightarrow> string \<Rightarrow> 'g \<Rightarrow> password_result \<times> 'g"
  gk_consume :: "uuid \<Rightarrow> uuid \<Rightarrow> int \<Rightarrow> instant \<Rightarrow> 'g \<Rightarrow> bool option \<times> 'g"
  gk_budget :: "uuid \<Rightarrow> 'g \<Rightarrow> (int \<times> instant option) option \<times> 'g"
  gk_secret :: "uuid \<Rightarrow> instant \<Rightarrow> 'g \<Rightarrow> secret_result \<times> 'g"
  gk_rotate :: "uuid \<Rightarrow> uuid \<Rightarrow> 'g \<Rightarrow> int option \<times> 'g"
  gk_peek :: "uuid \<Rightarrow> uuid \<Rightarrow> 'g \<Rightarrow> int option \<times> 'g"

definition gateService :: "gate_service gatekeeper" where
  "gateService =
     \<lparr>gk_verify_password = VerifyPassword, gk_consume = Consume, gk_budget = Budget,
      gk_secret = Secret, gk_rotate = Rotate, gk_peek = PeekRotation\<rparr>"

end
