(* ===== verification/Handler.thy ===== *)
theory Handler
  imports DeepLink AddonInline RuleSubject Resolver Gate Alias
begin

section \<open>The redirect handler\<close>

text \<open>
  \<open>internal/httpx/redirect.go\<close>, \<open>redirect_gates.go\<close> and \<open>redirect_split.go\<close>: the path of one request
  from its alias to its answer. The handler works on two states: \<open>'g\<close>, what the gatekeeper's
  operations read and write, and \<open>'x\<close>, everything else it talks to (the resolver, the limiters, the
  click recorder, the add-on modules, the random source and the clock), each through the operation the
  handler's field names. A response is its status, headers and body; the metric labels the handler
  observes are returned beside it. Log lines are left out.
\<close>

datatype page = NoBody | PageGone | PageBlocked | PageNotFound | PagePassword | PagePasswordWrong
  | PageUnsigned | PageText string

record response =
  rp_status :: nat
  rp_headers :: "(string \<times> string) list"
  rp_body :: page

record reply =
  ry_response :: response
  ry_label :: string
  ry_source :: string
  ry_throttled :: "string option"

record click_event =
  ce_link_id :: uuid
  ce_workspace_id :: uuid
  ce_occurred_at :: instant
  ce_ip :: string
  ce_user_agent :: string
  ce_referrer :: string
  ce_language :: string
  ce_latency_us :: int32
  ce_source :: string
  ce_track_returning :: bool
  ce_destination_id :: uuid

record 'x limiter =
  lm_allow :: "addr \<Rightarrow> 'x \<Rightarrow> (bool \<times> duration) \<times> 'x"
  lm_allow_key :: "string \<Rightarrow> 'x \<Rightarrow> (bool \<times> duration) \<times> 'x"
  lm_refund_key :: "string \<Rightarrow> 'x \<Rightarrow> 'x"
  lm_check :: "addr \<Rightarrow> 'x \<Rightarrow> (bool \<times> duration) \<times> 'x"
  lm_charge :: "addr \<Rightarrow> 'x \<Rightarrow> 'x"

record ('g, 'x) redirect_handler =
  rh_resolve :: "uuid \<Rightarrow> string \<Rightarrow> 'x \<Rightarrow> Result option \<times> 'x"
  rh_resolve_cached :: "uuid \<Rightarrow> string \<Rightarrow> 'x \<Rightarrow> Result option \<times> 'x"
  rh_domain_id :: uuid
  rh_status :: nat
  rh_recorder :: "(click_event \<Rightarrow> 'x \<Rightarrow> 'x) option"
  rh_geo :: "geo_resolver option"
  rh_returning :: "returning_set option"
  rh_not_found_limiter :: "'x limiter option"
  rh_gates :: "'g gatekeeper option"
  rh_addons :: "'x inline_module list option"
  rh_password_limiter :: "'x limiter option"
  rh_random :: "int \<Rightarrow> 'x \<Rightarrow> int \<times> 'x"
  rh_clock :: "'x \<Rightarrow> instant \<times> 'x"
  rh_uuid :: "uuid \<Rightarrow> string"
  rh_tzdb :: zoneinfo
  rh_parse_host :: "string \<Rightarrow> string option"

subsection \<open>Responses\<close>

definition body_of :: "request \<Rightarrow> page \<Rightarrow> page" where
  "body_of r p = (if rq_method r \<noteq> MethodHead then p else NoBody)"

definition errorPage :: "request \<Rightarrow> nat \<Rightarrow> page \<Rightarrow> response" where
  "errorPage r status page =
     \<lparr>rp_status = status,
      rp_headers = [(''Content-Type'', ''text/html; charset=utf-8''), (''X-Content-Type-Options'', ''nosniff''),
                    (''X-Robots-Tag'', ''noindex, nofollow''), (''Cache-Control'', ''no-store'')],
      rp_body = body_of r page\<rparr>"

definition notFound :: "request \<Rightarrow> response" where "notFound r = errorPage r 404 PageNotFound"
definition gone :: "request \<Rightarrow> response" where "gone r = errorPage r 410 PageGone"
definition blocked :: "request \<Rightarrow> response" where "blocked r = errorPage r 403 PageBlocked"
definition challenge :: "request \<Rightarrow> page \<Rightarrow> response" where "challenge r page = errorPage r 200 page"

definition writeUnavailable :: "request \<Rightarrow> response" where
  "writeUnavailable r =
     \<lparr>rp_status = 503,
      rp_headers = [(''Content-Type'', ''text/plain; charset=utf-8''), (''X-Content-Type-Options'', ''nosniff''),
                    (''Retry-After'', ''1''), (''X-Robots-Tag'', ''noindex, nofollow''), (''Cache-Control'', ''no-store'')],
      rp_body = body_of r (PageText (''Temporarily unavailable'' @ line_feed))\<rparr>"

definition unavailable :: "request \<Rightarrow> response" where "unavailable r = writeUnavailable r"

text \<open>\<open>RetryAfterSeconds\<close>: the wait rounded up to whole seconds, at least one.\<close>

definition RetryAfterSeconds :: "duration \<Rightarrow> int" where
  "RetryAfterSeconds d =
     (if d \<le> 0 then 1 else let s = (d + second_ns - 1) div second_ns in if s < 1 then 1 else s)"

definition setRetryAfter :: "duration \<Rightarrow> string \<times> string" where
  "setRetryAfter retry = (''Retry-After'', format_int (RetryAfterSeconds retry))"

definition tooManyRequests :: "request \<Rightarrow> duration \<Rightarrow> response" where
  "tooManyRequests r retry =
     \<lparr>rp_status = 429,
      rp_headers = [(''Content-Type'', ''text/plain; charset=utf-8''), (''X-Content-Type-Options'', ''nosniff''),
                    (''X-Robots-Tag'', ''noindex, nofollow''), (''Cache-Control'', ''no-store''), setRetryAfter retry],
      rp_body = body_of r (PageText (''Too many requests'' @ line_feed))\<rparr>"

definition methodNotAllowed :: "request \<Rightarrow> response" where
  "methodNotAllowed r =
     \<lparr>rp_status = 405,
      rp_headers = [(''Allow'', ''GET, HEAD''), (''X-Robots-Tag'', ''noindex, nofollow''), (''Cache-Control'', ''no-store''),
                    (''X-Content-Type-Options'', ''nosniff''), (''Content-Type'', ''text/plain; charset=utf-8'')],
      rp_body = body_of r (PageText (''Method not allowed'' @ line_feed))\<rparr>"

definition Location :: "string \<Rightarrow> nat \<Rightarrow> response" where
  "Location target status =
     \<lparr>rp_status = status,
      rp_headers = [(''Location'', target), (''Cache-Control'', ''private, no-store, max-age=0''),
                    (''Referrer-Policy'', ''unsafe-url''), (''X-Content-Type-Options'', ''nosniff'')],
      rp_body = NoBody\<rparr>"

definition status_of :: "('g, 'x) redirect_handler \<Rightarrow> nat" where
  "status_of h = (if rh_status h = 0 then 302 else rh_status h)"

definition redirectStatus :: "('g, 'x) redirect_handler \<Rightarrow> request \<Rightarrow> nat" where
  "redirectStatus h r = (if rq_method r = MethodPost then 303 else status_of h)"

fun source_text :: "Source \<Rightarrow> string" where
  "source_text SourceMemory = ''memory''"
| "source_text SourceRedis = ''redis''"
| "source_text SourceDatabase = ''database''"
| "source_text SourceNegative = ''negative''"

fun outcomeLabel :: "Outcome \<Rightarrow> string" where
  "outcomeLabel OutcomeRedirect = ''redirect''"
| "outcomeLabel OutcomeGone = ''gone''"
| "outcomeLabel OutcomeNotFound = ''not_found''"

definition answer :: "response \<Rightarrow> string \<Rightarrow> string \<Rightarrow> reply" where
  "answer resp label src = \<lparr>ry_response = resp, ry_label = label, ry_source = src, ry_throttled = None\<rparr>"

subsection \<open>Clicks\<close>

definition latencyUS :: "duration \<Rightarrow> int32" where
  "latencyUS d =
     (let us = (if d < 0 then - (- d div 1000) else d div 1000) in
      if us < 0 then 0 else if us > 2147483647 then 2147483647 else word_of_int us)"

definition clickSource :: "string \<Rightarrow> snapshot option \<Rightarrow> string" where
  "clickSource raw snap =
     (if raw = '''' \<or> \<not> contains_sub raw (ClickSourceParam @ ''='') then ''''
      else case ParseQuery raw of (q, ok) \<Rightarrow>
        if \<not> ok then ''''
        else case ClickSource (values_get q ClickSourceParam) of (src, found) \<Rightarrow>
          if \<not> found then ''''
          else case snap of
            None \<Rightarrow> src
          | Some s \<Rightarrow> if src \<noteq> ClickSourceQR then src
                      else ClickSourceCode (CodeSlug s (values_get q ClickCodeParam)))"

definition record_click :: "('g, 'x) redirect_handler \<Rightarrow> request \<Rightarrow> snapshot option \<Rightarrow> instant \<Rightarrow> uuid \<Rightarrow> bool
    \<Rightarrow> 'x \<Rightarrow> 'x" where
  "record_click h r snap start dest_id reached x =
     (case (rh_recorder h, snap) of
        (Some recorder, Some s) \<Rightarrow>
          if rq_method r = MethodHead then x
          else (case rh_clock h x of (now, x1) \<Rightarrow>
            recorder
              \<lparr>ce_link_id = sn_link_id s, ce_workspace_id = sn_workspace_id s, ce_occurred_at = start,
               ce_ip = rq_addr r, ce_user_agent = rq_user_agent r, ce_referrer = rq_referer r,
               ce_language = rq_accept_language r, ce_latency_us = latencyUS (now - start),
               ce_source = clickSource (rq_raw_query r) snap,
               ce_track_returning = (reached \<and> tracksReturning snap), ce_destination_id = dest_id\<rparr> x1)
      | _ \<Rightarrow> x)"

subsection \<open>Probing and bots\<close>

definition probeStatus :: "('g, 'x) redirect_handler \<Rightarrow> request \<Rightarrow> 'x \<Rightarrow> (bool \<times> duration) \<times> 'x" where
  "probeStatus h r x =
     (case rh_not_found_limiter h of
        None \<Rightarrow> ((False, 0), x)
      | Some l \<Rightarrow> (case lm_check l (rq_addr r) x of ((ok, retry), x1) \<Rightarrow> ((\<not> ok, retry), x1)))"

definition chargeProbe :: "('g, 'x) redirect_handler \<Rightarrow> request \<Rightarrow> 'x \<Rightarrow> 'x" where
  "chargeProbe h r x = (case rh_not_found_limiter h of None \<Rightarrow> x | Some l \<Rightarrow> lm_charge l (rq_addr r) x)"

definition blockedAsBot :: "snapshot option \<Rightarrow> string \<Rightarrow> bool" where
  "blockedAsBot snap ua =
     (case snap of
        None \<Rightarrow> False
      | Some s \<Rightarrow>
          if sn_not_found s then False
          else if \<not> BlocksBots (sn_bot_policy s) (sn_domain_bot_policy s) then False
          else cl_is_bot (Classify ua))"

definition inline :: "('g, 'x) redirect_handler \<Rightarrow> bool" where
  "inline h = (case rh_addons h of None \<Rightarrow> False | Some ms \<Rightarrow> HasInline ms)"

subsection \<open>Split testing\<close>

datatype split_outcome = SplitPassed | SplitChosen Choice | SplitFailed

definition challengePending :: "snapshot option \<Rightarrow> request \<Rightarrow> bool" where
  "challengePending snap r =
     (case snap of None \<Rightarrow> False | Some s \<Rightarrow> sn_has_password s \<and> rq_method r \<noteq> MethodPost)"

definition weight_total :: "int32 list \<Rightarrow> int" where
  "weight_total ws = sum_list (map (\<lambda>w. if sint w > 0 then sint w else 0) ws)"

text \<open>The walk: the first arm whose running sum exceeds \<open>n\<close>. \<open>Weights\<close> gives a weight per arm.\<close>

fun weighted_walk :: "Choice list \<Rightarrow> int32 list \<Rightarrow> int \<Rightarrow> int \<Rightarrow> split_outcome" where
  "weighted_walk (a # as) (w # ws) n running =
     (if sint w \<le> 0 then weighted_walk as ws n running
      else if n < running + sint w then SplitChosen a
      else weighted_walk as ws n (running + sint w))"
| "weighted_walk _ _ n running = SplitPassed"

definition weightedPick :: "(int \<Rightarrow> 'x \<Rightarrow> int \<times> 'x) \<Rightarrow> Choice list \<Rightarrow> int32 list \<Rightarrow> 'x \<Rightarrow> split_outcome \<times> 'x" where
  "weightedPick random arms weights x =
     (let total_weight = weight_total weights in
      if total_weight \<le> 0 then (SplitPassed, x)
      else case random total_weight x of (n, x1) \<Rightarrow> (weighted_walk arms weights n 0, x1))"

text \<open>Go's remainder has the sign of the dividend; a negative index becomes zero.\<close>

definition arm_index :: "int \<Rightarrow> nat \<Rightarrow> nat" where
  "arm_index position arms =
     (let i = (if position - 1 < 0 then - ((1 - position) mod int arms) else (position - 1) mod int arms)
      in if i < 0 then 0 else nat i)"

definition rotate_arms :: "('g, 'x) redirect_handler \<Rightarrow> request \<Rightarrow> snapshot \<Rightarrow> Choice list \<Rightarrow> 'g \<Rightarrow> split_outcome \<times> 'g" where
  "rotate_arms h r s arms g =
     (case rh_gates h of
        None \<Rightarrow> (SplitFailed, g)
      | Some gk \<Rightarrow>
          (case (if rq_method r = MethodHead then gk_peek gk else gk_rotate gk) (sn_link_id s) (sn_workspace_id s) g of
             (None, g1) \<Rightarrow> (SplitFailed, g1)
           | (Some position, g1) \<Rightarrow> (SplitChosen (arms ! arm_index position (length arms)), g1)))"

definition split :: "('g, 'x) redirect_handler \<Rightarrow> request \<Rightarrow> snapshot \<Rightarrow> 'g \<times> 'x \<Rightarrow> split_outcome \<times> 'g \<times> 'x" where
  "split h r s gx =
     (case gx of (g, x) \<Rightarrow>
      case Split (Some s) of (kind, arms) \<Rightarrow>
        if length arms = 0 then (SplitPassed, g, x)
        else if challengePending (Some s) r then (SplitPassed, g, x)
        else if kind = RuleKindWeighted then
          (case weightedPick (rh_random h) arms (Weights s arms) x of (sp, x1) \<Rightarrow> (sp, g, x1))
        else if kind = RuleKindSequential then
          (case rotate_arms h r s arms g of (sp, g1) \<Rightarrow> (sp, g1, x))
        else (SplitPassed, g, x))"

subsection \<open>Gates\<close>

datatype gate_result = GatePassed | GateAnswered response string "string option"

definition signatureGate :: "('g, 'x) redirect_handler \<Rightarrow> 'g gatekeeper \<Rightarrow> request \<Rightarrow> snapshot \<Rightarrow> string \<Rightarrow> uuid
    \<Rightarrow> 'g \<times> 'x \<Rightarrow> gate_result \<times> 'g \<times> 'x" where
  "signatureGate h gk r s name domain_id gx =
     (case gx of (g, x) \<Rightarrow>
      if \<not> sn_require_signature s then (GatePassed, g, x)
      else case rh_clock h x of (at_secret, x1) \<Rightarrow>
        (case gk_secret gk (sn_workspace_id s) at_secret g of
           (SecretError, g1) \<Rightarrow> (GateAnswered (unavailable r) ''error'' None, g1, x1)
         | (res, g1) \<Rightarrow>
             let secret = (case res of SecretOk sec \<Rightarrow> sec | _ \<Rightarrow> []) in
             case rh_clock h x1 of (now, x2) \<Rightarrow>
               (case Verify (rh_uuid h) secret domain_id name (url_query r) now of
                  Some _ \<Rightarrow> (GateAnswered (errorPage r 403 PageUnsigned) ''unsigned'' None, g1, x2)
                | None \<Rightarrow> (GatePassed, g1, x2))))"

definition passwordAliasKey :: "('g, 'x) redirect_handler \<Rightarrow> string \<Rightarrow> uuid \<Rightarrow> string" where
  "passwordAliasKey h name domain_id = ''pw:'' @ rh_uuid h domain_id @ '':'' @ name"

definition passwordAllowed :: "('g, 'x) redirect_handler \<Rightarrow> request \<Rightarrow> string \<Rightarrow> uuid \<Rightarrow> 'x \<Rightarrow> (bool \<times> duration) \<times> 'x" where
  "passwordAllowed h r name domain_id x =
     (case rh_password_limiter h of
        None \<Rightarrow> ((True, 0), x)
      | Some l \<Rightarrow>
          (case lm_allow l (rq_addr r) x of ((by_addr, addr_retry), x1) \<Rightarrow>
           case lm_allow_key l (passwordAliasKey h name domain_id) x1 of ((by_alias, alias_retry), x2) \<Rightarrow>
             if by_addr \<and> by_alias then ((True, 0), x2) else ((False, max addr_retry alias_retry), x2)))"

definition refundPasswordAlias :: "('g, 'x) redirect_handler \<Rightarrow> string \<Rightarrow> uuid \<Rightarrow> 'x \<Rightarrow> 'x" where
  "refundPasswordAlias h name domain_id x =
     (case rh_password_limiter h of None \<Rightarrow> x | Some l \<Rightarrow> lm_refund_key l (passwordAliasKey h name domain_id) x)"

definition passwordGate :: "('g, 'x) redirect_handler \<Rightarrow> 'g gatekeeper \<Rightarrow> request \<Rightarrow> snapshot \<Rightarrow> string \<Rightarrow> uuid
    \<Rightarrow> 'g \<times> 'x \<Rightarrow> gate_result \<times> 'g \<times> 'x" where
  "passwordGate h gk r s name domain_id gx =
     (case gx of (g, x) \<Rightarrow>
      if \<not> sn_has_password s then (GatePassed, g, x)
      else if rq_method r \<noteq> MethodPost
        then (GateAnswered (challenge r PagePassword) ''password_required'' None, g, x)
      else case passwordAllowed h r name domain_id x of
        ((False, retry), x1) \<Rightarrow>
          (GateAnswered (tooManyRequests r retry) ''throttled'' (Some ''link_password''), g, x1)
      | ((True, _), x1) \<Rightarrow>
          (case rq_form r of
             None \<Rightarrow> (GateAnswered (challenge r PagePasswordWrong) ''password_wrong'' None, g, x1)
           | Some form \<Rightarrow>
               (case gk_verify_password gk (sn_link_id s) (values_get form ''password'') g of
                  (ErrNoPassword, g1) \<Rightarrow> (GatePassed, g1, x1)
                | (PasswordError, g1) \<Rightarrow> (GateAnswered (unavailable r) ''error'' None, g1, x1)
                | (PasswordWrong, g1) \<Rightarrow>
                    (GateAnswered (challenge r PagePasswordWrong) ''password_wrong'' None, g1, x1)
                | (PasswordOk, g1) \<Rightarrow> (GatePassed, g1, refundPasswordAlias h name domain_id x1))))"

definition passGates :: "('g, 'x) redirect_handler \<Rightarrow> request \<Rightarrow> snapshot \<Rightarrow> string \<Rightarrow> uuid
    \<Rightarrow> 'g \<times> 'x \<Rightarrow> gate_result \<times> 'g \<times> 'x" where
  "passGates h r s name domain_id gx =
     (case rh_gates h of
        None \<Rightarrow> (GateAnswered (unavailable r) ''error'' None, gx)
      | Some gk \<Rightarrow>
          (case signatureGate h gk r s name domain_id gx of
             (GateAnswered resp label t, gx1) \<Rightarrow> (GateAnswered resp label t, gx1)
           | (GatePassed, gx1) \<Rightarrow> passwordGate h gk r s name domain_id gx1))"

definition budgetPeek :: "'g gatekeeper \<Rightarrow> request \<Rightarrow> snapshot \<Rightarrow> int \<Rightarrow> 'g \<Rightarrow> gate_result \<times> 'g" where
  "budgetPeek gk r s limit g =
     (case gk_budget gk (sn_link_id s) g of
        (None, g1) \<Rightarrow> (GateAnswered (unavailable r) ''error'' None, g1)
      | (Some (consumed, _), g1) \<Rightarrow>
          if consumed \<ge> limit then (GateAnswered (gone r) ''spent'' None, g1) else (GatePassed, g1))"

definition budgetGate :: "('g, 'x) redirect_handler \<Rightarrow> 'g gatekeeper \<Rightarrow> request \<Rightarrow> snapshot
    \<Rightarrow> 'g \<times> 'x \<Rightarrow> gate_result \<times> 'g \<times> 'x" where
  "budgetGate h gk r s gx =
     (case gx of (g, x) \<Rightarrow>
      case ClickLimit (sn_one_time s) (sn_max_clicks s) of (limit, gated) \<Rightarrow>
        if \<not> gated then (GatePassed, g, x)
        else if rq_method r = MethodHead then (case budgetPeek gk r s limit g of (res, g1) \<Rightarrow> (res, g1, x))
        else case rh_clock h x of (now, x1) \<Rightarrow>
          (case gk_consume gk (sn_link_id s) (sn_workspace_id s) limit now g of
             (None, g1) \<Rightarrow> (GateAnswered (unavailable r) ''error'' None, g1, x1)
           | (Some False, g1) \<Rightarrow> (GateAnswered (gone r) ''spent'' None, g1, x1)
           | (Some True, g1) \<Rightarrow> (GatePassed, g1, x1)))"

definition passBudgetGate :: "('g, 'x) redirect_handler \<Rightarrow> request \<Rightarrow> snapshot \<Rightarrow> 'g \<times> 'x \<Rightarrow> gate_result \<times> 'g \<times> 'x" where
  "passBudgetGate h r s gx =
     (case rh_gates h of
        None \<Rightarrow> (GateAnswered (unavailable r) ''error'' None, gx)
      | Some gk \<Rightarrow> budgetGate h gk r s gx)"

subsection \<open>The handler\<close>

text \<open>The destination of an active link: a match rule's, an arm's, the fallback's or the link's own. \<open>None\<close>
  is a rotation that could not be advanced.\<close>

definition choose_destination :: "('g, 'x) redirect_handler \<Rightarrow> request \<Rightarrow> snapshot \<Rightarrow> instant
    \<Rightarrow> 'g \<times> 'x \<Rightarrow> (string \<times> uuid) option \<times> 'g \<times> 'x" where
  "choose_destination h r s start gx =
     (case fst (route (rh_tzdb h) (rh_geo h) (rh_returning h) r (Some s) start) of
        Some routed \<Rightarrow> (Some (ch_url routed, ch_id routed), gx)
      | None \<Rightarrow>
          (case split h r s gx of
             (SplitFailed, gx1) \<Rightarrow> (None, gx1)
           | (SplitChosen c, gx1) \<Rightarrow> (Some (ch_url c, ch_id c), gx1)
           | (SplitPassed, gx1) \<Rightarrow>
               (case Fallback (Some s) of
                  Some fb \<Rightarrow> (Some (ch_url fb, ch_id fb), gx1)
                | None \<Rightarrow> (Some (sn_url s, uuid_nil), gx1))))"

definition inline_step :: "('g, 'x) redirect_handler \<Rightarrow> snapshot \<Rightarrow> string \<Rightarrow> string \<Rightarrow> 'x \<Rightarrow> inline_result \<times> 'x" where
  "inline_step h s name target x =
     (case rh_addons h of
        Some ms \<Rightarrow>
          if HasInline ms then
            Inline (rh_parse_host h) ms
              \<lparr>dc_link_id = sn_link_id s, dc_workspace_id = sn_workspace_id s, dc_alias = name,
               dc_destination = target\<rparr> x
          else (\<lparr>ir_vetoed = False, ir_destination = target, ir_rewritten = False\<rparr>, x)
      | None \<Rightarrow> (\<lparr>ir_vetoed = False, ir_destination = target, ir_rewritten = False\<rparr>, x))"

text \<open>From the joined destination on: challenge gates, add-ons, budget gate, answer.\<close>

definition serve_target :: "('g, 'x) redirect_handler \<Rightarrow> request \<Rightarrow> Result \<Rightarrow> string \<Rightarrow> uuid \<Rightarrow> instant
    \<Rightarrow> string \<Rightarrow> uuid \<Rightarrow> 'g \<times> 'x \<Rightarrow> reply \<times> 'g \<times> 'x" where
  "serve_target h r res name domain_id start joined dest_id gx =
     (let s = rs_snapshot res; src = source_text (rs_source res);
          target = withForwardedQuery (rh_parse_host h) joined r s
      in case (if Gated (Some s) then passGates h r s name domain_id gx else (GatePassed, gx)) of
           (GateAnswered resp label t, gx1) \<Rightarrow> ((answer resp label src)\<lparr>ry_throttled := t\<rparr>, gx1)
         | (GatePassed, g1, x1) \<Rightarrow>
             (case inline_step h s name target x1 of
                (decided, x2) \<Rightarrow>
                  if ir_vetoed decided then (answer (blocked r) ''vetoed'' src, g1, x2)
                  else case (if Gated (Some s) then passBudgetGate h r s (g1, x2) else (GatePassed, g1, x2)) of
                         (GateAnswered resp label t, gx3) \<Rightarrow> ((answer resp label src)\<lparr>ry_throttled := t\<rparr>, gx3)
                       | (GatePassed, g3, x3) \<Rightarrow>
                           (answer (Location (ir_destination decided) (redirectStatus h r))
                              (outcomeLabel OutcomeRedirect) src,
                            g3, record_click h r (Some s) start dest_id True x3)))"

definition serve_gone :: "('g, 'x) redirect_handler \<Rightarrow> request \<Rightarrow> Result \<Rightarrow> instant \<Rightarrow> 'g \<times> 'x \<Rightarrow> reply \<times> 'g \<times> 'x" where
  "serve_gone h r res start gx =
     (case gx of (g, x) \<Rightarrow>
        (answer (gone r) (outcomeLabel OutcomeGone) (source_text (rs_source res)),
         g, record_click h r (Some (rs_snapshot res)) start uuid_nil False x))"

definition serve_not_found :: "('g, 'x) redirect_handler \<Rightarrow> request \<Rightarrow> Result \<Rightarrow> instant \<Rightarrow> 'g \<times> 'x \<Rightarrow> reply \<times> 'g \<times> 'x" where
  "serve_not_found h r res start gx =
     (case gx of (g, x) \<Rightarrow>
        (let x1 = chargeProbe h r x
         in (answer (notFound r) (outcomeLabel OutcomeNotFound) (source_text (rs_source res)),
             g, if \<not> sn_not_found (rs_snapshot res)
                then record_click h r (Some (rs_snapshot res)) start uuid_nil False x1 else x1)))"

definition serve_resolved :: "('g, 'x) redirect_handler \<Rightarrow> request \<Rightarrow> Result \<Rightarrow> string \<Rightarrow> uuid \<Rightarrow> instant
    \<Rightarrow> 'g \<times> 'x \<Rightarrow> reply \<times> 'g \<times> 'x" where
  "serve_resolved h r res name domain_id start gx =
     (let s = rs_snapshot res; src = source_text (rs_source res) in
      if blockedAsBot (Some s) (rq_user_agent r) then
        (case gx of (g, x) \<Rightarrow>
           (answer (blocked r) ''blocked_bot'' src, g, record_click h r (Some s) start uuid_nil False x))
      else case Decide (Some s) start of
        OutcomeGone \<Rightarrow> serve_gone h r res start gx
      | OutcomeNotFound \<Rightarrow> serve_not_found h r res start gx
      | OutcomeRedirect \<Rightarrow>
          if rq_method r = MethodPost \<and> \<not> sn_has_password s then
            (answer (methodNotAllowed r) ''method_not_allowed'' src, gx)
          else case choose_destination h r s start gx of
            (None, gx1) \<Rightarrow> (answer (unavailable r) ''error'' src, gx1)
          | (Some (destination, dest_id), gx1) \<Rightarrow>
              (case forwardable (rh_parse_host h) (Some s) destination r of
                 None \<Rightarrow> serve_not_found h r res start gx1
               | Some joined \<Rightarrow> serve_target h r res name domain_id start joined dest_id gx1))"

definition request_domain :: "('g, 'x) redirect_handler \<Rightarrow> request \<Rightarrow> uuid" where
  "request_domain h r = (case rq_custom_domain r of Some d \<Rightarrow> d | None \<Rightarrow> rh_domain_id h)"

text \<open>The front half: shape, probe limit and resolution. The reply is either already given or the resolved
  link is handed on.\<close>

definition resolve_step :: "('g, 'x) redirect_handler \<Rightarrow> request \<Rightarrow> 'x \<Rightarrow> (reply + Result) \<times> 'x" where
  "resolve_step h r x =
     (let name = Canonical (trim_space (rq_alias r)); domain_id = request_domain h r in
      if \<not> WellFormed name then (Inl (answer (notFound r) ''not_found'' ''rejected''), x)
      else case probeStatus h r x of ((probing, retry_after), x1) \<Rightarrow>
        if probing then
          (case rh_resolve_cached h domain_id name x1 of (cached, x2) \<Rightarrow>
             if (case cached of None \<Rightarrow> True | Some res \<Rightarrow> sn_not_found (rs_snapshot res)) then
               (Inl ((answer (tooManyRequests r retry_after) ''throttled'' ''rejected'')
                       \<lparr>ry_throttled := Some ''redirect_404''\<rparr>), x2)
             else (Inr (the cached), x2))
        else
          (case rh_resolve h domain_id name x1 of
             (None, x2) \<Rightarrow> (Inl (answer (unavailable r) ''error'' ''none''), x2)
           | (Some res, x2) \<Rightarrow> (Inr res, x2)))"

definition ServeHTTP :: "('g, 'x) redirect_handler \<Rightarrow> request \<Rightarrow> 'g \<times> 'x \<Rightarrow> reply \<times> 'g \<times> 'x" where
  "ServeHTTP h r gx =
     (case gx of (g, x) \<Rightarrow>
      case rh_clock h x of (start, x1) \<Rightarrow>
      case resolve_step h r x1 of
        (Inl reply, x2) \<Rightarrow> (reply, g, x2)
      | (Inr res, x2) \<Rightarrow>
          serve_resolved h r res (Canonical (trim_space (rq_alias r))) (request_domain h r) start (g, x2))"

text \<open>The link a request is about, when it gets that far.\<close>

definition request_link :: "('g, 'x) redirect_handler \<Rightarrow> request \<Rightarrow> 'g \<times> 'x \<Rightarrow> snapshot option" where
  "request_link h r gx =
     (case resolve_step h r (snd (rh_clock h (snd gx))) of
        (Inl _, _) \<Rightarrow> None
      | (Inr res, _) \<Rightarrow> Some (rs_snapshot res))"

end
