(* ===== verification/Gate_Correct.thy ===== *)
theory Gate_Correct
  imports Gate
begin

section \<open>What the gate service promises\<close>

text \<open>
  The contract the redirect handler relies on is the locale \<open>click_ledger\<close>: an observation of the
  clicks spent and of the rotation of each link, and what every operation may do to them. A history
  is a list of calls; since a statement is its own transaction, every interleaving of concurrent
  requests on the replicas is such a list. The locale's lemmas count the clicks a history granted;
  the interpretation proves the laws for \<open>gateService\<close>, faults included.
\<close>

subsection \<open>Histories of calls\<close>

datatype gate_call =
  CallVerify uuid string
| CallConsume uuid uuid int instant
| CallBudget uuid
| CallSecret uuid instant
| CallRotate uuid uuid
| CallPeek uuid uuid

datatype gate_reply =
  ReplyVerify password_result
| ReplyConsume "bool option"
| ReplyBudget "(int \<times> instant option) option"
| ReplySecret secret_result
| ReplyPosition "int option"

fun gate_step :: "'g gatekeeper \<Rightarrow> gate_call \<Rightarrow> 'g \<Rightarrow> gate_reply \<times> 'g" where
  "gate_step gk (CallVerify l p) g = map_prod ReplyVerify id (gk_verify_password gk l p g)"
| "gate_step gk (CallConsume l ws n t) g = map_prod ReplyConsume id (gk_consume gk l ws n t g)"
| "gate_step gk (CallBudget l) g = map_prod ReplyBudget id (gk_budget gk l g)"
| "gate_step gk (CallSecret ws t) g = map_prod ReplySecret id (gk_secret gk ws t g)"
| "gate_step gk (CallRotate l ws) g = map_prod ReplyPosition id (gk_rotate gk l ws g)"
| "gate_step gk (CallPeek l ws) g = map_prod ReplyPosition id (gk_peek gk l ws g)"

fun gate_run :: "'g gatekeeper \<Rightarrow> gate_call list \<Rightarrow> 'g \<Rightarrow> gate_reply list \<times> 'g" where
  "gate_run gk [] g = ([], g)"
| "gate_run gk (c # cs) g =
     (let (r, g1) = gate_step gk c g; (rs, g2) = gate_run gk cs g1 in (r # rs, g2))"

fun granted :: "uuid \<Rightarrow> gate_call \<Rightarrow> gate_reply \<Rightarrow> bool" where
  "granted l (CallConsume l' _ _ _) (ReplyConsume (Some ok)) = (l' = l \<and> ok)"
| "granted _ _ _ = False"

definition grants :: "uuid \<Rightarrow> gate_call list \<Rightarrow> gate_reply list \<Rightarrow> nat" where
  "grants l cs rs = length (filter (\<lambda>(c, r). granted l c r) (zip cs rs))"

fun within_limit :: "uuid \<Rightarrow> int \<Rightarrow> gate_call \<Rightarrow> bool" where
  "within_limit l n (CallConsume l' _ m _) = (l' = l \<longrightarrow> m \<le> n)"
| "within_limit _ _ _ = True"

fun asks_link :: "uuid \<Rightarrow> gate_call \<Rightarrow> bool" where
  "asks_link l (CallConsume l' _ _ _) = (l' = l)"
| "asks_link _ _ = False"

fun turns_link :: "uuid \<Rightarrow> gate_call \<Rightarrow> bool" where
  "turns_link l (CallRotate l' _) = (l' = l)"
| "turns_link _ _ = False"

definition positions :: "uuid \<Rightarrow> gate_call list \<Rightarrow> gate_reply list \<Rightarrow> int list" where
  "positions l cs rs =
     map (\<lambda>(c, r). case r of ReplyPosition (Some p) \<Rightarrow> p | _ \<Rightarrow> 0)
       (filter (\<lambda>(c, r). turns_link l c \<and> (\<exists>p. r = ReplyPosition (Some p))) (zip cs rs))"

lemma grants_simps [simp]:
  "grants l [] rs = 0"
  "grants l (c # cs) (r # rs) = (if granted l c r then 1 else 0) + grants l cs rs"
  by (simp_all add: grants_def)

lemma positions_Nil [simp]: "positions l [] rs = []"
  by (simp add: positions_def)

lemma positions_Cons:
  "positions l (c # cs) (r # rs) =
     (case r of ReplyPosition (Some p) \<Rightarrow> if turns_link l c then p # positions l cs rs else positions l cs rs
      | _ \<Rightarrow> positions l cs rs)"
  by (auto simp: positions_def split: gate_reply.splits option.splits)

subsection \<open>The contract\<close>

locale click_ledger =
  fixes gk :: "'g gatekeeper"
    and spent :: "'g \<Rightarrow> uuid \<Rightarrow> int"
    and turn :: "'g \<Rightarrow> uuid \<Rightarrow> int"
    and healthy :: "'g \<Rightarrow> bool"
  assumes verify_keeps: "spent (snd (gk_verify_password gk l p g)) = spent g \<and>
                         turn (snd (gk_verify_password gk l p g)) = turn g"
    and budget_keeps: "spent (snd (gk_budget gk l g)) = spent g \<and> turn (snd (gk_budget gk l g)) = turn g"
    and secret_keeps: "spent (snd (gk_secret gk ws t g)) = spent g \<and> turn (snd (gk_secret gk ws t g)) = turn g"
    and peek_keeps: "spent (snd (gk_peek gk l ws g)) = spent g \<and> turn (snd (gk_peek gk l ws g)) = turn g"
    and consume_turn: "turn (snd (gk_consume gk l ws n t g)) = turn g"
    and consume_spent: "spent (snd (gk_consume gk l ws n t g)) = spent g \<or>
          1 \<le> n \<and> spent g l < n \<and>
          spent (snd (gk_consume gk l ws n t g)) = (spent g)(l := spent g l + 1)"
    and consume_granted: "fst (gk_consume gk l ws n t g) = Some True \<Longrightarrow>
          spent (snd (gk_consume gk l ws n t g)) = (spent g)(l := spent g l + 1)"
    and consume_refused: "fst (gk_consume gk l ws n t g) = Some False \<Longrightarrow> n < 1 \<or> n \<le> spent g l"
    and consume_healthy: "healthy g \<Longrightarrow> fst (gk_consume gk l ws n t g) \<noteq> None"
    and rotate_spent: "spent (snd (gk_rotate gk l ws g)) = spent g"
    and rotate_turn: "turn (snd (gk_rotate gk l ws g)) = turn g \<and> fst (gk_rotate gk l ws g) = None \<or>
          turn (snd (gk_rotate gk l ws g)) = (turn g)(l := turn g l + 1)"
    and rotate_position: "fst (gk_rotate gk l ws g) = Some pos \<Longrightarrow>
          pos = turn g l + 1 \<and> turn (snd (gk_rotate gk l ws g)) = (turn g)(l := turn g l + 1)"
    and rotate_healthy: "healthy g \<Longrightarrow> fst (gk_rotate gk l ws g) \<noteq> None"
    and keeps_healthy: "healthy g \<Longrightarrow> healthy (snd (gate_step gk c g))"
begin

lemmas keeps = verify_keeps budget_keeps secret_keeps peek_keeps

lemma step_spent:
  "spent (snd (gate_step gk c g)) l = spent g l + (if granted l c (fst (gate_step gk c g)) then 1 else 0)
   \<or> fst (gate_step gk c g) = ReplyConsume None \<and> asks_link l c \<and>
     spent (snd (gate_step gk c g)) l = spent g l + 1"
proof (cases c)
  case (CallConsume l' ws n t)
  let ?r = "fst (gk_consume gk l' ws n t g)" and ?g = "snd (gk_consume gk l' ws n t g)"
  consider "?r = Some True" | "?r = Some False" | "?r = None"
    by (cases ?r) auto
  then show ?thesis
  proof cases
    case 1
    then show ?thesis
      using consume_granted [OF 1] by (cases "l' = l") (auto simp: CallConsume)
  next
    case 2
    then show ?thesis
      using consume_spent [of l' ws n t g] consume_refused [OF 2] by (auto simp: CallConsume)
  next
    case 3
    then show ?thesis
      using consume_spent [of l' ws n t g] by (cases "l' = l") (auto simp: CallConsume)
  qed
qed (use keeps rotate_spent in \<open>auto simp: keeps rotate_spent\<close>)

lemma step_mono: "spent g l \<le> spent (snd (gate_step gk c g)) l"
  using step_spent [of c g l] by auto

lemma step_below:
  assumes "within_limit l n c" "spent (snd (gate_step gk c g)) l \<noteq> spent g l"
  shows "1 \<le> n \<and> spent (snd (gate_step gk c g)) l \<le> n"
proof (cases c)
  case (CallConsume l' ws m t)
  then show ?thesis
    using assms consume_spent [of l' ws m t g] by (auto split: if_splits)
qed (use assms keeps rotate_spent in \<open>auto simp: keeps rotate_spent\<close>)

lemma run_grants_spent:
  "spent g l + int (grants l cs (fst (gate_run gk cs g))) \<le> spent (snd (gate_run gk cs g)) l"
proof (induction cs arbitrary: g)
  case (Cons c cs)
  show ?case
    using step_spent [of c g l] Cons.IH [of "snd (gate_step gk c g)"]
    by (auto simp: split_beta Let_def)
qed simp

lemma run_spent_bound:
  assumes "list_all (within_limit l n) cs"
  shows "spent (snd (gate_run gk cs g)) l \<le> max n (spent g l) \<and>
         (n < 1 \<longrightarrow> spent (snd (gate_run gk cs g)) l = spent g l)"
  using assms
proof (induction cs arbitrary: g)
  case (Cons c cs)
  let ?g = "snd (gate_step gk c g)"
  have "spent ?g l \<noteq> spent g l \<Longrightarrow> 1 \<le> n \<and> spent ?g l \<le> n"
    using step_below [of l n c g] Cons.prems by simp
  moreover have "spent (snd (gate_run gk cs ?g)) l \<le> max n (spent ?g l) \<and>
      (n < 1 \<longrightarrow> spent (snd (gate_run gk cs ?g)) l = spent ?g l)"
    using Cons by simp
  ultimately show ?case
    by (cases "spent ?g l = spent g l") (auto simp: split_beta Let_def)
qed simp

lemma run_grants_bounded:
  assumes "list_all (within_limit l n) cs" "0 \<le> spent g l"
  shows "int (grants l cs (fst (gate_run gk cs g))) \<le> max 0 (n - spent g l)"
  using run_grants_spent [of g l cs] run_spent_bound [OF assms(1), of g] assms(2) by linarith

lemma run_healthy: "healthy g \<Longrightarrow> healthy (snd (gate_run gk cs g))"
  by (induction cs arbitrary: g) (auto simp: split_beta Let_def keeps_healthy)

text \<open>Without faults no click is lost either: a link's history grants every click of the ceiling.\<close>

definition fixed_limit :: "uuid \<Rightarrow> int \<Rightarrow> gate_call \<Rightarrow> bool" where
  "fixed_limit l n c = (\<forall>ws m t. c = CallConsume l ws m t \<longrightarrow> m = n)"

lemma healthy_consume_exact:
  assumes "healthy g"
  shows "fst (gk_consume gk l ws n t g) = Some (1 \<le> n \<and> spent g l < n) \<and>
         spent (snd (gk_consume gk l ws n t g)) =
           (if 1 \<le> n \<and> spent g l < n then (spent g)(l := spent g l + 1) else spent g)"
proof -
  obtain ok where ok: "fst (gk_consume gk l ws n t g) = Some ok"
    using consume_healthy [OF assms] by blast
  show ?thesis
    using ok consume_spent [of l ws n t g] consume_granted [of l ws n t g] consume_refused [of l ws n t g]
    by (cases ok) (auto simp: fun_eq_iff split: if_splits)
qed

lemma run_grants_exact:
  assumes "list_all (\<lambda>c. asks_link l c \<longrightarrow> (\<exists>ws t. c = CallConsume l ws n t)) cs"
    and "healthy g" "0 \<le> spent g l" "spent g l \<le> n"
  shows "int (grants l cs (fst (gate_run gk cs g))) =
           min (int (length (filter (asks_link l) cs))) (n - spent g l)"
  using assms
proof (induction cs arbitrary: g)
  case (Cons c cs)
  let ?g = "snd (gate_step gk c g)"
  have h: "healthy ?g"
    using Cons.prems(2) by (rule keeps_healthy)
  show ?case
  proof (cases "asks_link l c")
    case True
    then obtain ws t where c: "c = CallConsume l ws n t"
      using Cons.prems(1) by auto
    let ?ok = "1 \<le> n \<and> spent g l < n"
    have e: "fst (gk_consume gk l ws n t g) = Some ?ok"
        "spent ?g = (if ?ok then (spent g)(l := spent g l + 1) else spent g)"
      using healthy_consume_exact [OF Cons.prems(2), of l ws n t] by (simp_all add: c)
    have ih: "int (grants l cs (fst (gate_run gk cs ?g))) =
        min (int (length (filter (asks_link l) cs))) (n - spent ?g l)"
      using Cons.prems e h by (intro Cons.IH) (auto split: if_splits)
    have g: "granted l c (fst (gate_step gk c g)) = ?ok"
      by (simp add: c e)
    show ?thesis
      using ih g e True Cons.prems by (auto simp: split_beta Let_def split: if_splits)
  next
    case False
    have ng: "\<not> granted l c (fst (gate_step gk c g))"
      using False by (cases c; cases "fst (gate_step gk c g)") (auto elim!: granted.elims)
    have "spent ?g l = spent g l"
      using step_spent [of c g l] False ng by auto
    then show ?thesis
      using Cons h False ng by (auto simp: split_beta Let_def)
  qed
qed simp

lemma step_turn:
  "turn (snd (gate_step gk c g)) l = turn g l + 1 \<and> turns_link l c \<or>
   turn (snd (gate_step gk c g)) l = turn g l \<and>
     (turns_link l c \<longrightarrow> fst (gate_step gk c g) = ReplyPosition None)"
proof (cases c)
  case (CallRotate l' ws)
  then show ?thesis
    using rotate_turn [of l' ws g] by (auto split: if_splits)
qed (auto simp: keeps consume_turn)

lemma step_position:
  "turns_link l c \<Longrightarrow> fst (gate_step gk c g) = ReplyPosition (Some p) \<Longrightarrow>
   p = turn g l + 1 \<and> turn (snd (gate_step gk c g)) l = p"
  by (cases c) (use rotate_turn rotate_position in \<open>force+\<close>)

text \<open>The positions a history hands out are strictly increasing: no position goes to two visitors.\<close>

lemma run_positions_increasing:
  "sorted_wrt (<) (positions l cs (fst (gate_run gk cs g))) \<and>
   (\<forall>p \<in> set (positions l cs (fst (gate_run gk cs g))). turn g l < p)"
proof (induction cs arbitrary: g)
  case (Cons c cs)
  let ?g = "snd (gate_step gk c g)" and ?r = "fst (gate_step gk c g)"
  let ?ps = "positions l cs (fst (gate_run gk cs ?g))"
  have le: "turn g l \<le> turn ?g l"
    using step_turn [of c g l] by auto
  have ih: "sorted_wrt (<) ?ps" "\<And>p. p \<in> set ?ps \<Longrightarrow> turn ?g l < p"
    using Cons.IH [of ?g] by auto
  have run: "fst (gate_run gk (c # cs) g) = ?r # fst (gate_run gk cs ?g)"
    by (simp add: split_beta Let_def)
  show ?case
  proof (cases "\<exists>p. ?r = ReplyPosition (Some p) \<and> turns_link l c")
    case True
    then obtain p where p: "?r = ReplyPosition (Some p)" "turns_link l c" by blast
    have "p = turn g l + 1" "turn ?g l = p"
      using step_position [OF p(2,1)] by auto
    then show ?thesis
      unfolding run using ih p by (fastforce simp: positions_Cons)
  next
    case False
    then have "positions l (c # cs) (fst (gate_run gk (c # cs) g)) = ?ps"
      unfolding run by (auto simp: positions_Cons split: gate_reply.splits option.splits)
    then show ?thesis
      using ih le by (metis order.strict_trans1)
  qed
qed simp

text \<open>Without faults they are consecutive, which is the strict rotation.\<close>

lemma run_positions_consecutive:
  assumes "healthy g"
  shows "positions l cs (fst (gate_run gk cs g)) =
           map (\<lambda>i. turn g l + 1 + int i) [0..<length (filter (turns_link l) cs)]"
  using assms
proof (induction cs arbitrary: g)
  case (Cons c cs)
  let ?g = "snd (gate_step gk c g)" and ?r = "fst (gate_step gk c g)"
  have run: "fst (gate_run gk (c # cs) g) = ?r # fst (gate_run gk cs ?g)"
    by (simp add: split_beta Let_def)
  have ih: "positions l cs (fst (gate_run gk cs ?g)) =
      map (\<lambda>i. turn ?g l + 1 + int i) [0..<length (filter (turns_link l) cs)]"
    using keeps_healthy [OF Cons.prems] by (rule Cons.IH)
  show ?case
  proof (cases "turns_link l c")
    case True
    then obtain ws where c: "c = CallRotate l ws" by (cases c) auto
    obtain p where p: "?r = ReplyPosition (Some p)"
      using rotate_healthy [OF Cons.prems, of l ws] by (auto simp: c)
    have "p = turn g l + 1" "turn ?g l = p"
      using step_position [OF True p] by auto
    then show ?thesis
      unfolding run using ih p True
      by (simp add: positions_Cons upt_conv_Cons map_Suc_upt [symmetric] algebra_simps comp_def del: upt_Suc)
  next
    case False
    have "turn ?g l = turn g l"
      using step_turn [of c g l] False by auto
    then show ?thesis
      unfolding run using ih False by (auto simp: positions_Cons split: gate_reply.splits option.splits)
  qed
qed simp

end

subsection \<open>The service provides it\<close>

definition spent_clicks :: "gate_service \<Rightarrow> uuid \<Rightarrow> int" where
  "spent_clicks g l = (case gd_budget g l of None \<Rightarrow> 0 | Some row \<Rightarrow> br_consumed row)"

definition rotation_of :: "gate_service \<Rightarrow> uuid \<Rightarrow> int" where
  "rotation_of g l = (case gd_budget g l of None \<Rightarrow> 0 | Some row \<Rightarrow> br_rotation row)"

definition no_faults :: "gate_service \<Rightarrow> bool" where
  "no_faults g = (\<forall>n. gd_faults g n = NoFault)"

lemmas statement_defs = ConsumeClickBudget_def GetClickBudget_def NextVariantRotation_def
  PeekVariantRotation_def GetLinkPasswordHash_def GetWorkspaceSigningSecret_def

lemma run_statement_cases:
  obtains "run_statement stmt g = (None, g\<lparr>gd_statements := Suc (gd_statements g)\<rparr>)"
      "gd_faults g (gd_statements g) = FailBefore"
  | "run_statement stmt g = (None, snd (stmt (g\<lparr>gd_statements := Suc (gd_statements g)\<rparr>)))"
      "gd_faults g (gd_statements g) = FailAfter"
  | "run_statement stmt g = map_prod Some id (stmt (g\<lparr>gd_statements := Suc (gd_statements g)\<rparr>))"
      "gd_faults g (gd_statements g) = NoFault"
  by (cases "gd_faults g (gd_statements g)")
    (auto simp: run_statement_def Let_def split_beta prod_eq_iff)

lemma run_statement_keeps:
  "(\<And>g'. gd_budget (snd (stmt g')) = gd_budget g') \<Longrightarrow> gd_budget (snd (run_statement stmt g)) = gd_budget g"
  "(\<And>g'. gd_faults (snd (stmt g')) = gd_faults g') \<Longrightarrow> gd_faults (snd (run_statement stmt g)) = gd_faults g"
  by (cases rule: run_statement_cases [of stmt g]; simp)+

lemma budget_observations:
  "gd_budget g' = gd_budget g \<Longrightarrow> spent_clicks g' = spent_clicks g"
  "gd_budget g' = gd_budget g \<Longrightarrow> rotation_of g' = rotation_of g"
  by (simp_all add: spent_clicks_def rotation_of_def fun_eq_iff)

lemma cacheSecret_keeps [simp]:
  "gd_budget (cacheSecret ws s t g) = gd_budget g" "gd_faults (cacheSecret ws s t g) = gd_faults g"
  by (simp_all add: cacheSecret_def)

lemma VerifyPassword_keeps:
  "gd_budget (snd (VerifyPassword l p g)) = gd_budget g \<and> gd_faults (snd (VerifyPassword l p g)) = gd_faults g"
proof -
  have "gd_budget (snd (run_statement (GetLinkPasswordHash l) g)) = gd_budget g"
    "gd_faults (snd (run_statement (GetLinkPasswordHash l) g)) = gd_faults g"
    by (rule run_statement_keeps; simp add: statement_defs)+
  then show ?thesis
    by (auto simp: VerifyPassword_def split: option.splits prod.splits verify_result.splits)
qed

lemma Budget_keeps:
  "gd_budget (snd (Budget l g)) = gd_budget g \<and> gd_faults (snd (Budget l g)) = gd_faults g"
proof -
  have "gd_budget (snd (run_statement (GetClickBudget l) g)) = gd_budget g"
    "gd_faults (snd (run_statement (GetClickBudget l) g)) = gd_faults g"
    by (rule run_statement_keeps; simp add: statement_defs)+
  then show ?thesis
    by (auto simp: Budget_def split: option.splits prod.splits)
qed

lemma PeekRotation_keeps:
  "gd_budget (snd (PeekRotation l ws g)) = gd_budget g \<and> gd_faults (snd (PeekRotation l ws g)) = gd_faults g"
proof -
  have "gd_budget (snd (run_statement (PeekVariantRotation l ws) g)) = gd_budget g"
    "gd_faults (snd (run_statement (PeekVariantRotation l ws) g)) = gd_faults g"
    by (rule run_statement_keeps; simp add: statement_defs split: option.splits)+
  then show ?thesis
    by (auto simp: PeekRotation_def split: option.splits prod.splits)
qed

lemma Secret_keeps:
  "gd_budget (snd (Secret ws t g)) = gd_budget g \<and> gd_faults (snd (Secret ws t g)) = gd_faults g"
proof -
  have "gd_budget (snd (run_statement (GetWorkspaceSigningSecret ws) g)) = gd_budget g"
    "gd_faults (snd (run_statement (GetWorkspaceSigningSecret ws) g)) = gd_faults g"
    by (rule run_statement_keeps; simp add: statement_defs)+
  then show ?thesis
    by (auto simp: Secret_def Let_def split: option.splits prod.splits)
qed

lemmas reads_keep = VerifyPassword_keeps Budget_keeps PeekRotation_keeps Secret_keeps

lemma Consume_faults: "gd_faults (snd (Consume l ws n t g)) = gd_faults g"
proof -
  have "gd_faults (snd (run_statement (ConsumeClickBudget l ws n t) g)) = gd_faults g"
    by (rule run_statement_keeps(2); simp add: statement_defs split: option.splits)
  then show ?thesis
    by (auto simp: Consume_def split: option.splits prod.splits)
qed

lemma Rotate_faults: "gd_faults (snd (Rotate l ws g)) = gd_faults g"
  unfolding Rotate_def
  by (rule run_statement_keeps(2); simp add: statement_defs split: option.splits)

lemma ConsumeClickBudget_effect:
  "rotation_of (snd (ConsumeClickBudget l ws n t g)) = rotation_of g"
  "fst (ConsumeClickBudget l ws n t g) =
     (if 1 \<le> n \<and> spent_clicks g l < n then Some (spent_clicks g l + 1) else None)"
  "spent_clicks (snd (ConsumeClickBudget l ws n t g)) =
     (if 1 \<le> n \<and> spent_clicks g l < n then (spent_clicks g)(l := spent_clicks g l + 1) else spent_clicks g)"
  by (auto simp: ConsumeClickBudget_def rotation_of_def spent_clicks_def fun_eq_iff split: option.splits)

lemma NextVariantRotation_effect:
  "spent_clicks (snd (NextVariantRotation l ws g)) = spent_clicks g"
  "fst (NextVariantRotation l ws g) = rotation_of g l + 1"
  "rotation_of (snd (NextVariantRotation l ws g)) = (rotation_of g)(l := rotation_of g l + 1)"
  by (auto simp: NextVariantRotation_def rotation_of_def spent_clicks_def fun_eq_iff split: option.splits)

lemma tick_observations [simp]:
  "spent_clicks (g\<lparr>gd_statements := k\<rparr>) = spent_clicks g"
  "rotation_of (g\<lparr>gd_statements := k\<rparr>) = rotation_of g"
  by (simp_all add: spent_clicks_def rotation_of_def fun_eq_iff)

lemma Consume_result:
  "Consume l ws n t g =
     map_prod (map_option (\<lambda>row. row \<noteq> None)) id (run_statement (ConsumeClickBudget l ws n t) g)"
  by (auto simp: Consume_def split: prod.splits option.splits)

text \<open>What one consume may do: answer after taking effect, fail after it, or fail before it.\<close>

lemma Consume_effect:
  obtains "fst (Consume l ws n t g) = Some (1 \<le> n \<and> spent_clicks g l < n)"
      "spent_clicks (snd (Consume l ws n t g)) =
         (if 1 \<le> n \<and> spent_clicks g l < n then (spent_clicks g)(l := spent_clicks g l + 1) else spent_clicks g)"
      "rotation_of (snd (Consume l ws n t g)) = rotation_of g" "gd_faults g (gd_statements g) = NoFault"
  | "fst (Consume l ws n t g) = None"
      "spent_clicks (snd (Consume l ws n t g)) =
         (if 1 \<le> n \<and> spent_clicks g l < n then (spent_clicks g)(l := spent_clicks g l + 1) else spent_clicks g)"
      "rotation_of (snd (Consume l ws n t g)) = rotation_of g" "gd_faults g (gd_statements g) = FailAfter"
  | "fst (Consume l ws n t g) = None" "spent_clicks (snd (Consume l ws n t g)) = spent_clicks g"
      "rotation_of (snd (Consume l ws n t g)) = rotation_of g" "gd_faults g (gd_statements g) = FailBefore"
  by (rule run_statement_cases [of "ConsumeClickBudget l ws n t" g])
    (simp_all add: Consume_result ConsumeClickBudget_effect)

lemma Rotate_effect:
  obtains "fst (Rotate l ws g) = Some (rotation_of g l + 1)"
      "rotation_of (snd (Rotate l ws g)) = (rotation_of g)(l := rotation_of g l + 1)"
      "spent_clicks (snd (Rotate l ws g)) = spent_clicks g" "gd_faults g (gd_statements g) = NoFault"
  | "fst (Rotate l ws g) = None"
      "rotation_of (snd (Rotate l ws g)) = (rotation_of g)(l := rotation_of g l + 1)"
      "spent_clicks (snd (Rotate l ws g)) = spent_clicks g" "gd_faults g (gd_statements g) = FailAfter"
  | "fst (Rotate l ws g) = None" "rotation_of (snd (Rotate l ws g)) = rotation_of g"
      "spent_clicks (snd (Rotate l ws g)) = spent_clicks g" "gd_faults g (gd_statements g) = FailBefore"
  by (rule run_statement_cases [of "NextVariantRotation l ws" g])
    (simp_all add: Rotate_def NextVariantRotation_effect)

lemma gateService_sel [simp]:
  "gk_verify_password gateService = VerifyPassword" "gk_consume gateService = Consume"
  "gk_budget gateService = Budget" "gk_secret gateService = Secret"
  "gk_rotate gateService = Rotate" "gk_peek gateService = PeekRotation"
  by (simp_all add: gateService_def)

lemma step_faults: "gd_faults (snd (gate_step gateService c g)) = gd_faults g"
  by (cases c) (simp_all add: reads_keep Consume_faults Rotate_faults)

interpretation ledger: click_ledger gateService spent_clicks rotation_of no_faults
proof
  fix l ws n t g
  show "rotation_of (snd (gk_consume gateService l ws n t g)) = rotation_of g"
    by (cases rule: Consume_effect [of l ws n t g]) simp_all
  show "spent_clicks (snd (gk_consume gateService l ws n t g)) = spent_clicks g \<or> 1 \<le> n \<and>
      spent_clicks g l < n \<and>
      spent_clicks (snd (gk_consume gateService l ws n t g)) = (spent_clicks g)(l := spent_clicks g l + 1)"
    by (cases rule: Consume_effect [of l ws n t g]) simp_all
  show "spent_clicks (snd (gk_consume gateService l ws n t g)) = (spent_clicks g)(l := spent_clicks g l + 1)"
    if "fst (gk_consume gateService l ws n t g) = Some True"
    using that by (cases rule: Consume_effect [of l ws n t g]) simp_all
  show "n < 1 \<or> n \<le> spent_clicks g l" if "fst (gk_consume gateService l ws n t g) = Some False"
    using that by (cases rule: Consume_effect [of l ws n t g]) auto
  show "fst (gk_consume gateService l ws n t g) \<noteq> None" if "no_faults g"
    using that by (cases rule: Consume_effect [of l ws n t g]) (simp_all add: no_faults_def)
next
  fix l ws g pos
  show "spent_clicks (snd (gk_rotate gateService l ws g)) = spent_clicks g"
    by (cases rule: Rotate_effect [of l ws g]) simp_all
  show "rotation_of (snd (gk_rotate gateService l ws g)) = rotation_of g \<and>
      fst (gk_rotate gateService l ws g) = None \<or>
      rotation_of (snd (gk_rotate gateService l ws g)) = (rotation_of g)(l := rotation_of g l + 1)"
    by (cases rule: Rotate_effect [of l ws g]) simp_all
  show "pos = rotation_of g l + 1 \<and>
      rotation_of (snd (gk_rotate gateService l ws g)) = (rotation_of g)(l := rotation_of g l + 1)"
    if "fst (gk_rotate gateService l ws g) = Some pos"
    using that by (cases rule: Rotate_effect [of l ws g]) simp_all
  show "fst (gk_rotate gateService l ws g) \<noteq> None" if "no_faults g"
    using that by (cases rule: Rotate_effect [of l ws g]) (simp_all add: no_faults_def)
next
  fix c g
  show "no_faults (snd (gate_step gateService c g))" if "no_faults g"
    using that by (simp add: no_faults_def step_faults)
qed (simp_all only: gateService_sel, (intro conjI budget_observations; simp add: reads_keep)+)

subsection \<open>Properties\<close>

text \<open>A call names the workspace the link belongs to.\<close>

fun names_owner :: "uuid \<Rightarrow> uuid \<Rightarrow> gate_call \<Rightarrow> bool" where
  "names_owner l ws (CallConsume l' ws' _ _) = (l' = l \<longrightarrow> ws' = ws)"
| "names_owner l ws (CallRotate l' ws') = (l' = l \<longrightarrow> ws' = ws)"
| "names_owner _ _ _ = True"

definition row_owned :: "uuid \<Rightarrow> uuid \<Rightarrow> gate_service \<Rightarrow> bool" where
  "row_owned l ws g = (\<forall>row. gd_budget g l = Some row \<longrightarrow> br_workspace row = ws \<and> 0 \<le> br_consumed row)"

lemma row_owned_cong: "gd_budget g' = gd_budget g \<Longrightarrow> row_owned l ws g \<Longrightarrow> row_owned l ws g'"
  by (simp add: row_owned_def)

lemma row_owned_tick [simp]: "row_owned l ws (g\<lparr>gd_statements := k\<rparr>) = row_owned l ws g"
  by (simp add: row_owned_def)

lemma run_statement_owned:
  "(\<And>g'. row_owned l ws g' \<Longrightarrow> row_owned l ws (snd (stmt g'))) \<Longrightarrow> row_owned l ws g \<Longrightarrow>
   row_owned l ws (snd (run_statement stmt g))"
  by (cases rule: run_statement_cases [of stmt g]) simp_all

lemma step_owned:
  assumes "names_owner l ws c" "row_owned l ws g"
  shows "row_owned l ws (snd (gate_step gateService c g))"
proof (cases c)
  case (CallConsume l' ws' n t)
  have "row_owned l ws (snd (run_statement (ConsumeClickBudget l' ws' n t) g))"
    using assms
    by (intro run_statement_owned)
      (auto simp: row_owned_def ConsumeClickBudget_def CallConsume split: option.splits)
  then show ?thesis by (simp add: CallConsume Consume_result)
next
  case (CallRotate l' ws')
  have "row_owned l ws (snd (run_statement (NextVariantRotation l' ws') g))"
    using assms
    by (intro run_statement_owned)
      (auto simp: row_owned_def NextVariantRotation_def CallRotate split: option.splits)
  then show ?thesis by (simp add: CallRotate Rotate_def)
qed (rule row_owned_cong [OF _ assms(2)]; simp add: reads_keep)+

lemma run_owned:
  "list_all (names_owner l ws) cs \<Longrightarrow> row_owned l ws g \<Longrightarrow> row_owned l ws (snd (gate_run gateService cs g))"
  by (induction cs arbitrary: g) (auto simp: split_beta Let_def step_owned)

lemma row_owned_fresh: "gd_budget g l = None \<Longrightarrow> row_owned l ws g"
  by (simp add: row_owned_def)

lemma run_statement_healthy:
  "no_faults g \<Longrightarrow> fst (run_statement stmt g) = Some (fst (stmt (g\<lparr>gd_statements := Suc (gd_statements g)\<rparr>)))"
  by (simp add: run_statement_def no_faults_def Let_def split_beta)

lemma peek_next:
  assumes "no_faults g" "row_owned l ws g"
  shows "fst (PeekRotation l ws g) = Some (rotation_of g l + 1)"
proof -
  have "fst (run_statement (PeekVariantRotation l ws) g) = Some (map_option br_rotation (gd_budget g l))"
    using assms
    by (auto simp: run_statement_healthy PeekVariantRotation_def row_owned_def split: option.splits)
  then show ?thesis
    by (auto simp: PeekRotation_def rotation_of_def split: prod.splits option.splits)
qed

lemma budget_read:
  assumes "no_faults g"
  shows "map_option fst (fst (Budget l g)) = Some (spent_clicks g l)"
proof -
  have "fst (run_statement (GetClickBudget l) g) =
      Some (map_option (\<lambda>row. (br_consumed row, br_exhausted_at row)) (gd_budget g l))"
    using assms by (simp add: run_statement_healthy GetClickBudget_def)
  then show ?thesis
    by (auto simp: Budget_def spent_clicks_def split: prod.splits option.splits)
qed

definition idle_ledger :: "(nat \<Rightarrow> fault) \<Rightarrow> gate_service" where
  "idle_ledger faults =
     \<lparr>gd_budget = Map.empty, gd_hashes = Map.empty, gd_secrets = Map.empty, gd_faults = faults,
      gd_statements = 0, gs_hasher = None, gs_keys = Map.empty, gs_key_ttl = DefaultSecretTTL\<rparr>"

definition one_time_visits :: "gate_call list" where
  "one_time_visits = [CallConsume 1 9 1 0, CallConsume 1 9 1 5, CallRotate 1 9, CallConsume 1 9 1 7]"

text \<open>C4. A click budget is never overspent: whatever sequence of operations the requests of all replicas
  make, on this and on other links, with statements that fail before or after they take effect, a link
  grants at most the clicks its ceiling leaves.
\<close>

theorem click_budget_never_overspent:
  assumes "list_all (within_limit l n) cs" "0 \<le> spent_clicks g l"
  shows "int (grants l cs (fst (gate_run gateService cs g))) \<le> max 0 (n - spent_clicks g l)"
  using assms by (rule ledger.run_grants_bounded)

theorem click_budget_never_overspent_witness:
  "int (grants 1 one_time_visits (fst (gate_run gateService one_time_visits
     (idle_ledger (\<lambda>n. if n = 0 then FailAfter else NoFault))))) \<le> 1"
proof -
  have "list_all (within_limit 1 1) one_time_visits"
    by (simp add: one_time_visits_def)
  then show ?thesis
    using click_budget_never_overspent [of 1 1 one_time_visits "idle_ledger (\<lambda>n. if n = 0 then FailAfter else NoFault)"]
    by (simp add: spent_clicks_def idle_ledger_def)
qed

text \<open>Without faults no click is lost: of the visits to a link with ceiling n, whatever happens on
  other links in between, exactly as many are let through as the ceiling leaves.
\<close>

theorem click_budget_exact:
  assumes "list_all (\<lambda>c. asks_link l c \<longrightarrow> (\<exists>ws t. c = CallConsume l ws n t)) cs"
    and "no_faults g" "0 \<le> spent_clicks g l" "spent_clicks g l \<le> n"
  shows "int (grants l cs (fst (gate_run gateService cs g))) =
           min (int (length (filter (asks_link l) cs))) (n - spent_clicks g l)"
  using assms by (rule ledger.run_grants_exact)

theorem click_budget_exact_witness:
  "int (grants 1 one_time_visits (fst (gate_run gateService one_time_visits (idle_ledger (\<lambda>n. NoFault))))) = 1"
proof -
  have "list_all (\<lambda>c. asks_link 1 c \<longrightarrow> (\<exists>ws t. c = CallConsume 1 ws 1 t)) one_time_visits"
    by (simp add: one_time_visits_def)
  then show ?thesis
    using click_budget_exact [of 1 1 one_time_visits "idle_ledger (\<lambda>n. NoFault)"]
    by (simp add: spent_clicks_def idle_ledger_def no_faults_def one_time_visits_def)
qed

text \<open>The rotation of a sequential split is strict: over any history no position is handed out twice
  and they increase, and without faults they are the consecutive numbers after the stored one.
\<close>

theorem rotation_is_strict:
  "sorted_wrt (<) (positions l cs (fst (gate_run gateService cs g))) \<and>
   (no_faults g \<longrightarrow>
      positions l cs (fst (gate_run gateService cs g)) =
        map (\<lambda>i. rotation_of g l + 1 + int i) [0..<length (filter (turns_link l) cs)])"
  using ledger.run_positions_increasing ledger.run_positions_consecutive by blast

theorem rotation_is_strict_witness:
  "positions 1 [CallRotate 1 9, CallConsume 1 9 3 0, CallRotate 1 9]
     (fst (gate_run gateService [CallRotate 1 9, CallConsume 1 9 3 0, CallRotate 1 9]
       (idle_ledger (\<lambda>n. NoFault)))) = [1, 2]"
  using rotation_is_strict [of 1 "[CallRotate 1 9, CallConsume 1 9 3 0, CallRotate 1 9]" "idle_ledger (\<lambda>n. NoFault)"]
  by (simp add: no_faults_def idle_ledger_def rotation_of_def del: gate_run.simps)

text \<open>A HEAD is answered as the next GET would be and changes nothing: after any history of a link
  that names its owner, the peeked position is the one the next rotation gets, the read count reaches
  the ceiling exactly when the next visit is refused, and neither read moves a counter.
\<close>

theorem HEAD_reads_what_GET_would_get:
  assumes "list_all (names_owner l ws) cs" "no_faults g" "gd_budget g l = None"
    and "g' = snd (gate_run gateService cs g)"
  shows "fst (PeekRotation l ws g') = fst (Rotate l ws g') \<and>
    (\<exists>count stamp. fst (Budget l g') = Some (count, stamp) \<and>
       (count \<ge> n) = (fst (Consume l ws n t g') = Some False)) \<and>
    gd_budget (snd (PeekRotation l ws g')) = gd_budget g' \<and> gd_budget (snd (Budget l g')) = gd_budget g'"
proof -
  have h: "no_faults g'" and o': "row_owned l ws g'"
    using assms ledger.run_healthy run_owned row_owned_fresh by auto
  have "fst (Rotate l ws g') = Some (rotation_of g' l + 1)"
    using h by (cases rule: Rotate_effect [of l ws g']) (simp_all add: no_faults_def)
  moreover have "0 \<le> spent_clicks g' l"
    using o' by (auto simp: row_owned_def spent_clicks_def split: option.splits)
  moreover have "fst (Consume l ws n t g') = Some (1 \<le> n \<and> spent_clicks g' l < n)"
    using h by (cases rule: Consume_effect [of l ws n t g']) (simp_all add: no_faults_def)
  moreover obtain stamp where "fst (Budget l g') = Some (spent_clicks g' l, stamp)"
    using budget_read [OF h, of l] by auto
  ultimately show ?thesis
    using peek_next [OF h o'] by (auto simp: reads_keep)
qed

theorem HEAD_reads_what_GET_would_get_witness:
  "fst (PeekRotation 1 9 (snd (gate_run gateService one_time_visits (idle_ledger (\<lambda>n. NoFault))))) =
   fst (Rotate 1 9 (snd (gate_run gateService one_time_visits (idle_ledger (\<lambda>n. NoFault)))))"
proof -
  have "list_all (names_owner 1 9) one_time_visits"
    by (simp add: one_time_visits_def)
  then show ?thesis
    using HEAD_reads_what_GET_would_get [of 1 9 one_time_visits "idle_ledger (\<lambda>n. NoFault)" _ 1 0]
    by (simp add: no_faults_def idle_ledger_def)
qed

end
