(* ===== verification/Handler_Correct.thy ===== *)
theory Handler_Correct
  imports Handler Gate_Correct
begin

section \<open>What the redirect handler guarantees\<close>

text \<open>
  The handler against the gatekeeper's contract. Inside \<open>click_ledger\<close> the counters are followed through
  every stage of a request; the interpretation \<open>ledger\<close> of the gate service gives the properties of the
  handler as it is wired. The contract says nothing of the other state, so the resolver, the limiters,
  the recorder, the add-ons, the random source and the clock are arbitrary.
\<close>

lemmas serve_defs = ServeHTTP_def serve_resolved_def serve_gone_def serve_not_found_def serve_target_def

lemma answer_sel [simp]:
  "ry_response (answer resp label src) = resp" "ry_label (answer resp label src) = label"
  "ry_source (answer resp label src) = src" "ry_throttled (answer resp label src) = None"
  by (simp_all add: answer_def)

definition refusal_labels :: "string set" where
  "refusal_labels = {''error'', ''unsigned'', ''password_required'', ''throttled'', ''password_wrong''}"

lemma passGates_label:
  assumes "passGates h r s name d gx = (GateAnswered resp label t, gx')"
  shows "label \<in> refusal_labels"
  using assms
  by (auto simp: passGates_def signatureGate_def passwordGate_def refusal_labels_def Let_def
      split: option.splits prod.splits if_splits gate_result.splits secret_result.splits
        password_result.splits bool.splits)

lemma ClickLimit_gated: "snd (ClickLimit (sn_one_time s) (sn_max_clicks s)) \<Longrightarrow> Gated (Some s)"
  by (auto simp: ClickLimit_def Gated_def Let_def split: option.splits if_splits)

subsection \<open>Histories of requests\<close>

type_synonym served = "request \<times> snapshot option \<times> reply"

fun serve_all :: "('g, 'x) redirect_handler \<Rightarrow> request list \<Rightarrow> 'g \<times> 'x \<Rightarrow> served list \<times> 'g \<times> 'x" where
  "serve_all h [] gx = ([], gx)"
| "serve_all h (r # rs) gx =
     (case ServeHTTP h r gx of (rep, gx1) \<Rightarrow>
      case serve_all h rs gx1 of (entries, gx2) \<Rightarrow> ((r, request_link h r gx, rep) # entries, gx2))"

lemma list_all_weaken: "list_all P xs \<Longrightarrow> (\<And>x. P x \<Longrightarrow> Q x) \<Longrightarrow> list_all Q xs"
  by (auto simp: list_all_iff)

definition redirected_to :: "uuid \<Rightarrow> served \<Rightarrow> bool" where
  "redirected_to l e =
     (case e of (r, snap, rep) \<Rightarrow>
        rq_method r \<noteq> MethodHead \<and> ry_label rep = ''redirect'' \<and> map_option sn_link_id snap = Some l)"

definition ceiling_at_most :: "uuid \<Rightarrow> int \<Rightarrow> served \<Rightarrow> bool" where
  "ceiling_at_most l n e =
     (case e of (r, snap, rep) \<Rightarrow>
        (case snap of
           None \<Rightarrow> True
         | Some s \<Rightarrow>
             sn_link_id s \<noteq> l \<or>
             (case ClickLimit (sn_one_time s) (sn_max_clicks s) of (m, gated) \<Rightarrow> gated \<and> m \<le> n)))"

subsection \<open>Every stage against the contract\<close>

context click_ledger
begin

definition kept :: "'g \<Rightarrow> 'g \<Rightarrow> bool" where
  "kept g g' \<longleftrightarrow> spent g' = spent g \<and> turn g' = turn g"

lemma kept_refl [simp]: "kept g g"
  by (simp add: kept_def)

lemma kept_trans: "kept a b \<Longrightarrow> kept b c \<Longrightarrow> kept a c"
  by (simp add: kept_def)

lemma kept_reads:
  "gk_verify_password gk l p g = (pr, g') \<Longrightarrow> kept g g'"
  "gk_budget gk l g = (br, g') \<Longrightarrow> kept g g'"
  "gk_secret gk ws t g = (sr, g') \<Longrightarrow> kept g g'"
  "gk_peek gk l ws g = (rr, g') \<Longrightarrow> kept g g'"
  using verify_keeps [of l p g] budget_keeps [of l g] secret_keeps [of ws t g] peek_keeps [of l ws g]
  by (simp_all add: kept_def)

lemma signatureGate_keeps: "signatureGate h gk r s name d (g, x) = (res, g', x') \<Longrightarrow> kept g g'"
  by (auto simp: signatureGate_def Let_def dest: kept_reads
      split: if_splits prod.splits secret_result.splits option.splits)

lemma passwordGate_keeps: "passwordGate h gk r s name d (g, x) = (res, g', x') \<Longrightarrow> kept g g'"
  by (auto simp: passwordGate_def dest: kept_reads
      split: if_splits prod.splits option.splits password_result.splits bool.splits)

lemma passGates_keeps:
  assumes "rh_gates h = Some gk" "passGates h r s name d (g, x) = (res, g', x')"
  shows "kept g g'"
proof -
  obtain r1 g1 x1 where sg: "signatureGate h gk r s name d (g, x) = (r1, g1, x1)"
    by (metis prod_cases3)
  show ?thesis
    using assms signatureGate_keeps [OF sg] passwordGate_keeps [of h r s name d g1 x1 res g' x'] kept_trans
    by (auto simp: passGates_def sg split: gate_result.splits)
qed

lemma rotate_arms_spent:
  assumes "rh_gates h = Some gk" "rotate_arms h r s arms g = (res, g')"
  shows "spent g' = spent g"
  using assms peek_keeps rotate_spent
  by (fastforce simp: rotate_arms_def split: if_splits prod.splits option.splits dest: arg_cong [where f = snd])

text \<open>The two counter effects a request may have.\<close>

definition spends :: "request \<Rightarrow> snapshot \<Rightarrow> 'g \<Rightarrow> 'g \<Rightarrow> bool" where
  "spends r s g g' \<longleftrightarrow>
     rq_method r \<noteq> MethodHead \<and>
     (\<exists>n. ClickLimit (sn_one_time s) (sn_max_clicks s) = (n, True) \<and> 1 \<le> n \<and> spent g (sn_link_id s) < n) \<and>
     spent g' = (spent g)(sn_link_id s := spent g (sn_link_id s) + 1)"

definition turns :: "request \<Rightarrow> snapshot \<Rightarrow> 'g \<Rightarrow> 'g \<Rightarrow> bool" where
  "turns r s g g' \<longleftrightarrow>
     rq_method r \<noteq> MethodHead \<and> \<not> challengePending (Some s) r \<and>
     turn g' = (turn g)(sn_link_id s := turn g (sn_link_id s) + 1)"

lemma rotate_arms_turn:
  assumes "rh_gates h = Some gk" "rotate_arms h r s arms g = (res, g')" "\<not> challengePending (Some s) r"
  shows "turn g' = turn g \<or> turns r s g g'"
proof (cases "rq_method r = MethodHead")
  case True
  then show ?thesis
    using assms peek_keeps [of "sn_link_id s" "sn_workspace_id s" g]
    by (auto simp: rotate_arms_def split: prod.splits option.splits)
next
  case False
  then show ?thesis
    using assms rotate_turn [of "sn_link_id s" "sn_workspace_id s" g]
    by (auto simp: rotate_arms_def turns_def split: prod.splits option.splits)
qed

lemma split_effect:
  assumes "rh_gates h = Some gk" "split h r s (g, x) = (res, g', x')"
  shows "spent g' = spent g \<and> (turn g' = turn g \<or> turns r s g g')"
proof -
  obtain kind arms where k: "Split (Some s) = (kind, arms)" by fastforce
  obtain ro g1 where ra: "rotate_arms h r s arms g = (ro, g1)" by fastforce
  have "g' = g \<or> g' = g1 \<and> \<not> challengePending (Some s) r"
    using assms(2) by (auto simp: split_def k ra split: if_splits prod.splits)
  then show ?thesis
    using rotate_arms_spent [OF assms(1) ra] rotate_arms_turn [OF assms(1) ra] by auto
qed

lemma choose_effect:
  assumes "rh_gates h = Some gk" "choose_destination h r s start (g, x) = (c, g', x')"
  shows "spent g' = spent g \<and> (turn g' = turn g \<or> turns r s g g')"
proof -
  obtain sp g1 x1 where s: "split h r s (g, x) = (sp, g1, x1)" by (metis prod_cases3)
  have "g' = g \<or> g' = g1"
    using assms(2) by (auto simp: choose_destination_def s split: option.splits split_outcome.splits)
  then show ?thesis
    using split_effect [OF assms(1) s] by auto
qed

lemma budgetGate_effect:
  assumes "budgetGate h gk r s (g, x) = (res, g', x')"
  shows "turn g' = turn g \<and>
    (spent g' = spent g \<and>
       (res = GatePassed \<longrightarrow> rq_method r = MethodHead \<or> \<not> snd (ClickLimit (sn_one_time s) (sn_max_clicks s)))
     \<or> spends r s g g' \<and> (res = GatePassed \<or> res = GateAnswered (unavailable r) ''error'' None))"
proof -
  obtain n gated where cl: "ClickLimit (sn_one_time s) (sn_max_clicks s) = (n, gated)" by fastforce
  consider "\<not> gated" | "gated" "rq_method r = MethodHead" | "gated" "rq_method r \<noteq> MethodHead" by blast
  then show ?thesis
  proof cases
    case 1
    then show ?thesis using assms by (simp add: budgetGate_def cl)
  next
    case 2
    then show ?thesis
      using assms budget_keeps [of "sn_link_id s" g]
      by (auto simp: budgetGate_def budgetPeek_def cl split: option.splits prod.splits if_splits)
  next
    case 3
    obtain now x1 where t: "rh_clock h x = (now, x1)" by fastforce
    let ?c = "gk_consume gk (sn_link_id s) (sn_workspace_id s) n now g"
    have r: "g' = snd ?c \<and>
        (fst ?c = None \<and> res = GateAnswered (unavailable r) ''error'' None \<or>
         fst ?c = Some False \<and> res = GateAnswered (gone r) ''spent'' None \<or> fst ?c = Some True \<and> res = GatePassed)"
      using assms 3 by (auto simp: budgetGate_def cl t split: prod.splits option.splits bool.splits)
    show ?thesis
      using r consume_turn [of "sn_link_id s" "sn_workspace_id s" n now g]
        consume_spent [of "sn_link_id s" "sn_workspace_id s" n now g]
        consume_granted [of "sn_link_id s" "sn_workspace_id s" n now g]
        consume_refused [of "sn_link_id s" "sn_workspace_id s" n now g] 3 cl
      by (auto simp: spends_def fun_eq_iff split: if_splits)
  qed
qed

definition effect :: "request \<Rightarrow> snapshot \<Rightarrow> string \<Rightarrow> 'g \<Rightarrow> 'g \<Rightarrow> bool" where
  "effect r s label g g' \<longleftrightarrow>
     spent g' = spent g \<and>
       (label = ''redirect'' \<longrightarrow> rq_method r = MethodHead \<or> \<not> snd (ClickLimit (sn_one_time s) (sn_max_clicks s)))
     \<or> spends r s g g' \<and> label \<in> {''redirect'', ''error''}"

lemma serve_target_effect:
  assumes gk: "rh_gates h = Some gk"
    and run: "serve_target h r res name d start joined dest (g, x) = (rep, g', x')"
  shows "turn g' = turn g \<and> effect r (rs_snapshot res) (ry_label rep) g g'"
proof -
  let ?s = "rs_snapshot res" and ?target = "withForwardedQuery (rh_parse_host h) joined r (rs_snapshot res)"
  define challenge_gates where
    "challenge_gates = (if Gated (Some ?s) then passGates h r ?s name d (g, x) else (GatePassed, g, x))"
  obtain r1 g1 x1 where c: "challenge_gates = (r1, g1, x1)" by (metis prod_cases3)
  have k1: "kept g g1"
    using c passGates_keeps [OF gk, of r ?s name d g x] by (auto simp: challenge_gates_def split: if_splits)
  show ?thesis
  proof (cases r1)
    case (GateAnswered resp label t)
    then have "label \<in> refusal_labels"
      using c passGates_label by (auto simp: challenge_gates_def split: if_splits)
    moreover have "ry_label rep = label" "g' = g1"
      using run c GateAnswered by (auto simp: serve_target_def Let_def challenge_gates_def)
    ultimately show ?thesis
      using k1 by (auto simp: kept_def effect_def refusal_labels_def)
  next
    case GatePassed
    obtain dec x2 where i: "inline_step h ?s name ?target x1 = (dec, x2)" by fastforce
    show ?thesis
    proof (cases "ir_vetoed dec")
      case True
      then have "g' = g1" "ry_label rep = ''vetoed''"
        using run c GatePassed i by (auto simp: serve_target_def Let_def challenge_gates_def)
      then show ?thesis using k1 by (simp add: kept_def effect_def)
    next
      case False
      define budget where
        "budget = (if Gated (Some ?s) then passBudgetGate h r ?s (g1, x2) else (GatePassed, g1, x2))"
      obtain r3 g3 x3 where b: "budget = (r3, g3, x3)" by (metis prod_cases3)
      have rep: "g' = g3 \<and> (r3 = GatePassed \<and> ry_label rep = ''redirect''
          \<or> (\<exists>resp t label. r3 = GateAnswered resp label t \<and> ry_label rep = label))"
        using run c GatePassed i False b
        by (auto simp: serve_target_def Let_def challenge_gates_def budget_def split: gate_result.splits)
      have eff: "turn g3 = turn g1 \<and>
          (spent g3 = spent g1 \<and>
             (r3 = GatePassed \<longrightarrow> rq_method r = MethodHead \<or> \<not> snd (ClickLimit (sn_one_time ?s) (sn_max_clicks ?s)))
           \<or> spends r ?s g1 g3 \<and> (r3 = GatePassed \<or> r3 = GateAnswered (unavailable r) ''error'' None))"
      proof (cases "Gated (Some ?s)")
        case True
        then have "budgetGate h gk r ?s (g1, x2) = (r3, g3, x3)"
          using b gk by (simp add: budget_def passBudgetGate_def)
        then show ?thesis by (rule budgetGate_effect)
      next
        case False
        then show ?thesis using b ClickLimit_gated [of ?s] by (auto simp: budget_def)
      qed
      have redirect: "r3 = GatePassed" if red: "ry_label rep = ''redirect''"
      proof (rule ccontr)
        assume "r3 \<noteq> GatePassed"
        then obtain resp t where "r3 = GateAnswered resp ''redirect'' t" using rep red by auto
        then have "Gated (Some ?s)" "budgetGate h gk r ?s (g1, x2) = (GateAnswered resp ''redirect'' t, g3, x3)"
          using b gk by (auto simp: budget_def passBudgetGate_def split: if_splits)
        then show False
          by (auto simp: budgetGate_def budgetPeek_def split: if_splits prod.splits option.splits bool.splits)
      qed
      show ?thesis
        using eff rep redirect k1 by (auto simp: effect_def kept_def spends_def)
    qed
  qed
qed

lemma serve_resolved_effect:
  assumes gk: "rh_gates h = Some gk"
    and run: "serve_resolved h r res name d start (g, x) = (rep, g', x')"
  shows "(turn g' = turn g \<or> turns r (rs_snapshot res) g g') \<and> effect r (rs_snapshot res) (ry_label rep) g g'"
proof -
  let ?s = "rs_snapshot res"
  have quiet: ?thesis if "kept g g'" "ry_label rep \<noteq> ''redirect''"
    using that by (simp add: kept_def effect_def)
  consider (bot) "blockedAsBot (Some ?s) (rq_user_agent r)"
    | (dead) "\<not> blockedAsBot (Some ?s) (rq_user_agent r)" "Decide (Some ?s) start \<noteq> OutcomeRedirect"
    | (post) "\<not> blockedAsBot (Some ?s) (rq_user_agent r)" "Decide (Some ?s) start = OutcomeRedirect"
        "rq_method r = MethodPost \<and> \<not> sn_has_password ?s"
    | (live) "\<not> blockedAsBot (Some ?s) (rq_user_agent r)" "Decide (Some ?s) start = OutcomeRedirect"
        "\<not> (rq_method r = MethodPost \<and> \<not> sn_has_password ?s)"
    by blast
  then show ?thesis
  proof cases
    case bot
    then show ?thesis using run by (intro quiet) (auto simp: serve_resolved_def Let_def)
  next
    case dead
    then show ?thesis
      using run by (intro quiet)
        (auto simp: serve_resolved_def serve_gone_def serve_not_found_def Let_def split: Outcome.splits)
  next
    case post
    then show ?thesis using run by (intro quiet) (auto simp: serve_resolved_def Let_def)
  next
    case live
    obtain c g1 x1 where ch: "choose_destination h r ?s start (g, x) = (c, g1, x1)" by (metis prod_cases3)
    note e1 = choose_effect [OF gk ch]
    have unspent: ?thesis if "g' = g1" "ry_label rep \<noteq> ''redirect''"
      using that e1 by (auto simp: effect_def turns_def)
    show ?thesis
    proof (cases c)
      case None
      then show ?thesis
        using run live ch by (intro unspent) (auto simp: serve_resolved_def Let_def)
    next
      case (Some dest)
      show ?thesis
      proof (cases "forwardable (rh_parse_host h) (Some ?s) (fst dest) r")
        case None
        then show ?thesis
          using run live ch Some
          by (intro unspent) (auto simp: serve_resolved_def serve_not_found_def Let_def split_beta)
      next
        case fw: (Some joined)
        have "serve_target h r res name d start joined (snd dest) (g1, x1) = (rep, g', x')"
          using run live ch Some fw by (simp add: serve_resolved_def Let_def split_beta)
        from serve_target_effect [OF gk this] e1 show ?thesis
          by (auto simp: effect_def turns_def spends_def)
      qed
    qed
  qed
qed

lemma ServeHTTP_effect:
  assumes gk: "rh_gates h = Some gk" and run: "ServeHTTP h r (g, x) = (rep, g', x')"
  shows "case request_link h r (g, x) of
      None \<Rightarrow> kept g g' \<and> ry_label rep \<noteq> ''redirect''
    | Some s \<Rightarrow> (turn g' = turn g \<or> turns r s g g') \<and> effect r s (ry_label rep) g g'"
proof -
  obtain start x1 where t: "rh_clock h x = (start, x1)" by fastforce
  obtain o1 x2 where st: "resolve_step h r x1 = (o1, x2)" by fastforce
  show ?thesis
  proof (cases o1)
    case (Inl reply)
    then have "ry_label reply \<noteq> ''redirect''"
      using st by (auto simp: resolve_step_def Let_def split: if_splits prod.splits option.splits)
    then show ?thesis
      using run by (simp add: ServeHTTP_def request_link_def t st Inl)
  next
    case (Inr res)
    then have "serve_resolved h r res (Canonical (trim_space (rq_alias r))) (request_domain h r) start (g, x2) =
        (rep, g', x')"
      using run by (simp add: ServeHTTP_def t st)
    from serve_resolved_effect [OF gk this] show ?thesis
      by (simp add: request_link_def t st Inr)
  qed
qed

lemma redirect_spends:
  assumes "rh_gates h = Some gk" "ServeHTTP h r (g, x) = (rep, g', x')"
    and "ceiling_at_most l n (r, request_link h r (g, x), rep)"
  shows "spent g l + (if redirected_to l (r, request_link h r (g, x), rep) then 1 else 0) \<le> spent g' l \<and>
         (spent g' l \<noteq> spent g l \<longrightarrow> 1 \<le> n \<and> spent g' l \<le> n)"
proof (cases "request_link h r (g, x)")
  case None
  then show ?thesis
    using ServeHTTP_effect [OF assms(1,2)] by (auto simp: kept_def redirected_to_def)
next
  case (Some s)
  have e: "effect r s (ry_label rep) g g'"
    using ServeHTTP_effect [OF assms(1,2)] by (simp add: Some)
  show ?thesis
  proof (cases "sn_link_id s = l")
    case True
    obtain m where "ClickLimit (sn_one_time s) (sn_max_clicks s) = (m, True)" "m \<le> n"
      using assms(3) True by (auto simp: ceiling_at_most_def Some)
    then show ?thesis
      using e True by (auto simp: effect_def spends_def redirected_to_def Some)
  next
    case False
    then show ?thesis
      using e by (auto simp: effect_def spends_def redirected_to_def Some)
  qed
qed

lemma serve_all_bounded:
  assumes "rh_gates h = Some gk" "list_all (ceiling_at_most l n) (fst (serve_all h rs (g, x)))"
  shows "int (length (filter (redirected_to l) (fst (serve_all h rs (g, x))))) + spent g l
           \<le> max n (spent g l)"
  using assms(2)
proof (induction rs arbitrary: g x)
  case (Cons r rs)
  obtain rep g1 x1 where s: "ServeHTTP h r (g, x) = (rep, g1, x1)" by (metis prod_cases3)
  obtain entries gx2 where a: "serve_all h rs (g1, x1) = (entries, gx2)" by (cases "serve_all h rs (g1, x1)") simp
  let ?e = "(r, request_link h r (g, x), rep)"
  have entries: "fst (serve_all h (r # rs) (g, x)) = ?e # entries"
    by (simp add: s a)
  have c: "ceiling_at_most l n ?e" and tail: "list_all (ceiling_at_most l n) entries"
    using Cons.prems unfolding entries by simp_all
  have "int (length (filter (redirected_to l) entries)) + spent g1 l \<le> max n (spent g1 l)"
    using Cons.IH [of g1 x1] tail by (simp add: a)
  then show ?case
    using redirect_spends [OF assms(1) s c] unfolding entries by (auto split: if_splits)
qed simp

end

subsection \<open>A sample handler\<close>

text \<open>An instance whose resolver finds one link under every alias, with nothing else configured.\<close>

definition one_link_handler :: "snapshot \<Rightarrow> (gate_service, unit) redirect_handler" where
  "one_link_handler s =
     \<lparr>rh_resolve = (\<lambda>d name x. (Some \<lparr>rs_snapshot = s, rs_source = SourceMemory\<rparr>, x)),
      rh_resolve_cached = (\<lambda>d name x. (Some \<lparr>rs_snapshot = s, rs_source = SourceMemory\<rparr>, x)),
      rh_domain_id = 7, rh_status = 0, rh_recorder = None, rh_geo = None, rh_returning = None,
      rh_not_found_limiter = None, rh_gates = Some gateService, rh_addons = None, rh_password_limiter = None,
      rh_random = (\<lambda>n x. (0, x)), rh_clock = (\<lambda>x. (0, x)), rh_uuid = plain_uuid,
      rh_tzdb = (\<lambda>name. None), rh_parse_host = Some\<rparr>"

definition one_time_snapshot :: snapshot where
  "one_time_snapshot = (live_snapshot None)\<lparr>sn_link_id := 1, sn_workspace_id := 9, sn_one_time := True\<rparr>"

definition promo :: "string \<Rightarrow> request" where
  "promo meth = plain_request meth ''promo'' ''''"

lemma promo_method [simp]: "rq_method (promo meth) = meth"
  by (simp add: promo_def plain_request_def)

lemma one_link: "request_link (one_link_handler s) r gx \<in> {None, Some s}"
  by (auto simp: request_link_def resolve_step_def one_link_handler_def probeStatus_def Let_def)

lemma one_link_gates: "rh_gates (one_link_handler s) = Some gateService"
  by (simp add: one_link_handler_def)

lemma serve_all_links:
  assumes "\<And>r gx. P (request_link h r gx)"
  shows "list_all (\<lambda>(r, snap, rep). P snap) (fst (serve_all h rs gx))"
  using assms by (induction rs arbitrary: gx) (auto simp: split_beta)

subsection \<open>Properties\<close>

text \<open>C8. A link with a click ceiling is never followed more often than it allows: over any sequence of
  requests, from any clients and to any links, with any resolver, caches, add-ons and failing gate
  statements, the redirects answered for a link whose served snapshots carry a ceiling of at most n,
  added to what was already spent, stay within n.\<close>

theorem redirects_within_ceiling:
  assumes "rh_gates h = Some gateService" "list_all (ceiling_at_most l n) (fst (serve_all h rs (g, x)))"
    and "spent_clicks g l \<le> n"
  shows "int (length (filter (redirected_to l) (fst (serve_all h rs (g, x))))) \<le> n - spent_clicks g l"
  using ledger.serve_all_bounded [OF assms(1,2)] assms(3) by simp

theorem redirects_within_ceiling_witness:
  "int (length (filter (redirected_to 1)
     (fst (serve_all (one_link_handler one_time_snapshot) [promo ''GET'', promo ''GET'', promo ''HEAD'']
        (idle_ledger (\<lambda>n. NoFault), ()))))) \<le> 1"
proof -
  have "list_all (\<lambda>(r, snap, rep). snap \<in> {None, Some one_time_snapshot})
      (fst (serve_all (one_link_handler one_time_snapshot) rs gx))" for rs gx
    by (rule serve_all_links) (rule one_link)
  then have "list_all (ceiling_at_most 1 1) (fst (serve_all (one_link_handler one_time_snapshot) rs gx))" for rs gx
    by (rule list_all_weaken)
      (auto simp: ceiling_at_most_def one_time_snapshot_def ClickLimit_def live_snapshot_def zero_snapshot_def)
  from redirects_within_ceiling [OF one_link_gates this, of "idle_ledger (\<lambda>n. NoFault)"
      "[promo ''GET'', promo ''GET'', promo ''HEAD'']" "()"]
  show ?thesis by (simp add: spent_clicks_def idle_ledger_def del: serve_all.simps)
qed

text \<open>C10. Nothing but a served redirect spends a click: whatever a request is answered with, a challenge, a
  wrong password, a missing signature, a veto, a blocked bot, a refused method, a 404 or a 410, the
  counts are as they were; only a redirect, or a consume whose outcome is unknown, moves one, by one
  click, of the link asked for, for a request other than HEAD.\<close>

theorem only_redirects_spend:
  assumes "rh_gates h = Some gateService" "ServeHTTP h r (g, x) = (rep, g', x')"
  shows "spent_clicks g' = spent_clicks g \<or>
    ry_label rep \<in> {''redirect'', ''error''} \<and> rq_method r \<noteq> MethodHead \<and>
    (\<exists>s n. request_link h r (g, x) = Some s \<and> ClickLimit (sn_one_time s) (sn_max_clicks s) = (n, True) \<and>
       spent_clicks g (sn_link_id s) < n \<and>
       spent_clicks g' = (spent_clicks g)(sn_link_id s := spent_clicks g (sn_link_id s) + 1))"
  using ledger.ServeHTTP_effect [OF assms]
  by (auto simp: ledger.kept_def ledger.effect_def ledger.spends_def split: option.splits)

theorem only_redirects_spend_witness:
  "(case ServeHTTP (one_link_handler one_time_snapshot) (promo ''HEAD'') (idle_ledger (\<lambda>n. NoFault), ()) of
      (rep, g', x') \<Rightarrow> spent_clicks g' = spent_clicks (idle_ledger (\<lambda>n. NoFault)))"
proof -
  obtain rep g' x' where s: "ServeHTTP (one_link_handler one_time_snapshot) (promo ''HEAD'')
      (idle_ledger (\<lambda>n. NoFault), ()) = (rep, g', x')"
    by (metis prod_cases3)
  show ?thesis
    using only_redirects_spend [OF one_link_gates s] by (simp add: s MethodHead_def)
qed

text \<open>C17. A rotation advances once per visit: a request moves the rotation of a sequential split only for
  the link it asks for, by one position, and never when it is a HEAD or is about to be answered with the
  password challenge.\<close>

theorem rotation_advances_once_per_visit:
  assumes "rh_gates h = Some gateService" "ServeHTTP h r (g, x) = (rep, g', x')"
  shows "rotation_of g' = rotation_of g \<or>
    rq_method r \<noteq> MethodHead \<and>
    (\<exists>s. request_link h r (g, x) = Some s \<and> \<not> challengePending (Some s) r \<and>
       rotation_of g' = (rotation_of g)(sn_link_id s := rotation_of g (sn_link_id s) + 1))"
  using ledger.ServeHTTP_effect [OF assms]
  by (auto simp: ledger.kept_def ledger.turns_def split: option.splits)

theorem rotation_advances_once_per_visit_witness:
  "(case ServeHTTP (one_link_handler (one_time_snapshot\<lparr>sn_has_password := True\<rparr>)) (promo ''GET'')
        (idle_ledger (\<lambda>n. NoFault), ()) of
      (rep, g', x') \<Rightarrow> rotation_of g' = rotation_of (idle_ledger (\<lambda>n. NoFault)))"
proof -
  let ?h = "one_link_handler (one_time_snapshot\<lparr>sn_has_password := True\<rparr>)" and ?gx = "(idle_ledger (\<lambda>n. NoFault), ())"
  obtain rep g' x' where s: "ServeHTTP ?h (promo ''GET'') ?gx = (rep, g', x')"
    by (metis prod_cases3)
  have "\<not> (request_link ?h (promo ''GET'') ?gx = Some t \<and> \<not> challengePending (Some t) (promo ''GET''))" for t
    using one_link [of "one_time_snapshot\<lparr>sn_has_password := True\<rparr>" "promo ''GET''" ?gx]
    by (auto simp: challengePending_def promo_def plain_request_def MethodPost_def)
  then show ?thesis
    using rotation_advances_once_per_visit [OF one_link_gates s] by (auto simp: s)
qed

end
