(* ===== verification/Handler_Safety.thy ===== *)
theory Handler_Safety
  imports Handler_Correct
begin

section \<open>Where a visitor is sent, and what it takes\<close>

text \<open>
  The lemmas of this theory read a redirect backwards through the stages of the handler: a reply
  labelled \<open>redirect\<close> went through the choice of a destination, the join, the challenge gates, the add-ons
  and the budget gate. They hold for any gatekeeper and any other state.
\<close>

text \<open>What a redirect shows about each stage.\<close>

definition signed_for :: "('g, 'x) redirect_handler \<Rightarrow> 'g gatekeeper \<Rightarrow> request \<Rightarrow> snapshot \<Rightarrow> bool" where
  "signed_for h gk r s \<longleftrightarrow>
     (\<exists>g at_secret secret now. fst (gk_secret gk (sn_workspace_id s) at_secret g) = SecretOk secret \<and>
        Verify (rh_uuid h) secret (request_domain h r) (Canonical (trim_space (rq_alias r))) (url_query r) now = None)"

definition password_given :: "'g gatekeeper \<Rightarrow> request \<Rightarrow> snapshot \<Rightarrow> bool" where
  "password_given gk r s \<longleftrightarrow>
     rq_method r = MethodPost \<and>
     (\<exists>form g. rq_form r = Some form \<and>
        fst (gk_verify_password gk (sn_link_id s) (values_get form ''password'') g) \<in> {PasswordOk, ErrNoPassword})"

definition click_granted :: "'g gatekeeper \<Rightarrow> request \<Rightarrow> snapshot \<Rightarrow> int \<Rightarrow> bool" where
  "click_granted gk r s n \<longleftrightarrow>
     (if rq_method r = MethodHead
      then \<exists>g count stamp. fst (gk_budget gk (sn_link_id s) g) = Some (count, stamp) \<and> count < n
      else \<exists>g t. fst (gk_consume gk (sn_link_id s) (sn_workspace_id s) n t g) = Some True)"

lemma Verify_no_secret: "Verify us [] d name q now = Some ErrNoSecret"
  by (simp add: Verify_def)

lemma signatureGate_passed:
  assumes "signatureGate h gk r s (Canonical (trim_space (rq_alias r))) (request_domain h r) (g, x) = (GatePassed, g', x')"
  shows "sn_require_signature s \<longrightarrow> signed_for h gk r s"
proof
  assume req: "sn_require_signature s"
  obtain t x1 where c: "rh_clock h x = (t, x1)" by fastforce
  obtain sr g1 where k: "gk_secret gk (sn_workspace_id s) t g = (sr, g1)" by fastforce
  obtain now x2 where c2: "rh_clock h x1 = (now, x2)" by fastforce
  obtain secret where s: "sr = SecretOk secret"
      "Verify (rh_uuid h) secret (request_domain h r) (Canonical (trim_space (rq_alias r))) (url_query r) now = None"
    using assms req
    by (cases sr) (auto simp: signatureGate_def c k c2 Let_def Verify_no_secret split: option.splits)
  moreover have "fst (gk_secret gk (sn_workspace_id s) t g) = SecretOk secret"
    by (simp add: k s(1))
  ultimately show "signed_for h gk r s"
    unfolding signed_for_def by blast
qed

lemma passwordGate_passed:
  assumes "passwordGate h gk r s name d (g, x) = (GatePassed, g', x')"
  shows "sn_has_password s \<longrightarrow> password_given gk r s"
proof
  assume pw: "sn_has_password s"
  obtain a x1 where al: "passwordAllowed h r name d x = (a, x1)" by fastforce
  obtain form where f: "rq_method r = MethodPost" "rq_form r = Some form"
    using assms pw by (auto simp: passwordGate_def al split: if_splits option.splits prod.splits bool.splits)
  obtain vr g1 where v: "gk_verify_password gk (sn_link_id s) (values_get form ''password'') g = (vr, g1)" by fastforce
  have "vr \<in> {PasswordOk, ErrNoPassword}"
    using assms pw f by (cases vr) (auto simp: passwordGate_def al v split: prod.splits bool.splits)
  then have "fst (gk_verify_password gk (sn_link_id s) (values_get form ''password'') g) \<in> {PasswordOk, ErrNoPassword}"
    by (simp add: v)
  then show "password_given gk r s"
    unfolding password_given_def using f by blast
qed

lemma budgetGate_passed:
  assumes "budgetGate h gk r s (g, x) = (GatePassed, g', x')"
    and "ClickLimit (sn_one_time s) (sn_max_clicks s) = (n, True)"
  shows "click_granted gk r s n"
proof (cases "rq_method r = MethodHead")
  case True
  obtain b g1 where k: "gk_budget gk (sn_link_id s) g = (b, g1)" by fastforce
  obtain count stamp where "b = Some (count, stamp)" "count < n"
    using assms True by (auto simp: budgetGate_def budgetPeek_def k split: option.splits if_splits)
  then have "fst (gk_budget gk (sn_link_id s) g) = Some (count, stamp) \<and> count < n" by (simp add: k)
  then show ?thesis unfolding click_granted_def using True by auto
next
  case False
  obtain t x1 where c: "rh_clock h x = (t, x1)" by fastforce
  obtain ok g1 where k: "gk_consume gk (sn_link_id s) (sn_workspace_id s) n t g = (ok, g1)" by fastforce
  have "ok = Some True"
    using assms False by (auto simp: budgetGate_def c k split: option.splits bool.splits)
  then have "fst (gk_consume gk (sn_link_id s) (sn_workspace_id s) n t g) = Some True" by (simp add: k)
  then show ?thesis unfolding click_granted_def using False by auto
qed

lemma passGates_passed:
  assumes "passGates h r s (Canonical (trim_space (rq_alias r))) (request_domain h r) (g, x) = (GatePassed, g', x')"
  shows "\<exists>gk. rh_gates h = Some gk \<and> (sn_require_signature s \<longrightarrow> signed_for h gk r s) \<and>
           (sn_has_password s \<longrightarrow> password_given gk r s)"
proof -
  obtain gk where gk: "rh_gates h = Some gk"
    using assms by (auto simp: passGates_def split: option.splits)
  obtain r1 g1 x1 where sg: "signatureGate h gk r s (Canonical (trim_space (rq_alias r))) (request_domain h r) (g, x) = (r1, g1, x1)"
    by (metis prod_cases3)
  have p: "r1 = GatePassed"
      "passwordGate h gk r s (Canonical (trim_space (rq_alias r))) (request_domain h r) (g1, x1) = (GatePassed, g', x')"
    using assms by (auto simp: passGates_def gk sg split: gate_result.splits)
  show ?thesis
    using gk signatureGate_passed [OF sg [unfolded p(1)]] passwordGate_passed [OF p(2)] by blast
qed

lemma budgetGate_label:
  "budgetGate h gk r s gx = (GateAnswered resp label t, gx') \<Longrightarrow> label \<noteq> ''redirect''"
  by (auto simp: budgetGate_def budgetPeek_def split: if_splits prod.splits option.splits bool.splits)

lemma Gated_iff:
  "Gated (Some s) \<longleftrightarrow> sn_require_signature s \<or> sn_has_password s \<or>
     snd (ClickLimit (sn_one_time s) (sn_max_clicks s))"
  by (auto simp: Gated_def ClickLimit_def Let_def split: option.splits)

text \<open>Reading \<open>serve_target\<close> backwards.\<close>

lemma serve_target_redirected:
  assumes run: "serve_target h r res (Canonical (trim_space (rq_alias r))) (request_domain h r) start joined dest (g, x) = (rep, g', x')"
    and label: "ry_label rep = ''redirect''"
  shows "(Gated (Some (rs_snapshot res)) \<longrightarrow>
            (\<exists>gk. rh_gates h = Some gk \<and>
               (sn_require_signature (rs_snapshot res) \<longrightarrow> signed_for h gk r (rs_snapshot res)) \<and>
               (sn_has_password (rs_snapshot res) \<longrightarrow> password_given gk r (rs_snapshot res)) \<and>
               (\<forall>n. ClickLimit (sn_one_time (rs_snapshot res)) (sn_max_clicks (rs_snapshot res)) = (n, True) \<longrightarrow>
                    click_granted gk r (rs_snapshot res) n))) \<and>
         (\<exists>loc x1. ry_response rep = Location loc (redirectStatus h r) \<and>
            loc = ir_destination (fst (inline_step h (rs_snapshot res) (Canonical (trim_space (rq_alias r)))
                    (withForwardedQuery (rh_parse_host h) joined r (rs_snapshot res)) x1)))"
proof -
  let ?s = "rs_snapshot res" and ?name = "Canonical (trim_space (rq_alias r))"
    and ?target = "withForwardedQuery (rh_parse_host h) joined r (rs_snapshot res)"
  define challenge_gates where
    "challenge_gates = (if Gated (Some ?s) then passGates h r ?s ?name (request_domain h r) (g, x) else (GatePassed, g, x))"
  obtain r1 g1 x1 where c: "challenge_gates = (r1, g1, x1)" by (metis prod_cases3)
  have r1: "r1 = GatePassed"
  proof (cases r1)
    case (GateAnswered resp lab t)
    then have "lab \<in> refusal_labels"
      using c passGates_label by (auto simp: challenge_gates_def split: if_splits)
    moreover have "ry_label rep = lab"
      using run c GateAnswered by (auto simp: serve_target_def Let_def challenge_gates_def)
    ultimately show ?thesis using label by (auto simp: refusal_labels_def)
  qed simp
  obtain dec x2 where i: "inline_step h ?s ?name ?target x1 = (dec, x2)" by fastforce
  have nv: "\<not> ir_vetoed dec"
    using run c r1 i label by (auto simp: serve_target_def Let_def challenge_gates_def)
  define budget where
    "budget = (if Gated (Some ?s) then passBudgetGate h r ?s (g1, x2) else (GatePassed, g1, x2))"
  obtain r3 g3 x3 where b: "budget = (r3, g3, x3)" by (metis prod_cases3)
  have r3: "r3 = GatePassed"
  proof (cases r3)
    case (GateAnswered resp lab t)
    then have lab: "ry_label rep = lab" "Gated (Some ?s)"
      using run c r1 i nv b by (auto simp: serve_target_def Let_def challenge_gates_def budget_def split: if_splits)
    then have "lab \<noteq> ''redirect''"
      using b GateAnswered by (auto simp: budget_def passBudgetGate_def dest: budgetGate_label split: option.splits)
    then show ?thesis using lab label by simp
  qed simp
  have rep: "ry_response rep = Location (ir_destination dec) (redirectStatus h r)"
    using run c r1 i nv b r3 by (auto simp: serve_target_def Let_def challenge_gates_def budget_def split: if_splits)
  have gates: "\<exists>gk. rh_gates h = Some gk \<and> (sn_require_signature ?s \<longrightarrow> signed_for h gk r ?s) \<and>
      (sn_has_password ?s \<longrightarrow> password_given gk r ?s) \<and>
      (\<forall>n. ClickLimit (sn_one_time ?s) (sn_max_clicks ?s) = (n, True) \<longrightarrow> click_granted gk r ?s n)"
    if gated: "Gated (Some ?s)"
  proof -
    have "passGates h r ?s ?name (request_domain h r) (g, x) = (GatePassed, g1, x1)"
      using c r1 gated by (simp add: challenge_gates_def)
    from passGates_passed [OF this] obtain gk where gk: "rh_gates h = Some gk"
      "sn_require_signature ?s \<longrightarrow> signed_for h gk r ?s" "sn_has_password ?s \<longrightarrow> password_given gk r ?s"
      by blast
    have "budgetGate h gk r ?s (g1, x2) = (GatePassed, g3, x3)"
      using b r3 gated gk(1) by (simp add: budget_def passBudgetGate_def)
    from budgetGate_passed [OF this] gk show ?thesis by blast
  qed
  have "ir_destination dec = ir_destination (fst (inline_step h ?s ?name ?target x1))"
    by (simp add: i)
  with rep gates show ?thesis by blast
qed

lemma redirected_through:
  assumes "ServeHTTP h r (g, x) = (rep, g', x')" "ry_label rep = ''redirect''" "request_link h r (g, x) = Some s"
  obtains res start gx0 gx1 dest dest_id joined where "s = rs_snapshot res" "\<not> blockedAsBot (Some s) (rq_user_agent r)"
    "Decide (Some s) start = OutcomeRedirect" "rq_method r = MethodPost \<longrightarrow> sn_has_password s"
    "choose_destination h r s start gx0 = (Some (dest, dest_id), gx1)"
    "forwardable (rh_parse_host h) (Some s) dest r = Some joined"
    "serve_target h r res (Canonical (trim_space (rq_alias r))) (request_domain h r) start joined dest_id gx1 = (rep, g', x')"
proof -
  obtain start x1 where t: "rh_clock h x = (start, x1)" by fastforce
  obtain o1 x2 where st: "resolve_step h r x1 = (o1, x2)" by fastforce
  obtain res where res: "o1 = Inr res" "s = rs_snapshot res"
    using assms(3) by (cases o1) (auto simp: request_link_def t st)
  have run: "serve_resolved h r res (Canonical (trim_space (rq_alias r))) (request_domain h r) start (g, x2) = (rep, g', x')"
    using assms(1) by (simp add: ServeHTTP_def t st res(1))
  have bot: "\<not> blockedAsBot (Some s) (rq_user_agent r)"
    using run assms(2) by (auto simp: serve_resolved_def Let_def res(2) split: if_splits)
  have live: "Decide (Some s) start = OutcomeRedirect"
    using run assms(2) bot
    by (auto simp: serve_resolved_def serve_gone_def serve_not_found_def Let_def res(2) split: Outcome.splits)
  have post: "\<not> (rq_method r = MethodPost \<and> \<not> sn_has_password s)"
    using run assms(2) bot live by (auto simp: serve_resolved_def Let_def res(2) split: if_splits)
  obtain c gx1 where ch: "choose_destination h r s start (g, x2) = (c, gx1)" by (cases "choose_destination h r s start (g, x2)") simp
  obtain dest dest_id where c: "c = Some (dest, dest_id)"
    using run assms(2) bot live post ch by (cases c) (auto simp: serve_resolved_def Let_def res(2))
  obtain joined where j: "forwardable (rh_parse_host h) (Some s) dest r = Some joined"
    using run assms(2) bot live post ch c
    by (cases "forwardable (rh_parse_host h) (Some s) dest r")
      (auto simp: serve_resolved_def serve_not_found_def Let_def res(2) split_beta)
  have "serve_target h r res (Canonical (trim_space (rq_alias r))) (request_domain h r) start joined dest_id gx1 = (rep, g', x')"
    using run bot live post ch c j by (auto simp: serve_resolved_def Let_def res(2) split_beta split: if_splits)
  with that res(2) bot live post ch c j show ?thesis by blast
qed

lemma weighted_walk_arm: "weighted_walk arms ws n acc = SplitChosen c \<Longrightarrow> c \<in> set arms"
  by (induction arms ws n acc rule: weighted_walk.induct) (auto split: if_splits)

lemma arm_index_less: "0 < k \<Longrightarrow> arm_index p k < k"
proof -
  assume k: "0 < k"
  have m: "(p - 1) mod int k < int k" "0 \<le> (p - 1) mod int k" "0 \<le> (1 - p) mod int k"
    using k by simp_all
  show ?thesis
  proof (cases "p - 1 < 0")
    case True
    then have "arm_index p k = 0" using m by (simp add: arm_index_def Let_def)
    then show ?thesis using k by simp
  next
    case False
    then show ?thesis using m by (simp add: arm_index_def Let_def nat_less_iff)
  qed
qed

lemma split_arm: "split h r s gx = (SplitChosen c, gx') \<Longrightarrow> c \<in> set (snd (Split (Some s)))"
proof -
  assume a: "split h r s gx = (SplitChosen c, gx')"
  obtain kind arms where k: "Split (Some s) = (kind, arms)" by fastforce
  obtain g x where gx: "gx = (g, x)" by fastforce
  have "arms \<noteq> []" using a by (auto simp: split_def k gx)
  then have idx: "arms ! arm_index p (length arms) \<in> set arms" for p
    using arm_index_less [of "length arms" p] by simp
  show ?thesis
    using a idx
    by (auto simp: split_def k gx weightedPick_def rotate_arms_def Let_def
        split: if_splits prod.splits option.splits dest: weighted_walk_arm)
qed

definition listed :: "snapshot \<Rightarrow> string \<Rightarrow> bool" where
  "listed s u \<longleftrightarrow> u = sn_url s \<or> (\<exists>d \<in> set (sn_destinations s). sd_url d = u)"

lemma chosen_destination_listed:
  assumes "choose_destination h r s start gx = (Some (dest, dest_id), gx')"
  shows "listed s dest"
proof -
  have routed: "\<exists>d \<in> set (sn_destinations s). sd_url d = ch_url c"
    if "fst (route tz geo ret r (Some s) start) = Some c" for tz geo ret c
  proof -
    have "fst (Route tz (Some s) ruleSubject (newRuleSubject r (Some s) start geo ret)) = Some c"
      using that by (auto simp: route_def split: if_splits prod.splits)
    then show ?thesis
      using chosen_listed [of tz s ruleSubject "newRuleSubject r (Some s) start geo ret" c] by blast
  qed
  have others: "\<exists>d \<in> set (sn_destinations s). sd_url d = ch_url c"
    if "Fallback (Some s) = Some c \<or> c \<in> set (snd (Split (Some s)))" for c
    using that chosen_listed [of "\<lambda>name. None" s ruleSubject undefined c] by blast
  show ?thesis
  proof (cases "fst (route (rh_tzdb h) (rh_geo h) (rh_returning h) r (Some s) start)")
    case (Some c)
    then show ?thesis
      using assms routed [OF Some] by (simp add: choose_destination_def listed_def)
  next
    case None
    obtain sp gx1 where sp: "split h r s gx = (sp, gx1)" by (cases "split h r s gx") simp
    show ?thesis
    proof (cases sp)
      case (SplitChosen c)
      then show ?thesis
        using assms None sp split_arm [of h r s gx c gx1] others [of c] by (simp add: choose_destination_def listed_def)
    next
      case SplitPassed
      then show ?thesis
        using assms None sp others by (auto simp: choose_destination_def listed_def split: option.splits)
    qed (use assms None sp in \<open>simp add: choose_destination_def\<close>)
  qed
qed

subsection \<open>A visit that is let through\<close>

text \<open>A visitor entitled to a plain link: an active one with no rules, asked for without extra path
  segments, its password posted correctly where it has one, a click left where it has a ceiling.\<close>

definition entitled :: "('g, 'x) redirect_handler \<Rightarrow> request \<Rightarrow> snapshot \<Rightarrow> instant \<Rightarrow> gate_service \<Rightarrow> bool" where
  "entitled h r s start g \<longleftrightarrow>
     Decide (Some s) start = OutcomeRedirect \<and> \<not> blockedAsBot (Some s) (rq_user_agent r) \<and>
     sn_rules s = [] \<and> \<not> snd (pathRemainder (rq_escaped_path r)) \<and>
     (\<not> sn_forward_query s \<or> rq_raw_query r = '''') \<and> \<not> sn_require_signature s \<and>
     (rq_method r = MethodPost \<longleftrightarrow> sn_has_password s) \<and>
     (sn_has_password s \<longrightarrow>
        (\<exists>form verify hash. rq_form r = Some form \<and> gs_hasher g = Some verify \<and>
           gd_hashes g (sn_link_id s) = Some (Some hash) \<and> hash \<noteq> '''' \<and>
           verify (values_get form ''password'') hash = Matches)) \<and>
     (\<forall>n. ClickLimit (sn_one_time s) (sn_max_clicks s) = (n, True) \<longrightarrow> 1 \<le> n \<and> spent_clicks g (sn_link_id s) < n)"

lemma VerifyPassword_healthy:
  assumes "no_faults g" "gs_hasher g = Some verify" "gd_hashes g l = Some (Some hash)" "hash \<noteq> ''''"
    and "verify p hash = Matches"
  obtains g' where "VerifyPassword l p g = (PasswordOk, g')" "no_faults g'" "spent_clicks g' = spent_clicks g"
proof -
  let ?g = "g\<lparr>gd_statements := Suc (gd_statements g)\<rparr>"
  have "VerifyPassword l p g = (PasswordOk, ?g)"
    using assms by (simp add: VerifyPassword_def run_statement_def no_faults_def GetLinkPasswordHash_def Let_def)
  moreover have "no_faults ?g" using assms(1) by (simp add: no_faults_def)
  ultimately show ?thesis using that tick_observations(1) by blast
qed

lemma Consume_healthy:
  assumes "no_faults g" "1 \<le> n" "spent_clicks g l < n"
  obtains g' where "Consume l ws n t g = (Some True, g')" "spent_clicks g' = (spent_clicks g)(l := spent_clicks g l + 1)"
proof -
  have c: "fst (Consume l ws n t g) = Some True"
      "spent_clicks (snd (Consume l ws n t g)) = (spent_clicks g)(l := spent_clicks g l + 1)"
    using assms by (cases rule: Consume_effect [of l ws n t g]; simp add: no_faults_def)+
  then show ?thesis
    using that [of "snd (Consume l ws n t g)"] by (metis prod.collapse)
qed

lemma Budget_healthy:
  assumes "no_faults g" "spent_clicks g l < n"
  obtains g' count stamp where "Budget l g = (Some (count, stamp), g')" "count < n" "spent_clicks g' = spent_clicks g"
proof -
  obtain b g' where b: "Budget l g = (b, g')" by fastforce
  then obtain count stamp where "b = Some (count, stamp)" "count = spent_clicks g l"
    using budget_read [OF assms(1), of l] by auto
  moreover have "spent_clicks g' = spent_clicks g"
    using Budget_keeps [of l g] b budget_observations(1) [of g' g] by simp
  ultimately show ?thesis using that b assms(2) by blast
qed

lemma passwordGate_let_through:
  assumes "entitled h r s start g" "no_faults g" "rh_password_limiter h = None"
  obtains g1 where "passwordGate h gateService r s name d (g, x) = (GatePassed, g1, x)" "no_faults g1"
    "spent_clicks g1 = spent_clicks g"
proof (cases "sn_has_password s")
  case True
  then obtain form verify hash where f: "rq_method r = MethodPost" "rq_form r = Some form" "gs_hasher g = Some verify"
      "gd_hashes g (sn_link_id s) = Some (Some hash)" "hash \<noteq> ''''" "verify (values_get form ''password'') hash = Matches"
    using assms(1) unfolding entitled_def by blast
  obtain g1 where "VerifyPassword (sn_link_id s) (values_get form ''password'') g = (PasswordOk, g1)" "no_faults g1"
      "spent_clicks g1 = spent_clicks g"
    using VerifyPassword_healthy [OF assms(2) f(3-6)] by metis
  then show ?thesis
    using that True f assms(3) by (simp add: passwordGate_def passwordAllowed_def refundPasswordAlias_def)
next
  case False
  then show ?thesis using that assms(2) by (simp add: passwordGate_def)
qed

lemma budgetGate_let_through:
  assumes "\<forall>n. ClickLimit (sn_one_time s) (sn_max_clicks s) = (n, True) \<longrightarrow> 1 \<le> n \<and> spent_clicks g (sn_link_id s) < n"
    and "no_faults g"
  obtains g1 x1 where "budgetGate h gateService r s (g, x) = (GatePassed, g1, x1)"
    "rq_method r \<noteq> MethodHead \<and> snd (ClickLimit (sn_one_time s) (sn_max_clicks s)) \<longrightarrow>
       spent_clicks g1 (sn_link_id s) = spent_clicks g (sn_link_id s) + 1"
proof -
  obtain n gated where cl: "ClickLimit (sn_one_time s) (sn_max_clicks s) = (n, gated)" by fastforce
  consider "\<not> gated" | "gated" "rq_method r = MethodHead" | "gated" "rq_method r \<noteq> MethodHead" by blast
  then show ?thesis
  proof cases
    case 1
    then show ?thesis using that by (simp add: budgetGate_def cl)
  next
    case 2
    obtain g1 count stamp where "Budget (sn_link_id s) g = (Some (count, stamp), g1)" "count < n"
      by (rule Budget_healthy [OF assms(2), of "sn_link_id s" n]) (use assms(1) cl 2 in auto)
    then show ?thesis using that 2 by (simp add: budgetGate_def budgetPeek_def cl)
  next
    case 3
    obtain now x1 where t: "rh_clock h x = (now, x1)" by fastforce
    obtain g1 where "Consume (sn_link_id s) (sn_workspace_id s) n now g = (Some True, g1)"
        "spent_clicks g1 = (spent_clicks g)(sn_link_id s := spent_clicks g (sn_link_id s) + 1)"
      using Consume_healthy [OF assms(2), of n "sn_link_id s"] assms(1) cl 3 by metis
    then show ?thesis using that 3 by (simp add: budgetGate_def cl t)
  qed
qed

lemma entitled_visit:
  assumes gk: "rh_gates h = Some gateService" and ok: "no_faults g" and pl: "rh_password_limiter h = None"
    and ad: "rh_addons h = None" and e: "entitled h r s start g" and s: "s = rs_snapshot res"
  shows "\<exists>g' x'. serve_resolved h r res name d start (g, x) =
      (answer (Location (sn_url s) (redirectStatus h r)) ''redirect'' (source_text (rs_source res)), g', x') \<and>
    (rq_method r \<noteq> MethodHead \<and> snd (ClickLimit (sn_one_time s) (sn_max_clicks s)) \<longrightarrow>
       spent_clicks g' (sn_link_id s) = spent_clicks g (sn_link_id s) + 1)"
proof -
  note e' = e [unfolded entitled_def]
  have ch: "choose_destination h r s start (g, x) = (Some (sn_url s, uuid_nil), g, x)"
    using e' by (simp add: choose_destination_def route_def split_def Split_def Fallback_def)
  have fw: "forwardable (rh_parse_host h) (Some s) (sn_url s) r = Some (sn_url s)"
    using e' by (auto simp: forwardable_def split: prod.splits)
  have wq: "withForwardedQuery (rh_parse_host h) (sn_url s) r s = sn_url s"
    using e' by (auto simp: withForwardedQuery_def)
  have post: "\<not> (rq_method r = MethodPost \<and> \<not> sn_has_password s)"
    using e' by blast
  have st: "serve_resolved h r res name d start (g, x) = serve_target h r res name d start (sn_url s) uuid_nil (g, x)"
    using e' post ch fw by (simp add: serve_resolved_def Let_def s)
  have inl: "inline_step h s name (sn_url s) x = (\<lparr>ir_vetoed = False, ir_destination = sn_url s, ir_rewritten = False\<rparr>, x)" for x
    by (simp add: inline_step_def ad)
  show ?thesis
  proof (cases "Gated (Some s)")
    case True
    obtain g1 where g1: "passwordGate h gateService r s name d (g, x) = (GatePassed, g1, x)" "no_faults g1"
        "spent_clicks g1 = spent_clicks g"
      using passwordGate_let_through [OF e ok pl] by metis
    have pg: "passGates h r s name d (g, x) = (GatePassed, g1, x)"
      using e' g1(1) by (simp add: passGates_def gk signatureGate_def)
    have lim: "\<forall>n. ClickLimit (sn_one_time s) (sn_max_clicks s) = (n, True) \<longrightarrow> 1 \<le> n \<and> spent_clicks g1 (sn_link_id s) < n"
      using e' g1(3) by simp
    obtain g2 x2 where b: "budgetGate h gateService r s (g1, x) = (GatePassed, g2, x2)"
        "rq_method r \<noteq> MethodHead \<and> snd (ClickLimit (sn_one_time s) (sn_max_clicks s)) \<longrightarrow>
           spent_clicks g2 (sn_link_id s) = spent_clicks g1 (sn_link_id s) + 1"
      by (rule budgetGate_let_through [OF lim g1(2), of h r x])
    have "serve_target h r res name d start (sn_url s) uuid_nil (g, x) =
        (answer (Location (sn_url s) (redirectStatus h r)) ''redirect'' (source_text (rs_source res)), g2,
         record_click h r (Some s) start uuid_nil True x2)"
      unfolding serve_target_def Let_def s [symmetric] wq
      using True pg b(1) by (simp add: inl passBudgetGate_def gk)
    then show ?thesis using st b(2) g1(3) by auto
  next
    case False
    have "serve_target h r res name d start (sn_url s) uuid_nil (g, x) =
        (answer (Location (sn_url s) (redirectStatus h r)) ''redirect'' (source_text (rs_source res)), g,
         record_click h r (Some s) start uuid_nil True x)"
      unfolding serve_target_def Let_def s [symmetric] wq
      using False by (simp add: inl)
    then show ?thesis using st False ClickLimit_gated [of s] by auto
  qed
qed

subsection \<open>Properties\<close>


lemma one_link_resolves:
  "resolve_step (one_link_handler s) (promo meth) () = (Inr \<lparr>rs_snapshot = s, rs_source = SourceMemory\<rparr>, ())"
proof -
  have t: "trim_space ''promo'' = ''promo''"
    by (rule trim_space_fixed) (simp add: code_def space1_def)
  have l: "to_lower ''promo'' = ''promo''"
    by (rule to_lower_fixed) (simp_all add: code_def)
  have "WellFormed (Canonical (trim_space ''promo''))"
    by (simp add: Canonical_def t l WellFormed_def MinLength_def MaxLength_def isAllowedASCII_def allowed_byte_def
        isSeparator_def code_def)
  then show ?thesis
    by (simp add: resolve_step_def one_link_handler_def probeStatus_def Let_def promo_def plain_request_def)
qed

definition healthy_ledger :: gate_service where
  "healthy_ledger = idle_ledger (\<lambda>n. NoFault)"

lemma one_time_entitled:
  "entitled (one_link_handler one_time_snapshot) (promo ''GET'') one_time_snapshot 0 healthy_ledger"
  by (simp add: entitled_def one_time_snapshot_def live_snapshot_def zero_snapshot_def Decide_def expired_at_def
      blockedAsBot_def BlocksBots_def promo_def plain_request_def pathRemainder_def trim_prefix_def MethodPost_def
      ClickLimit_def healthy_ledger_def idle_ledger_def spent_clicks_def StatusActive_def DomainBots_def
      BotBlock_def BotAllow_def DomainBotsEnforced_def DomainBotsOn_def DomainBotsOff_def StatusArchived_def
      StatusExpired_def StatusDisabled_def)

lemma healthy: "no_faults healthy_ledger"
  by (simp add: no_faults_def healthy_ledger_def idle_ledger_def)

lemma one_time_reply:
  obtains rep g' x' where
    "ServeHTTP (one_link_handler one_time_snapshot) (promo ''GET'') (healthy_ledger, ()) = (rep, g', x')"
    "ry_label rep = ''redirect''" "ry_response rep = Location ''https://example.com/'' 302"
    "request_link (one_link_handler one_time_snapshot) (promo ''GET'') (healthy_ledger, ()) = Some one_time_snapshot"
proof -
  let ?h = "one_link_handler one_time_snapshot" and ?res = "\<lparr>rs_snapshot = one_time_snapshot, rs_source = SourceMemory\<rparr>"
  have h: "rh_password_limiter ?h = None" "rh_addons ?h = None" "rh_clock ?h () = (0, ())" "redirectStatus ?h (promo ''GET'') = 302"
    by (simp_all add: one_link_handler_def redirectStatus_def status_of_def MethodPost_def)
  have u: "sn_url one_time_snapshot = ''https://example.com/''"
    by (simp add: one_time_snapshot_def live_snapshot_def zero_snapshot_def)
  have "ServeHTTP ?h (promo ''GET'') (healthy_ledger, ()) =
      serve_resolved ?h (promo ''GET'') ?res (Canonical (trim_space (rq_alias (promo ''GET''))))
        (request_domain ?h (promo ''GET'')) 0 (healthy_ledger, ())"
    using one_link_resolves [of one_time_snapshot "''GET''"] by (simp add: ServeHTTP_def h)
  moreover have "request_link ?h (promo ''GET'') (healthy_ledger, ()) = Some one_time_snapshot"
    using one_link_resolves [of one_time_snapshot "''GET''"] by (simp add: request_link_def h)
  ultimately show ?thesis
    using that u h(4)
      entitled_visit [OF one_link_gates healthy h(1,2) one_time_entitled, of ?res
        "Canonical (trim_space (rq_alias (promo ''GET'')))" "request_domain ?h (promo ''GET'')" "()"] by auto
qed






text \<open>HEAD leaves no trace: a HEAD request is served exactly as by an instance with no click recorder,
  so it is never recorded as a click.\<close>

theorem HEAD_is_never_recorded:
  assumes "rq_method r = MethodHead"
  shows "ServeHTTP (h\<lparr>rh_recorder := None\<rparr>) r gx = ServeHTTP h r gx"
proof -
  let ?h = "h\<lparr>rh_recorder := None\<rparr>"
  have rc: "record_click ?h r s start d b x = record_click h r s start d b x" for s start d b x
    using assms by (auto simp: record_click_def split: option.splits)
  have fields: "rh_resolve ?h = rh_resolve h" "rh_resolve_cached ?h = rh_resolve_cached h" "rh_domain_id ?h = rh_domain_id h"
    "rh_status ?h = rh_status h" "rh_geo ?h = rh_geo h" "rh_returning ?h = rh_returning h"
    "rh_not_found_limiter ?h = rh_not_found_limiter h" "rh_gates ?h = rh_gates h" "rh_addons ?h = rh_addons h"
    "rh_password_limiter ?h = rh_password_limiter h" "rh_random ?h = rh_random h" "rh_clock ?h = rh_clock h"
    "rh_uuid ?h = rh_uuid h" "rh_tzdb ?h = rh_tzdb h" "rh_parse_host ?h = rh_parse_host h"
    by simp_all
  have "ServeHTTP ?h r gx = ServeHTTP h r gx"
    unfolding ServeHTTP_def resolve_step_def serve_resolved_def serve_gone_def serve_not_found_def serve_target_def
      probeStatus_def chargeProbe_def request_domain_def choose_destination_def split_def rotate_arms_def inline_step_def
      passGates_def passBudgetGate_def budgetGate_def redirectStatus_def status_of_def signatureGate_def
      passwordGate_def passwordAllowed_def refundPasswordAlias_def passwordAliasKey_def fields rc
    by (rule refl)
  then show ?thesis .
qed

theorem HEAD_is_never_recorded_witness:
  "ServeHTTP (one_link_handler one_time_snapshot\<lparr>rh_recorder := None\<rparr>) (promo ''HEAD'') (healthy_ledger, ()) =
   ServeHTTP (one_link_handler one_time_snapshot) (promo ''HEAD'') (healthy_ledger, ())"
  by (rule HEAD_is_never_recorded) (simp add: MethodHead_def)

subsection \<open>How a split divides its visitors\<close>

lemma weight_total_simps [simp]:
  "weight_total [] = 0" "weight_total (w # ws) = (if sint w > 0 then sint w else 0) + weight_total ws"
  by (simp_all add: weight_total_def)

lemma weight_total_nonneg: "0 \<le> weight_total ws"
  by (induction ws) auto



lemma weighted_walk_range:
  assumes "length arms = length ws" "i < length ws" "distinct arms" "acc \<le> n"
  shows "weighted_walk arms ws n acc = SplitChosen (arms ! i) \<longleftrightarrow>
           acc + weight_total (take i ws) \<le> n \<and> n < acc + weight_total (take (Suc i) ws)"
  using assms
proof (induction arms ws n acc arbitrary: i rule: weighted_walk.induct)
  case (1 a as w ws n acc)
  show ?case
  proof (cases i)
    case 0
    have "weighted_walk as ws n (acc + sint w) \<noteq> SplitChosen a" "weighted_walk as ws n acc \<noteq> SplitChosen a"
      using weighted_walk_arm "1.prems"(3) by fastforce+
    then show ?thesis using 0 "1.prems"(4) by auto
  next
    case (Suc j)
    have ne: "a \<noteq> as ! j"
      using "1.prems" Suc by (auto simp: in_set_conv_nth)
    have nn: "0 \<le> weight_total (take j ws)" by (rule weight_total_nonneg)
    consider "sint w \<le> 0" | "0 < sint w" "n < acc + sint w" | "0 < sint w" "acc + sint w \<le> n" by linarith
    then show ?thesis
    proof cases
      case 1
      then show ?thesis using "1.IH"(1) [of j] "1.prems" Suc by simp
    next
      case 2
      then show ?thesis using Suc ne nn by simp
    next
      case 3
      then show ?thesis using "1.IH"(2) [of j] "1.prems" Suc by (simp add: algebra_simps)
    qed
  qed
qed auto

text \<open>A weighted split divides its visitors in proportion: of the equally likely draws below the total
  weight, exactly as many choose an arm as its weight says, none for a weight of zero or less, and every
  draw chooses some arm.\<close>

theorem weighted_split_is_proportional:
  assumes "length arms = length ws" "distinct arms" "i < length ws"
  shows "card {n \<in> {0..<weight_total ws}. weighted_walk arms ws n 0 = SplitChosen (arms ! i)} = nat (sint (ws ! i)) \<and>
    (\<forall>n \<in> {0..<weight_total ws}. \<exists>j < length ws. 0 < sint (ws ! j) \<and> weighted_walk arms ws n 0 = SplitChosen (arms ! j))"
proof -
  have mono: "weight_total (take (Suc i) ws) \<le> weight_total ws"
  proof -
    have "weight_total (xs @ ys) = weight_total xs + weight_total ys" for xs ys
      by (induction xs) auto
    from this [of "take (Suc i) ws" "drop (Suc i) ws"] show ?thesis
      using weight_total_nonneg [of "drop (Suc i) ws"] by simp
  qed
  have step: "weight_total (take (Suc i) ws) = weight_total (take i ws) + (if sint (ws ! i) > 0 then sint (ws ! i) else 0)"
  proof -
    have "weight_total (xs @ [w]) = weight_total xs + (if sint w > 0 then sint w else 0)" for xs w
      by (induction xs) auto
    then show ?thesis using assms(3) by (simp add: take_Suc_conv_app_nth)
  qed
  have "{n \<in> {0..<weight_total ws}. weighted_walk arms ws n 0 = SplitChosen (arms ! i)} =
      {weight_total (take i ws)..<weight_total (take (Suc i) ws)}"
    using weighted_walk_range [OF assms(1,3,2)] mono weight_total_nonneg [of "take i ws"] by auto
  moreover have "\<exists>j < length ws. 0 < sint (ws ! j) \<and> weighted_walk arms ws n acc = SplitChosen (arms ! j)"
    if "acc \<le> n" "n < acc + weight_total ws" "length arms = length ws" for n acc arms ws
    using that
  proof (induction arms ws n acc rule: weighted_walk.induct)
    case (1 a as w ws n acc)
    show ?case
    proof (cases "0 < sint w \<and> n < acc + sint w")
      case True
      then show ?thesis by (intro exI [of _ 0]) simp
    next
      case False
      let ?acc = "if sint w \<le> 0 then acc else acc + sint w"
      have "\<exists>j < length ws. 0 < sint (ws ! j) \<and> weighted_walk as ws n ?acc = SplitChosen (as ! j)"
        using 1 False by (auto split: if_splits)
      then obtain j where "j < length ws" "0 < sint (ws ! j)" "weighted_walk as ws n ?acc = SplitChosen (as ! j)" by blast
      then show ?thesis using False by (intro exI [of _ "Suc j"]) (auto split: if_splits)
    qed
  qed auto
  ultimately show ?thesis
    using step assms(1) by auto
qed

theorem weighted_split_is_proportional_witness:
  "card {n \<in> {0..<4}. weighted_walk [\<lparr>ch_url = ''a'', ch_id = 1\<rparr>, \<lparr>ch_url = ''b'', ch_id = 2\<rparr>] [1, 3] n 0 =
     SplitChosen \<lparr>ch_url = ''b'', ch_id = 2\<rparr>} = 3"
  using weighted_split_is_proportional [of "[\<lparr>ch_url = ''a'', ch_id = 1\<rparr>, \<lparr>ch_url = ''b'', ch_id = 2\<rparr>]" "[1, 3]" 1]
  by simp

lemma arm_index_positive: "1 \<le> p \<Longrightarrow> arm_index p k = nat ((p - 1) mod int k)"
  by (cases "k = 0") (auto simp: arm_index_def Let_def not_less)

lemma consecutive_residues:
  assumes "0 < k" "0 \<le> (q::int)"
  shows "(\<lambda>i. nat ((q + int i) mod int k)) ` {0..<k} = {0..<k}"
proof -
  have inj: "inj_on (\<lambda>i. nat ((q + int i) mod int k)) {0..<k}"
  proof (rule inj_onI)
    fix i j assume ij: "i \<in> {0..<k}" "j \<in> {0..<k}" and eq: "nat ((q + int i) mod int k) = nat ((q + int j) mod int k)"
    have "(q + int i) mod int k = (q + int j) mod int k"
      using eq assms(1) by (simp add: eq_nat_nat_iff)
    then have "int k dvd (q + int i) - (q + int j)"
      by (simp add: mod_eq_dvd_iff)
    then have d: "int k dvd int i - int j" by simp
    have "\<bar>int i - int j\<bar> < \<bar>int k\<bar>" using ij by auto
    then have "int i - int j = 0"
      using dvd_imp_le_int [OF _ d] by linarith
    then show "i = j" by simp
  qed
  have "(\<lambda>i. nat ((q + int i) mod int k)) ` {0..<k} \<subseteq> {0..<k}"
    using assms(1) by (auto simp: nat_less_iff)
  then show ?thesis
    using inj by (simp add: endo_inj_surj)
qed

text \<open>A sequential split visits its arms in turn: any k consecutive positions of a split of k arms send
  one visitor to each arm, and the first visitor goes to the first arm.\<close>

theorem sequential_split_is_fair:
  assumes "0 < k" "1 \<le> p"
  shows "(\<lambda>i. arm_index (p + int i) k) ` {0..<k} = {0..<k} \<and>
    distinct (map (\<lambda>i. arm_index (p + int i) k) [0..<k]) \<and> arm_index 1 k = 0"
proof -
  have a: "arm_index (p + int i) k = nat ((p - 1 + int i) mod int k)" for i
    using assms(2) arm_index_positive [of "p + int i" k] by (simp add: algebra_simps)
  have img: "(\<lambda>i. arm_index (p + int i) k) ` {0..<k} = {0..<k}"
    unfolding a using consecutive_residues [OF assms(1), of "p - 1"] assms(2) by simp
  then have "inj_on (\<lambda>i. arm_index (p + int i) k) {0..<k}"
    by (simp add: eq_card_imp_inj_on)
  then show ?thesis
    using img by (simp add: distinct_map arm_index_positive)
qed

theorem sequential_split_is_fair_witness:
  "distinct (map (\<lambda>i. arm_index (5 + int i) 3) [0..<3])"
  by (rule sequential_split_is_fair [THEN conjunct2, THEN conjunct1]) simp_all

end
