(* ===== verification/Update.thy ===== *)
theory Update
  imports GoString "HOL-Library.Multiset"
begin

section \<open>The update check\<close>

text \<open>
  \<open>internal/update\<close>: release versions and their order, what is read from the answer of the release
  endpoint, and the daily pass that claims the day, asks, compares and announces; with the announcement
  of \<open>internal/notify\<close>, which keeps one notification per recipient and version. The HTTP exchange and
  the JSON decoder are the value \<open>http_answer\<close> a pass is given; the clock, the operator's setting, the
  holders of the instance permission and the points of failure come with each pass.

  \<open>Version\<close> is a struct of three \<open>int\<close>s: 64-bit words here, subtracted as Go subtracts them. The order
  of the class \<open>linorder\<close> is the order of the three numbers.
\<close>

subsection \<open>Versions\<close>

datatype Version = Version (Major: int64) (Minor: int64) (Patch: int64)

definition Compare :: "Version \<Rightarrow> Version \<Rightarrow> int64" where
  "Compare v w =
     (if Major v \<noteq> Major w then Major v - Major w
      else if Minor v \<noteq> Minor w then Minor v - Minor w
      else Patch v - Patch w)"

definition itoa64 :: "int64 \<Rightarrow> string" where
  "itoa64 n = (if sint n < 0 then CHR ''-'' # itoa_nat (nat (- sint n)) else itoa_nat (nat (sint n)))"

definition Version_String :: "Version \<Rightarrow> string" where
  "Version_String v = itoa64 (Major v) @ ''.'' @ itoa64 (Minor v) @ ''.'' @ itoa64 (Patch v)"

text \<open>One turn of the loop of \<open>ParseVersion\<close>: the separator unless it is the first field, the run of
  digits, its value.\<close>

definition parse_field :: "bool \<Rightarrow> string \<Rightarrow> (int64 \<times> string) option" where
  "parse_field first s =
     (case (if first then Some s else if prefix ''.'' s then Some (drop 1 s) else None) of
        None \<Rightarrow> None
      | Some s1 \<Rightarrow>
          let digits = takeWhile is_digit s1 in
          if length digits = 0 then None
          else (case atoi digits of
                  None \<Rightarrow> None
                | Some n \<Rightarrow> Some (word_of_int n, drop (length digits) s1)))"

definition ParseVersion :: "string \<Rightarrow> Version option" where
  "ParseVersion raw =
     (case parse_field True (trim_prefix ''v'' (trim_space raw)) of
        None \<Rightarrow> None
      | Some (major, s1) \<Rightarrow>
          (case parse_field False s1 of
             None \<Rightarrow> None
           | Some (minor, s2) \<Rightarrow>
               (case parse_field False s2 of
                  None \<Rightarrow> None
                | Some (patch, s3) \<Rightarrow>
                    if s3 \<noteq> '''' \<and> hd s3 \<noteq> CHR ''-'' \<and> hd s3 \<noteq> CHR ''+'' then None
                    else Some (Version major minor patch))))"

definition IsNewer :: "string \<Rightarrow> string \<Rightarrow> Version option" where
  "IsNewer here remote =
     (case ParseVersion here of
        None \<Rightarrow> None
      | Some lv \<Rightarrow>
          (case ParseVersion remote of
             None \<Rightarrow> None
           | Some rv \<Rightarrow> if sint (Compare rv lv) \<le> 0 then None else Some rv))"

definition UserAgent :: "string \<Rightarrow> string" where
  "UserAgent version = ''LinkCtrl/'' @ (if version = '''' then ''unknown'' else version)"

subsection \<open>The answer of the endpoint\<close>

record Release =
  rl_tag_name :: string
  rl_draft :: bool
  rl_prerelease :: bool

text \<open>The exchange failed, or an answer came with a status and a body that decodes or not.\<close>

datatype http_answer = NoAnswer | Answer nat "Release option"

datatype latest_error = ErrNoRelease | ErrRequest

definition Latest :: "http_answer \<Rightarrow> latest_error + Release" where
  "Latest a =
     (case a of
        NoAnswer \<Rightarrow> Inl ErrRequest
      | Answer status body \<Rightarrow>
          if status = 404 then Inl ErrNoRelease
          else if status < 200 \<or> status > 299 then Inl ErrRequest
          else (case body of
                  None \<Rightarrow> Inl ErrRequest
                | Some rel \<Rightarrow>
                    if rl_draft rel \<or> rl_prerelease rel then Inl ErrNoRelease
                    else if trim_space (rl_tag_name rel) = '''' then Inl ErrNoRelease
                    else Inr rel))"

subsection \<open>The announcement\<close>

text \<open>The notifications of kind \<open>update_available\<close>, as recipient and version. Per recipient, counting
  may fail and inserting may fail before or after the row was written.\<close>

datatype notify_fault = NoFault | CountFails | InsertFails bool

type_synonym told = "(uuid \<times> string) list"

definition announce_to :: "string \<Rightarrow> uuid \<times> notify_fault \<Rightarrow> bool \<times> told \<Rightarrow> bool \<times> told" where
  "announce_to available h acc =
     (case acc of (failed, rows) \<Rightarrow>
      case h of (user, fault) \<Rightarrow>
        if fault = CountFails then (True, rows)
        else if count_list rows (user, available) > 0 then (failed, rows)
        else (case fault of
                InsertFails written \<Rightarrow> (True, if written then (user, available) # rows else rows)
              | _ \<Rightarrow> (failed, (user, available) # rows)))"

text \<open>\<open>holders\<close> is the list of the principals, \<open>None\<close> when reading it failed. The answer is whether an
  error is returned.\<close>

definition AnnounceRelease :: "(uuid \<times> notify_fault) list option \<Rightarrow> string \<Rightarrow> told \<Rightarrow> bool \<times> told" where
  "AnnounceRelease holders available rows =
     (if available = '''' then (True, rows)
      else case holders of
        None \<Rightarrow> (True, rows)
      | Some hs \<Rightarrow> fold (announce_to available) hs (False, rows))"

subsection \<open>The daily pass\<close>

definition Interval :: duration where "Interval = 24 * 60 * minute_ns"

record update_settings =
  us_enabled :: "bool option"
  us_checked_at :: "instant option"

definition ClaimUpdateCheck :: "instant \<Rightarrow> instant \<Rightarrow> update_settings \<Rightarrow> nat \<times> update_settings" where
  "ClaimUpdateCheck now not_since s =
     (if us_enabled s = Some True \<and> (case us_checked_at s of None \<Rightarrow> True | Some t \<Rightarrow> t \<le> not_since)
      then (1, s\<lparr>us_checked_at := Some now\<rparr>)
      else (0, s))"

record update_service =
  up_version :: string
  up_interval :: duration
  up_announces :: bool

text \<open>What one pass meets: its clock, a claim that fails before or after taking effect, the answer, the
  recipients.\<close>

record update_pass =
  ps_now :: instant
  ps_claim_fails :: "bool option"
  ps_answer :: http_answer
  ps_holders :: "(uuid \<times> notify_fault) list option"

text \<open>The state: the settings row, the notifications, and the instants requests were sent at, newest
  first.\<close>

record update_state =
  st_settings :: update_settings
  st_told :: told
  st_requests :: "instant list"

datatype run_result = RunOk | RunClaimError | RunAnnounceError

definition Run :: "update_service \<Rightarrow> update_pass \<Rightarrow> update_state \<Rightarrow> run_result \<times> update_state" where
  "Run sv p st =
     (case ClaimUpdateCheck (ps_now p) (ps_now p - up_interval sv) (st_settings st) of
        (claimed, settings) \<Rightarrow>
          (case ps_claim_fails p of
             Some applied \<Rightarrow> (RunClaimError, if applied then st\<lparr>st_settings := settings\<rparr> else st)
           | None \<Rightarrow>
               if claimed = 0 then (RunOk, st)
               else
                 let st1 = st\<lparr>st_settings := settings, st_requests := ps_now p # st_requests st\<rparr> in
                 (case Latest (ps_answer p) of
                    Inl _ \<Rightarrow> (RunOk, st1)
                  | Inr rel \<Rightarrow>
                      (case IsNewer (up_version sv) (rl_tag_name rel) of
                         None \<Rightarrow> (RunOk, st1)
                       | Some newer \<Rightarrow>
                           if \<not> up_announces sv then (RunOk, st1)
                           else (case AnnounceRelease (ps_holders p) (Version_String newer) (st_told st1) of
                                   (failed, rows) \<Rightarrow>
                                     (if failed then RunAnnounceError else RunOk, st1\<lparr>st_told := rows\<rparr>))))))"

subsection \<open>The order of versions\<close>

instantiation Version :: linorder
begin

definition less_eq_Version :: "Version \<Rightarrow> Version \<Rightarrow> bool" where
  "v \<le> w \<longleftrightarrow> sint (Major v) < sint (Major w) \<or> Major v = Major w
     \<and> (sint (Minor v) < sint (Minor w) \<or> Minor v = Minor w \<and> sint (Patch v) \<le> sint (Patch w))"

definition less_Version :: "Version \<Rightarrow> Version \<Rightarrow> bool" where
  "v < w \<longleftrightarrow> v \<le> w \<and> \<not> w \<le> (v :: Version)"

instance
proof
  fix u v w :: Version
  show "v < w \<longleftrightarrow> v \<le> w \<and> \<not> w \<le> v" by (simp add: less_Version_def)
  show "v \<le> v" by (simp add: less_eq_Version_def)
  show "u \<le> v \<Longrightarrow> v \<le> w \<Longrightarrow> u \<le> w" by (auto simp: less_eq_Version_def)
  show "v \<le> w \<Longrightarrow> w \<le> v \<Longrightarrow> v = w"
    by (cases v; cases w) (auto simp: less_eq_Version_def dest: signed_word_eqI)
  show "v \<le> w \<or> w \<le> v"
    by (auto simp: less_eq_Version_def) (metis linorder_neqE_linordered_idom signed_word_eqI)+
qed

end

definition natural_version :: "Version \<Rightarrow> bool" where
  "natural_version v \<longleftrightarrow> 0 \<le> sint (Major v) \<and> 0 \<le> sint (Minor v) \<and> 0 \<le> sint (Patch v)"

lemma sint_word_of_int64: "- (2 ^ 63) \<le> n \<Longrightarrow> n < 2 ^ 63 \<Longrightarrow> sint (word_of_int n :: int64) = n"
  by (simp add: sint_sbintrunc' signed_take_bit_int_eq_self)

lemma sint64_range: "- (2 ^ 63) \<le> sint (n :: int64)" "sint (n :: int64) < 2 ^ 63"
  using sint_ge [of n] sint_lt [of n] by simp_all

lemma natural_difference:
  assumes "0 \<le> sint (a :: int64)" "0 \<le> sint (b :: int64)"
  shows "sint (a - b) = sint a - sint b"
proof -
  have "a - b = word_of_int (sint a - sint b)" by simp
  then show ?thesis
    using sint_word_of_int64 [of "sint a - sint b"] sint64_range [of a] sint64_range [of b] assms by simp
qed

lemma Compare_order:
  assumes "natural_version v" "natural_version w"
  shows "sint (Compare v w) \<le> 0 \<longleftrightarrow> v \<le> w"
proof -
  have d: "sint a \<noteq> sint b" if "a \<noteq> b" for a b :: int64 using that signed_word_eqI by blast
  show ?thesis
    using assms d [of "Major v" "Major w"] d [of "Minor v" "Minor w"]
    by (auto simp: Compare_def less_eq_Version_def natural_version_def natural_difference)
qed

lemma parse_field_natural: "parse_field first s = Some (n, rest) \<Longrightarrow> 0 \<le> sint n"
proof -
  assume a: "parse_field first s = Some (n, rest)"
  then obtain s1 k where k: "atoi (takeWhile is_digit s1) = Some k" "n = word_of_int k" "takeWhile is_digit s1 \<noteq> []"
    by (auto simp: parse_field_def Let_def split: if_splits option.splits)
  have "is_digit (hd (takeWhile is_digit s1))" using k(3) by (metis list.set_sel(1) set_takeWhileD)
  then have "hd (takeWhile is_digit s1) \<noteq> CHR ''-'' \<and> hd (takeWhile is_digit s1) \<noteq> CHR ''+''"
    by (auto simp: is_digit_def code_def)
  with k have "0 \<le> k \<and> k < 2 ^ 63"
    by (cases "takeWhile is_digit s1") (auto simp: atoi_def Let_def split: if_splits)
  then show ?thesis using sint_word_of_int64 [of k] k(2) by simp
qed

lemma ParseVersion_natural: "ParseVersion s = Some v \<Longrightarrow> natural_version v"
  by (auto simp: ParseVersion_def natural_version_def dest: parse_field_natural split: option.splits prod.splits if_splits)

text \<open>The check calls a release newer exactly when both texts are versions and the released one is
  greater in the order of the three numbers: the differences \<open>Compare\<close> computes in 64 bits never
  overflow on parsed versions, and a text that is not a version is never newer nor older.\<close>

theorem IsNewer_iff:
  "IsNewer here remote = Some v
   \<longleftrightarrow> (\<exists>u. ParseVersion here = Some u \<and> ParseVersion remote = Some v \<and> u < v)"
  using Compare_order ParseVersion_natural
  by (fastforce simp: IsNewer_def not_le split: option.splits if_splits)

subsection \<open>Printing and parsing\<close>

lemma atoi_itoa: "0 \<le> sint n \<Longrightarrow> atoi (itoa64 n) = Some (sint n)"
proof -
  assume n: "0 \<le> sint n"
  obtain c cs where c: "itoa_nat (nat (sint n)) = c # cs" "list_all is_digit (c # cs)"
    using itoa_nat_digits [of "nat (sint n)"] by (cases "itoa_nat (nat (sint n))") auto
  moreover have "c \<noteq> CHR ''-'' \<and> c \<noteq> CHR ''+''" using c(2) by (auto simp: is_digit_def code_def)
  moreover have "digits_value (c # cs) = nat (sint n)" using digits_value_itoa [of "nat (sint n)"] c(1) by simp
  ultimately show ?thesis using n sint64_range [of n] by (simp add: atoi_def itoa64_def Let_def)
qed

lemma itoa64_digits: "0 \<le> sint n \<Longrightarrow> list_all is_digit (itoa64 n) \<and> itoa64 n \<noteq> ''''"
  using itoa_nat_digits by (simp add: itoa64_def)

lemma parse_printed_field:
  assumes "0 \<le> sint n" "s = '''' \<or> \<not> is_digit (hd s)"
  shows "parse_field True (itoa64 n @ s) = Some (n, s)" "parse_field False (''.'' @ itoa64 n @ s) = Some (n, s)"
  using takeWhile_digits [of "itoa64 n" s] itoa64_digits [OF assms(1)] atoi_itoa [OF assms(1)] assms
  by (simp_all add: parse_field_def Let_def)

text \<open>The characters of a version and of a plain suffix: no spaces, nothing beyond ASCII.\<close>

definition plain :: "string \<Rightarrow> bool" where
  "plain s \<longleftrightarrow> (\<forall>x \<in> set s. code x < 128 \<and> \<not> space1 x)"

lemma plain_append: "plain (a @ b) \<longleftrightarrow> plain a \<and> plain b"
  by (auto simp: plain_def)

lemma plain_digits: "list_all is_digit ds \<Longrightarrow> plain ds"
  by (auto simp: plain_def list_all_iff is_digit_def space1_def)

lemma ParseVersion_printed:
  assumes v: "natural_version v" and rest: "plain rest" "rest = '''' \<or> hd rest = CHR ''-'' \<or> hd rest = CHR ''+''"
    and pre: "pre = '''' \<or> pre = ''v''"
  shows "ParseVersion (pre @ Version_String v @ rest) = Some v"
proof -
  have n: "0 \<le> sint (Major v)" "0 \<le> sint (Minor v)" "0 \<le> sint (Patch v)"
    using v by (simp_all add: natural_version_def)
  have dots: "plain ''.''" "plain ''v''" by (simp_all add: plain_def space1_def code_def)
  have "plain (pre @ Version_String v @ rest)"
    using pre rest(1) dots plain_digits itoa64_digits n
    by (auto simp: Version_String_def plain_append simp del: append_Cons append_Nil)
  then have trim: "trim_space (pre @ Version_String v @ rest) = pre @ Version_String v @ rest"
    unfolding plain_def by (rule trim_space_fixed)
  have no_v: "\<not> prefix ''v'' (Version_String v @ rest)"
  proof -
    obtain c cs where "itoa64 (Major v) = c # cs" "is_digit c"
      using itoa64_digits [OF n(1)] by (cases "itoa64 (Major v)") auto
    then show ?thesis by (auto simp: Version_String_def is_digit_def code_def)
  qed
  have "trim_prefix ''v'' (pre @ Version_String v @ rest) = Version_String v @ rest"
    using pre no_v by (auto simp: trim_prefix_def)
  moreover have "\<not> is_digit (CHR ''.'')" by (simp add: is_digit_def code_def)
  moreover have "rest = '''' \<or> \<not> is_digit (hd rest)" using rest(2) by (auto simp: is_digit_def code_def)
  ultimately show ?thesis
    using trim rest(2) parse_printed_field(1) [OF n(1)] parse_printed_field(2) [OF n(2)] parse_printed_field(2) [OF n(3), of rest]
    by (cases v) (auto simp: ParseVersion_def Version_String_def)
qed

text \<open>A version printed by \<open>Version.String\<close> parses back to itself, with or without a leading \<open>v\<close>, and so
  does it followed by a suffix separated with a dash or a plus (what \<open>git describe\<close> adds to a tag).\<close>

theorem ParseVersion_String:
  assumes "natural_version v" "plain rest" "rest = '''' \<or> hd rest = CHR ''-'' \<or> hd rest = CHR ''+''"
  shows "ParseVersion (Version_String v @ rest) = Some v \<and> ParseVersion (''v'' @ Version_String v @ rest) = Some v"
  using ParseVersion_printed [OF assms, of "''''"] ParseVersion_printed [OF assms, of "''v''"] by simp

theorem ParseVersion_String_witness:
  "ParseVersion (''v'' @ Version_String (Version 0 2 0) @ ''-39-g888dbcd'') = Some (Version 0 2 0)"
  by (rule ParseVersion_String [THEN conjunct2])
    (simp_all add: natural_version_def plain_def space1_def code_def)

subsection \<open>The pass over days\<close>

definition NewService :: "string \<Rightarrow> duration \<Rightarrow> bool \<Rightarrow> update_service" where
  "NewService version interval announces =
     \<lparr>up_version = version, up_interval = (if interval \<le> 0 then Interval else interval), up_announces = announces\<rparr>"

text \<open>What happens to an instance: a pass of the scheduler (of any replica), or the operator's answer to
  the question whether to check.\<close>

datatype update_event = Pass update_pass | SetEnabled "bool option"

fun update_step :: "update_service \<Rightarrow> update_event \<Rightarrow> update_state \<Rightarrow> update_state option" where
  "update_step sv (Pass p) st = Some (snd (Run sv p st))"
| "update_step sv (SetEnabled b) st = Some (st\<lparr>st_settings := (st_settings st)\<lparr>us_enabled := b\<rparr>\<rparr>)"

definition new_instance :: update_state where
  "new_instance = \<lparr>st_settings = \<lparr>us_enabled = None, us_checked_at = None\<rparr>, st_told = [], st_requests = []\<rparr>"

definition spaced :: "duration \<Rightarrow> instant list \<Rightarrow> bool" where
  "spaced gap ts \<longleftrightarrow> sorted_wrt (\<lambda>later earlier. earlier + gap \<le> later) ts"

definition newer_than :: "string \<Rightarrow> string \<Rightarrow> bool" where
  "newer_than running text \<longleftrightarrow>
     (\<exists>u w. ParseVersion running = Some u \<and> text = Version_String w \<and> u < w)"

definition update_good :: "update_service \<Rightarrow> update_state \<Rightarrow> bool" where
  "update_good sv st \<longleftrightarrow>
     spaced (up_interval sv) (st_requests st)
     \<and> (\<forall>t \<in> set (st_requests st). \<exists>c. us_checked_at (st_settings st) = Some c \<and> t \<le> c)
     \<and> distinct (st_told st) \<and> (\<forall>r \<in> set (st_told st). newer_than (up_version sv) (snd r))"

lemma announce_good:
  assumes "newer_than running available"
  shows "distinct rows \<Longrightarrow> \<forall>r \<in> set rows. newer_than running (snd r)
    \<Longrightarrow> distinct (snd (fold (announce_to available) hs (failed, rows)))
      \<and> (\<forall>r \<in> set (snd (fold (announce_to available) hs (failed, rows))). newer_than running (snd r))"
proof (induction hs arbitrary: failed rows)
  case (Cons h hs)
  obtain failed' rows' where a: "announce_to available h (failed, rows) = (failed', rows')" by fastforce
  have "distinct rows' \<and> (\<forall>r \<in> set rows'. newer_than running (snd r))"
    using a Cons.prems assms
    by (auto simp: announce_to_def count_list_0_iff split: prod.splits if_splits notify_fault.splits)
  with Cons.IH [of rows' failed'] a show ?case by simp
qed simp

lemma claim_good:
  assumes "update_good sv st" "0 < up_interval sv"
    and "ClaimUpdateCheck now (now - up_interval sv) (st_settings st) = (n, s)"
  shows "update_good sv (st\<lparr>st_settings := s\<rparr>)"
    "n \<noteq> 0 \<Longrightarrow> update_good sv (st\<lparr>st_settings := s, st_requests := now # st_requests st\<rparr>)"
  using assms by (fastforce simp: ClaimUpdateCheck_def update_good_def spaced_def split: if_splits option.splits)+

lemma told_good:
  assumes "update_good sv st" "newer_than (up_version sv) available" "AnnounceRelease holders available (st_told st) = (f, rows)"
  shows "update_good sv (st\<lparr>st_told := rows\<rparr>)"
  using assms announce_good [OF assms(2), of "st_told st" "the holders" False]
  by (auto simp: AnnounceRelease_def update_good_def split: if_splits option.splits)

lemma Run_good:
  assumes "update_good sv st" "0 < up_interval sv"
  shows "update_good sv (snd (Run sv p st))"
proof -
  obtain n s where c: "ClaimUpdateCheck (ps_now p) (ps_now p - up_interval sv) (st_settings st) = (n, s)" by fastforce
  note g = claim_good [OF assms c]
  let ?st1 = "st\<lparr>st_settings := s, st_requests := ps_now p # st_requests st\<rparr>"
  have "update_good sv (?st1\<lparr>st_told := rows\<rparr>)"
    if "n \<noteq> 0" "IsNewer (up_version sv) tag = Some newer"
      "AnnounceRelease holders (Version_String newer) (st_told ?st1) = (f, rows)" for tag newer holders f rows
  proof (rule told_good [OF g(2) [OF that(1)] _ that(3)])
    show "newer_than (up_version sv) (Version_String newer)"
      using that(2) Compare_order ParseVersion_natural
      by (fastforce simp: newer_than_def IsNewer_def not_le split: option.splits if_splits)
  qed
  then show ?thesis
    using assms(1) g
    by (auto simp: Run_def c Let_def split: option.splits sum.splits prod.splits)
qed

lemma update_step_good:
  assumes "update_good (NewService version interval announces) st"
  shows "\<exists>st'. update_step (NewService version interval announces) e st = Some st'
     \<and> update_good (NewService version interval announces) st'"
proof (cases e)
  case (Pass p)
  have "0 < up_interval (NewService version interval announces)"
    by (simp add: NewService_def Interval_def duration_defs)
  with Pass Run_good [OF assms] show ?thesis by simp
qed (use assms in \<open>fastforce simp: update_good_def\<close>)

interpretation update_check: invariant_machine
  "update_step (NewService version interval announces)" "update_good (NewService version interval announces)"
  for version interval announces
  by unfold_locales (rule update_step_good)

text \<open>Over any sequence of passes of any replicas and of changes of the setting, with claims, requests
  and notifications that fail at any point, two requests are at least the interval apart, nobody is told
  twice of one version, nobody is told of a version that is not newer than the running one, and a pass
  on an instance whose operator has not said yes sends and tells nothing.\<close>

theorem update_check_at_most_daily:
  "\<exists>st. run_machine (update_step (NewService version interval announces)) events new_instance = Some st
     \<and> spaced (up_interval (NewService version interval announces)) (st_requests st)
     \<and> distinct (st_told st) \<and> list_all (\<lambda>r. newer_than version (snd r)) (st_told st)
     \<and> (us_enabled (st_settings st) = Some True
        \<or> snd (Run (NewService version interval announces) p st) = st)"
proof -
  let ?sv = "NewService version interval announces"
  have "update_good ?sv new_instance" by (simp add: update_good_def new_instance_def spaced_def)
  from update_check.run_good [OF this, of events] obtain st
    where st: "run_machine (update_step ?sv) events new_instance = Some st" "update_good ?sv st"
    by blast
  have "us_enabled (st_settings st) = Some True \<or> snd (Run ?sv p st) = st"
    by (auto simp: Run_def ClaimUpdateCheck_def split: option.splits)
  with st show ?thesis by (auto simp: update_good_def list_all_iff NewService_def)
qed

end
