(* ===== verification/Totp.thy ===== *)
theory Totp
  imports Signature
begin

section \<open>Time-based one-time codes\<close>

text \<open>
  \<open>internal/auth/totp.go\<close>: SHA-1 and HMAC-SHA-1 as \<open>crypto/sha1\<close> and \<open>crypto/hmac\<close> compute them,
  base32 as \<open>encoding/base32\<close> writes and reads it without padding, the step of an instant, the code of
  a step and the verification over the accepted window. Steps are 64-bit words, so the counter of a
  clock before 1970 wraps as the source says. A secret is read as runes: \<open>strings.ToUpper\<close> maps the
  ASCII letters and the two other runes whose upper case is ASCII; the rest of its table never yields
  a character of the alphabet and is left out.
\<close>

definition TOTPPeriod :: duration where "TOTPPeriod = 30 * second_ns"
definition TOTPDigits :: nat where "TOTPDigits = 6"
definition TOTPSkew :: nat where "TOTPSkew = 1"
definition TOTPSecretBytes :: nat where "TOTPSecretBytes = 20"

subsection \<open>SHA-1\<close>

text \<open>The round constants are the integer parts of the square roots of 2, 3, 5 and 10 scaled by a power
  of two; the chaining value is the byte pattern of FIPS 180-4, counting up and then down.\<close>

definition sha1_k :: "nat \<Rightarrow> 32 word" where
  "sha1_k i = word_of_nat (root_digits 2 ((if i < 20 then 2 else if i < 40 then 3 else if i < 60 then 5 else 10) * 2 ^ 60) 40 0)"

definition sha1_f :: "nat \<Rightarrow> 32 word \<Rightarrow> 32 word \<Rightarrow> 32 word \<Rightarrow> 32 word" where
  "sha1_f i b c d =
     (if i < 20 then (b AND c) OR (NOT b AND d)
      else if 40 \<le> i \<and> i < 60 then (b AND c) OR (b AND d) OR (c AND d)
      else b XOR c XOR d)"

definition sha1_init :: "32 word list" where
  "sha1_init = map be32 [[0x67, 0x45, 0x23, 0x01], [0xef, 0xcd, 0xab, 0x89], [0x98, 0xba, 0xdc, 0xfe],
                         [0x10, 0x32, 0x54, 0x76], [0xc3, 0xd2, 0xe1, 0xf0]]"

fun sha1_schedule :: "nat \<Rightarrow> 32 word list \<Rightarrow> 32 word list" where
  "sha1_schedule 0 w = rev w"
| "sha1_schedule (Suc n) w = sha1_schedule n (word_rotl 1 (w ! 2 XOR w ! 7 XOR w ! 13 XOR w ! 15) # w)"

fun sha1_round :: "32 word list \<Rightarrow> nat \<times> 32 word \<Rightarrow> 32 word list" where
  "sha1_round [a, b, c, d, e] (i, w) =
     [word_rotl 5 a + sha1_f i b c d + e + w + sha1_k i, a, word_rotl 30 b, c, d]"
| "sha1_round s _ = s"

definition sha1_block :: "32 word list \<Rightarrow> bytes \<Rightarrow> 32 word list" where
  "sha1_block s b =
     map2 (+) s (foldl sha1_round s (zip [0..<80] (sha1_schedule 64 (rev (map be32 (chunks 4 b))))))"

definition sha1 :: "bytes \<Rightarrow> bytes" where
  "sha1 bs = concat (map (\<lambda>w. be_bytes 4 (unat w)) (foldl sha1_block sha1_init (chunks 64 (sha_pad bs))))"

definition hmac_sha1 :: "bytes \<Rightarrow> bytes \<Rightarrow> bytes" where
  "hmac_sha1 k m =
     (let k' = (if length k > 64 then sha1 k else k); kp = k' @ replicate (64 - length k') 0
      in sha1 (map (\<lambda>b. b XOR 0x5c) kp @ sha1 (map (\<lambda>b. b XOR 0x36) kp @ m)))"

subsection \<open>Base32\<close>

definition b32_alphabet :: string where "b32_alphabet = ''ABCDEFGHIJKLMNOPQRSTUVWXYZ234567''"

definition b32_value :: "nat \<Rightarrow> nat option" where
  "b32_value r =
     (if 65 \<le> r \<and> r \<le> 90 then Some (r - 65) else if 50 \<le> r \<and> r \<le> 55 then Some (r - 50 + 26) else None)"

fun quintets :: "nat list \<Rightarrow> nat list" where
  "quintets (a # b # c # d # e # rest) =
     (a div 8) # (a mod 8 * 4 + b div 64) # (b div 2 mod 32) # (b mod 2 * 16 + c div 16)
     # (c mod 16 * 2 + d div 128) # (d div 4 mod 32) # (d mod 4 * 8 + e div 32) # (e mod 32) # quintets rest"
| "quintets [a, b, c, d] =
     [a div 8, a mod 8 * 4 + b div 64, b div 2 mod 32, b mod 2 * 16 + c div 16, c mod 16 * 2 + d div 128,
      d div 4 mod 32, d mod 4 * 8]"
| "quintets [a, b, c] =
     [a div 8, a mod 8 * 4 + b div 64, b div 2 mod 32, b mod 2 * 16 + c div 16, c mod 16 * 2]"
| "quintets [a, b] = [a div 8, a mod 8 * 4 + b div 64, b div 2 mod 32, b mod 2 * 16]"
| "quintets [a] = [a div 8, a mod 8 * 4]"
| "quintets [] = []"

text \<open>The bytes a group of eight digits stands for. Of a last group only the bytes its length completes are
  written; a last group of one, three or six digits writes none, and is not an error.\<close>

definition group_bytes :: "nat list \<Rightarrow> nat list" where
  "group_bytes ds =
     (let v = (\<lambda>i. if i < length ds then ds ! i else 0);
          b0 = (v 0 * 8 + v 1 div 4) mod 256; b1 = (v 1 * 64 + v 2 * 2 + v 3 div 16) mod 256;
          b2 = (v 3 * 16 + v 4 div 2) mod 256; b3 = (v 4 * 128 + v 5 * 4 + v 6 div 8) mod 256;
          b4 = (v 6 * 32 + v 7) mod 256
      in if length ds = 8 then [b0, b1, b2, b3, b4]
         else if length ds = 7 then [b0, b1, b2, b3]
         else if length ds = 5 then [b0, b1, b2]
         else if length ds = 4 then [b0, b1]
         else if length ds = 2 then [b0]
         else [])"

fun b32_values :: "nat list \<Rightarrow> nat list option" where
  "b32_values [] = Some []"
| "b32_values (r # rs) =
     (case b32_value r of None \<Rightarrow> None | Some v \<Rightarrow> map_option (Cons v) (b32_values rs))"

definition base32_encode :: "bytes \<Rightarrow> string" where
  "base32_encode bs = map (\<lambda>v. b32_alphabet ! v) (quintets (map unat bs))"

definition base32_decode :: "nat list \<Rightarrow> bytes option" where
  "base32_decode rs =
     map_option (\<lambda>vs. map word_of_nat (concat (map group_bytes (chunks 8 vs))))
       (b32_values (filter (\<lambda>r. r \<noteq> 10 \<and> r \<noteq> 13) rs))"

subsection \<open>Codes\<close>

definition upper_rune :: "nat \<Rightarrow> nat" where
  "upper_rune r = (if 97 \<le> r \<and> r \<le> 122 then r - 32 else if r = 305 then 73 else if r = 383 then 83 else r)"

definition decodeTOTPSecret :: "string \<Rightarrow> bytes option" where
  "decodeTOTPSecret secret =
     (let rs = filter (\<lambda>r. r \<noteq> 32) (map upper_rune (runes (trim_space secret)));
          rs = rev (dropWhile (\<lambda>r. r = 61) (rev rs))
      in case base32_decode rs of
           None \<Rightarrow> None
         | Some key \<Rightarrow> if length key = 0 then None else Some key)"

text \<open>Go's division truncates towards zero.\<close>

definition TOTPStep :: "instant \<Rightarrow> int64" where
  "TOTPStep t =
     (let s = unix_seconds t; p = TOTPPeriod div second_ns
      in word_of_int (if s < 0 then - ((- s) div p) else s div p))"

definition TOTPCode :: "string \<Rightarrow> int64 \<Rightarrow> string option" where
  "TOTPCode secret step =
     (case decodeTOTPSecret secret of
        None \<Rightarrow> None
      | Some key \<Rightarrow>
          let counter = be_bytes 8 (unat step); total_mac = hmac_sha1 key counter;
              offset = unat (total_mac ! (length total_mac - 1) AND 0x0f);
              truncated = be32 (take 4 (drop offset total_mac)) AND 0x7fffffff;
              digits = itoa_nat (unat truncated mod 10 ^ TOTPDigits)
          in Some (replicate (TOTPDigits - length digits) (CHR ''0'') @ digits))"

definition stepsAt :: "int64 \<Rightarrow> nat \<Rightarrow> int64 list" where
  "stepsAt current offset =
     (if offset = 0 then [current] else [current - word_of_nat offset, current + word_of_nat offset])"

text \<open>The loops: the outer option ends the search, the inner one is the step that matched.\<close>

fun verify_steps :: "string \<Rightarrow> string \<Rightarrow> int64 list \<Rightarrow> int64 option option" where
  "verify_steps secret presented [] = None"
| "verify_steps secret presented (candidate # rest) =
     (case TOTPCode secret candidate of
        None \<Rightarrow> Some None
      | Some want \<Rightarrow>
          if want = presented then Some (Some candidate) else verify_steps secret presented rest)"

fun verify_offsets :: "string \<Rightarrow> string \<Rightarrow> int64 \<Rightarrow> nat list \<Rightarrow> int64 option" where
  "verify_offsets secret presented current [] = None"
| "verify_offsets secret presented current (offset # rest) =
     (case verify_steps secret presented (stepsAt current offset) of
        Some res \<Rightarrow> res
      | None \<Rightarrow> verify_offsets secret presented current rest)"

definition TOTPVerify :: "string \<Rightarrow> string \<Rightarrow> instant \<Rightarrow> int64 option" where
  "TOTPVerify secret raw now =
     (let presented = trim_space raw in
      if length presented \<noteq> TOTPDigits then None
      else verify_offsets secret presented (TOTPStep now) [0..<Suc TOTPSkew])"

definition NewTOTPSecret :: "bytes option \<Rightarrow> string option" where
  "NewTOTPSecret random = map_option base32_encode random"

text \<open>\<open>url.PathEscape\<close>: the unreserved characters and those a path segment may hold are kept.\<close>

definition path_escape :: "string \<Rightarrow> string" where
  "path_escape s =
     concat (map (\<lambda>c. if 97 \<le> code c \<and> code c \<le> 122 \<or> 65 \<le> code c \<and> code c \<le> 90 \<or> is_digit c
                         \<or> c \<in> set ''-_.~$&+=:@'' then [c]
                      else [CHR ''%'', hex_digit (code c div 16), hex_digit (code c mod 16)]) s)"

definition TOTPURI :: "string \<Rightarrow> string \<Rightarrow> string \<Rightarrow> string" where
  "TOTPURI issuer account secret =
     ''otpauth://totp/'' @ path_escape issuer @ '':'' @ path_escape account @ ''?''
     @ encode_values [(''secret'', secret), (''issuer'', issuer), (''algorithm'', ''SHA1''),
                      (''digits'', itoa_nat TOTPDigits), (''period'', itoa_nat (nat (TOTPPeriod div second_ns)))]"

subsection \<open>Lengths\<close>

lemma length_be_bytes [simp]: "length (be_bytes n x) = n"
  by (simp add: be_bytes_def)

lemma length_sha1_round: "length (sha1_round s x) = length s"
  by (cases "(s, x)" rule: sha1_round.cases) (simp_all add: Let_def)

lemma length_sha1_schedule: "length (sha1_schedule n w) = n + length w"
  by (induction n arbitrary: w) auto

lemma length_foldl: "(\<And>s x. length (f s x) = length s) \<Longrightarrow> length (foldl f s xs) = length s"
  by (induction xs arbitrary: s) auto

lemma length_sha1_block: "length (sha1_block s b) = length s"
  by (simp add: sha1_block_def length_foldl length_sha1_round)

lemma length_sha1: "length (sha1 bs) = 20"
proof -
  have "length (foldl sha1_block sha1_init (chunks 64 (sha_pad bs))) = 5"
    by (simp add: length_foldl length_sha1_block) (simp add: sha1_init_def)
  then show ?thesis by (simp add: sha1_def length_concat comp_def sum_list_triv)
qed

lemma itoa_nat_short: "n < 10 ^ k \<Longrightarrow> 0 < k \<Longrightarrow> length (itoa_nat n) \<le> k"
proof (induction n arbitrary: k rule: itoa_nat.induct)
  case (1 n)
  show ?case
  proof (cases "n < 10")
    case True
    then show ?thesis using "1.prems" by (subst itoa_nat.simps) simp
  next
    case False
    then obtain j where k: "k = Suc j" "0 < j" using "1.prems" by (cases k; cases "k - 1") auto
    then have "n div 10 < 10 ^ j" using "1.prems" by (simp add: div_less_iff_less_mult mult.commute)
    with "1.IH" [OF False this k(2)] k False show ?thesis by (subst itoa_nat.simps) simp
  qed
qed

lemma TOTPCode_shape:
  "TOTPCode secret step = Some c \<Longrightarrow> length c = TOTPDigits \<and> list_all is_digit c"
proof -
  assume a: "TOTPCode secret step = Some c"
  then obtain n where c: "c = replicate (TOTPDigits - length (itoa_nat (n mod 10 ^ TOTPDigits))) (CHR ''0'')
      @ itoa_nat (n mod 10 ^ TOTPDigits)"
    by (auto simp: TOTPCode_def Let_def split: option.splits)
  have "length (itoa_nat (n mod 10 ^ TOTPDigits)) \<le> TOTPDigits"
    by (rule itoa_nat_short) (simp_all add: TOTPDigits_def)
  then show ?thesis
    using itoa_nat_digits [of "n mod 10 ^ TOTPDigits"] by (auto simp: c list_all_iff is_digit_def code_def)
qed

text \<open>A code is six decimal digits, for every secret that decodes and every 64-bit step, and the four bytes
  dynamic truncation reads are inside the twenty bytes of the digest.\<close>

theorem TOTPCode_six_digits:
  "(case TOTPCode secret step of
      None \<Rightarrow> decodeTOTPSecret secret = None
    | Some c \<Rightarrow> length c = TOTPDigits \<and> list_all is_digit c)
   \<and> unat (hmac_sha1 key msg ! 19 AND 0x0f) + 4 \<le> length (hmac_sha1 key msg)"
proof -
  have "unat ((b :: 8 word) AND 0x0f) \<le> 15" for b
    using word_and_le1 [of b "0x0f"] by (simp add: word_le_nat_alt)
  from this [of "hmac_sha1 key msg ! 19"]
  have "unat (hmac_sha1 key msg ! 19 AND 0x0f) + 4 \<le> 20" by linarith
  moreover have "length (hmac_sha1 key msg) = 20" by (simp add: hmac_sha1_def Let_def length_sha1)
  moreover have "TOTPCode secret step = None \<Longrightarrow> decodeTOTPSecret secret = None"
    by (auto simp: TOTPCode_def Let_def split: option.splits)
  ultimately show ?thesis using TOTPCode_shape [of secret step] by (auto split: option.split)
qed

subsection \<open>Verification\<close>

lemma verify_steps_find:
  assumes "decodeTOTPSecret secret \<noteq> None"
  shows "verify_steps secret p cs = map_option Some (find (\<lambda>s. TOTPCode secret s = Some p) cs)"
proof (induction cs)
  case (Cons c cs)
  obtain w where "TOTPCode secret c = Some w" using assms by (auto simp: TOTPCode_def Let_def)
  with Cons show ?case by simp
qed simp

lemma verify_find: "TOTPVerify secret raw now =
   find (\<lambda>s. TOTPCode secret s = Some (trim_space raw)) [TOTPStep now, TOTPStep now - 1, TOTPStep now + 1]"
proof (cases "decodeTOTPSecret secret = None")
  case True
  then have "TOTPCode secret s = None" for s by (simp add: TOTPCode_def)
  then show ?thesis by (simp add: TOTPVerify_def stepsAt_def TOTPSkew_def Let_def)
next
  case False
  note f = verify_steps_find [OF False]
  show ?thesis
  proof (cases "length (trim_space raw) = TOTPDigits")
    case True
    then have "TOTPVerify secret raw now = verify_offsets secret (trim_space raw) (TOTPStep now) [0, 1]"
      by (simp add: TOTPVerify_def TOTPSkew_def Let_def)
    then show ?thesis by (simp add: f stepsAt_def del: verify_steps.simps)
  next
    case False
    then have "TOTPCode secret s \<noteq> Some (trim_space raw)" for s using TOTPCode_shape by blast
    then show ?thesis using False by (simp add: TOTPVerify_def)
  qed
qed

text \<open>C23. A presented code is accepted exactly when it is the code of the current step or of one of the two
  steps next to it, and the step reported is the nearest that matches, earlier before later.\<close>

theorem TOTPVerify_accepts_the_window:
  "TOTPVerify secret raw now =
     find (\<lambda>s. TOTPCode secret s = Some (trim_space raw)) [TOTPStep now, TOTPStep now - 1, TOTPStep now + 1]"
  by (rule verify_find)

subsection \<open>Secrets\<close>

lemma group_bytes_arith:
  fixes a b c d e :: nat
  assumes "a < 256" "b < 256" "c < 256" "d < 256" "e < 256"
  shows "(a div 8 * 8 + (a mod 8 * 4 + b div 64) div 4) mod 256 = a"
    "((a mod 8 * 4 + b div 64) * 64 + (b div 2 mod 32) * 2 + (b mod 2 * 16 + c div 16) div 16) mod 256 = b"
    "((b mod 2 * 16 + c div 16) * 16 + (c mod 16 * 2 + d div 128) div 2) mod 256 = c"
    "((c mod 16 * 2 + d div 128) * 128 + (d div 4 mod 32) * 4 + (d mod 4 * 8 + e div 32) div 8) mod 256 = d"
    "((d mod 4 * 8 + e div 32) * 32 + e mod 32) mod 256 = e"
proof -
  have q: "(x * n + y) div n = x" if "y < n" for x y n :: nat using that by simp
  have m: "(x * 256 + y) mod 256 = y" if "y < 256" for x y :: nat using that by simp
  have l: "b div 64 < 4" "c div 16 < 16" "d div 128 < 2" "e div 32 < 8" using assms by auto
  have s8: "x div 8 * 8 + x mod 8 = x" for x :: nat by simp
  have s16: "x div 16 * 16 + x mod 16 = x" for x :: nat by simp
  have s32: "x div 32 * 32 + x mod 32 = x" for x :: nat by simp
  have s2: "x div 2 * 2 + x mod 2 = x" for x :: nat by simp
  have s4: "x div 4 * 4 + x mod 4 = x" for x :: nat by simp
  have d64: "x div 64 * 32 + x div 2 mod 32 = x div 2" for x :: nat
    using s32 [of "x div 2"] by (simp add: div_mult2_eq [symmetric])
  have d128: "x div 128 * 32 + x div 4 mod 32 = x div 4" for x :: nat
    using s32 [of "x div 4"] by (simp add: div_mult2_eq [symmetric])
  show "(a div 8 * 8 + (a mod 8 * 4 + b div 64) div 4) mod 256 = a"
    using assms by (simp add: q [OF l(1)] s8)
  have "(a mod 8 * 4 + b div 64) * 64 + (b div 2 mod 32) * 2 + (b mod 2 * 16 + c div 16) div 16
      = a mod 8 * 256 + ((b div 64 * 32 + b div 2 mod 32) * 2 + b mod 2)"
    by (simp add: q [OF l(2)])
  then show "((a mod 8 * 4 + b div 64) * 64 + (b div 2 mod 32) * 2 + (b mod 2 * 16 + c div 16) div 16) mod 256 = b"
    by (simp only: d64 s2 m [OF assms(2)])
  have "(b mod 2 * 16 + c div 16) * 16 + (c mod 16 * 2 + d div 128) div 2
      = b mod 2 * 256 + (c div 16 * 16 + c mod 16)"
    by (simp add: q [OF l(3)])
  then show "((b mod 2 * 16 + c div 16) * 16 + (c mod 16 * 2 + d div 128) div 2) mod 256 = c"
    by (simp only: s16 m [OF assms(3)])
  have "(c mod 16 * 2 + d div 128) * 128 + (d div 4 mod 32) * 4 + (d mod 4 * 8 + e div 32) div 8
      = c mod 16 * 256 + ((d div 128 * 32 + d div 4 mod 32) * 4 + d mod 4)"
    by (simp add: q [OF l(4)])
  then show "((c mod 16 * 2 + d div 128) * 128 + (d div 4 mod 32) * 4 + (d mod 4 * 8 + e div 32) div 8) mod 256 = d"
    by (simp only: d128 s4 m [OF assms(4)])
  have "(d mod 4 * 8 + e div 32) * 32 + e mod 32 = d mod 4 * 256 + (e div 32 * 32 + e mod 32)" by simp
  then show "((d mod 4 * 8 + e div 32) * 32 + e mod 32) mod 256 = e"
    by (simp only: s32 m [OF assms(5)])
qed

lemma chunks_cons: "length xs = k \<Longrightarrow> 0 < k \<Longrightarrow> chunks k (xs @ ys) = xs # chunks k ys"
  by (subst chunks.simps) auto

lemma chunks_short: "xs \<noteq> [] \<Longrightarrow> length xs \<le> k \<Longrightarrow> chunks k xs = [xs]"
proof -
  assume x: "xs \<noteq> []" "length xs \<le> k"
  then have "k \<noteq> 0" by (cases k) simp_all
  then show ?thesis using x by (subst chunks.simps) (simp add: chunks.simps [of k "[]"])
qed

lemma group_sizes:
  "group_bytes [v0, v1, v2, v3, v4, v5, v6, v7] = [(v0 * 8 + v1 div 4) mod 256, (v1 * 64 + v2 * 2 + v3 div 16) mod 256,
     (v3 * 16 + v4 div 2) mod 256, (v4 * 128 + v5 * 4 + v6 div 8) mod 256, (v6 * 32 + v7) mod 256]"
  "group_bytes [v0, v1, v2, v3, v4, v5, v6] = [(v0 * 8 + v1 div 4) mod 256, (v1 * 64 + v2 * 2 + v3 div 16) mod 256,
     (v3 * 16 + v4 div 2) mod 256, (v4 * 128 + v5 * 4 + v6 div 8) mod 256]"
  "group_bytes [v0, v1, v2, v3, v4] = [(v0 * 8 + v1 div 4) mod 256, (v1 * 64 + v2 * 2 + v3 div 16) mod 256,
     (v3 * 16 + v4 div 2) mod 256]"
  "group_bytes [v0, v1, v2, v3] = [(v0 * 8 + v1 div 4) mod 256, (v1 * 64 + v2 * 2 + v3 div 16) mod 256]"
  "group_bytes [v0, v1] = [(v0 * 8 + v1 div 4) mod 256]"
  by (simp_all add: group_bytes_def Let_def)

lemma group_quintets: "list_all (\<lambda>b. b < 256) bs \<Longrightarrow> concat (map group_bytes (chunks 8 (quintets bs))) = bs"
proof (induction bs rule: quintets.induct)
  case (1 a b c d e rest)
  let ?g = "[a div 8, a mod 8 * 4 + b div 64, b div 2 mod 32, b mod 2 * 16 + c div 16, c mod 16 * 2 + d div 128,
             d div 4 mod 32, d mod 4 * 8 + e div 32, e mod 32]"
  have r: "a < 256" "b < 256" "c < 256" "d < 256" "e < 256" "list_all (\<lambda>b. b < 256) rest" using 1 by simp_all
  have "chunks 8 (quintets (a # b # c # d # e # rest)) = ?g # chunks 8 (quintets rest)"
    using chunks_cons [of ?g 8 "quintets rest"] by simp
  moreover have "group_bytes ?g = [a, b, c, d, e]"
    unfolding group_sizes group_bytes_arith [OF r(1-5)] by (rule refl)
  ultimately show ?case using "1.IH" r(6) by simp
next
  case (2 a b c d)
  then have r: "a < 256" "b < 256" "c < 256" "d < 256" by simp_all
  note g = group_bytes_arith [OF r zero_less_numeral, unfolded div_0 add_0_right]
  have "group_bytes (quintets [a, b, c, d]) = [a, b, c, d]" unfolding quintets.simps group_sizes g by (rule refl)
  then show ?case by (subst chunks_short) simp_all
next
  case (3 a b c)
  then have r: "a < 256" "b < 256" "c < 256" by simp_all
  note g = group_bytes_arith [OF r zero_less_numeral zero_less_numeral, unfolded div_0 add_0_right]
  have "group_bytes (quintets [a, b, c]) = [a, b, c]" unfolding quintets.simps group_sizes g by (rule refl)
  then show ?case by (subst chunks_short) simp_all
next
  case (4 a b)
  then have r: "a < 256" "b < 256" by simp_all
  note g = group_bytes_arith [OF r zero_less_numeral zero_less_numeral zero_less_numeral, unfolded div_0 add_0_right]
  have "group_bytes (quintets [a, b]) = [a, b]" unfolding quintets.simps group_sizes g by (rule refl)
  then show ?case by (subst chunks_short) simp_all
next
  case (5 a)
  then have r: "a < 256" by simp
  note g = group_bytes_arith [OF r zero_less_numeral zero_less_numeral zero_less_numeral zero_less_numeral,
      unfolded div_0 add_0_right]
  have "group_bytes (quintets [a]) = [a]" unfolding quintets.simps group_sizes g by (rule refl)
  then show ?case by (subst chunks_short) simp_all
qed (simp add: chunks.simps)

lemma quintets_less: "list_all (\<lambda>b. b < 256) bs \<Longrightarrow> list_all (\<lambda>v. v < 32) (quintets bs)"
  by (induction bs rule: quintets.induct) (auto simp: less_mult_imp_div_less)

lemma b32_digit:
  assumes "v < 32"
  shows "b32_value (code (b32_alphabet ! v)) = Some v" "code (b32_alphabet ! v) < 128"
    "code (b32_alphabet ! v) \<notin> {10, 13, 32, 61}" "upper_rune (code (b32_alphabet ! v)) = code (b32_alphabet ! v)"
    "\<not> space1 (b32_alphabet ! v)"
proof -
  have len: "length b32_alphabet = 32" by (simp add: b32_alphabet_def)
  have "map (\<lambda>c. b32_value (code c)) b32_alphabet = map Some [0..<32]"
    by (simp add: b32_alphabet_def b32_value_def code_def upt_rec)
  then have "map (\<lambda>c. b32_value (code c)) b32_alphabet ! v = map Some [0..<32] ! v" by (rule arg_cong)
  then show b: "b32_value (code (b32_alphabet ! v)) = Some v" using assms len by simp
  show "code (b32_alphabet ! v) < 128" "code (b32_alphabet ! v) \<notin> {10, 13, 32, 61}"
    "upper_rune (code (b32_alphabet ! v)) = code (b32_alphabet ! v)" "\<not> space1 (b32_alphabet ! v)"
    using b by (auto simp: b32_value_def upper_rune_def space1_def split: if_splits)
qed

lemma b32_values_digits: "list_all (\<lambda>v. v < 32) vs \<Longrightarrow> b32_values (map (\<lambda>v. code (b32_alphabet ! v)) vs) = Some vs"
  by (induction vs) (auto simp: b32_digit(1))

lemma decode_encode: "decodeTOTPSecret (base32_encode bs) = (if bs = [] then None else Some bs)"
proof -
  define vs where "vs = quintets (map unat bs)"
  have u: "list_all (\<lambda>b. b < 256) (map unat bs)"
    using unsigned_less [where 'b = 8] by (fastforce simp: list_all_iff)
  have v: "list_all (\<lambda>v. v < 32) vs" unfolding vs_def by (rule quintets_less [OF u])
  let ?s = "map (\<lambda>v. b32_alphabet ! v) vs" and ?r = "map (\<lambda>v. code (b32_alphabet ! v)) vs"
  have d: "code (b32_alphabet ! v) < 128" "code (b32_alphabet ! v) \<notin> {10, 13, 32, 61}"
    "upper_rune (code (b32_alphabet ! v)) = code (b32_alphabet ! v)" "\<not> space1 (b32_alphabet ! v)"
    if "v \<in> set vs" for v
    using v that b32_digit [of v] by (auto simp: list_all_iff)
  have "is_ascii ?s" using d(1) by (auto simp: is_ascii_def list_all_iff)
  then have "runes ?s = ?r" by (simp add: runes_ascii comp_def)
  moreover have "trim_space ?s = ?s" by (rule trim_space_fixed) (use d in auto)
  moreover have "map upper_rune ?r = ?r" using d(3) by simp
  moreover have "filter (\<lambda>r. r \<noteq> 32) ?r = ?r" "filter (\<lambda>r. r \<noteq> 10 \<and> r \<noteq> 13) ?r = ?r"
    using d(2) by (auto intro!: filter_True)
  moreover have "dropWhile (\<lambda>r. r = 61) (rev ?r) = rev ?r"
  proof -
    have "\<forall>r \<in> set (rev ?r). r \<noteq> 61" using d(2) by auto
    then show ?thesis by (cases "rev ?r") simp_all
  qed
  ultimately have "decodeTOTPSecret ?s =
      (case map_option (\<lambda>vs. map word_of_nat (concat (map group_bytes (chunks 8 vs)))) (b32_values ?r) of
         None \<Rightarrow> None | Some key \<Rightarrow> if length key = 0 then None else Some key)"
    by (simp only: decodeTOTPSecret_def Let_def rev_rev_ident base32_decode_def)
  moreover have "b32_values ?r = Some vs" by (rule b32_values_digits [OF v])
  moreover have "concat (map group_bytes (chunks 8 vs)) = map unat bs"
    unfolding vs_def by (rule group_quintets [OF u])
  ultimately show ?thesis by (simp add: base32_encode_def vs_def [symmetric] comp_def)
qed

text \<open>A secret decodes to the bytes it was made of: what \<open>NewTOTPSecret\<close> writes, of any non-empty
  length, \<open>decodeTOTPSecret\<close> reads back.\<close>

theorem TOTP_secret_roundtrip:
  "map_option decodeTOTPSecret (NewTOTPSecret (Some (b # bs))) = Some (Some (b # bs))"
  by (simp add: NewTOTPSecret_def decode_encode)

end
