(* ===== verification/Session.thy ===== *)
theory Session
  imports Crypto
begin

section \<open>Session tokens, lifetimes and client addresses\<close>

text \<open>
  \<open>internal/auth/session.go\<close>: opaque tokens and the hash that is stored for them, the two expiry rules of
  a session, the prefix an address is reduced to before it is stored, and the lockout policy as the
  statements receive it. \<open>netip.Addr\<close> is the zero value, 32 bits or 128 bits (a zone is dropped by
  \<open>Prefix\<close> and plays no part); \<open>netip.Prefix\<close> is the masked address with its length, and stands for its
  text, which \<open>String\<close> writes and \<open>ParsePrefix\<close> reads back. \<open>Window.Seconds()\<close> goes through a float,
  exact for the whole seconds of a configured window.
\<close>

subsection \<open>Tokens\<close>

definition sessionTokenBytes :: nat where "sessionTokenBytes = 32"

definition HashOpaqueToken :: "string \<Rightarrow> bytes" where
  "HashOpaqueToken token = sha256 (bytes_of token)"

text \<open>\<open>random\<close> is what \<open>rand.Read\<close> filled, \<open>None\<close> when it failed.\<close>

definition NewOpaqueToken :: "bytes option \<Rightarrow> (string \<times> bytes) option" where
  "NewOpaqueToken random =
     map_option (\<lambda>buf. let token = RawURL_encode buf in (token, HashOpaqueToken token)) random"

definition SessionCookieName :: string where "SessionCookieName = ''__Host-linkctrl_session''"
definition SessionCookieNameInsecure :: string where "SessionCookieNameInsecure = ''linkctrl_session''"

definition CookieName :: "bool \<Rightarrow> string" where
  "CookieName secure = (if secure then SessionCookieName else SessionCookieNameInsecure)"

subsection \<open>Lifetimes\<close>

datatype auth_error =
  ErrInvalidCredentials | ErrAccountLocked | ErrAccountInactive
  | ErrSessionNotFound | ErrSessionExpired | ErrSessionRevoked
  | ErrMFAUnavailable | ErrMFAAlreadyEnabled | ErrMFANotEnabled | ErrMFACodeInvalid | ErrMFAChallengeInvalid
  | ErrAssertionIncomplete | ErrSubjectNotLinked | ErrAlreadySignedIn | ErrSubjectLinkedElsewhere
  | ErrUnauthorized | ErrSessionOnly | ErrConflict | ErrSoleOwner | ErrNotFound | ErrTooShort | Faulted

definition IsSessionInvalid :: "auth_error \<Rightarrow> bool" where
  "IsSessionInvalid e \<longleftrightarrow>
     e = ErrSessionNotFound \<or> e = ErrSessionExpired \<or> e = ErrSessionRevoked \<or> e = ErrAccountInactive"

record SessionTTL =
  Absolute :: duration
  Idle :: duration

definition Valid :: "SessionTTL \<Rightarrow> instant \<Rightarrow> instant \<Rightarrow> instant \<Rightarrow> auth_error option" where
  "Valid t expires_at last_seen_at now =
     (if expires_at < now then Some ErrSessionExpired
      else if 0 < Idle t \<and> Idle t < min (2 ^ 63 - 1) (now - last_seen_at) then Some ErrSessionExpired
      else None)"

subsection \<open>Client addresses\<close>

datatype addr = NoAddr | Addr4 "32 word" | Addr6 "128 word"

datatype ip_prefix = Prefix4 "32 word" | Prefix6 "128 word"

definition Is4In6 :: "128 word \<Rightarrow> bool" where
  "Is4In6 w \<longleftrightarrow> drop_bit 32 w = 0xffff"

definition Unmap :: "addr \<Rightarrow> addr" where
  "Unmap a = (case a of Addr6 w \<Rightarrow> if Is4In6 w then Addr4 (ucast w) else a | _ \<Rightarrow> a)"

definition sixToFour :: "addr \<Rightarrow> addr \<times> bool" where
  "sixToFour a =
     (case a of
        Addr6 w \<Rightarrow>
          if Is4In6 w then (a, False)
          else if drop_bit 112 w \<noteq> 0x2002 then (a, False)
          else (Addr4 (ucast (drop_bit 80 w)), True)
      | _ \<Rightarrow> (a, False))"

definition addr_prefix :: "addr \<Rightarrow> ip_prefix option" where
  "addr_prefix a =
     (case a of
        NoAddr \<Rightarrow> None
      | Addr4 v \<Rightarrow> Some (Prefix4 (push_bit 8 (drop_bit 8 v)))
      | Addr6 w \<Rightarrow> Some (Prefix6 (push_bit 80 (drop_bit 80 w))))"

definition AnonymizeIP :: "addr \<Rightarrow> ip_prefix option" where
  "AnonymizeIP a =
     (if a = NoAddr then None
      else let b = Unmap a in
           case sixToFour b of (v4, ok) \<Rightarrow> addr_prefix (if ok then v4 else b))"

text \<open>\<open>Prefix.Addr\<close>.\<close>

definition prefix_addr :: "ip_prefix \<Rightarrow> addr" where
  "prefix_addr p = (case p of Prefix4 v \<Rightarrow> Addr4 v | Prefix6 w \<Rightarrow> Addr6 w)"

subsection \<open>The lockout policy\<close>

record LockoutPolicy =
  Threshold :: int
  Window :: duration

definition DefaultLockout :: LockoutPolicy where
  "DefaultLockout = \<lparr>Threshold = 5, Window = 15 * minute_ns\<rparr>"

definition clampInt32 :: "int \<Rightarrow> int" where
  "clampInt32 n = (if n < 0 then 0 else if n > 2 ^ 31 - 1 then 2 ^ 31 - 1 else n)"

definition ThresholdParam :: "LockoutPolicy \<Rightarrow> int" where
  "ThresholdParam p = clampInt32 (Threshold p)"

definition WindowSecondsParam :: "LockoutPolicy \<Rightarrow> int" where
  "WindowSecondsParam p =
     clampInt32 (if Window p < 0 then - ((- Window p) div second_ns) else Window p div second_ns)"

definition LockedUntil :: "LockoutPolicy \<Rightarrow> int \<Rightarrow> instant \<Rightarrow> instant \<Rightarrow> instant option" where
  "LockedUntil p failedCount lastFailure now =
     (if Threshold p \<le> 0 \<or> failedCount < Threshold p then None
      else let until = lastFailure + Window p in if until < now then None else Some until)"

subsection \<open>What is kept of an address\<close>

text \<open>The IPv4 address an address carries in full: its own, a mapped one, or one a 6to4 address embeds.\<close>

definition carried4 :: "addr \<Rightarrow> 32 word option" where
  "carried4 a =
     (case a of
        NoAddr \<Rightarrow> None
      | Addr4 v \<Rightarrow> Some v
      | Addr6 w \<Rightarrow> if drop_bit 32 w = 0xffff then Some (ucast w)
                   else if drop_bit 112 w = 0x2002 then Some (ucast (drop_bit 80 w)) else None)"

lemma drop_then_push: "push_bit n (drop_bit n w) = w AND NOT (mask n)" for w :: "'a :: len word"
  by (rule bit_word_eqI) (auto simp: bit_simps)

lemma masked_not_mapped: "drop_bit 32 (push_bit 80 (drop_bit 80 w)) \<noteq> 0xffff" for w :: "128 word"
proof
  assume "drop_bit 32 (push_bit 80 (drop_bit 80 w)) = 0xffff"
  then have "bit (drop_bit 32 (push_bit 80 (drop_bit 80 w))) 0 = bit (0xffff :: 128 word) 0" by simp
  then show False by (simp add: bit_simps)
qed

lemma masked_keeps_head: "drop_bit 112 (push_bit 80 (drop_bit 80 w)) = drop_bit 112 w" for w :: "128 word"
  by (rule bit_word_eqI) (auto simp: bit_simps dest: bit_imp_le_length)

lemma masked_twice: "push_bit n (drop_bit n (push_bit n (drop_bit n w))) = push_bit n (drop_bit n w)"
  for w :: "'a :: len word"
  by (simp add: drop_then_push flip: and.assoc)

lemma AnonymizeIP_simps:
  "AnonymizeIP NoAddr = None"
  "AnonymizeIP (Addr4 v) = Some (Prefix4 (push_bit 8 (drop_bit 8 v)))"
  "AnonymizeIP (Addr6 w) = (case carried4 (Addr6 w) of
       Some v \<Rightarrow> Some (Prefix4 (push_bit 8 (drop_bit 8 v)))
     | None \<Rightarrow> Some (Prefix6 (push_bit 80 (drop_bit 80 w))))"
  by (simp_all add: AnonymizeIP_def Unmap_def sixToFour_def addr_prefix_def carried4_def Is4In6_def Let_def)

text \<open>What is stored of an address that carries an IPv4 address in any of the three ways is the first
  24 bits of that address, so 256 clients share it; of any other IPv6 address it is the first 48 bits, so
  that addresses agreeing on them are stored alike; and anonymising the stored prefix again changes nothing.\<close>

theorem AnonymizeIP_hides_the_host:
  "(carried4 a = Some v \<longrightarrow> AnonymizeIP a = Some (Prefix4 (v AND NOT 0xff)))
   \<and> (carried4 (Addr6 w) = None \<longrightarrow> AnonymizeIP (Addr6 w) = Some (Prefix6 (w AND NOT (mask 80))))
   \<and> Option.bind (AnonymizeIP a) (AnonymizeIP \<circ> prefix_addr) = AnonymizeIP a"
proof (intro conjI impI)
  assume "carried4 a = Some v"
  then show "AnonymizeIP a = Some (Prefix4 (v AND NOT 0xff))"
    by (cases a) (auto simp: AnonymizeIP_simps drop_then_push carried4_def mask_eq_exp_minus_1 split: if_splits)
next
  assume "carried4 (Addr6 w) = None"
  then show "AnonymizeIP (Addr6 w) = Some (Prefix6 (w AND NOT (mask 80)))"
    by (simp add: AnonymizeIP_simps drop_then_push)
next
  show "Option.bind (AnonymizeIP a) (AnonymizeIP \<circ> prefix_addr) = AnonymizeIP a"
    by (cases a) (auto simp: AnonymizeIP_simps prefix_addr_def carried4_def masked_not_mapped masked_keeps_head masked_twice)
qed

theorem AnonymizeIP_hides_the_host_witness:
  "AnonymizeIP (Addr6 0x2002cb00712a00000000000000000001) = Some (Prefix4 (0xcb00712a AND NOT 0xff))
   \<and> AnonymizeIP (Addr6 1) = Some (Prefix6 (1 AND NOT (mask 80)))
   \<and> Option.bind (AnonymizeIP (Addr6 0x2002cb00712a00000000000000000001)) (AnonymizeIP \<circ> prefix_addr)
     = AnonymizeIP (Addr6 0x2002cb00712a00000000000000000001)
   \<and> carried4 (Addr6 0x2002cb00712a00000000000000000001) = Some 0xcb00712a \<and> carried4 (Addr6 1) = None"
proof -
  have "carried4 (Addr6 0x2002cb00712a00000000000000000001) = Some 0xcb00712a" "carried4 (Addr6 1) = None"
    by (simp_all add: carried4_def)
  with AnonymizeIP_hides_the_host [of "Addr6 0x2002cb00712a00000000000000000001" "0xcb00712a" 1]
  show ?thesis by blast
qed

end
