(* ===== verification/Mfa_Secret.thy ===== *)
theory Mfa_Secret
  imports Crypto
begin

section \<open>The second factor's secret at rest\<close>

text \<open>
  \<open>internal/auth/mfasecret.go\<close>: the key derived from \<open>MFA_SECRET_KEY\<close>, and the sealing and opening of a
  TOTP secret under it. \<open>crypto/aes\<close> and \<open>crypto/cipher\<close> are modelled as the code uses them: AES with a
  key of 32 bytes (FIPS 197) in Galois/Counter mode (NIST SP 800-38D) with a nonce of 12 bytes, a tag of
  16 and no additional data. The bytes \<open>rand.Read\<close> fills are an argument, \<open>None\<close> when it fails; an error
  is \<open>None\<close> where the code has a single one. \<open>Seal\<close>'s panic on 64 GiB of plaintext is out of the model.
\<close>

subsection \<open>AES-256\<close>

text \<open>Arithmetic in the field of 256 elements; the substitution box is the inverse there followed by the
  affine map.\<close>

definition xtime :: "8 word \<Rightarrow> 8 word" where
  "xtime b = push_bit 1 b XOR (if bit b 7 then 0x1b else 0)"

fun gf_mul :: "nat \<Rightarrow> 8 word \<Rightarrow> 8 word \<Rightarrow> 8 word" where
  "gf_mul 0 a b = 0"
| "gf_mul (Suc n) a b = (if bit b 0 then a else 0) XOR gf_mul n (xtime a) (drop_bit 1 b)"

abbreviation gf_times :: "8 word \<Rightarrow> 8 word \<Rightarrow> 8 word" where
  "gf_times \<equiv> gf_mul 8"

fun gf_power :: "8 word \<Rightarrow> nat \<Rightarrow> 8 word" where
  "gf_power a 0 = 1"
| "gf_power a (Suc n) = gf_times a (gf_power a n)"

definition aes_substitute :: "8 word \<Rightarrow> 8 word" where
  "aes_substitute b =
     (let x = gf_power b 254
      in x XOR word_rotl 1 x XOR word_rotl 2 x XOR word_rotl 3 x XOR word_rotl 4 x XOR 0x63)"

definition aes_sbox :: bytes where
  "aes_sbox = map (\<lambda>n. aes_substitute (word_of_nat n)) [0..<256]"

definition sub_byte :: "8 word \<Rightarrow> 8 word" where
  "sub_byte b = aes_sbox ! unat b"

text \<open>The key schedule: 60 words of four bytes, the latest first.\<close>

definition next_key_word :: "nat \<Rightarrow> bytes list \<Rightarrow> bytes" where
  "next_key_word i ws =
     (let t = hd ws;
          t' = (if i mod 8 = 0
                then map2 (XOR) (map sub_byte (rotate1 t)) [gf_power 2 (i div 8 - 1), 0, 0, 0]
                else if i mod 8 = 4 then map sub_byte t
                else t)
      in map2 (XOR) (ws ! 7) t')"

definition expand_key :: "bytes \<Rightarrow> bytes list" where
  "expand_key key = rev (foldl (\<lambda>ws i. next_key_word i ws # ws) (rev (chunks 4 key)) [8..<60])"

definition round_key :: "bytes list \<Rightarrow> nat \<Rightarrow> bytes" where
  "round_key ws r = concat (take 4 (drop (4 * r) ws))"

definition add_round_key :: "bytes \<Rightarrow> bytes \<Rightarrow> bytes" where
  "add_round_key k s = map (\<lambda>i. s ! i XOR k ! i) [0..<16]"

definition shift_rows :: "bytes \<Rightarrow> bytes" where
  "shift_rows s = map (\<lambda>i. s ! ((i + 4 * (i mod 4)) mod 16)) [0..<16]"

definition mix_column :: "bytes \<Rightarrow> bytes" where
  "mix_column c =
     map (\<lambda>i. xtime (c ! i) XOR (xtime (c ! ((i + 1) mod 4)) XOR c ! ((i + 1) mod 4))
              XOR c ! ((i + 2) mod 4) XOR c ! ((i + 3) mod 4)) [0..<4]"

definition aes_round :: "bytes list \<Rightarrow> bytes \<Rightarrow> nat \<Rightarrow> bytes" where
  "aes_round ws s r =
     add_round_key (round_key ws r) (concat (map mix_column (chunks 4 (shift_rows (map sub_byte s)))))"

definition aes256 :: "bytes \<Rightarrow> bytes \<Rightarrow> bytes" where
  "aes256 key block =
     (let ws = expand_key key
      in add_round_key (round_key ws 14)
           (shift_rows (map sub_byte
              (foldl (aes_round ws) (add_round_key (round_key ws 0) block) [1..<14]))))"

subsection \<open>Galois/Counter mode\<close>

definition word_of_block :: "bytes \<Rightarrow> 128 word" where
  "word_of_block b = foldl (\<lambda>w x. push_bit 8 w OR ucast x) 0 b"

definition pad_block :: "bytes \<Rightarrow> bytes" where
  "pad_block b = b @ replicate (16 - length b) 0"

text \<open>The product in the field of \<open>2 ^ 128\<close> elements; the most significant bit is the constant term.\<close>

fun gcm_mul :: "nat \<Rightarrow> 128 word \<Rightarrow> 128 word \<Rightarrow> 128 word" where
  "gcm_mul 0 x v = 0"
| "gcm_mul (Suc n) x v =
     (if bit x 127 then v else 0)
     XOR gcm_mul n (push_bit 1 x) (drop_bit 1 v XOR (if bit v 0 then push_bit 120 0xe1 else 0))"

definition ghash :: "128 word \<Rightarrow> bytes list \<Rightarrow> 128 word" where
  "ghash h bs = foldl (\<lambda>y b. gcm_mul 128 (y XOR word_of_block b) h) 0 bs"

definition gcm_counter :: "bytes \<Rightarrow> nat \<Rightarrow> bytes" where
  "gcm_counter nonce i = nonce @ be_bytes 4 i"

definition keystream :: "bytes \<Rightarrow> bytes \<Rightarrow> nat \<Rightarrow> bytes" where
  "keystream key nonce n =
     concat (map (\<lambda>i. aes256 key (gcm_counter nonce (i + 2))) [0..<(n + 15) div 16])"

definition gcm_crypt :: "bytes \<Rightarrow> bytes \<Rightarrow> bytes \<Rightarrow> bytes" where
  "gcm_crypt key nonce bs = map2 (XOR) bs (keystream key nonce (length bs))"

definition gcm_tag :: "bytes \<Rightarrow> bytes \<Rightarrow> bytes \<Rightarrow> bytes" where
  "gcm_tag key nonce ct =
     (let h = word_of_block (aes256 key (replicate 16 0));
          s = ghash h (map pad_block (chunks 16 ct) @ [be_bytes 8 0 @ be_bytes 8 (8 * length ct)])
      in be_bytes 16 (unat (s XOR word_of_block (aes256 key (gcm_counter nonce 1)))))"

definition gcm_seal :: "bytes \<Rightarrow> bytes \<Rightarrow> bytes \<Rightarrow> bytes" where
  "gcm_seal key nonce plain = (let ct = gcm_crypt key nonce plain in ct @ gcm_tag key nonce ct)"

definition gcm_open :: "bytes \<Rightarrow> bytes \<Rightarrow> bytes \<Rightarrow> bytes option" where
  "gcm_open key nonce sealed =
     (if length sealed < 16 then None
      else let ct = take (length sealed - 16) sealed in
           if gcm_tag key nonce ct = drop (length sealed - 16) sealed
           then Some (gcm_crypt key nonce ct) else None)"

subsection \<open>Sealing and opening\<close>

definition MFAKeyMinBytes :: nat where "MFAKeyMinBytes = 32"
definition mfaSecretScheme :: string where "mfaSecretScheme = ''1''"
definition gcmNonceSize :: nat where "gcmNonceSize = 12"

text \<open>\<open>MFACipher\<close> holds the derived key.\<close>

datatype mfa_key_error = ErrMFAKeyMissing | MFAKeyTooShort nat

definition NewMFACipher :: "string \<Rightarrow> mfa_key_error + bytes" where
  "NewMFACipher key =
     (if key = '''' then Inl ErrMFAKeyMissing
      else if length key < MFAKeyMinBytes then Inl (MFAKeyTooShort (length key))
      else Inr (sha256 (bytes_of key)))"

definition string_of_bytes :: "bytes \<Rightarrow> string" where
  "string_of_bytes bs = map (\<lambda>b. char_of (unat b)) bs"

definition Seal :: "bytes \<Rightarrow> bytes option \<Rightarrow> string \<Rightarrow> string option" where
  "Seal key random secret =
     map_option
       (\<lambda>nonce. mfaSecretScheme @ ''.'' @ RawURL_encode (nonce @ gcm_seal key nonce (bytes_of secret)))
       random"

definition Open :: "bytes \<Rightarrow> string \<Rightarrow> string option" where
  "Open key stored =
     (case cut (CHR ''.'') stored of
        (scheme, body, found) \<Rightarrow>
          if \<not> found \<or> scheme \<noteq> mfaSecretScheme then None
          else (case RawURL_decode body of
                  None \<Rightarrow> None
                | Some raw \<Rightarrow>
                    if length raw < gcmNonceSize then None
                    else map_option string_of_bytes
                           (gcm_open key (take gcmNonceSize raw) (drop gcmNonceSize raw))))"

subsection \<open>What is sealed opens\<close>

lemma length_add_round_key [simp]: "length (add_round_key k s) = 16"
  by (simp add: add_round_key_def)

lemma length_aes256 [simp]: "length (aes256 key block) = 16"
  by (simp add: aes256_def Let_def)

lemma length_concat_blocks: "(\<And>x. length (f x) = k) \<Longrightarrow> length (concat (map f xs)) = k * length xs"
  by (induction xs) auto

lemma length_keystream: "n \<le> length (keystream key nonce n)"
  by (simp add: keystream_def length_concat_blocks [where k = 16])

lemma length_gcm_crypt [simp]: "length (gcm_crypt key nonce bs) = length bs"
  using length_keystream [of "length bs" key nonce] by (simp add: gcm_crypt_def)

lemma xor_stream_twice:
  fixes xs ks :: bytes
  assumes "length xs \<le> length ks"
  shows "map2 (XOR) (map2 (XOR) xs ks) ks = xs"
  using assms by (intro nth_equalityI) (simp_all add: ac_simps)

lemma gcm_crypt_twice: "gcm_crypt key nonce (gcm_crypt key nonce bs) = bs"
  using xor_stream_twice [OF length_keystream, of bs key nonce] length_gcm_crypt [of key nonce bs]
  by (simp add: gcm_crypt_def)

lemma length_gcm_tag [simp]: "length (gcm_tag key nonce ct) = 16"
  by (simp add: gcm_tag_def be_bytes_def Let_def)

lemma gcm_open_seal: "gcm_open key nonce (gcm_seal key nonce plain) = Some plain"
  by (simp add: gcm_open_def gcm_seal_def Let_def gcm_crypt_twice)

lemma string_of_bytes_of: "string_of_bytes (bytes_of s) = s"
  by (simp add: string_of_bytes_def bytes_of_def comp_def unat_of_nat take_bit_nat_eq_self code_def)

text \<open>A TOTP secret sealed under a key and any nonce of twelve bytes opens under the same key to the
  very secret, whatever bytes it holds.\<close>

theorem Open_Seal:
  assumes "length nonce = gcmNonceSize"
  shows "Option.bind (Seal key (Some nonce) secret) (Open key) = Some secret"
proof -
  have "cut (CHR ''.'') (mfaSecretScheme @ ''.'' @ body) = (mfaSecretScheme, body, True)" for body
    by (simp add: mfaSecretScheme_def)
  then show ?thesis
    using assms
    by (simp add: Seal_def Open_def RawURL_decode_encode gcm_open_seal string_of_bytes_of)
qed

theorem Open_Seal_witness:
  "Option.bind (Seal (sha256 (bytes_of ''key'')) (Some (replicate 12 7)) ''JBSWY3DPEHPK3PXP'')
     (Open (sha256 (bytes_of ''key''))) = Some ''JBSWY3DPEHPK3PXP''"
  by (rule Open_Seal) (simp add: gcmNonceSize_def)

end
