(* ===== verification/SignIn.thy ===== *)
theory SignIn
  imports Session Password Mfa_Secret Totp
begin

section \<open>Signing in\<close>

text \<open>
  \<open>internal/auth/service.go\<close>, \<open>mfa.go\<close> and \<open>addonauth.go\<close> with the statements of \<open>auth.sql\<close>, \<open>mfa.sql\<close>,
  \<open>addonauth.sql\<close> and \<open>accounts.sql\<close> they run: the password step, the second factor, the session mint
  and its three callers, the lockout, enrolment and its undoing, and the deletion of an account.

  The state \<open>auth_db\<close> holds the columns of \<open>users\<close>, \<open>sessions\<close>, \<open>mfa_pending_logins\<close>,
  \<open>mfa_recovery_codes\<close> and \<open>addon_identity_links\<close> that these operations read or write. Two fields are not
  tables: \<open>db_effects\<close> is the history of the statements that issued or spent a credential, kept for the
  proofs and rolled back with the transaction, and \<open>db_announced\<close> lists what was handed to the audit and
  notification seams. An operation runs to its end before the next one starts; within one, the readings
  of a clock agree. \<open>clocks\<close> are the readings of the process and of the database, which need not agree.
  Every statement can fail: outside a transaction before or after it took effect, inside one by aborting
  it, and a commit before or after it is durable. The resolution of a workspace and the loading of an
  identity's permissions are the outcome \<open>surroundings\<close> gives.
\<close>

subsection \<open>State\<close>

record account =
  ac_id :: uuid
  ac_email :: string
  ac_name :: string
  ac_status :: string
  ac_password_hash :: "string option"
  ac_failed_login_count :: int
  ac_locked_until :: "instant option"
  ac_mfa_secret :: "string option"
  ac_mfa_enabled_at :: "instant option"
  ac_mfa_last_step :: "int64 option"
  ac_deleted_at :: "instant option"

record session =
  ss_id :: uuid
  ss_user_id :: uuid
  ss_token_hash :: bytes
  ss_ip_prefix :: "ip_prefix option"
  ss_user_agent :: "string option"
  ss_last_seen_at :: instant
  ss_expires_at :: instant
  ss_revoked_at :: "instant option"
  ss_workspace_id :: "uuid option"

record pending_login =
  pl_id :: uuid
  pl_user_id :: uuid
  pl_token_hash :: bytes
  pl_ip_prefix :: "ip_prefix option"
  pl_user_agent :: "string option"
  pl_expires_at :: instant
  pl_consumed_at :: "instant option"
  pl_minted_by_addon :: "string option"
  pl_minted_by_issuer :: "string option"

record recovery_code =
  rc_user_id :: uuid
  rc_code_hash :: bytes
  rc_used_at :: "instant option"

record identity_link =
  il_id :: uuid
  il_user_id :: uuid
  il_addon :: string
  il_issuer :: string
  il_subject :: string

datatype effect =
  PendingIssued bytes | PendingSpent bytes
  | CodeIssued uuid bytes | CodeSpent uuid bytes
  | FactorEnabled uuid int64 | StepAccepted uuid int64

datatype mfa_change_kind = MFAEnabled | MFADisabled | MFARecoveryCodeUsed | MFARecoveryCodesRegenerated

record mfa_change =
  mc_kind :: mfa_change_kind
  mc_user_id :: uuid
  mc_remaining :: nat

record auth_db =
  db_users :: "account list"
  db_sessions :: "session list"
  db_pending :: "pending_login list"
  db_codes :: "recovery_code list"
  db_links :: "identity_link list"
  db_effects :: "effect list"
  db_announced :: "mfa_change list"

record clocks =
  ck_now :: instant
  ck_db_now :: instant

subsection \<open>Statements and faults\<close>

datatype sql_fault = Runs | FailsBefore | FailsAfter

datatype sql_point =
  ReadUser | ChargeFailure | StoreRehash | RecordLogin | SupersedePending | InsertPending | InsertSession
  | TouchRow | RevokeRows | BeginTx | LockRow | WriteFactor | WriteCodes | ClearPending | SpendPending
  | RemoveRows | CommitTx | ReadAnnounced | CountCodes

type_synonym faults = "sql_point \<Rightarrow> sql_fault"

text \<open>A statement outside a transaction, one inside, and the transaction around a body.\<close>

definition pool_stmt :: "sql_fault \<Rightarrow> (auth_db \<Rightarrow> 'a \<times> auth_db) \<Rightarrow> auth_db \<Rightarrow> 'a option \<times> auth_db" where
  "pool_stmt f stmt d =
     (case f of
        Runs \<Rightarrow> (case stmt d of (x, d1) \<Rightarrow> (Some x, d1))
      | FailsBefore \<Rightarrow> (None, d)
      | FailsAfter \<Rightarrow> (None, snd (stmt d)))"

definition pool_read :: "sql_fault \<Rightarrow> 'a \<Rightarrow> 'a option" where
  "pool_read f x = (if f = Runs then Some x else None)"

type_synonym 'a tx_body = "auth_db \<Rightarrow> (auth_error + 'a) \<times> auth_db"

definition tx_stmt :: "sql_fault \<Rightarrow> (auth_db \<Rightarrow> 'a \<times> auth_db) \<Rightarrow> 'a tx_body" where
  "tx_stmt f stmt d = (if f = Runs then (case stmt d of (x, d1) \<Rightarrow> (Inr x, d1)) else (Inl Faulted, d))"

definition tx_then :: "'a tx_body \<Rightarrow> ('a \<Rightarrow> 'b tx_body) \<Rightarrow> 'b tx_body" where
  "tx_then m k d = (case m d of (Inl e, d1) \<Rightarrow> (Inl e, d1) | (Inr x, d1) \<Rightarrow> k x d1)"

definition tx_return :: "'a \<Rightarrow> 'a tx_body" where
  "tx_return x d = (Inr x, d)"

definition tx_refuse :: "auth_error \<Rightarrow> 'a tx_body" where
  "tx_refuse e d = (Inl e, d)"

definition in_tx :: "faults \<Rightarrow> 'a tx_body \<Rightarrow> 'a tx_body" where
  "in_tx fs body d =
     (if fs BeginTx \<noteq> Runs then (Inl Faulted, d)
      else case body d of
             (Inl e, _) \<Rightarrow> (Inl e, d)
           | (Inr x, d1) \<Rightarrow>
               (case fs CommitTx of
                  Runs \<Rightarrow> (Inr x, d1)
                | FailsBefore \<Rightarrow> (Inl Faulted, d)
                | FailsAfter \<Rightarrow> (Inl Faulted, d1)))"

text \<open>An update counts the rows it changed.\<close>

definition update_users :: "(account \<Rightarrow> bool) \<Rightarrow> (account \<Rightarrow> account) \<Rightarrow> auth_db \<Rightarrow> nat \<times> auth_db" where
  "update_users p f d =
     (length (filter p (db_users d)), d\<lparr>db_users := map (\<lambda>a. if p a then f a else a) (db_users d)\<rparr>)"

definition live_account :: "uuid \<Rightarrow> account \<Rightarrow> bool" where
  "live_account user a \<longleftrightarrow> ac_id a = user \<and> ac_deleted_at a = None"

definition GetUserByEmail :: "(string \<Rightarrow> string) \<Rightarrow> string \<Rightarrow> auth_db \<Rightarrow> account option" where
  "GetUserByEmail lower email d =
     find (\<lambda>a. lower (ac_email a) = lower email \<and> ac_deleted_at a = None) (db_users d)"

definition GetUser :: "uuid \<Rightarrow> auth_db \<Rightarrow> account option" where
  "GetUser user d = find (live_account user) (db_users d)"

definition CreateUser :: "(string \<Rightarrow> string) \<Rightarrow> account \<Rightarrow> auth_db \<Rightarrow> bool \<times> auth_db" where
  "CreateUser lower a d =
     (if list_ex (\<lambda>b. ac_id b = ac_id a) (db_users d)
         \<or> list_ex (\<lambda>b. lower (ac_email b) = lower (ac_email a) \<and> ac_deleted_at b = None) (db_users d)
      then (False, d)
      else (True, d\<lparr>db_users := db_users d @
              [a\<lparr>ac_failed_login_count := 0, ac_locked_until := None, ac_mfa_secret := None,
                 ac_mfa_enabled_at := None, ac_mfa_last_step := None, ac_deleted_at := None\<rparr>]\<rparr>))"

definition UpdateUserPassword :: "uuid \<Rightarrow> string \<Rightarrow> auth_db \<Rightarrow> nat \<times> auth_db" where
  "UpdateUserPassword user h =
     update_users (\<lambda>a. ac_id a = user)
       (\<lambda>a. a\<lparr>ac_password_hash := Some h, ac_failed_login_count := 0, ac_locked_until := None\<rparr>)"

definition RecordSuccessfulLogin :: "uuid \<Rightarrow> auth_db \<Rightarrow> nat \<times> auth_db" where
  "RecordSuccessfulLogin user =
     update_users (\<lambda>a. ac_id a = user) (\<lambda>a. a\<lparr>ac_failed_login_count := 0, ac_locked_until := None\<rparr>)"

text \<open>\<open>RecordFailedLogin\<close> on a row: an elapsed lockout starts the count over. The count is an \<open>int\<close> column,
  so one above its range is an error.\<close>

definition charged :: "int \<Rightarrow> int \<Rightarrow> instant \<Rightarrow> account \<Rightarrow> account" where
  "charged threshold secs now a =
     (let elapsed = (case ac_locked_until a of None \<Rightarrow> False | Some t \<Rightarrow> t \<le> now);
          n = (if elapsed then 1 else ac_failed_login_count a + 1);
          again = now + secs * second_ns
      in a\<lparr>ac_failed_login_count := n,
           ac_locked_until :=
             (if threshold \<le> 0 then ac_locked_until a
              else if elapsed then (if 1 \<ge> threshold then Some again else None)
              else if n \<ge> threshold then Some again
              else ac_locked_until a)\<rparr>)"

definition RecordFailedLogin :: "uuid \<Rightarrow> int \<Rightarrow> int \<Rightarrow> instant \<Rightarrow> auth_db \<Rightarrow> account option \<times> auth_db" where
  "RecordFailedLogin user threshold secs now d =
     (case find (\<lambda>a. ac_id a = user) (db_users d) of
        None \<Rightarrow> (None, d)
      | Some a \<Rightarrow>
          if ac_failed_login_count (charged threshold secs now a) > 2 ^ 31 - 1 then (None, d)
          else (Some (charged threshold secs now a),
                snd (update_users (\<lambda>b. ac_id b = user) (charged threshold secs now) d)))"

definition DeleteMFAPendingLoginsFor :: "uuid \<Rightarrow> auth_db \<Rightarrow> nat \<times> auth_db" where
  "DeleteMFAPendingLoginsFor user d =
     (length (filter (\<lambda>p. pl_user_id p = user) (db_pending d)),
      d\<lparr>db_pending := filter (\<lambda>p. pl_user_id p \<noteq> user) (db_pending d)\<rparr>)"

text \<open>Inserts answer \<open>False\<close> when a key is taken.\<close>

definition CreateMFAPendingLogin :: "pending_login \<Rightarrow> auth_db \<Rightarrow> bool \<times> auth_db" where
  "CreateMFAPendingLogin p d =
     (if list_ex (\<lambda>q. pl_id q = pl_id p \<or> pl_token_hash q = pl_token_hash p) (db_pending d) then (False, d)
      else (True, d\<lparr>db_pending := db_pending d @ [p],
                    db_effects := db_effects d @ [PendingIssued (pl_token_hash p)]\<rparr>))"

definition CreateSession :: "session \<Rightarrow> auth_db \<Rightarrow> bool \<times> auth_db" where
  "CreateSession s d =
     (if list_ex (\<lambda>t. ss_id t = ss_id s \<or> ss_token_hash t = ss_token_hash s) (db_sessions d) then (False, d)
      else (True, d\<lparr>db_sessions := db_sessions d @ [s]\<rparr>))"

definition LockMFAPendingLogin :: "bytes \<Rightarrow> auth_db \<Rightarrow> (pending_login \<times> account) option" where
  "LockMFAPendingLogin h d =
     (case find (\<lambda>p. pl_token_hash p = h) (db_pending d) of
        None \<Rightarrow> None
      | Some p \<Rightarrow> map_option (\<lambda>a. (p, a)) (GetUser (pl_user_id p) d))"

definition ConsumeMFAPendingLogin :: "pending_login \<Rightarrow> instant \<Rightarrow> auth_db \<Rightarrow> nat \<times> auth_db" where
  "ConsumeMFAPendingLogin p now d =
     (let hit = (\<lambda>q. pl_id q = pl_id p \<and> pl_consumed_at q = None);
          rows = filter hit (db_pending d)
      in (length rows,
          d\<lparr>db_pending := map (\<lambda>q. if hit q then q\<lparr>pl_consumed_at := Some now\<rparr> else q) (db_pending d),
            db_effects := db_effects d @ map (\<lambda>q. PendingSpent (pl_token_hash q)) rows\<rparr>))"

definition finished :: "instant \<Rightarrow> pending_login \<Rightarrow> bool" where
  "finished now p \<longleftrightarrow> pl_expires_at p < now \<or> pl_consumed_at p \<noteq> None"

definition PurgeFinishedMFAPendingLogins :: "nat \<Rightarrow> instant \<Rightarrow> auth_db \<Rightarrow> nat \<times> auth_db" where
  "PurgeFinishedMFAPendingLogins batch now d =
     (let gone = map pl_id (take batch (sort_key pl_expires_at (filter (finished now) (db_pending d))))
      in (length gone, d\<lparr>db_pending := filter (\<lambda>p. pl_id p \<notin> set gone) (db_pending d)\<rparr>))"

definition EnableUserMFA :: "uuid \<Rightarrow> string \<Rightarrow> int64 \<Rightarrow> instant \<Rightarrow> auth_db \<Rightarrow> nat \<times> auth_db" where
  "EnableUserMFA user sealed step now d =
     (case update_users (\<lambda>a. live_account user a \<and> ac_mfa_enabled_at a = None)
             (\<lambda>a. a\<lparr>ac_mfa_secret := Some sealed, ac_mfa_enabled_at := Some now, ac_mfa_last_step := Some step\<rparr>) d of
        (n, d1) \<Rightarrow> (n, d1\<lparr>db_effects := db_effects d1 @ replicate n (FactorEnabled user step)\<rparr>))"

definition DisableUserMFA :: "uuid \<Rightarrow> auth_db \<Rightarrow> nat \<times> auth_db" where
  "DisableUserMFA user =
     update_users (\<lambda>a. live_account user a \<and> ac_mfa_enabled_at a \<noteq> None)
       (\<lambda>a. a\<lparr>ac_mfa_secret := None, ac_mfa_enabled_at := None, ac_mfa_last_step := None\<rparr>)"

definition below_floor :: "int64 \<Rightarrow> account \<Rightarrow> bool" where
  "below_floor step a \<longleftrightarrow> (case ac_mfa_last_step a of None \<Rightarrow> False | Some l \<Rightarrow> \<not> sint l < sint step)"

definition AcceptMFAStep :: "uuid \<Rightarrow> int64 \<Rightarrow> auth_db \<Rightarrow> nat \<times> auth_db" where
  "AcceptMFAStep user step d =
     (case update_users (\<lambda>a. live_account user a \<and> ac_mfa_enabled_at a \<noteq> None \<and> \<not> below_floor step a)
             (\<lambda>a. a\<lparr>ac_mfa_last_step := Some step\<rparr>) d of
        (n, d1) \<Rightarrow> (n, d1\<lparr>db_effects := db_effects d1 @ replicate n (StepAccepted user step)\<rparr>))"

definition InsertMFARecoveryCode :: "uuid \<Rightarrow> bytes \<Rightarrow> auth_db \<Rightarrow> bool \<times> auth_db" where
  "InsertMFARecoveryCode user h d =
     (if list_ex (\<lambda>c. rc_code_hash c = h) (db_codes d) then (False, d)
      else (True, d\<lparr>db_codes := db_codes d @ [\<lparr>rc_user_id = user, rc_code_hash = h, rc_used_at = None\<rparr>],
                    db_effects := db_effects d @ [CodeIssued user h]\<rparr>))"

definition DeleteMFARecoveryCodes :: "uuid \<Rightarrow> auth_db \<Rightarrow> nat \<times> auth_db" where
  "DeleteMFARecoveryCodes user d =
     (length (filter (\<lambda>c. rc_user_id c = user) (db_codes d)),
      d\<lparr>db_codes := filter (\<lambda>c. rc_user_id c \<noteq> user) (db_codes d)\<rparr>)"

definition SpendMFARecoveryCode :: "uuid \<Rightarrow> bytes \<Rightarrow> instant \<Rightarrow> auth_db \<Rightarrow> nat \<times> auth_db" where
  "SpendMFARecoveryCode user h now d =
     (let hit = (\<lambda>c. rc_user_id c = user \<and> rc_code_hash c = h \<and> rc_used_at c = None);
          n = length (filter hit (db_codes d))
      in (n, d\<lparr>db_codes := map (\<lambda>c. if hit c then c\<lparr>rc_used_at := Some now\<rparr> else c) (db_codes d),
               db_effects := db_effects d @ replicate n (CodeSpent user h)\<rparr>))"

definition CountUnusedMFARecoveryCodes :: "uuid \<Rightarrow> auth_db \<Rightarrow> nat" where
  "CountUnusedMFARecoveryCodes user d =
     length (filter (\<lambda>c. rc_user_id c = user \<and> rc_used_at c = None) (db_codes d))"

definition ResolveAddonIdentityLink :: "string \<Rightarrow> string \<Rightarrow> string \<Rightarrow> auth_db \<Rightarrow> account option" where
  "ResolveAddonIdentityLink addon issuer subject d =
     (case find (\<lambda>l. il_addon l = addon \<and> il_issuer l = issuer \<and> il_subject l = subject) (db_links d) of
        None \<Rightarrow> None
      | Some l \<Rightarrow> GetUser (il_user_id l) d)"

definition RevokeAllUserSessions :: "uuid \<Rightarrow> uuid \<Rightarrow> instant \<Rightarrow> auth_db \<Rightarrow> nat \<times> auth_db" where
  "RevokeAllUserSessions user keep now d =
     (let hit = (\<lambda>s. ss_user_id s = user \<and> ss_revoked_at s = None \<and> ss_id s \<noteq> keep)
      in (length (filter hit (db_sessions d)),
          d\<lparr>db_sessions := map (\<lambda>s. if hit s then s\<lparr>ss_revoked_at := Some now\<rparr> else s) (db_sessions d)\<rparr>))"

definition RevokeSession :: "uuid \<Rightarrow> instant \<Rightarrow> auth_db \<Rightarrow> nat \<times> auth_db" where
  "RevokeSession sid now d =
     (let hit = (\<lambda>s. ss_id s = sid \<and> ss_revoked_at s = None)
      in (length (filter hit (db_sessions d)),
          d\<lparr>db_sessions := map (\<lambda>s. if hit s then s\<lparr>ss_revoked_at := Some now\<rparr> else s) (db_sessions d)\<rparr>))"

text \<open>The part of \<open>DeleteAccountDependents\<close> that concerns these tables, and the two statements on the row.\<close>

definition DeleteAccountDependents :: "uuid \<Rightarrow> auth_db \<Rightarrow> unit \<times> auth_db" where
  "DeleteAccountDependents user d =
     ((), d\<lparr>db_sessions := filter (\<lambda>s. ss_user_id s \<noteq> user) (db_sessions d),
            db_codes := filter (\<lambda>c. rc_user_id c \<noteq> user) (db_codes d),
            db_pending := filter (\<lambda>p. pl_user_id p \<noteq> user) (db_pending d),
            db_links := filter (\<lambda>l. il_user_id l \<noteq> user) (db_links d)\<rparr>)"

definition SoftDeleteUser :: "uuid \<Rightarrow> instant \<Rightarrow> auth_db \<Rightarrow> nat \<times> auth_db" where
  "SoftDeleteUser user now =
     update_users (live_account user) (\<lambda>a. a\<lparr>ac_status := ''deleted'', ac_deleted_at := Some now\<rparr>)"

definition EraseDeletedAccount :: "uuid \<Rightarrow> auth_db \<Rightarrow> nat \<times> auth_db" where
  "EraseDeletedAccount user =
     update_users (\<lambda>a. ac_id a = user \<and> ac_deleted_at a \<noteq> None)
       (\<lambda>a. a\<lparr>ac_email := '''', ac_name := '''', ac_password_hash := None, ac_mfa_secret := None,
              ac_mfa_enabled_at := None, ac_failed_login_count := 0, ac_locked_until := None\<rparr>)"

subsection \<open>The service\<close>

text \<open>The configuration: \<open>lower\<close> is the database's, \<open>argon2\<close> as in \<open>Password\<close>, the cipher is the derived
  key of \<open>Mfa_Secret\<close> when the instance has one.\<close>

record signin_config =
  sc_lower :: "string \<Rightarrow> string"
  sc_argon2 :: idkey
  sc_params :: Params
  sc_ttl :: SessionTTL
  sc_lockout :: LockoutPolicy
  sc_cipher :: "bytes option"
  sc_issuer :: string

text \<open>What an operation draws at random, and what the tenancy answers.\<close>

record randomness =
  rn_id :: uuid
  rn_token :: "bytes option"
  rn_salt :: "bytes option"
  rn_nonce :: "bytes option"
  rn_codes :: "nat \<Rightarrow> bytes option"

record surroundings =
  su_workspace :: "uuid option option"
  su_identity :: bool

record request_facts =
  rf_addr :: addr
  rf_agent :: string

record actor =
  at_user_id :: uuid
  at_api_key :: "uuid option"

definition nullable :: "string \<Rightarrow> string option" where
  "nullable s = (if s = '''' then None else Some s)"

definition truncate_to :: "string \<Rightarrow> nat \<Rightarrow> string" where
  "truncate_to s n = (if length s \<le> n then s else take n s)"

definition NormalizeEmail :: "string \<Rightarrow> string" where
  "NormalizeEmail email = to_lower (trim_space email)"

definition requireSessionActor :: "actor option \<Rightarrow> auth_error option" where
  "requireSessionActor a =
     (case a of None \<Rightarrow> Some ErrUnauthorized
      | Some x \<Rightarrow> if at_api_key x \<noteq> None then Some ErrSessionOnly else None)"

subsection \<open>Sessions\<close>

text \<open>\<open>LoginResult\<close>: the account, the session, the token and its expiry, or the challenge.\<close>

datatype login_result = SignedIn uuid uuid string instant | SecondFactor string instant

definition mintSession :: "signin_config \<Rightarrow> clocks \<Rightarrow> faults \<Rightarrow> randomness \<Rightarrow> surroundings
    \<Rightarrow> uuid \<Rightarrow> request_facts \<Rightarrow> auth_db \<Rightarrow> (auth_error + login_result) \<times> auth_db" where
  "mintSession sc ck fs rn su user rf d =
     (case (su_workspace su, NewOpaqueToken (rn_token rn)) of
        (Some ws, Some (token, h)) \<Rightarrow>
          let expires = ck_now ck + Absolute (sc_ttl sc);
              row = \<lparr>ss_id = rn_id rn, ss_user_id = user, ss_token_hash = h,
                     ss_ip_prefix = AnonymizeIP (rf_addr rf),
                     ss_user_agent = nullable (truncate_to (rf_agent rf) 512),
                     ss_last_seen_at = ck_db_now ck, ss_expires_at = expires, ss_revoked_at = None,
                     ss_workspace_id = ws\<rparr> in
          (case pool_stmt (fs InsertSession) (CreateSession row) d of
             (Some True, d1) \<Rightarrow>
               if su_identity su then (Inr (SignedIn user (rn_id rn) token expires), d1) else (Inl Faulted, d1)
           | (_, d1) \<Rightarrow> (Inl Faulted, d1))
      | _ \<Rightarrow> (Inl Faulted, d))"

text \<open>\<open>Authenticate\<close>: the account and the session a token stands for.\<close>

definition GetSessionByTokenHash :: "bytes \<Rightarrow> auth_db \<Rightarrow> (session \<times> account) option" where
  "GetSessionByTokenHash h d =
     (case find (\<lambda>s. ss_token_hash s = h \<and> ss_revoked_at s = None) (db_sessions d) of
        None \<Rightarrow> None
      | Some s \<Rightarrow> map_option (\<lambda>a. (s, a)) (GetUser (ss_user_id s) d))"

definition TouchSession :: "uuid \<Rightarrow> instant \<Rightarrow> auth_db \<Rightarrow> nat \<times> auth_db" where
  "TouchSession sid now d =
     (length (filter (\<lambda>s. ss_id s = sid) (db_sessions d)),
      d\<lparr>db_sessions := map (\<lambda>s. if ss_id s = sid then s\<lparr>ss_last_seen_at := now\<rparr> else s) (db_sessions d)\<rparr>)"

definition Authenticate :: "signin_config \<Rightarrow> clocks \<Rightarrow> faults \<Rightarrow> surroundings \<Rightarrow> string
    \<Rightarrow> auth_db \<Rightarrow> (auth_error + uuid \<times> uuid) \<times> auth_db" where
  "Authenticate sc ck fs su token d =
     (if token = '''' then (Inl ErrSessionNotFound, d)
      else case pool_read (fs ReadUser) (GetSessionByTokenHash (HashOpaqueToken token) d) of
        None \<Rightarrow> (Inl Faulted, d)
      | Some None \<Rightarrow> (Inl ErrSessionNotFound, d)
      | Some (Some (s, a)) \<Rightarrow>
          (case Valid (sc_ttl sc) (ss_expires_at s) (ss_last_seen_at s) (ck_now ck) of
             Some e \<Rightarrow> (Inl e, d)
           | None \<Rightarrow>
               if ac_status a \<noteq> ''active'' then (Inl ErrAccountInactive, d)
               else if su_workspace su = None then (Inl Faulted, d)
               else let d1 = (if minute_ns < ck_now ck - ss_last_seen_at s
                              then snd (pool_stmt (fs TouchRow) (TouchSession (ss_id s) (ck_db_now ck)) d) else d)
                    in if su_identity su then (Inr (ac_id a, ss_id s), d1) else (Inl Faulted, d1)))"

definition Logout :: "clocks \<Rightarrow> faults \<Rightarrow> uuid \<Rightarrow> auth_db \<Rightarrow> auth_db" where
  "Logout ck fs sid d = snd (pool_stmt (fs RevokeRows) (RevokeSession sid (ck_db_now ck)) d)"

subsection \<open>The password step\<close>

definition MFAPendingTTL :: duration where "MFAPendingTTL = 5 * minute_ns"

text \<open>\<open>by\<close> is the add-on and the issuer that vouched, if one did.\<close>

definition pendingSecondFactor :: "clocks \<Rightarrow> faults \<Rightarrow> randomness \<Rightarrow> uuid \<Rightarrow> request_facts
    \<Rightarrow> (string \<times> string) option \<Rightarrow> auth_db \<Rightarrow> (auth_error + login_result) \<times> auth_db" where
  "pendingSecondFactor ck fs rn user rf vouched d =
     (case pool_stmt (fs SupersedePending) (DeleteMFAPendingLoginsFor user) d of
        (None, d1) \<Rightarrow> (Inl Faulted, d1)
      | (Some _, d1) \<Rightarrow>
          (case NewOpaqueToken (rn_token rn) of
             None \<Rightarrow> (Inl Faulted, d1)
           | Some (token, h) \<Rightarrow>
               let expires = ck_now ck + MFAPendingTTL;
                   row = \<lparr>pl_id = rn_id rn, pl_user_id = user, pl_token_hash = h,
                          pl_ip_prefix = AnonymizeIP (rf_addr rf),
                          pl_user_agent = nullable (truncate_to (rf_agent rf) 512),
                          pl_expires_at = expires, pl_consumed_at = None,
                          pl_minted_by_addon = Option.bind vouched (nullable \<circ> fst),
                          pl_minted_by_issuer = Option.bind vouched (nullable \<circ> snd)\<rparr> in
               (case pool_stmt (fs InsertPending) (CreateMFAPendingLogin row) d1 of
                  (Some True, d2) \<Rightarrow> (Inr (SecondFactor token expires), d2)
                | (_, d2) \<Rightarrow> (Inl Faulted, d2))))"

definition locked_now :: "clocks \<Rightarrow> account \<Rightarrow> bool" where
  "locked_now ck a \<longleftrightarrow> (case ac_locked_until a of None \<Rightarrow> False | Some t \<Rightarrow> ck_now ck < t)"

definition charge :: "signin_config \<Rightarrow> clocks \<Rightarrow> faults \<Rightarrow> uuid \<Rightarrow> auth_db \<Rightarrow> account option \<times> auth_db" where
  "charge sc ck fs user d =
     (case pool_stmt (fs ChargeFailure)
             (RecordFailedLogin user (ThresholdParam (sc_lockout sc)) (WindowSecondsParam (sc_lockout sc))
                (ck_db_now ck)) d of
        (res, d1) \<Rightarrow> (Option.bind res id, d1))"

definition wrong_password :: "signin_config \<Rightarrow> clocks \<Rightarrow> faults \<Rightarrow> uuid \<Rightarrow> auth_db
    \<Rightarrow> (auth_error + login_result) \<times> auth_db" where
  "wrong_password sc ck fs user d =
     (case charge sc ck fs user d of
        (Some b, d1) \<Rightarrow> (Inl (if locked_now ck b then ErrAccountLocked else ErrInvalidCredentials), d1)
      | (None, d1) \<Rightarrow> (Inl ErrInvalidCredentials, d1))"

text \<open>A right password written under a weaker policy is hashed again; a failure is ignored.\<close>

definition rehash :: "signin_config \<Rightarrow> faults \<Rightarrow> randomness \<Rightarrow> uuid \<Rightarrow> string \<Rightarrow> string \<Rightarrow> auth_db \<Rightarrow> auth_db" where
  "rehash sc fs rn user password stored d =
     (if NeedsRehash (sc_params sc) stored
      then (case Hasher_Hash (sc_argon2 sc) (sc_params sc) (rn_salt rn) password of
              Hashed h \<Rightarrow> snd (pool_stmt (fs StoreRehash) (UpdateUserPassword user h) d)
            | _ \<Rightarrow> d)
      else d)"

text \<open>What follows a right password, or an assertion: the factor if the row read has one, the session
  otherwise.\<close>

definition after_password :: "signin_config \<Rightarrow> clocks \<Rightarrow> faults \<Rightarrow> randomness \<Rightarrow> surroundings \<Rightarrow> account
    \<Rightarrow> request_facts \<Rightarrow> auth_db \<Rightarrow> (auth_error + login_result) \<times> auth_db" where
  "after_password sc ck fs rn su a rf d =
     (if ac_mfa_enabled_at a \<noteq> None then pendingSecondFactor ck fs rn (ac_id a) rf None d
      else (case pool_stmt (fs RecordLogin) (RecordSuccessfulLogin (ac_id a)) d of
              (None, d1) \<Rightarrow> (Inl Faulted, d1)
            | (Some _, d1) \<Rightarrow> mintSession sc ck fs rn su (ac_id a) rf d1))"

definition Login :: "signin_config \<Rightarrow> clocks \<Rightarrow> faults \<Rightarrow> randomness \<Rightarrow> surroundings \<Rightarrow> string \<Rightarrow> string
    \<Rightarrow> request_facts \<Rightarrow> auth_db \<Rightarrow> (auth_error + login_result) \<times> auth_db" where
  "Login sc ck fs rn su email password rf d =
     (case pool_read (fs ReadUser) (GetUserByEmail (sc_lower sc) (NormalizeEmail email) d) of
        None \<Rightarrow> (Inl Faulted, d)
      | Some None \<Rightarrow> (Inl ErrInvalidCredentials, d)
      | Some (Some a) \<Rightarrow>
          if locked_now ck a then (Inl ErrAccountLocked, d)
          else if ac_status a \<noteq> ''active'' then (Inl ErrAccountInactive, d)
          else (case ac_password_hash a of
             None \<Rightarrow> (Inl ErrInvalidCredentials, d)
           | Some stored \<Rightarrow>
               (case Hasher_Verify (sc_argon2 sc) password stored of
                  HashError \<Rightarrow> (Inl Faulted, d)
                | Mismatch \<Rightarrow> wrong_password sc ck fs (ac_id a) d
                | Matches \<Rightarrow>
                    after_password sc ck fs rn su a rf (rehash sc fs rn (ac_id a) password stored d))))"

subsection \<open>An add-on's assertion\<close>

record assertion =
  as_addon :: string
  as_issuer :: string
  as_subject :: string
  as_already_signed_in :: bool
  as_satisfies_second_factor :: bool
  as_facts :: request_facts

definition MintFromAddonAssertion :: "signin_config \<Rightarrow> clocks \<Rightarrow> faults \<Rightarrow> randomness \<Rightarrow> surroundings
    \<Rightarrow> assertion \<Rightarrow> auth_db \<Rightarrow> (auth_error + login_result) \<times> auth_db" where
  "MintFromAddonAssertion sc ck fs rn su asr d =
     (if as_addon asr = '''' \<or> as_issuer asr = '''' \<or> as_subject asr = '''' then (Inl ErrAssertionIncomplete, d)
      else if as_already_signed_in asr then (Inl ErrAlreadySignedIn, d)
      else case pool_read (fs ReadUser) (ResolveAddonIdentityLink (as_addon asr) (as_issuer asr) (as_subject asr) d) of
        None \<Rightarrow> (Inl Faulted, d)
      | Some None \<Rightarrow> (Inl ErrSubjectNotLinked, d)
      | Some (Some a) \<Rightarrow>
          if locked_now ck a then (Inl ErrAccountLocked, d)
          else if ac_status a \<noteq> ''active'' then (Inl ErrAccountInactive, d)
          else if ac_mfa_enabled_at a \<noteq> None \<and> \<not> as_satisfies_second_factor asr
          then pendingSecondFactor ck fs rn (ac_id a) (as_facts asr) (Some (as_addon asr, as_issuer asr)) d
          else (case pool_stmt (fs RecordLogin) (RecordSuccessfulLogin (ac_id a)) d of
                  (None, d1) \<Rightarrow> (Inl Faulted, d1)
                | (Some _, d1) \<Rightarrow> mintSession sc ck fs rn su (ac_id a) (as_facts asr) d1))"

subsection \<open>Recovery codes\<close>

definition MFARecoveryCodeCount :: nat where "MFARecoveryCodeCount = 10"
definition recoveryCodeLength :: nat where "recoveryCodeLength = 10"
definition recoveryCodeGroup :: nat where "recoveryCodeGroup = 5"

definition recoveryCodeChars :: string where
  "recoveryCodeChars = ''0123456789abcdefghjkmnpqrstvwxyz''"

definition code_symbols :: "bytes \<Rightarrow> string" where
  "code_symbols buf = map (\<lambda>v. recoveryCodeChars ! unat (v AND 31)) buf"

fun hyphenate :: "nat \<Rightarrow> string \<Rightarrow> string" where
  "hyphenate i [] = []"
| "hyphenate i (c # cs) =
     (if 0 < i \<and> i mod recoveryCodeGroup = 0 then ''-'' else []) @ c # hyphenate (Suc i) cs"

definition newRecoveryCode :: "bytes option \<Rightarrow> string option" where
  "newRecoveryCode random = map_option (\<lambda>buf. hyphenate 0 (code_symbols buf)) random"

definition normalizeRecoveryCode :: "string \<Rightarrow> string" where
  "normalizeRecoveryCode code_text =
     string_of_runes (filter (\<lambda>r. r \<noteq> 45 \<and> r \<noteq> 32) (runes (to_lower code_text)))"

text \<open>The loop of \<open>issueRecoveryCodes\<close>, over what each turn draws.\<close>

fun issue_codes :: "faults \<Rightarrow> uuid \<Rightarrow> bytes option list \<Rightarrow> string list tx_body" where
  "issue_codes fs user [] d = tx_return [] d"
| "issue_codes fs user (r # rs) d =
     (case newRecoveryCode r of
        None \<Rightarrow> (Inl Faulted, d)
      | Some c \<Rightarrow>
          tx_then (tx_stmt (fs WriteCodes) (InsertMFARecoveryCode user (HashOpaqueToken (normalizeRecoveryCode c))))
            (\<lambda>stored. if \<not> stored then tx_refuse Faulted
              else tx_then (issue_codes fs user rs) (\<lambda>cs. tx_return (c # cs))) d)"

definition issueRecoveryCodes :: "faults \<Rightarrow> uuid \<Rightarrow> (nat \<Rightarrow> bytes option) \<Rightarrow> string list tx_body" where
  "issueRecoveryCodes fs user draw = issue_codes fs user (map draw [0..<MFARecoveryCodeCount])"

definition announce :: "mfa_change_kind \<Rightarrow> uuid \<Rightarrow> nat \<Rightarrow> auth_db \<Rightarrow> auth_db" where
  "announce kind user remaining d =
     d\<lparr>db_announced := db_announced d @ [\<lparr>mc_kind = kind, mc_user_id = user, mc_remaining = remaining\<rparr>]\<rparr>"

text \<open>A count that fails is announced as zero.\<close>

definition announceRecoveryCodeUse :: "faults \<Rightarrow> uuid \<Rightarrow> auth_db \<Rightarrow> auth_db" where
  "announceRecoveryCodeUse fs user d =
     (case pool_read (fs ReadAnnounced) (GetUser user d) of
        Some (Some a) \<Rightarrow>
          announce MFARecoveryCodeUsed user
            (case pool_read (fs CountCodes) (CountUnusedMFARecoveryCodes user d) of None \<Rightarrow> 0 | Some n \<Rightarrow> n) d
      | _ \<Rightarrow> d)"

subsection \<open>Accepting a factor\<close>

datatype factor_kind = FactorTOTP | FactorRecoveryCode

definition spend_code :: "clocks \<Rightarrow> faults \<Rightarrow> uuid \<Rightarrow> string \<Rightarrow> factor_kind tx_body" where
  "spend_code ck fs user presented =
     tx_then (tx_stmt (fs WriteFactor)
        (SpendMFARecoveryCode user (HashOpaqueToken (normalizeRecoveryCode presented)) (ck_db_now ck)))
       (\<lambda>n. if n = 0 then tx_refuse ErrMFACodeInvalid else tx_return FactorRecoveryCode)"

text \<open>The step a presented code is of, when the instance can read the secret.\<close>

definition totp_step :: "signin_config \<Rightarrow> clocks \<Rightarrow> string option \<Rightarrow> string \<Rightarrow> int64 option" where
  "totp_step sc ck sealed presented =
     (case (sealed, sc_cipher sc) of
        (Some text, Some key) \<Rightarrow>
          (case Open key text of None \<Rightarrow> None | Some secret \<Rightarrow> TOTPVerify secret presented (ck_now ck))
      | _ \<Rightarrow> None)"

definition consumeFactor :: "signin_config \<Rightarrow> clocks \<Rightarrow> faults \<Rightarrow> account \<Rightarrow> string \<Rightarrow> factor_kind tx_body" where
  "consumeFactor sc ck fs a raw =
     (let presented = trim_space raw in
      if presented = '''' then tx_refuse ErrMFACodeInvalid
      else (case totp_step sc ck (ac_mfa_secret a) presented of
              Some step \<Rightarrow>
                tx_then (tx_stmt (fs WriteFactor) (AcceptMFAStep (ac_id a) step))
                  (\<lambda>n. if n = 0 then tx_refuse ErrMFACodeInvalid else tx_return FactorTOTP)
            | None \<Rightarrow> spend_code ck fs (ac_id a) presented))"

definition challenge_open :: "clocks \<Rightarrow> pending_login \<Rightarrow> account \<Rightarrow> bool" where
  "challenge_open ck p a \<longleftrightarrow>
     pl_consumed_at p = None \<and> ck_now ck < pl_expires_at p
     \<and> ac_status a = ''active'' \<and> ac_mfa_enabled_at a \<noteq> None"

definition complete_tx :: "signin_config \<Rightarrow> clocks \<Rightarrow> faults \<Rightarrow> pending_login \<Rightarrow> account \<Rightarrow> string
    \<Rightarrow> factor_kind tx_body" where
  "complete_tx sc ck fs p a raw =
     tx_then (consumeFactor sc ck fs a raw)
       (\<lambda>kind. tx_then (tx_stmt (fs SpendPending) (ConsumeMFAPendingLogin p (ck_db_now ck)))
         (\<lambda>n. if n = 0 then tx_refuse ErrMFAChallengeInvalid else tx_return kind))"

text \<open>After the commit: the counter is cleared, a spent recovery code announced, and the session minted
  with the facts of the request that began the sign-in.\<close>

definition finish_sign_in :: "signin_config \<Rightarrow> clocks \<Rightarrow> faults \<Rightarrow> randomness \<Rightarrow> surroundings
    \<Rightarrow> pending_login \<Rightarrow> factor_kind \<Rightarrow> request_facts \<Rightarrow> auth_db \<Rightarrow> (auth_error + login_result) \<times> auth_db" where
  "finish_sign_in sc ck fs rn su p kind rf d =
     (case pool_stmt (fs RecordLogin) (RecordSuccessfulLogin (pl_user_id p)) d of
        (None, d1) \<Rightarrow> (Inl Faulted, d1)
      | (Some _, d1) \<Rightarrow>
          let d2 = (if kind = FactorRecoveryCode then announceRecoveryCodeUse fs (pl_user_id p) d1 else d1);
              facts = \<lparr>rf_addr = (case pl_ip_prefix p of Some x \<Rightarrow> prefix_addr x | None \<Rightarrow> rf_addr rf),
                       rf_agent = (case pl_user_agent p of Some x \<Rightarrow> x | None \<Rightarrow> rf_agent rf)\<rparr>
          in mintSession sc ck fs rn su (pl_user_id p) facts d2)"

definition CompleteSecondFactor :: "signin_config \<Rightarrow> clocks \<Rightarrow> faults \<Rightarrow> randomness \<Rightarrow> surroundings
    \<Rightarrow> string \<Rightarrow> string \<Rightarrow> request_facts \<Rightarrow> auth_db \<Rightarrow> (auth_error + login_result) \<times> auth_db" where
  "CompleteSecondFactor sc ck fs rn su token raw rf d =
     (if token = '''' then (Inl ErrMFAChallengeInvalid, d)
      else if fs BeginTx \<noteq> Runs \<or> fs LockRow \<noteq> Runs then (Inl Faulted, d)
      else (case LockMFAPendingLogin (HashOpaqueToken token) d of
              None \<Rightarrow> (Inl ErrMFAChallengeInvalid, d)
            | Some (p, a) \<Rightarrow>
                if \<not> challenge_open ck p a then (Inl ErrMFAChallengeInvalid, d)
                else (case in_tx fs (complete_tx sc ck fs p a raw) d of
                        (Inl e, d1) \<Rightarrow>
                          (Inl e, if e = ErrMFACodeInvalid then snd (charge sc ck fs (pl_user_id p) d1) else d1)
                      | (Inr kind, d1) \<Rightarrow> finish_sign_in sc ck fs rn su p kind rf d1)))"

subsection \<open>Enrolling and disabling\<close>

definition Available :: "signin_config \<Rightarrow> bool" where
  "Available sc \<longleftrightarrow> sc_cipher sc \<noteq> None"

definition VerifyPassword :: "signin_config \<Rightarrow> faults \<Rightarrow> uuid \<Rightarrow> string \<Rightarrow> auth_db \<Rightarrow> auth_error option" where
  "VerifyPassword sc fs user password d =
     (case pool_read (fs ReadUser) (GetUser user d) of
        Some (Some a) \<Rightarrow>
          (case ac_password_hash a of
             None \<Rightarrow> Some ErrInvalidCredentials
           | Some stored \<Rightarrow>
               if Hasher_Verify (sc_argon2 sc) password stored = Matches then None else Some ErrInvalidCredentials)
      | _ \<Rightarrow> Some Faulted)"

text \<open>The account row under \<open>LockUserMFA\<close>; no row is an error like any other.\<close>

definition lock_user :: "faults \<Rightarrow> uuid \<Rightarrow> account tx_body" where
  "lock_user fs user d =
     (if fs LockRow \<noteq> Runs then (Inl Faulted, d)
      else case GetUser user d of None \<Rightarrow> (Inl Faulted, d) | Some a \<Rightarrow> (Inr a, d))"

definition mfa_issuer :: "signin_config \<Rightarrow> string" where
  "mfa_issuer sc = (if sc_issuer sc \<noteq> '''' then sc_issuer sc else ''LinkCtrl'')"

definition BeginEnrolment :: "signin_config \<Rightarrow> faults \<Rightarrow> randomness \<Rightarrow> actor option \<Rightarrow> auth_db
    \<Rightarrow> auth_error + string \<times> string" where
  "BeginEnrolment sc fs rn who d =
     (case (requireSessionActor who, who) of
        (None, Some x) \<Rightarrow>
          if \<not> Available sc then Inl ErrMFAUnavailable
          else (case pool_read (fs ReadUser) (GetUser (at_user_id x) d) of
                  Some (Some a) \<Rightarrow>
                    if ac_mfa_enabled_at a \<noteq> None then Inl ErrMFAAlreadyEnabled
                    else (case NewTOTPSecret (rn_token rn) of
                            None \<Rightarrow> Inl Faulted
                          | Some secret \<Rightarrow> Inr (secret, TOTPURI (mfa_issuer sc) (ac_email a) secret))
                | _ \<Rightarrow> Inl Faulted)
      | (Some e, _) \<Rightarrow> Inl e
      | _ \<Rightarrow> Inl ErrUnauthorized)"

definition enrol_tx :: "clocks \<Rightarrow> faults \<Rightarrow> randomness \<Rightarrow> uuid \<Rightarrow> string \<Rightarrow> int64 \<Rightarrow> string list tx_body" where
  "enrol_tx ck fs rn user sealed step =
     tx_then (lock_user fs user)
       (\<lambda>a. if ac_mfa_enabled_at a \<noteq> None then tx_refuse ErrMFAAlreadyEnabled
         else tx_then (tx_stmt (fs WriteFactor) (EnableUserMFA user sealed step (ck_db_now ck)))
           (\<lambda>n. if n = 0 then tx_refuse ErrMFAAlreadyEnabled
             else issueRecoveryCodes fs user (rn_codes rn)))"

definition ConfirmEnrolment :: "signin_config \<Rightarrow> clocks \<Rightarrow> faults \<Rightarrow> randomness \<Rightarrow> actor option \<Rightarrow> string
    \<Rightarrow> string \<Rightarrow> auth_db \<Rightarrow> (auth_error + string list) \<times> auth_db" where
  "ConfirmEnrolment sc ck fs rn who secret presented d =
     (case (requireSessionActor who, who) of
        (None, Some x) \<Rightarrow>
          (case sc_cipher sc of
             None \<Rightarrow> (Inl ErrMFAUnavailable, d)
           | Some key \<Rightarrow>
               (case TOTPVerify secret presented (ck_now ck) of
                  None \<Rightarrow> (Inl ErrMFACodeInvalid, d)
                | Some step \<Rightarrow>
                    (case Seal key (rn_nonce rn) secret of
                       None \<Rightarrow> (Inl Faulted, d)
                     | Some sealed \<Rightarrow>
                         (case in_tx fs (enrol_tx ck fs rn (at_user_id x) sealed step) d of
                            (Inl e, d1) \<Rightarrow> (Inl e, d1)
                          | (Inr cs, d1) \<Rightarrow> (Inr cs, announce MFAEnabled (at_user_id x) (length cs) d1)))))
      | (Some e, _) \<Rightarrow> (Inl e, d)
      | _ \<Rightarrow> (Inl ErrUnauthorized, d))"

definition regenerate_tx :: "faults \<Rightarrow> randomness \<Rightarrow> uuid \<Rightarrow> string list tx_body" where
  "regenerate_tx fs rn user =
     tx_then (lock_user fs user)
       (\<lambda>a. if ac_mfa_enabled_at a = None then tx_refuse ErrMFANotEnabled
         else tx_then (tx_stmt (fs RemoveRows) (DeleteMFARecoveryCodes user))
           (\<lambda>_. issueRecoveryCodes fs user (rn_codes rn)))"

definition RegenerateRecoveryCodes :: "faults \<Rightarrow> randomness \<Rightarrow> actor option \<Rightarrow> auth_db
    \<Rightarrow> (auth_error + string list) \<times> auth_db" where
  "RegenerateRecoveryCodes fs rn who d =
     (case (requireSessionActor who, who) of
        (None, Some x) \<Rightarrow>
          (case in_tx fs (regenerate_tx fs rn (at_user_id x)) d of
             (Inl e, d1) \<Rightarrow> (Inl e, d1)
           | (Inr cs, d1) \<Rightarrow> (Inr cs, announce MFARecoveryCodesRegenerated (at_user_id x) (length cs) d1))
      | (Some e, _) \<Rightarrow> (Inl e, d)
      | _ \<Rightarrow> (Inl ErrUnauthorized, d))"

definition disable_tx :: "signin_config \<Rightarrow> clocks \<Rightarrow> faults \<Rightarrow> uuid \<Rightarrow> string \<Rightarrow> unit tx_body" where
  "disable_tx sc ck fs user raw =
     tx_then (lock_user fs user)
       (\<lambda>a. if ac_mfa_enabled_at a = None then tx_refuse ErrMFANotEnabled
         else tx_then (consumeFactor sc ck fs a raw)
           (\<lambda>_. tx_then (tx_stmt (fs RemoveRows) (DisableUserMFA user))
             (\<lambda>_. tx_then (tx_stmt (fs WriteCodes) (DeleteMFARecoveryCodes user))
               (\<lambda>_. tx_then (tx_stmt (fs ClearPending) (DeleteMFAPendingLoginsFor user))
                 (\<lambda>_. tx_return ())))))"

definition Disable :: "signin_config \<Rightarrow> clocks \<Rightarrow> faults \<Rightarrow> actor option \<Rightarrow> string \<Rightarrow> string \<Rightarrow> auth_db
    \<Rightarrow> auth_error option \<times> auth_db" where
  "Disable sc ck fs who password raw d =
     (case (requireSessionActor who, who) of
        (None, Some x) \<Rightarrow>
          (case VerifyPassword sc fs (at_user_id x) password d of
             Some e \<Rightarrow> (Some e, d)
           | None \<Rightarrow>
               (case in_tx fs (disable_tx sc ck fs (at_user_id x) raw) d of
                  (Inl e, d1) \<Rightarrow> (Some e, d1)
                | (Inr _, d1) \<Rightarrow> (None, announce MFADisabled (at_user_id x) 0 d1)))
      | (Some e, _) \<Rightarrow> (Some e, d)
      | _ \<Rightarrow> (Some ErrUnauthorized, d))"

record mfa_status =
  ms_available :: bool
  ms_enabled :: bool
  ms_remaining :: nat

definition Status :: "signin_config \<Rightarrow> faults \<Rightarrow> actor option \<Rightarrow> auth_db \<Rightarrow> auth_error + mfa_status" where
  "Status sc fs who d =
     (case who of
        None \<Rightarrow> Inl ErrInvalidCredentials
      | Some x \<Rightarrow>
          (case pool_read (fs ReadUser) (GetUser (at_user_id x) d) of
             Some (Some a) \<Rightarrow>
               if ac_mfa_enabled_at a = None
               then Inr \<lparr>ms_available = Available sc, ms_enabled = False, ms_remaining = 0\<rparr>
               else (case pool_read (fs CountCodes) (CountUnusedMFARecoveryCodes (at_user_id x) d) of
                       None \<Rightarrow> Inl Faulted
                     | Some n \<Rightarrow> Inr \<lparr>ms_available = Available sc, ms_enabled = True, ms_remaining = n\<rparr>)
           | _ \<Rightarrow> Inl Faulted))"

definition PurgePendingLogins :: "clocks \<Rightarrow> faults \<Rightarrow> nat \<Rightarrow> auth_db \<Rightarrow> auth_db" where
  "PurgePendingLogins ck fs batch d =
     snd (pool_stmt (fs RemoveRows) (PurgeFinishedMFAPendingLogins batch (ck_db_now ck)) d)"

subsection \<open>Changing the password and deleting the account\<close>

definition ChangePassword :: "signin_config \<Rightarrow> clocks \<Rightarrow> faults \<Rightarrow> randomness \<Rightarrow> uuid \<Rightarrow> uuid \<Rightarrow> string \<Rightarrow> string
    \<Rightarrow> auth_db \<Rightarrow> auth_error option \<times> auth_db" where
  "ChangePassword sc ck fs rn user keep current new d =
     (if length new < MinPasswordLength then (Some ErrTooShort, d)
      else (case VerifyPassword sc fs user current d of
              Some e \<Rightarrow> (Some e, d)
            | None \<Rightarrow>
                (case Hasher_Hash (sc_argon2 sc) (sc_params sc) (rn_salt rn) new of
                   Hashed h \<Rightarrow>
                     (case pool_stmt (fs StoreRehash) (UpdateUserPassword user h) d of
                        (None, d1) \<Rightarrow> (Some Faulted, d1)
                      | (Some _, d1) \<Rightarrow>
                          (case pool_stmt (fs RevokeRows) (RevokeAllUserSessions user keep (ck_db_now ck)) d1 of
                             (None, d2) \<Rightarrow> (Some Faulted, d2)
                           | (Some _, d2) \<Rightarrow> (None, d2)))
                 | _ \<Rightarrow> (Some Faulted, d))))"

text \<open>\<open>account.Delete\<close>: whether an organization has no other owner is asked of the tenancy
  (\<open>sole_owner\<close>), and \<open>administers\<close> is \<open>instance.admin\<close>.\<close>

definition delete_tx :: "clocks \<Rightarrow> faults \<Rightarrow> bool \<Rightarrow> uuid \<Rightarrow> unit tx_body" where
  "delete_tx ck fs sole_owner user =
     (\<lambda>d. if fs LockRow \<noteq> Runs then (Inl Faulted, d)
       else if GetUser user d = None then (Inl ErrNotFound, d)
       else if sole_owner then (Inl ErrSoleOwner, d)
       else tx_then (tx_stmt (fs RemoveRows) (DeleteAccountDependents user))
         (\<lambda>_. tx_then (tx_stmt (fs WriteFactor) (SoftDeleteUser user (ck_db_now ck)))
           (\<lambda>n. if n = 0 then tx_refuse ErrNotFound else tx_return ())) d)"

definition Delete :: "signin_config \<Rightarrow> clocks \<Rightarrow> faults \<Rightarrow> bool \<Rightarrow> bool \<Rightarrow> actor option \<Rightarrow> string \<Rightarrow> auth_db
    \<Rightarrow> auth_error option \<times> auth_db" where
  "Delete sc ck fs administers sole_owner who password d =
     (case (requireSessionActor who, who) of
        (None, Some x) \<Rightarrow>
          if administers then (Some ErrConflict, d)
          else (case VerifyPassword sc fs (at_user_id x) password d of
                  Some e \<Rightarrow> (Some e, d)
                | None \<Rightarrow>
                    (case in_tx fs (delete_tx ck fs sole_owner (at_user_id x)) d of
                       (Inl e, d1) \<Rightarrow> (Some e, d1)
                     | (Inr _, d1) \<Rightarrow> (None, d1)))
      | (Some e, _) \<Rightarrow> (Some e, d)
      | _ \<Rightarrow> (Some ErrUnauthorized, d))"

subsection \<open>Connected identities\<close>

text \<open>The insert does nothing when the key is taken (\<open>Some False\<close>); a user or a primary key that does not fit is an
  error (\<open>None\<close>).\<close>

definition CreateAddonIdentityLink :: "identity_link \<Rightarrow> auth_db \<Rightarrow> bool option \<times> auth_db" where
  "CreateAddonIdentityLink l d =
     (if list_ex (\<lambda>k. il_addon k = il_addon l \<and> il_issuer k = il_issuer l \<and> il_subject k = il_subject l) (db_links d)
      then (Some False, d)
      else if list_ex (\<lambda>k. il_id k = il_id l) (db_links d) \<or> \<not> list_ex (\<lambda>a. ac_id a = il_user_id l) (db_users d)
      then (None, d)
      else (Some True, d\<lparr>db_links := db_links d @ [l]\<rparr>))"

text \<open>The link row behind \<open>ResolveAddonIdentityLink\<close>, whose account must be live.\<close>

definition link_owner :: "string \<Rightarrow> string \<Rightarrow> string \<Rightarrow> auth_db \<Rightarrow> uuid option" where
  "link_owner addon issuer subject d = map_option ac_id (ResolveAddonIdentityLink addon issuer subject d)"

definition LinkAddonIdentity :: "faults \<Rightarrow> randomness \<Rightarrow> actor option \<Rightarrow> string \<Rightarrow> string \<Rightarrow> string \<Rightarrow> auth_db
    \<Rightarrow> auth_error option \<times> auth_db" where
  "LinkAddonIdentity fs rn who addon issuer subject d =
     (case (requireSessionActor who, who) of
        (None, Some x) \<Rightarrow>
          if at_user_id x = uuid_nil then (Some ErrUnauthorized, d)
          else if addon = '''' \<or> issuer = '''' \<or> subject = '''' then (Some ErrAssertionIncomplete, d)
          else (case pool_stmt (fs WriteFactor) (CreateAddonIdentityLink
                       \<lparr>il_id = rn_id rn, il_user_id = at_user_id x, il_addon = addon, il_issuer = issuer,
                        il_subject = subject\<rparr>) d of
                  (Some (Some True), d1) \<Rightarrow> (None, d1)
                | (Some (Some False), d1) \<Rightarrow>
                    (if pool_read (fs ReadUser) (link_owner addon issuer subject d1) = Some (Some (at_user_id x))
                     then None else Some ErrSubjectLinkedElsewhere, d1)
                | (_, d1) \<Rightarrow> (Some Faulted, d1))
      | (Some e, _) \<Rightarrow> (Some e, d)
      | _ \<Rightarrow> (Some ErrUnauthorized, d))"

definition DeleteAddonIdentityLink :: "uuid \<Rightarrow> uuid \<Rightarrow> auth_db \<Rightarrow> bool \<times> auth_db" where
  "DeleteAddonIdentityLink lid user d =
     (let hit = (\<lambda>l. il_id l = lid \<and> il_user_id l = user)
      in (list_ex hit (db_links d), d\<lparr>db_links := filter (\<lambda>l. \<not> hit l) (db_links d)\<rparr>))"

definition sever :: "faults \<Rightarrow> uuid \<Rightarrow> uuid \<Rightarrow> auth_db \<Rightarrow> auth_error option \<times> auth_db" where
  "sever fs lid user d =
     (case pool_stmt (fs RemoveRows) (DeleteAddonIdentityLink lid user) d of
        (None, d1) \<Rightarrow> (Some Faulted, d1)
      | (Some found, d1) \<Rightarrow> (if found then None else Some ErrNotFound, d1))"

definition ConnectedIdentities :: "faults \<Rightarrow> actor option \<Rightarrow> auth_db \<Rightarrow> auth_error + identity_link list" where
  "ConnectedIdentities fs who d =
     (case (requireSessionActor who, who) of
        (None, Some x) \<Rightarrow>
          if at_user_id x = uuid_nil then Inl ErrUnauthorized
          else (case pool_read (fs ReadUser) (filter (\<lambda>l. il_user_id l = at_user_id x) (db_links d)) of
                  None \<Rightarrow> Inl Faulted | Some ls \<Rightarrow> Inr ls)
      | (Some e, _) \<Rightarrow> Inl e
      | _ \<Rightarrow> Inl ErrUnauthorized)"

definition DisconnectIdentity :: "faults \<Rightarrow> actor option \<Rightarrow> uuid \<Rightarrow> auth_db \<Rightarrow> auth_error option \<times> auth_db" where
  "DisconnectIdentity fs who lid d =
     (case (requireSessionActor who, who) of
        (None, Some x) \<Rightarrow>
          if at_user_id x = uuid_nil then (Some ErrUnauthorized, d) else sever fs lid (at_user_id x) d
      | (Some e, _) \<Rightarrow> (Some e, d)
      | _ \<Rightarrow> (Some ErrUnauthorized, d))"

definition IdentitiesForAddon :: "faults \<Rightarrow> string \<Rightarrow> auth_db \<Rightarrow> identity_link list option" where
  "IdentitiesForAddon fs addon d =
     pool_read (fs ReadUser)
       (filter (\<lambda>l. il_addon l = addon \<and> GetUser (il_user_id l) d \<noteq> None) (db_links d))"

definition DisconnectIdentityFor :: "faults \<Rightarrow> string \<Rightarrow> uuid \<Rightarrow> auth_db \<Rightarrow> auth_error option \<times> auth_db" where
  "DisconnectIdentityFor fs addon lid d =
     (case IdentitiesForAddon fs addon d of
        None \<Rightarrow> (Some Faulted, d)
      | Some rows \<Rightarrow>
          (case find (\<lambda>l. il_id l = lid) rows of
             None \<Rightarrow> (Some ErrNotFound, d)
           | Some l \<Rightarrow>
               if il_user_id l = uuid_nil then (Some ErrNotFound, d) else sever fs lid (il_user_id l) d))"

end
