(* ===== verification/SignIn_Correct.thy ===== *)
theory SignIn_Correct
  imports SignIn
begin

section \<open>Correctness of signing in\<close>

text \<open>
  Every operation is shown to be a sequence of statements, so that what each statement keeps holds after
  any sequence of operations: the columns of a second factor are written together, the accepted steps of
  an enrolment increase, a challenge and a recovery code are spent at most once each time they are
  issued, an enrolled account has its ten recovery codes and nobody else any.
\<close>

subsection \<open>Operations and statements\<close>

datatype signin_op =
  OpLogin clocks faults randomness surroundings string string request_facts
| OpAssert clocks faults randomness surroundings assertion
| OpComplete clocks faults randomness surroundings string string request_facts
| OpAuthenticate clocks faults surroundings string
| OpLogout clocks faults uuid
| OpConfirm clocks faults randomness "actor option" string string
| OpRegenerate faults randomness "actor option"
| OpDisable clocks faults "actor option" string string
| OpPurge clocks faults nat
| OpChangePassword clocks faults randomness uuid uuid string string
| OpDelete clocks faults bool bool "actor option" string
| OpErase uuid
| OpRegister account
| OpLink faults randomness "actor option" string string string
| OpDisconnect faults "actor option" uuid
| OpDisconnectFor faults string uuid

fun signin_state :: "signin_config \<Rightarrow> signin_op \<Rightarrow> auth_db \<Rightarrow> auth_db" where
  "signin_state sc (OpLogin ck fs rn su email password rf) d = snd (Login sc ck fs rn su email password rf d)"
| "signin_state sc (OpAssert ck fs rn su asr) d = snd (MintFromAddonAssertion sc ck fs rn su asr d)"
| "signin_state sc (OpComplete ck fs rn su token raw rf) d = snd (CompleteSecondFactor sc ck fs rn su token raw rf d)"
| "signin_state sc (OpAuthenticate ck fs su token) d = snd (Authenticate sc ck fs su token d)"
| "signin_state sc (OpLogout ck fs sid) d = Logout ck fs sid d"
| "signin_state sc (OpConfirm ck fs rn who secret raw) d = snd (ConfirmEnrolment sc ck fs rn who secret raw d)"
| "signin_state sc (OpRegenerate fs rn who) d = snd (RegenerateRecoveryCodes fs rn who d)"
| "signin_state sc (OpDisable ck fs who password raw) d = snd (Disable sc ck fs who password raw d)"
| "signin_state sc (OpPurge ck fs batch) d = PurgePendingLogins ck fs batch d"
| "signin_state sc (OpChangePassword ck fs rn user keep cur new) d = snd (ChangePassword sc ck fs rn user keep cur new d)"
| "signin_state sc (OpDelete ck fs adm sole who password) d = snd (Delete sc ck fs adm sole who password d)"
| "signin_state sc (OpErase user) d = snd (EraseDeletedAccount user d)"
| "signin_state sc (OpRegister a) d = snd (CreateUser (sc_lower sc) a d)"
| "signin_state sc (OpLink fs rn who addon issuer subject) d = snd (LinkAddonIdentity fs rn who addon issuer subject d)"
| "signin_state sc (OpDisconnect fs who lid) d = snd (DisconnectIdentity fs who lid d)"
| "signin_state sc (OpDisconnectFor fs addon lid) d = snd (DisconnectIdentityFor fs addon lid d)"

definition signin_step :: "signin_config \<Rightarrow> signin_op \<Rightarrow> auth_db \<Rightarrow> auth_db option" where
  "signin_step sc x d = Some (signin_state sc x d)"

text \<open>The statements: those that touch neither a factor's existence nor the set of codes, and the others. Adding
  a session and adding a challenge are the two that need a grant.\<close>

datatype grant = Mints | Challenges

inductive quiet_stmt :: "signin_config \<Rightarrow> grant set \<Rightarrow> auth_db \<Rightarrow> auth_db \<Rightarrow> bool" for sc m where
  "quiet_stmt sc m d (snd (UpdateUserPassword user h d))"
| "quiet_stmt sc m d (snd (RecordSuccessfulLogin user d))"
| "quiet_stmt sc m d (snd (RecordFailedLogin user (ThresholdParam (sc_lockout sc)) (WindowSecondsParam (sc_lockout sc)) now d))"
| "quiet_stmt sc m d (snd (DeleteMFAPendingLoginsFor user d))"
| "Challenges \<in> m \<Longrightarrow> quiet_stmt sc m d (snd (CreateMFAPendingLogin p d))"
| "quiet_stmt sc m d (snd (ConsumeMFAPendingLogin p now d))"
| "quiet_stmt sc m d (snd (PurgeFinishedMFAPendingLogins batch now d))"
| "quiet_stmt sc m d (snd (AcceptMFAStep user step d))"
| "quiet_stmt sc m d (snd (SpendMFARecoveryCode user hash now d))"
| "Mints \<in> m \<Longrightarrow> quiet_stmt sc m d (snd (CreateSession s d))"
| "quiet_stmt sc m d (snd (TouchSession sid now d))"
| "quiet_stmt sc m d (snd (RevokeSession sid now d))"
| "quiet_stmt sc m d (snd (RevokeAllUserSessions user keep now d))"
| "quiet_stmt sc m d (snd (CreateUser (sc_lower sc) a d))"
| "quiet_stmt sc m d (snd (EraseDeletedAccount user d))"
| "quiet_stmt sc m d (snd (CreateAddonIdentityLink l d))"
| "quiet_stmt sc m d (snd (DeleteAddonIdentityLink lid user d))"
| "quiet_stmt sc m d (announce kind user n d)"

inductive db_stmt :: "signin_config \<Rightarrow> grant set \<Rightarrow> auth_db \<Rightarrow> auth_db \<Rightarrow> bool" for sc m where
  quiet: "quiet_stmt sc m d d1 \<Longrightarrow> db_stmt sc m d d1"
| enable: "db_stmt sc m d (snd (EnableUserMFA user sealed step now d))"
| disable: "db_stmt sc m d (snd (DisableUserMFA user d))"
| insert_code: "db_stmt sc m d (snd (InsertMFARecoveryCode user hash d))"
| clear_codes: "db_stmt sc m d (snd (DeleteMFARecoveryCodes user d))"
| dependents: "db_stmt sc m d (snd (DeleteAccountDependents user d))"
| soft_delete: "db_stmt sc m d (snd (SoftDeleteUser user now d))"

abbreviation quietly :: "signin_config \<Rightarrow> grant set \<Rightarrow> auth_db \<Rightarrow> auth_db \<Rightarrow> bool" where
  "quietly sc m \<equiv> (quiet_stmt sc m)\<^sup>*\<^sup>*"

abbreviation stmts :: "signin_config \<Rightarrow> grant set \<Rightarrow> auth_db \<Rightarrow> auth_db \<Rightarrow> bool" where
  "stmts sc m \<equiv> (db_stmt sc m)\<^sup>*\<^sup>*"

lemma quietly_stmts: "quietly sc m d d1 \<Longrightarrow> stmts sc m d d1"
  by (induction rule: rtranclp_induct) (auto intro: rtranclp.rtrancl_into_rtrancl db_stmt.quiet)

text \<open>A transaction body related to its outcome by a reflexive and transitive relation.\<close>

definition tx_within :: "(auth_db \<Rightarrow> auth_db \<Rightarrow> bool) \<Rightarrow> 'a tx_body \<Rightarrow> bool" where
  "tx_within R m \<longleftrightarrow> (\<forall>d. R\<^sup>*\<^sup>* d (snd (m d)))"

lemma tx_within_basic [inv_intros]:
  "tx_within R (tx_return x)" "tx_within R (tx_refuse e)"
  "(\<And>d. R d (snd (st d))) \<Longrightarrow> tx_within R (tx_stmt f st)"
  by (auto simp: tx_within_def tx_return_def tx_refuse_def tx_stmt_def split: prod.splits)
    (metis r_into_rtranclp snd_conv)

lemma tx_within_then [inv_intros]:
  assumes "tx_within R m" "\<And>x. tx_within R (k x)"
  shows "tx_within R (tx_then m k)"
  unfolding tx_within_def
proof
  fix d
  have m: "R\<^sup>*\<^sup>* d (snd (m d))" using assms(1) by (simp add: tx_within_def)
  show "R\<^sup>*\<^sup>* d (snd (tx_then m k d))"
  proof (cases "m d")
    case (Pair r d1)
    show ?thesis
    proof (cases r)
      case (Inl e) with m Pair show ?thesis by (simp add: tx_then_def)
    next
      case (Inr x)
      have "R\<^sup>*\<^sup>* d1 (snd (k x d1))" using assms(2) by (simp add: tx_within_def)
      with m Pair Inr show ?thesis by (auto simp: tx_then_def intro: rtranclp_trans)
    qed
  qed
qed

lemma in_tx_within:
  assumes "tx_within R m"
  shows "R\<^sup>*\<^sup>* d (snd (in_tx fs m d))"
proof -
  have "R\<^sup>*\<^sup>* d (snd (m d))" using assms by (simp add: tx_within_def)
  then show ?thesis by (auto simp: in_tx_def split: prod.splits sum.splits sql_fault.splits)
qed

lemma pool_within:
  assumes "\<And>d. R d (snd (st d))"
  shows "R\<^sup>*\<^sup>* d (snd (pool_stmt f st d))"
  using assms [of d] by (auto simp: pool_stmt_def split: prod.splits sql_fault.splits)

lemma tx_within_mono:
  assumes "tx_within R m" "\<And>d d1. R d d1 \<Longrightarrow> S d d1"
  shows "tx_within S m"
  using assms mono_rtranclp [of R S] unfolding tx_within_def by blast

text \<open>The state after a pool statement, for the case splits below.\<close>

lemma pool_quiet:
  assumes "pool_stmt f st d = (r, d1)" "\<And>d. quiet_stmt sc m d (snd (st d))"
  shows "quietly sc m d d1"
  using pool_within [of "quiet_stmt sc m" st d f, OF assms(2)] assms(1) by simp

lemmas quietI = quiet_stmt.intros

lemma mint_quiet [inv_intros]:
  assumes "Mints \<in> m"
  shows "quietly sc m d (snd (mintSession sc ck fs rn su user rf d))"
proof (cases "\<exists>ws token h. su_workspace su = Some ws \<and> NewOpaqueToken (rn_token rn) = Some (token, h)")
  case True
  then obtain ws token h where o: "su_workspace su = Some ws" "NewOpaqueToken (rn_token rn) = Some (token, h)"
    by blast
  obtain r d1 where p: "pool_stmt (fs InsertSession) (CreateSession
      \<lparr>ss_id = rn_id rn, ss_user_id = user, ss_token_hash = h, ss_ip_prefix = AnonymizeIP (rf_addr rf),
       ss_user_agent = nullable (truncate_to (rf_agent rf) 512), ss_last_seen_at = ck_db_now ck,
       ss_expires_at = ck_now ck + Absolute (sc_ttl sc), ss_revoked_at = None, ss_workspace_id = ws\<rparr>) d = (r, d1)"
    by fastforce
  have "quietly sc m d d1" by (rule pool_quiet [OF p]) (rule quietI, rule assms)
  then show ?thesis using o p by (simp add: mintSession_def Let_def split: option.splits bool.splits)
next
  case False
  then show ?thesis by (auto simp: mintSession_def split: option.splits)
qed

lemma pending_quiet [inv_intros]:
  assumes "Challenges \<in> m"
  shows "quietly sc m d (snd (pendingSecondFactor ck fs rn user rf vouched d))"
proof -
  obtain r d1 where p: "pool_stmt (fs SupersedePending) (DeleteMFAPendingLoginsFor user) d = (r, d1)"
    by fastforce
  have q: "quietly sc m d d1" by (rule pool_quiet [OF p]) (rule quietI)
  have "quietly sc m d1 (snd (pool_stmt (fs InsertPending) (CreateMFAPendingLogin row) d1))" for row
    by (rule pool_within) (rule quietI, rule assms)
  then have "quietly sc m d (snd (pool_stmt (fs InsertPending) (CreateMFAPendingLogin row) d1))" for row
    using q by (rule rtranclp_trans [rotated])
  then show ?thesis
    using p q by (auto simp: pendingSecondFactor_def Let_def split: option.splits prod.splits bool.splits) (metis snd_conv)+
qed

lemma charge_quiet [inv_intros]: "quietly sc m d (snd (charge sc ck fs user d))"
proof -
  obtain r d1 where p: "pool_stmt (fs ChargeFailure) (RecordFailedLogin user (ThresholdParam (sc_lockout sc))
      (WindowSecondsParam (sc_lockout sc)) (ck_db_now ck)) d = (r, d1)"
    by fastforce
  have "quietly sc m d d1" by (rule pool_quiet [OF p]) (rule quietI)
  with p show ?thesis by (simp add: charge_def)
qed

lemma rehash_quiet [inv_intros]: "quietly sc m d (rehash sc fs rn user password stored d)"
proof -
  have "quietly sc m d (snd (pool_stmt (fs StoreRehash) (UpdateUserPassword user h) d))" for h
    by (rule pool_within) (rule quietI)
  then show ?thesis by (simp add: rehash_def split: hash_result.splits)
qed

lemma record_then_mint_quiet:
  assumes "Mints \<in> m"
  shows "quietly sc m d (snd (case pool_stmt f (RecordSuccessfulLogin user) d of
     (None, d1) \<Rightarrow> (Inl Faulted, d1) | (Some _, d1) \<Rightarrow> mintSession sc ck fs rn su user rf d1))"
proof -
  obtain r d1 where p: "pool_stmt f (RecordSuccessfulLogin user) d = (r, d1)" by fastforce
  have q: "quietly sc m d d1" by (rule pool_quiet [OF p]) (rule quietI)
  with p rtranclp_trans [OF q mint_quiet [OF assms]] show ?thesis by (simp split: option.splits)
qed

lemma after_password_quiet: "quietly sc UNIV d (snd (after_password sc ck fs rn su a rf d))"
  using pending_quiet record_then_mint_quiet by (simp add: after_password_def)

lemma Login_quiet: "quietly sc UNIV d (snd (Login sc ck fs rn su email password rf d))"
proof -
  have "quietly sc UNIV d (snd (after_password sc ck fs rn su a rf (rehash sc fs rn (ac_id a) password stored d)))" for a stored
    using rehash_quiet after_password_quiet by (rule rtranclp_trans)
  moreover have "quietly sc UNIV d (snd (wrong_password sc ck fs user d))" for user
    using charge_quiet [of sc UNIV d ck fs user] by (auto simp: wrong_password_def split: prod.splits option.splits)
  ultimately show ?thesis
    by (simp add: Login_def split: option.splits verify_result.splits)
qed

lemma Assert_quiet: "quietly sc UNIV d (snd (MintFromAddonAssertion sc ck fs rn su asr d))"
  using record_then_mint_quiet pending_quiet by (simp add: MintFromAddonAssertion_def split: option.splits)

lemma Authenticate_quiet: "quietly sc m d (snd (Authenticate sc ck fs su token d))"
proof -
  have "quietly sc m d (snd (pool_stmt (fs TouchRow) (TouchSession sid now) d))" for sid now
    by (rule pool_within) (rule quietI)
  then show ?thesis by (simp add: Authenticate_def Let_def split: option.splits)
qed

lemma pool_quietly [inv_intros]: "(\<And>d. quiet_stmt sc m d (snd (st d))) \<Longrightarrow> quietly sc m d (snd (pool_stmt f st d))"
  by (rule pool_within)

lemma consume_quiet [inv_intros]: "tx_within (quiet_stmt sc m) (consumeFactor sc ck fs a raw)"
  by (auto simp: consumeFactor_def spend_code_def Let_def intro!: inv_intros quietI split: option.splits)

lemma complete_quiet [inv_intros]: "tx_within (quiet_stmt sc m) (complete_tx sc ck fs p a raw)"
  unfolding complete_tx_def by (intro inv_intros) (auto intro!: inv_intros quietI)

lemma announce_use_quiet: "quietly sc m d (announceRecoveryCodeUse fs user d)"
  by (auto simp: announceRecoveryCodeUse_def intro: quietI split: option.splits)

lemma finish_quiet: "quietly sc {Mints} d (snd (finish_sign_in sc ck fs rn su p kind rf d))"
proof -
  obtain r d1 where p: "pool_stmt (fs RecordLogin) (RecordSuccessfulLogin (pl_user_id p)) d = (r, d1)" by fastforce
  have q: "quietly sc {Mints} d d1" by (rule pool_quiet [OF p]) (rule quietI)
  then have a: "quietly sc {Mints} d (announceRecoveryCodeUse fs (pl_user_id p) d1)"
    using announce_use_quiet by (rule rtranclp_trans)
  from p q show ?thesis
    by (auto simp: finish_sign_in_def Let_def intro: rtranclp_trans [OF q mint_quiet [OF singletonI]] rtranclp_trans [OF a mint_quiet [OF singletonI]]
        split: option.splits)
qed

lemma Complete_quiet: "quietly sc {Mints} d (snd (CompleteSecondFactor sc ck fs rn su token raw rf d))"
proof -
  have "quietly sc {Mints} d (snd (case in_tx fs (complete_tx sc ck fs p a raw) d of
      (Inl e, d1) \<Rightarrow> (Inl e, if e = ErrMFACodeInvalid then snd (charge sc ck fs (pl_user_id p) d1) else d1)
    | (Inr kind, d1) \<Rightarrow> finish_sign_in sc ck fs rn su p kind rf d1))" for p a
  proof -
    obtain r d1 where t: "in_tx fs (complete_tx sc ck fs p a raw) d = (r, d1)" by fastforce
    have q: "quietly sc {Mints} d d1" using in_tx_within [OF complete_quiet [of sc "{Mints}" ck fs p a raw], of d fs] t by simp
    show ?thesis
      using t q rtranclp_trans [OF q charge_quiet [of sc "{Mints}" d1 ck fs "pl_user_id p"]]
        rtranclp_trans [OF q finish_quiet [of sc d1 ck fs rn su p _ rf]]
      by (auto split: sum.splits)
  qed
  then show ?thesis
    by (auto simp: CompleteSecondFactor_def split: option.splits prod.splits)
qed

lemma ChangePassword_quiet: "quietly sc m d (snd (ChangePassword sc ck fs rn user keep cur new d))"
proof -
  have "quietly sc m d (snd (case pool_stmt (fs StoreRehash) (UpdateUserPassword user h) d of
      (None, d1) \<Rightarrow> (Some Faulted, d1)
    | (Some _, d1) \<Rightarrow>
        (case pool_stmt (fs RevokeRows) (RevokeAllUserSessions user keep (ck_db_now ck)) d1 of
           (None, d2) \<Rightarrow> (Some Faulted, d2) | (Some _, d2) \<Rightarrow> (None, d2))))" for h
  proof -
    obtain r d1 where p: "pool_stmt (fs StoreRehash) (UpdateUserPassword user h) d = (r, d1)" by fastforce
    have q: "quietly sc m d d1" by (rule pool_quiet [OF p]) (rule quietI)
    obtain r2 d2 where p2: "pool_stmt (fs RevokeRows) (RevokeAllUserSessions user keep (ck_db_now ck)) d1 = (r2, d2)"
      by fastforce
    have "quietly sc m d1 d2" by (rule pool_quiet [OF p2]) (rule quietI)
    with q have "quietly sc m d d2" by (rule rtranclp_trans)
    with p p2 q show ?thesis by (auto split: option.splits)
  qed
  then show ?thesis by (simp add: ChangePassword_def split: option.splits hash_result.splits)
qed

lemma sever_quiet: "quietly sc m d (snd (sever fs lid user d))"
proof -
  obtain r d1 where p: "pool_stmt (fs RemoveRows) (DeleteAddonIdentityLink lid user) d = (r, d1)" by fastforce
  have "quietly sc m d d1" by (rule pool_quiet [OF p]) (rule quietI)
  with p show ?thesis by (auto simp: sever_def split: option.splits)
qed

lemma Link_quiet: "quietly sc m d (snd (LinkAddonIdentity fs rn who addon issuer subject d))"
proof -
  have "quietly sc m d d1" if "pool_stmt (fs WriteFactor) (CreateAddonIdentityLink l) d = (r, d1)" for l r d1
    by (rule pool_quiet [OF that]) (rule quietI)
  then show ?thesis
    by (auto simp: LinkAddonIdentity_def split: option.splits prod.splits bool.splits)
qed

lemma Disconnect_quiet: "quietly sc m d (snd (DisconnectIdentity fs who lid d))"
  and DisconnectFor_quiet: "quietly sc m d (snd (DisconnectIdentityFor fs addon lid d))"
  using sever_quiet by (auto simp: DisconnectIdentity_def DisconnectIdentityFor_def split: option.splits)

subsection \<open>The operations that are not quiet\<close>

lemma lock_within [inv_intros]: "tx_within R (lock_user fs user)"
  by (auto simp: tx_within_def lock_user_def split: option.splits)

lemma issue_codes_within: "tx_within (db_stmt sc m) (issue_codes fs user rs)"
proof (induction rs)
  case Nil
  then show ?case by (simp add: tx_within_def tx_return_def)
next
  case (Cons r rs)
  have "tx_within (db_stmt sc m) (tx_then (tx_stmt (fs WriteCodes)
      (InsertMFARecoveryCode user (HashOpaqueToken (normalizeRecoveryCode c))))
    (\<lambda>stored. if \<not> stored then tx_refuse Faulted
      else tx_then (issue_codes fs user rs) (\<lambda>cs. tx_return (c # cs))))" for c
    using Cons.IH by (intro inv_intros) (auto intro!: inv_intros db_stmt.intros(2-))
  then show ?case by (auto simp: tx_within_def split: option.splits)
qed

lemma loud_within: "tx_within (quiet_stmt sc m) b \<Longrightarrow> tx_within (db_stmt sc m) b"
  by (erule tx_within_mono) (rule db_stmt.quiet)

lemma enrol_within: "tx_within (db_stmt sc m) (enrol_tx ck fs rn user sealed step)"
  unfolding enrol_tx_def issueRecoveryCodes_def
  by (intro inv_intros) (auto intro!: tx_within_basic tx_within_then issue_codes_within db_stmt.intros(2-))

lemma regenerate_within: "tx_within (db_stmt sc m) (regenerate_tx fs rn user)"
  unfolding regenerate_tx_def issueRecoveryCodes_def
  by (intro inv_intros) (auto intro!: tx_within_basic tx_within_then issue_codes_within db_stmt.intros(2-))

lemma disable_within: "tx_within (db_stmt sc m) (disable_tx sc ck fs user raw)"
  unfolding disable_tx_def
  by (intro inv_intros)
    (auto intro!: tx_within_basic tx_within_then loud_within [OF consume_quiet] db_stmt.intros(2-)
      db_stmt.quiet [OF quietI(4)])

lemma delete_within: "tx_within (db_stmt sc m) (delete_tx ck fs sole user)"
proof -
  have "tx_within (db_stmt sc m) (tx_then (tx_stmt (fs RemoveRows) (DeleteAccountDependents user))
         (\<lambda>_. tx_then (tx_stmt (fs WriteFactor) (SoftDeleteUser user (ck_db_now ck)))
           (\<lambda>n. if n = 0 then tx_refuse ErrNotFound else tx_return ())))"
    by (intro inv_intros) (auto intro!: inv_intros db_stmt.intros(2-))
  then show ?thesis by (auto simp: tx_within_def delete_tx_def)
qed

lemma in_tx_stmts: "tx_within (db_stmt sc m) b \<Longrightarrow> in_tx fs b d = (r, d1) \<Longrightarrow> stmts sc m d d1"
  using in_tx_within [of "db_stmt sc m" b d fs] by simp

lemma stmts_announce: "stmts sc m d d1 \<Longrightarrow> stmts sc m d (announce kind user n d1)"
  by (erule rtranclp.rtrancl_into_rtrancl) (intro db_stmt.quiet quietI)

text \<open>The three operations that mint sessions, two of which may open a challenge instead.\<close>

fun grants :: "signin_op \<Rightarrow> grant set" where
  "grants (OpLogin ck fs rn su email password rf) = UNIV"
| "grants (OpAssert ck fs rn su asr) = UNIV"
| "grants (OpComplete ck fs rn su token raw rf) = {Mints}"
| "grants _ = {}"

lemma signin_stmts: "stmts sc (grants x) d (signin_state sc x d)"
proof (cases x)
  case (OpConfirm ck fs rn who secret raw)
  then show ?thesis
    by (auto simp: ConfirmEnrolment_def dest!: in_tx_stmts [OF enrol_within] intro: stmts_announce
        split: option.splits prod.splits sum.splits)
next
  case (OpRegenerate fs rn who)
  then show ?thesis
    by (auto simp: RegenerateRecoveryCodes_def dest!: in_tx_stmts [OF regenerate_within] intro: stmts_announce
        split: option.splits prod.splits sum.splits)
next
  case (OpDisable ck fs who password raw)
  then show ?thesis
    by (auto simp: Disable_def dest!: in_tx_stmts [OF disable_within] intro: stmts_announce
        split: option.splits prod.splits sum.splits)
next
  case (OpDelete ck fs adm sole who password)
  then show ?thesis
    by (auto simp: Delete_def dest!: in_tx_stmts [OF delete_within] split: option.splits prod.splits sum.splits)
next
  case (OpLogout ck fs sid)
  have "quietly sc {} d (Logout ck fs sid d)" unfolding Logout_def by (rule pool_within) (rule quietI)
  with OpLogout show ?thesis by (simp add: quietly_stmts)
next
  case (OpPurge ck fs batch)
  have "quietly sc {} d (PurgePendingLogins ck fs batch d)"
    unfolding PurgePendingLogins_def by (rule pool_within) (rule quietI)
  with OpPurge show ?thesis by (simp add: quietly_stmts)
next
  case (OpErase user)
  then show ?thesis by (auto intro!: r_into_rtranclp db_stmt.quiet quietI)
next
  case (OpRegister a)
  then show ?thesis by (auto intro!: r_into_rtranclp db_stmt.quiet quietI)
qed (simp_all add: quietly_stmts Login_quiet Assert_quiet Complete_quiet Authenticate_quiet ChangePassword_quiet
      Link_quiet Disconnect_quiet DisconnectFor_quiet)

subsection \<open>What every statement keeps\<close>

text \<open>The steps accepted since a factor was last enabled, the enrolling one first.\<close>

definition add_step :: "uuid \<Rightarrow> int64 list \<Rightarrow> effect \<Rightarrow> int64 list" where
  "add_step user acc e =
     (case e of
        FactorEnabled u s \<Rightarrow> if u = user then [s] else acc
      | StepAccepted u s \<Rightarrow> if u = user then acc @ [s] else acc
      | _ \<Rightarrow> acc)"

definition steps_of :: "uuid \<Rightarrow> effect list \<Rightarrow> int64 list" where
  "steps_of user es = foldl (add_step user) [] es"

text \<open>A row of \<open>users\<close>: the factor's columns together, and a count below the threshold while unlocked.\<close>

definition account_ok :: "int \<Rightarrow> account \<Rightarrow> bool" where
  "account_ok threshold a \<longleftrightarrow>
     (ac_mfa_secret a = None \<longleftrightarrow> ac_mfa_enabled_at a = None)
     \<and> (ac_mfa_enabled_at a \<noteq> None \<longrightarrow> ac_mfa_last_step a \<noteq> None)
     \<and> (ac_deleted_at a = None \<longrightarrow> ac_mfa_enabled_at a = None \<longrightarrow> ac_mfa_last_step a = None)
     \<and> (0 < threshold \<longrightarrow> ac_locked_until a = None \<longrightarrow> ac_failed_login_count a < threshold)"

definition has_factor :: "account \<Rightarrow> bool" where
  "has_factor a \<longleftrightarrow> ac_deleted_at a = None \<and> ac_mfa_enabled_at a \<noteq> None"

definition users_ok :: "int \<Rightarrow> account list \<Rightarrow> effect list \<Rightarrow> bool" where
  "users_ok threshold us es \<longleftrightarrow>
     distinct (map ac_id us) \<and> (\<forall>a \<in> set us. account_ok threshold a)
     \<and> (\<forall>u. sorted_wrt (<) (map sint (steps_of u es)))
     \<and> (\<forall>a \<in> set us. has_factor a \<longrightarrow>
          steps_of (ac_id a) es \<noteq> [] \<and> ac_mfa_last_step a = Some (last (steps_of (ac_id a) es)))"

definition pending_ok :: "pending_login list \<Rightarrow> effect list \<Rightarrow> bool" where
  "pending_ok ps es \<longleftrightarrow>
     distinct (map pl_id ps) \<and> distinct (map pl_token_hash ps)
     \<and> (\<forall>h. count_list es (PendingSpent h) + length (filter (\<lambda>p. pl_token_hash p = h \<and> pl_consumed_at p = None) ps)
          \<le> count_list es (PendingIssued h))"

definition codes_ok :: "recovery_code list \<Rightarrow> effect list \<Rightarrow> bool" where
  "codes_ok cs es \<longleftrightarrow>
     distinct (map rc_code_hash cs)
     \<and> (\<forall>u h. count_list es (CodeSpent u h)
            + length (filter (\<lambda>c. rc_user_id c = u \<and> rc_code_hash c = h \<and> rc_used_at c = None) cs)
          \<le> count_list es (CodeIssued u h))"

definition rows_ok :: "signin_config \<Rightarrow> auth_db \<Rightarrow> bool" where
  "rows_ok sc d \<longleftrightarrow>
     users_ok (ThresholdParam (sc_lockout sc)) (db_users d) (db_effects d)
     \<and> pending_ok (db_pending d) (db_effects d) \<and> codes_ok (db_codes d) (db_effects d)"

lemma steps_of_append: "steps_of u (es @ fs) = foldl (add_step u) (steps_of u es) fs"
  by (simp add: steps_of_def)

lemma steps_of_other:
  assumes "\<forall>e \<in> set fs. case e of FactorEnabled _ _ \<Rightarrow> False | StepAccepted _ _ \<Rightarrow> False | _ \<Rightarrow> True"
  shows "steps_of u (es @ fs) = steps_of u es"
proof -
  have "foldl (add_step u) acc fs = acc" for acc
    using assms by (induction fs arbitrary: acc) (auto simp: add_step_def split: effect.splits)
  then show ?thesis by (simp add: steps_of_append)
qed

lemma count_list_other: "x \<notin> set fs \<Longrightarrow> count_list (es @ fs) x = count_list es x"
  by (simp add: count_list_0_iff)

lemma filter_length_unique:
  assumes "distinct (map f xs)" "\<forall>x \<in> set xs. p x \<longrightarrow> f x = k"
  shows "filter p xs = [] \<or> (\<exists>x. filter p xs = [x] \<and> x \<in> set xs \<and> p x)"
proof (cases "filter p xs")
  case Nil then show ?thesis by simp
next
  case (Cons x ys)
  have "distinct (map f (filter p xs))" using assms(1) by (rule distinct_map_filter)
  with Cons have "f x \<notin> f ` set ys" by simp
  moreover have "\<forall>y \<in> set (x # ys). f y = k"
    using assms(2) Cons by (metis set_filter mem_Collect_eq)
  ultimately have "ys = []" by (cases ys) auto
  with Cons show ?thesis by (metis set_filter list.set_intros(1) mem_Collect_eq)
qed

lemma users_ok_unique: "users_ok th us es \<Longrightarrow> a \<in> set us \<Longrightarrow> b \<in> set us \<Longrightarrow> ac_id a = ac_id b \<Longrightarrow> a = b"
  unfolding users_ok_def distinct_map by (meson inj_onD)

lemma users_ok_map:
  assumes ids: "distinct (map ac_id us)" and steps: "\<And>u. sorted_wrt (<) (map sint (steps_of u es))"
    and row: "\<And>a. a \<in> set us \<Longrightarrow> ac_id (g a) = ac_id a \<and> account_ok th (g a)
      \<and> (has_factor (g a) \<longrightarrow> steps_of (ac_id a) es \<noteq> [] \<and> ac_mfa_last_step (g a) = Some (last (steps_of (ac_id a) es)))"
  shows "users_ok th (map g us) es"
proof -
  have "map ac_id (map g us) = map ac_id us" using row by simp
  moreover have "account_ok th b \<and> (has_factor b \<longrightarrow> steps_of (ac_id b) es \<noteq> []
      \<and> ac_mfa_last_step b = Some (last (steps_of (ac_id b) es)))" if "b \<in> set (map g us)" for b
  proof -
    from that obtain a where a: "a \<in> set us" and b: "b = g a" unfolding set_map by (rule imageE)
    show ?thesis using row [OF a] unfolding b by simp
  qed
  ultimately show ?thesis using ids steps unfolding users_ok_def by metis
qed

lemma users_ok_update:
  assumes ok: "users_ok th us es"
    and f: "\<And>a. a \<in> set us \<Longrightarrow> p a \<Longrightarrow> ac_id (f a) = ac_id a \<and> account_ok th (f a)
      \<and> (has_factor (f a) \<longrightarrow> has_factor a \<and> ac_mfa_last_step (f a) = ac_mfa_last_step a)"
  shows "users_ok th (map (\<lambda>a. if p a then f a else a) us) es"
proof (rule users_ok_map)
  fix a assume a: "a \<in> set us"
  show "ac_id (if p a then f a else a) = ac_id a \<and> account_ok th (if p a then f a else a)
      \<and> (has_factor (if p a then f a else a) \<longrightarrow> steps_of (ac_id a) es \<noteq> []
        \<and> ac_mfa_last_step (if p a then f a else a) = Some (last (steps_of (ac_id a) es)))"
    using ok f [OF a] a by (cases "p a") (auto simp: users_ok_def)
qed (use ok in \<open>auto simp: users_ok_def\<close>)

lemma users_ok_steps:
  assumes "users_ok th us es" "\<And>u. steps_of u fs = steps_of u es"
  shows "users_ok th us fs"
  using assms by (simp add: users_ok_def)

text \<open>Statements on \<open>users\<close>.\<close>

lemma charged_ok: "account_ok th a \<Longrightarrow> account_ok th (charged th secs now a)"
  by (cases "ac_locked_until a") (simp_all add: account_ok_def charged_def Let_def)

lemma rows_ok_users:
  assumes "rows_ok sc d" "users_ok (ThresholdParam (sc_lockout sc)) us (db_effects d)"
  shows "rows_ok sc (d\<lparr>db_users := us\<rparr>)"
  using assms by (simp add: rows_ok_def)

lemma update_rows_ok:
  assumes "rows_ok sc d"
    and "\<And>a. a \<in> set (db_users d) \<Longrightarrow> p a \<Longrightarrow> account_ok (ThresholdParam (sc_lockout sc)) a
      \<Longrightarrow> ac_id (f a) = ac_id a \<and> account_ok (ThresholdParam (sc_lockout sc)) (f a)
      \<and> (has_factor (f a) \<longrightarrow> has_factor a \<and> ac_mfa_last_step (f a) = ac_mfa_last_step a)"
  shows "rows_ok sc (snd (update_users p f d))"
proof -
  have ok: "users_ok (ThresholdParam (sc_lockout sc)) (db_users d) (db_effects d)"
    using assms(1) by (simp add: rows_ok_def)
  have "users_ok (ThresholdParam (sc_lockout sc)) (map (\<lambda>a. if p a then f a else a) (db_users d)) (db_effects d)"
    using ok by (rule users_ok_update) (use assms(2) ok in \<open>auto simp: users_ok_def\<close>)
  with assms(1) show ?thesis by (simp add: update_users_def rows_ok_users)
qed

text \<open>The two statements that write a step change at most one row and extend its list of steps.\<close>

lemma steps_ok_update:
  assumes ok: "users_ok th us es"
    and p: "\<And>a. p a \<Longrightarrow> ac_id a = user \<and> ac_deleted_at a = None"
    and f: "\<And>a. ac_id (f a) = ac_id a"
    and row: "\<And>a. a \<in> set us \<Longrightarrow> p a \<Longrightarrow> account_ok th (f a) \<and> ac_mfa_last_step (f a) = Some step"
    and ext: "\<And>a. a \<in> set us \<Longrightarrow> p a \<Longrightarrow>
      sorted_wrt (<) (map sint (add_step user (steps_of user es) e)) \<and> add_step user (steps_of user es) e \<noteq> []
      \<and> last (add_step user (steps_of user es) e) = step"
    and e: "e = FactorEnabled user step \<or> e = StepAccepted user step"
  shows "users_ok th (map (\<lambda>a. if p a then f a else a) us) (es @ replicate (length (filter p us)) e)"
proof -
  consider "filter p us = []" | a where "filter p us = [a]" "a \<in> set us" "p a"
    using filter_length_unique [of ac_id us p user] ok p by (auto simp: users_ok_def)
  then show ?thesis
  proof cases
    case 1
    then have "map (\<lambda>a. if p a then f a else a) us = us" by (auto simp: filter_empty_conv intro: map_idI)
    with ok 1 show ?thesis by simp
  next
    case 2
    have other: "steps_of u (es @ [e]) = steps_of u es" if "u \<noteq> user" for u
      using e that by (auto simp: steps_of_append add_step_def)
    have mine: "steps_of user (es @ [e]) = add_step user (steps_of user es) e" by (simp add: steps_of_append)
    have "users_ok th (map (\<lambda>a. if p a then f a else a) us) (es @ [e])"
    proof (rule users_ok_map)
      show "distinct (map ac_id us)" using ok by (simp add: users_ok_def)
      show "sorted_wrt (<) (map sint (steps_of u (es @ [e])))" for u
        using ok ext [OF 2(2,3)] other mine by (cases "u = user") (auto simp: users_ok_def)
      fix b assume b: "b \<in> set us"
      show "ac_id (if p b then f b else b) = ac_id b \<and> account_ok th (if p b then f b else b)
        \<and> (has_factor (if p b then f b else b) \<longrightarrow> steps_of (ac_id b) (es @ [e]) \<noteq> []
          \<and> ac_mfa_last_step (if p b then f b else b) = Some (last (steps_of (ac_id b) (es @ [e]))))"
      proof (cases "ac_id b = user")
        case True
        with p [OF 2(3)] have "ac_id b = ac_id a" by simp
        then have "b = a" using users_ok_unique [OF ok b 2(2)] by simp
        then show ?thesis using 2 row [OF 2(2,3)] ext [OF 2(2,3)] True mine f by simp
      next
        case False
        then have "\<not> p b" using p by blast
        then show ?thesis using ok b other [OF False] by (auto simp: users_ok_def)
      qed
    qed
    with 2(1) show ?thesis by simp
  qed
qed

lemma effects_other:
  assumes "rows_ok sc d" "\<forall>e \<in> set fs. \<exists>u s. e = FactorEnabled u s \<or> e = StepAccepted u s"
    and "users_ok (ThresholdParam (sc_lockout sc)) us (db_effects d @ fs)"
  shows "rows_ok sc (d\<lparr>db_users := us, db_effects := db_effects d @ fs\<rparr>)"
proof -
  have "PendingSpent h \<notin> set fs" "PendingIssued h \<notin> set fs" "CodeSpent u h \<notin> set fs" "CodeIssued u h \<notin> set fs" for u h
    using assms(2) by auto
  then show ?thesis using assms by (simp add: rows_ok_def pending_ok_def codes_ok_def count_list_other del: count_list_append)
qed

lemma Enable_ok:
  assumes "rows_ok sc d"
  shows "rows_ok sc (snd (EnableUserMFA user sealed step now d))"
proof -
  let ?p = "\<lambda>a. live_account user a \<and> ac_mfa_enabled_at a = None"
  let ?f = "\<lambda>a. a\<lparr>ac_mfa_secret := Some sealed, ac_mfa_enabled_at := Some now, ac_mfa_last_step := Some step\<rparr>"
  have "users_ok (ThresholdParam (sc_lockout sc)) (map (\<lambda>a. if ?p a then ?f a else a) (db_users d))
      (db_effects d @ replicate (length (filter ?p (db_users d))) (FactorEnabled user step))"
    by (rule steps_ok_update [where user = user and step = step])
      (use assms in \<open>auto simp: rows_ok_def users_ok_def live_account_def add_step_def account_ok_def\<close>)
  from effects_other [OF assms _ this] show ?thesis
    by (simp add: EnableUserMFA_def update_users_def)
qed

lemma above_floor:
  assumes "sorted_wrt (<) (map sint xs)" "xs \<noteq> []" "sint (last xs) < sint (step :: int64)"
  shows "sorted_wrt (<) (map sint (xs @ [step]))"
proof -
  have "sint x \<le> sint (last xs)" if "x \<in> set xs" for x
  proof -
    obtain ys where xs: "xs = ys @ [last xs]" using assms(2) by (metis append_butlast_last_id)
    show ?thesis
    proof (cases "x = last xs")
      case False
      then have "x \<in> set ys" using that xs by (metis Un_iff empty_iff insert_iff list.set set_append)
      moreover have "sorted_wrt (<) (map sint ys @ [sint (last xs)])" using assms(1) xs by (metis map_append list.simps(8,9))
      ultimately show ?thesis by (auto simp: sorted_wrt_append)
    qed simp
  qed
  with assms show ?thesis by (force simp: sorted_wrt_append)
qed

lemma Accept_ok:
  assumes "rows_ok sc d"
  shows "rows_ok sc (snd (AcceptMFAStep user step d))"
proof -
  let ?p = "\<lambda>a. live_account user a \<and> ac_mfa_enabled_at a \<noteq> None \<and> \<not> below_floor step a"
  let ?f = "\<lambda>a. a\<lparr>ac_mfa_last_step := Some step\<rparr>"
  have ok: "users_ok (ThresholdParam (sc_lockout sc)) (db_users d) (db_effects d)"
    using assms by (simp add: rows_ok_def)
  have "users_ok (ThresholdParam (sc_lockout sc)) (map (\<lambda>a. if ?p a then ?f a else a) (db_users d))
      (db_effects d @ replicate (length (filter ?p (db_users d))) (StepAccepted user step))"
  proof (rule steps_ok_update [where user = user and step = step])
    fix a assume a: "a \<in> set (db_users d)" "?p a"
    then have "has_factor a" "ac_id a = user" by (auto simp: has_factor_def live_account_def)
    with ok a have st: "steps_of user (db_effects d) \<noteq> []"
      "ac_mfa_last_step a = Some (last (steps_of user (db_effects d)))"
      "sorted_wrt (<) (map sint (steps_of user (db_effects d)))"
      unfolding users_ok_def by blast+
    have "sint (last (steps_of user (db_effects d))) < sint step"
      using a(2) st(2) by (simp add: below_floor_def)
    from above_floor [OF st(3,1) this]
    show "sorted_wrt (<) (map sint (add_step user (steps_of user (db_effects d)) (StepAccepted user step)))
      \<and> add_step user (steps_of user (db_effects d)) (StepAccepted user step) \<noteq> []
      \<and> last (add_step user (steps_of user (db_effects d)) (StepAccepted user step)) = step"
      by (simp add: add_step_def)
    show "account_ok (ThresholdParam (sc_lockout sc)) (?f a) \<and> ac_mfa_last_step (?f a) = Some step"
      using ok a by (auto simp: users_ok_def account_ok_def)
  qed (use ok in \<open>auto simp: live_account_def\<close>)
  from effects_other [OF assms _ this] show ?thesis
    by (simp add: AcceptMFAStep_def update_users_def)
qed

lemma CreateUser_ok:
  assumes "rows_ok sc d"
  shows "rows_ok sc (snd (CreateUser lower a d))"
proof (cases "fst (CreateUser lower a d)")
  case True
  let ?a = "a\<lparr>ac_failed_login_count := 0, ac_locked_until := None, ac_mfa_secret := None,
      ac_mfa_enabled_at := None, ac_mfa_last_step := None, ac_deleted_at := None\<rparr>"
  have new: "ac_id a \<notin> ac_id ` set (db_users d)" "snd (CreateUser lower a d) = d\<lparr>db_users := db_users d @ [?a]\<rparr>"
    using True by (auto simp: CreateUser_def list_ex_iff split: if_splits)
  have "users_ok (ThresholdParam (sc_lockout sc)) (db_users d @ [?a]) (db_effects d)"
    using assms new(1) by (auto simp: rows_ok_def users_ok_def account_ok_def has_factor_def)
  with assms new(2) show ?thesis by (simp add: rows_ok_users)
next
  case False
  with assms show ?thesis by (auto simp: CreateUser_def split: if_splits)
qed

text \<open>Statements on the challenges and the codes.\<close>

lemma rows_ok_pending:
  assumes "rows_ok sc d" "pending_ok ps (db_effects d @ fs)"
    and "\<forall>e \<in> set fs. (\<exists>h. e = PendingIssued h) \<or> (\<exists>h. e = PendingSpent h)"
  shows "rows_ok sc (d\<lparr>db_pending := ps, db_effects := db_effects d @ fs\<rparr>)"
proof -
  have "steps_of u (db_effects d @ fs) = steps_of u (db_effects d)" for u
    using assms(3) by (intro steps_of_other) (auto split: effect.splits)
  moreover have "CodeSpent u h \<notin> set fs" "CodeIssued u h \<notin> set fs" for u h using assms(3) by auto
  ultimately show ?thesis
    using assms(1,2) by (simp add: rows_ok_def codes_ok_def users_ok_def count_list_other del: count_list_append)
qed

lemma rows_ok_codes:
  assumes "rows_ok sc d" "codes_ok cs (db_effects d @ fs)"
    and "\<forall>e \<in> set fs. (\<exists>u h. e = CodeIssued u h) \<or> (\<exists>u h. e = CodeSpent u h)"
  shows "rows_ok sc (d\<lparr>db_codes := cs, db_effects := db_effects d @ fs\<rparr>)"
proof -
  have "steps_of u (db_effects d @ fs) = steps_of u (db_effects d)" for u
    using assms(3) by (intro steps_of_other) (auto split: effect.splits)
  moreover have "PendingSpent h \<notin> set fs" "PendingIssued h \<notin> set fs" for h using assms(3) by auto
  ultimately show ?thesis
    using assms(1,2) by (simp add: rows_ok_def pending_ok_def users_ok_def count_list_other del: count_list_append)
qed

lemma length_filter_filter: "length (filter q (filter p xs)) \<le> length (filter q xs)"
  by (induction xs) auto

lemma pending_ok_filter: "pending_ok ps es \<Longrightarrow> pending_ok (filter q ps) es"
  unfolding pending_ok_def
  by (meson add_le_mono distinct_map_filter le_trans length_filter_filter order_refl)

lemma codes_ok_filter: "codes_ok cs es \<Longrightarrow> codes_ok (filter q cs) es"
  unfolding codes_ok_def
  by (meson add_le_mono distinct_map_filter le_trans length_filter_filter order_refl)

lemma drop_pending_ok: "rows_ok sc d \<Longrightarrow> rows_ok sc (d\<lparr>db_pending := filter q (db_pending d)\<rparr>)"
  by (simp add: rows_ok_def pending_ok_filter)

lemma drop_codes_ok: "rows_ok sc d \<Longrightarrow> rows_ok sc (d\<lparr>db_codes := filter q (db_codes d)\<rparr>)"
  by (simp add: rows_ok_def codes_ok_filter)

lemma CreatePending_ok:
  assumes "rows_ok sc d"
  shows "rows_ok sc (snd (CreateMFAPendingLogin p d))"
proof (cases "fst (CreateMFAPendingLogin p d)")
  case True
  then have new: "pl_id p \<notin> pl_id ` set (db_pending d)" "pl_token_hash p \<notin> pl_token_hash ` set (db_pending d)"
    "snd (CreateMFAPendingLogin p d) = d\<lparr>db_pending := db_pending d @ [p],
       db_effects := db_effects d @ [PendingIssued (pl_token_hash p)]\<rparr>"
    by (auto simp: CreateMFAPendingLogin_def list_ex_iff split: if_splits)
  have ok: "pending_ok (db_pending d) (db_effects d)" using assms by (simp add: rows_ok_def)
  then have n: "count_list (db_effects d) (PendingSpent h)
      + length (filter (\<lambda>p. pl_token_hash p = h \<and> pl_consumed_at p = None) (db_pending d))
      \<le> count_list (db_effects d) (PendingIssued h)" for h
    by (simp add: pending_ok_def)
  have "pending_ok (db_pending d @ [p]) (db_effects d @ [PendingIssued (pl_token_hash p)])"
    using ok new(1,2) n by (auto simp: pending_ok_def le_SucI)
  from rows_ok_pending [OF assms this] new(3) show ?thesis by simp
next
  case False
  with assms show ?thesis by (auto simp: CreateMFAPendingLogin_def split: if_splits)
qed

lemma spend_rows:
  fixes spent :: "'k \<Rightarrow> effect"
  assumes "inj spent" "\<And>x. key (use x) = key x" "\<And>x. is_open x \<Longrightarrow> \<not> is_open (use x)"
  shows "count_list (map (\<lambda>x. spent (key x)) (filter (\<lambda>x. p x \<and> is_open x) xs)) (spent k)
    + length (filter (\<lambda>x. key x = k \<and> is_open x) (map (\<lambda>x. if p x \<and> is_open x then use x else x) xs))
    = length (filter (\<lambda>x. key x = k \<and> is_open x) xs)"
  using assms by (induction xs) (auto simp: inj_eq)

lemma pending_ok_spend:
  assumes "pending_ok ps es" "map pl_id qs = map pl_id ps" "map pl_token_hash qs = map pl_token_hash ps"
    and "\<And>h. count_list fs (PendingSpent h) + length (filter (\<lambda>p. pl_token_hash p = h \<and> pl_consumed_at p = None) qs)
      = length (filter (\<lambda>p. pl_token_hash p = h \<and> pl_consumed_at p = None) ps)"
    and "\<And>h. count_list fs (PendingIssued h) = 0"
  shows "pending_ok qs (es @ fs)"
  unfolding pending_ok_def
proof (intro conjI allI)
  fix h
  have "count_list es (PendingSpent h) + length (filter (\<lambda>p. pl_token_hash p = h \<and> pl_consumed_at p = None) ps)
      \<le> count_list es (PendingIssued h)"
    using assms(1) by (simp add: pending_ok_def)
  with assms(4) [of h] assms(5) [of h]
  show "count_list (es @ fs) (PendingSpent h)
      + length (filter (\<lambda>p. pl_token_hash p = h \<and> pl_consumed_at p = None) qs)
      \<le> count_list (es @ fs) (PendingIssued h)"
    unfolding count_list_append by linarith
qed (use assms(1-3) in \<open>simp_all add: pending_ok_def\<close>)

lemma codes_ok_spend:
  assumes "codes_ok cs es" "map rc_code_hash ks = map rc_code_hash cs"
    and "\<And>u h. count_list fs (CodeSpent u h)
        + length (filter (\<lambda>c. rc_user_id c = u \<and> rc_code_hash c = h \<and> rc_used_at c = None) ks)
      = length (filter (\<lambda>c. rc_user_id c = u \<and> rc_code_hash c = h \<and> rc_used_at c = None) cs)"
    and "\<And>u h. count_list fs (CodeIssued u h) = 0"
  shows "codes_ok ks (es @ fs)"
  unfolding codes_ok_def
proof (intro conjI allI)
  fix u h
  have "count_list es (CodeSpent u h)
        + length (filter (\<lambda>c. rc_user_id c = u \<and> rc_code_hash c = h \<and> rc_used_at c = None) cs)
      \<le> count_list es (CodeIssued u h)"
    using assms(1) by (simp add: codes_ok_def)
  with assms(3) [of u h] assms(4) [of u h]
  show "count_list (es @ fs) (CodeSpent u h)
      + length (filter (\<lambda>c. rc_user_id c = u \<and> rc_code_hash c = h \<and> rc_used_at c = None) ks)
      \<le> count_list (es @ fs) (CodeIssued u h)"
    unfolding count_list_append by linarith
qed (use assms(1,2) in \<open>simp_all add: codes_ok_def\<close>)

lemma map_filter_const: "(\<And>x. p x \<Longrightarrow> f x = k) \<Longrightarrow> map f (filter p xs) = replicate (length (filter p xs)) k"
  by (induction xs) auto

lemma Consume_ok:
  assumes "rows_ok sc d"
  shows "rows_ok sc (snd (ConsumeMFAPendingLogin p now d))"
proof -
  let ?hit = "\<lambda>q. pl_id q = pl_id p \<and> pl_consumed_at q = None"
  let ?use = "\<lambda>q :: pending_login. q\<lparr>pl_consumed_at := Some now\<rparr>"
  let ?fs = "map (\<lambda>q. PendingSpent (pl_token_hash q)) (filter ?hit (db_pending d))"
  have ok: "pending_ok (db_pending d) (db_effects d)" using assms by (simp add: rows_ok_def)
  have ids: "map pl_id (map (\<lambda>q. if ?hit q then ?use q else q) (db_pending d)) = map pl_id (db_pending d)"
    and hashes: "map pl_token_hash (map (\<lambda>q. if ?hit q then ?use q else q) (db_pending d)) = map pl_token_hash (db_pending d)"
    by auto
  have "count_list ?fs (PendingSpent h) + length (filter (\<lambda>q. pl_token_hash q = h \<and> pl_consumed_at q = None)
      (map (\<lambda>q. if ?hit q then ?use q else q) (db_pending d)))
      = length (filter (\<lambda>q. pl_token_hash q = h \<and> pl_consumed_at q = None) (db_pending d))" for h
    using spend_rows [of PendingSpent pl_token_hash ?use "\<lambda>q. pl_consumed_at q = None" "\<lambda>q. pl_id q = pl_id p"]
    by (simp add: inj_def)
  moreover have "count_list ?fs (PendingIssued h) = 0" for h by (auto simp: count_list_0_iff)
  ultimately have "pending_ok (map (\<lambda>q. if ?hit q then ?use q else q) (db_pending d)) (db_effects d @ ?fs)"
    by (intro pending_ok_spend [OF ok ids hashes])
  from rows_ok_pending [OF assms this] show ?thesis by (auto simp: ConsumeMFAPendingLogin_def Let_def)
qed

lemma InsertCode_ok:
  assumes "rows_ok sc d"
  shows "rows_ok sc (snd (InsertMFARecoveryCode user h d))"
proof (cases "fst (InsertMFARecoveryCode user h d)")
  case True
  let ?c = "\<lparr>rc_user_id = user, rc_code_hash = h, rc_used_at = None\<rparr>"
  have new: "h \<notin> rc_code_hash ` set (db_codes d)"
    "snd (InsertMFARecoveryCode user h d) = d\<lparr>db_codes := db_codes d @ [?c],
       db_effects := db_effects d @ [CodeIssued user h]\<rparr>"
    using True by (auto simp: InsertMFARecoveryCode_def list_ex_iff split: if_splits)
  have ok: "codes_ok (db_codes d) (db_effects d)" using assms by (simp add: rows_ok_def)
  then have n: "count_list (db_effects d) (CodeSpent u k)
      + length (filter (\<lambda>c. rc_user_id c = u \<and> rc_code_hash c = k \<and> rc_used_at c = None) (db_codes d))
      \<le> count_list (db_effects d) (CodeIssued u k)" for u k
    by (simp add: codes_ok_def)
  have "codes_ok (db_codes d @ [?c]) (db_effects d @ [CodeIssued user h])"
    using ok new(1) n by (auto simp: codes_ok_def le_SucI)
  from rows_ok_codes [OF assms this] new(2) show ?thesis by simp
next
  case False
  with assms show ?thesis by (auto simp: InsertMFARecoveryCode_def split: if_splits)
qed

lemma SpendCode_ok:
  assumes "rows_ok sc d"
  shows "rows_ok sc (snd (SpendMFARecoveryCode user h now d))"
proof -
  let ?hit = "\<lambda>c. rc_user_id c = user \<and> rc_code_hash c = h \<and> rc_used_at c = None"
  let ?use = "\<lambda>c :: recovery_code. c\<lparr>rc_used_at := Some now\<rparr>"
  let ?key = "\<lambda>c. (rc_user_id c, rc_code_hash c)"
  let ?fs = "replicate (length (filter ?hit (db_codes d))) (CodeSpent user h)"
  have fs: "?fs = map (\<lambda>c. CodeSpent (rc_user_id c) (rc_code_hash c)) (filter ?hit (db_codes d))"
    by (rule map_filter_const [symmetric]) simp
  have ok: "codes_ok (db_codes d) (db_effects d)" using assms by (simp add: rows_ok_def)
  have hashes: "map rc_code_hash (map (\<lambda>c. if ?hit c then ?use c else c) (db_codes d)) = map rc_code_hash (db_codes d)"
    by auto
  have "count_list ?fs (CodeSpent u k)
      + length (filter (\<lambda>c. rc_user_id c = u \<and> rc_code_hash c = k \<and> rc_used_at c = None)
          (map (\<lambda>c. if ?hit c then ?use c else c) (db_codes d)))
      = length (filter (\<lambda>c. rc_user_id c = u \<and> rc_code_hash c = k \<and> rc_used_at c = None) (db_codes d))" for u k
    using spend_rows [of "\<lambda>(u, k). CodeSpent u k" ?key ?use "\<lambda>c. rc_used_at c = None"
        "\<lambda>c. rc_user_id c = user \<and> rc_code_hash c = h" "db_codes d" "(u, k)"]
    by (simp add: inj_def fs conj_assoc)
  moreover have "count_list ?fs (CodeIssued u k) = 0" for u k by (auto simp: count_list_0_iff)
  ultimately have "codes_ok (map (\<lambda>c. if ?hit c then ?use c else c) (db_codes d)) (db_effects d @ ?fs)"
    by (intro codes_ok_spend [OF ok hashes])
  from rows_ok_codes [OF assms this] show ?thesis by (auto simp: SpendMFARecoveryCode_def Let_def)
qed

lemma rows_ok_cong:
  assumes "rows_ok sc d" "db_users e = db_users d" "db_pending e = db_pending d" "db_codes e = db_codes d"
    "db_effects e = db_effects d"
  shows "rows_ok sc e"
  using assms by (simp add: rows_ok_def)

lemma clear_count_ok: "account_ok th a \<Longrightarrow> account_ok th (a\<lparr>ac_failed_login_count := 0, ac_locked_until := None\<rparr>)"
  and new_password_ok: "account_ok th a
    \<Longrightarrow> account_ok th (a\<lparr>ac_password_hash := Some h, ac_failed_login_count := 0, ac_locked_until := None\<rparr>)"
  by (simp_all add: account_ok_def)

lemma quiet_rows_ok: "quiet_stmt sc m d d1 \<Longrightarrow> rows_ok sc d \<Longrightarrow> rows_ok sc d1"
proof (induction rule: quiet_stmt.induct)
  case (1 d user h)
  then show ?case unfolding UpdateUserPassword_def
    by (rule update_rows_ok) (simp add: has_factor_def new_password_ok)
next
  case (2 d user)
  then show ?case unfolding RecordSuccessfulLogin_def
    by (rule update_rows_ok) (simp add: has_factor_def clear_count_ok)
next
  case (3 d user now)
  have "rows_ok sc (snd (update_users (\<lambda>b. ac_id b = user) (charged (ThresholdParam (sc_lockout sc)) secs now) d))" for secs
    using 3 by (rule update_rows_ok) (simp add: charged_ok, simp add: has_factor_def charged_def Let_def)
  with 3 show ?case by (simp add: RecordFailedLogin_def split: option.splits)
next
  case (4 d user)
  then show ?case by (simp add: DeleteMFAPendingLoginsFor_def drop_pending_ok)
next
  case (7 d batch now)
  then show ?case by (simp add: PurgeFinishedMFAPendingLogins_def Let_def drop_pending_ok)
next
  case (15 d user)
  then show ?case unfolding EraseDeletedAccount_def
    by (rule update_rows_ok) (auto simp: account_ok_def has_factor_def)
qed (auto simp: CreatePending_ok Consume_ok Accept_ok SpendCode_ok CreateUser_ok CreateSession_def TouchSession_def
    RevokeSession_def RevokeAllUserSessions_def CreateAddonIdentityLink_def DeleteAddonIdentityLink_def
    announce_def Let_def elim: rows_ok_cong)

lemma stmt_rows_ok: "db_stmt sc m d d1 \<Longrightarrow> rows_ok sc d \<Longrightarrow> rows_ok sc d1"
proof (induction rule: db_stmt.induct)
  case (quiet d d1)
  then show ?case by (rule quiet_rows_ok)
next
  case (disable d user)
  then show ?case unfolding DisableUserMFA_def
    by (rule update_rows_ok) (auto simp: account_ok_def has_factor_def)
next
  case (clear_codes d user)
  then show ?case by (simp add: DeleteMFARecoveryCodes_def drop_codes_ok)
next
  case (dependents d user)
  then have "rows_ok sc (d\<lparr>db_codes := filter (\<lambda>c. rc_user_id c \<noteq> user) (db_codes d)\<rparr>)"
    by (rule drop_codes_ok)
  from drop_pending_ok [OF this, of "\<lambda>p. pl_user_id p \<noteq> user"] show ?case
    by (rule rows_ok_cong) (simp_all add: DeleteAccountDependents_def)
next
  case (soft_delete d user now)
  then show ?case unfolding SoftDeleteUser_def
    by (rule update_rows_ok) (auto simp: account_ok_def has_factor_def)
qed (simp_all add: Enable_ok InsertCode_ok)

lemma stmts_rows_ok: "stmts sc m d d1 \<Longrightarrow> rows_ok sc d \<Longrightarrow> rows_ok sc d1"
  by (induction rule: rtranclp_induct) (auto intro: stmt_rows_ok)

subsection \<open>Sets of recovery codes\<close>

definition enrolled :: "uuid \<Rightarrow> auth_db \<Rightarrow> bool" where
  "enrolled user d \<longleftrightarrow> list_ex (\<lambda>a. ac_id a = user \<and> has_factor a) (db_users d)"

definition codes_held :: "uuid \<Rightarrow> auth_db \<Rightarrow> nat" where
  "codes_held user d = length (filter (\<lambda>c. rc_user_id c = user) (db_codes d))"

definition sets_complete :: "auth_db \<Rightarrow> bool" where
  "sets_complete d \<longleftrightarrow> (\<forall>u. codes_held u d = (if enrolled u d then MFARecoveryCodeCount else 0))"

lemma enrolled_update:
  assumes "\<And>a. p a \<Longrightarrow> ac_id (f a) = ac_id a \<and> has_factor (f a) = has_factor a"
  shows "enrolled u (snd (update_users p f d)) = enrolled u d"
  using assms by (auto simp: enrolled_def update_users_def list_ex_iff)

lemma codes_held_update [simp]: "codes_held u (snd (update_users p f d)) = codes_held u d"
  by (simp add: codes_held_def update_users_def)

lemma length_filter_map_if:
  "(\<And>x. p x \<Longrightarrow> q (f x) = q x) \<Longrightarrow> length (filter q (map (\<lambda>x. if p x then f x else x) xs)) = length (filter q xs)"
  by (induction xs) auto

lemma quiet_sets: "quiet_stmt sc m d d1 \<Longrightarrow> codes_held u d1 = codes_held u d \<and> enrolled u d1 = enrolled u d"
proof (induction rule: quiet_stmt.induct)
  case (1 d user h)
  show ?case unfolding UpdateUserPassword_def by (simp add: enrolled_update has_factor_def)
next
  case (2 d user)
  show ?case unfolding RecordSuccessfulLogin_def by (simp add: enrolled_update has_factor_def)
next
  case (3 d user now)
  show ?case by (auto simp: RecordFailedLogin_def enrolled_update has_factor_def charged_def Let_def split: option.splits)
next
  case (8 d user step)
  have "enrolled u (snd (AcceptMFAStep user step d)) = enrolled u (snd (update_users
      (\<lambda>a. live_account user a \<and> ac_mfa_enabled_at a \<noteq> None \<and> \<not> below_floor step a)
      (\<lambda>a. a\<lparr>ac_mfa_last_step := Some step\<rparr>) d))"
    by (simp add: AcceptMFAStep_def update_users_def enrolled_def)
  then show ?case by (simp add: enrolled_update has_factor_def) (simp add: AcceptMFAStep_def update_users_def codes_held_def)
next
  case (9 d user h now)
  show ?case
    by (simp add: SpendMFARecoveryCode_def Let_def codes_held_def enrolled_def del: length_filter_map)
      (rule length_filter_map_if, simp)
next
  case (14 d a)
  show ?case by (auto simp: CreateUser_def codes_held_def enrolled_def has_factor_def)
next
  case (15 d user)
  show ?case unfolding EraseDeletedAccount_def
    by (rule conjI, simp, rule enrolled_update) (auto simp: has_factor_def)
qed (simp_all add: DeleteMFAPendingLoginsFor_def CreateMFAPendingLogin_def ConsumeMFAPendingLogin_def
    PurgeFinishedMFAPendingLogins_def CreateSession_def TouchSession_def RevokeSession_def RevokeAllUserSessions_def
    CreateAddonIdentityLink_def DeleteAddonIdentityLink_def announce_def Let_def codes_held_def enrolled_def)

lemma quietly_sets: "quietly sc m d d1 \<Longrightarrow> sets_complete d \<Longrightarrow> sets_complete d1"
proof (induction rule: rtranclp_induct)
  case (step x y)
  with quiet_sets [OF step.hyps(2)] show ?case by (simp add: sets_complete_def)
qed

lemma tx_then_Inr:
  assumes "tx_then m k d = (Inr y, d2)"
  obtains x d1 where "m d = (Inr x, d1)" "k x d1 = (Inr y, d2)"
  using assms by (auto simp: tx_then_def split: prod.splits sum.splits)

lemma tx_stmt_Inr: "tx_stmt f st d = (Inr x, d1) \<longleftrightarrow> f = Runs \<and> st d = (x, d1)"
  by (auto simp: tx_stmt_def split: prod.splits)

lemma tx_ends_Inr [simp]: "tx_refuse e d \<noteq> (Inr x, d1)" "tx_return x d = (Inr y, d1) \<longleftrightarrow> y = x \<and> d1 = d"
  by (auto simp: tx_refuse_def tx_return_def)

lemma lock_user_Inr: "lock_user fs user d = (Inr a, d1) \<longleftrightarrow> fs LockRow = Runs \<and> GetUser user d = Some a \<and> d1 = d"
  by (auto simp: lock_user_def split: option.splits)

lemma issue_codes_Inr:
  "issue_codes fs user rs d = (Inr cs, d1) \<Longrightarrow>
     db_users d1 = db_users d \<and> length cs = length rs
     \<and> codes_held u d1 = codes_held u d + (if u = user then length rs else 0)"
proof (induction rs arbitrary: d cs)
  case (Cons r rs)
  obtain c where "newRecoveryCode r = Some c" using Cons.prems by (auto split: option.splits)
  with Cons.prems obtain stored d2 where s: "InsertMFARecoveryCode user (HashOpaqueToken (normalizeRecoveryCode c)) d = (stored, d2)"
    "(if \<not> stored then tx_refuse Faulted else tx_then (issue_codes fs user rs) (\<lambda>cs. tx_return (c # cs))) d2 = (Inr cs, d1)"
    by (auto elim!: tx_then_Inr simp: tx_stmt_Inr)
  then obtain cs' where "issue_codes fs user rs d2 = (Inr cs', d1)" "cs = c # cs'" "stored"
    by (auto elim!: tx_then_Inr split: if_splits)
  with Cons.IH [of d2 cs'] s(1) show ?case
    by (auto simp: InsertMFARecoveryCode_def codes_held_def split: if_splits)
qed simp

lemma find_live: "GetUser user d = Some a \<Longrightarrow> a \<in> set (db_users d) \<and> live_account user a"
  unfolding GetUser_def by (rule find_Some_set)

lemma update_affects:
  assumes "update_users p f d = (n, d1)"
  shows "n = length (filter p (db_users d))" "d1 = snd (update_users p f d)"
  using assms by (auto simp: update_users_def)

lemma enrolled_users: "db_users d1 = db_users d \<Longrightarrow> enrolled u d1 = enrolled u d"
  by (simp add: enrolled_def)

lemma list_ex_map: "list_ex q (map g xs) = list_ex (\<lambda>x. q (g x)) xs"
  by (induction xs) auto

lemma enrolled_map:
  "db_users d1 = map g us \<Longrightarrow> enrolled u d1 = list_ex (\<lambda>a. ac_id (g a) = u \<and> has_factor (g a)) us"
  by (simp add: enrolled_def list_ex_map)

lemma enrol_sets:
  assumes ok: "rows_ok sc d" and sets: "sets_complete d" and tx: "enrol_tx ck fs rn user sealed step d = (Inr cs, d1)"
  shows "sets_complete d1" "length cs = MFARecoveryCodeCount"
proof -
  obtain a n d2 where a: "GetUser user d = Some a" "ac_mfa_enabled_at a = None"
    and e: "EnableUserMFA user sealed step (ck_db_now ck) d = (n, d2)"
    and i: "issueRecoveryCodes fs user (rn_codes rn) d2 = (Inr cs, d1)"
    using tx unfolding enrol_tx_def
    by (auto elim!: tx_then_Inr simp: tx_stmt_Inr lock_user_Inr split: if_splits)
  have live: "a \<in> set (db_users d)" "live_account user a" using find_live [OF a(1)] by auto
  have uok: "users_ok (ThresholdParam (sc_lockout sc)) (db_users d) (db_effects d)" using ok by (simp add: rows_ok_def)
  have only: "b = a" if "b \<in> set (db_users d)" "ac_id b = user" for b
    by (rule users_ok_unique [OF uok that(1) live(1)]) (use that(2) live(2) in \<open>simp add: live_account_def\<close>)
  have e2: "db_users d2 = map (\<lambda>b. if live_account user b \<and> ac_mfa_enabled_at b = None
      then b\<lparr>ac_mfa_secret := Some sealed, ac_mfa_enabled_at := Some (ck_db_now ck), ac_mfa_last_step := Some step\<rparr>
      else b) (db_users d)" "db_codes d2 = db_codes d"
    using e by (auto simp: EnableUserMFA_def update_users_def)
  have was: "\<not> enrolled user d"
  proof
    assume "enrolled user d"
    then obtain b where b: "b \<in> set (db_users d)" "ac_id b = user" "has_factor b"
      by (auto simp: enrolled_def list_ex_iff)
    with only [OF b(1,2)] a(2) show False by (simp add: has_factor_def)
  qed
  have now: "enrolled user d2"
    unfolding enrolled_map [OF e2(1)] list_ex_iff
    by (rule bexI [OF _ live(1)]) (use live(2) a(2) in \<open>simp add: has_factor_def live_account_def\<close>)
  have other: "enrolled u d2 = enrolled u d" if "u \<noteq> user" for u
    unfolding enrolled_map [OF e2(1)] unfolding enrolled_def
    by (rule list_ex_cong [OF refl]) (use that in \<open>simp add: live_account_def\<close>)
  have held: "codes_held u d1 = codes_held u d + (if u = user then MFARecoveryCodeCount else 0)"
    "db_users d1 = db_users d2" "length cs = MFARecoveryCodeCount" for u
    using issue_codes_Inr [OF i [unfolded issueRecoveryCodes_def], of u] e2(2) by (auto simp: codes_held_def)
  show "sets_complete d1"
    unfolding sets_complete_def
  proof
    fix u
    show "codes_held u d1 = (if enrolled u d1 then MFARecoveryCodeCount else 0)"
      using sets held was now other enrolled_users [OF held(2), of u]
      by (cases "u = user") (auto simp: sets_complete_def)
  qed
  show "length cs = MFARecoveryCodeCount" by (rule held(3))
qed

lemma length_filter_except:
  "length (filter (\<lambda>x. f x = u) (filter (\<lambda>x. f x \<noteq> v) xs)) = (if u = v then 0 else length (filter (\<lambda>x. f x = u) xs))"
  by (induction xs) auto

lemma regenerate_sets:
  assumes sets: "sets_complete d" and tx: "regenerate_tx fs rn user d = (Inr cs, d1)"
  shows "sets_complete d1"
proof -
  obtain a n d2 where a: "GetUser user d = Some a" "ac_mfa_enabled_at a \<noteq> None"
    and e: "DeleteMFARecoveryCodes user d = (n, d2)"
    and i: "issueRecoveryCodes fs user (rn_codes rn) d2 = (Inr cs, d1)"
    using tx unfolding regenerate_tx_def
    by (auto elim!: tx_then_Inr simp: tx_stmt_Inr lock_user_Inr split: if_splits)
  have "enrolled user d"
    using find_live [OF a(1)] a(2) by (auto simp: enrolled_def list_ex_iff has_factor_def live_account_def)
  moreover have "codes_held u d2 = (if u = user then 0 else codes_held u d)" "db_users d2 = db_users d" for u
    using e length_filter_except [of rc_user_id u user "db_codes d"]
    by (auto simp: DeleteMFARecoveryCodes_def codes_held_def)
  moreover have "codes_held u d1 = codes_held u d2 + (if u = user then MFARecoveryCodeCount else 0)" "db_users d1 = db_users d2" for u
    using issue_codes_Inr [OF i [unfolded issueRecoveryCodes_def], of u] by auto
  ultimately show ?thesis using sets by (auto simp: sets_complete_def enrolled_def)
qed

lemma gone_sets:
  assumes sets: "sets_complete d" and ids: "\<And>u. u \<noteq> user \<Longrightarrow> enrolled u d1 = enrolled u d"
    and gone: "\<not> enrolled user d1" and codes: "db_codes d1 = filter (\<lambda>c. rc_user_id c \<noteq> user) (db_codes d)"
  shows "sets_complete d1"
  unfolding sets_complete_def
proof
  fix u
  have "codes_held u d1 = (if u = user then 0 else codes_held u d)"
    using length_filter_except [of rc_user_id u user "db_codes d"] by (simp add: codes_held_def codes)
  then show "codes_held u d1 = (if enrolled u d1 then MFARecoveryCodeCount else 0)"
    using sets ids gone by (cases "u = user") (simp_all add: sets_complete_def)
qed

lemma update_other_enrolled:
  assumes "\<And>a. p a \<Longrightarrow> ac_id a = user" "\<And>a. ac_id (f a) = ac_id a" "u \<noteq> user"
  shows "enrolled u (snd (update_users p f d)) = enrolled u d"
proof -
  have "(ac_id (if p a then f a else a) = u \<and> has_factor (if p a then f a else a)) = (ac_id a = u \<and> has_factor a)" for a
    using assms by auto
  then show ?thesis by (simp add: enrolled_def update_users_def list_ex_map)
qed

lemma update_not_enrolled:
  assumes "\<And>a. ac_id (f a) = ac_id a" "\<And>a. p a \<Longrightarrow> \<not> has_factor (f a)" "\<And>a. ac_id a = user \<Longrightarrow> \<not> p a \<Longrightarrow> \<not> has_factor a"
  shows "\<not> enrolled user (snd (update_users p f d))"
proof -
  have "\<not> (ac_id (if p a then f a else a) = user \<and> has_factor (if p a then f a else a))" for a
    using assms by auto
  then have "\<not> list_ex (\<lambda>a. ac_id (if p a then f a else a) = user \<and> has_factor (if p a then f a else a)) (db_users d)"
    unfolding list_ex_iff by blast
  then show ?thesis by (simp add: enrolled_def update_users_def list_ex_map)
qed

lemma disable_sets:
  assumes sets: "sets_complete d" and tx: "disable_tx sc ck fs user raw d = (Inr x, d1)"
  shows "sets_complete d1"
proof -
  obtain a kind d2 n d3 m d4 k where a: "GetUser user d = Some a"
    and c: "consumeFactor sc ck fs a raw d = (Inr kind, d2)"
    and e: "DisableUserMFA user d2 = (n, d3)" "DeleteMFARecoveryCodes user d3 = (m, d4)"
      "DeleteMFAPendingLoginsFor user d4 = (k, d1)"
    using tx unfolding disable_tx_def
    by (auto elim!: tx_then_Inr simp: tx_stmt_Inr lock_user_Inr split: if_splits)
  have "quietly sc {} d d2" using consume_quiet [of sc "{}" ck fs a raw] c unfolding tx_within_def by (metis snd_conv)
  then have sets2: "sets_complete d2" using sets by (rule quietly_sets)
  have d3: "d3 = snd (DisableUserMFA user d2)" using e(1) by simp
  have users: "db_users d1 = db_users d3" and codes: "db_codes d1 = filter (\<lambda>c. rc_user_id c \<noteq> user) (db_codes d2)"
    using e by (auto simp: DisableUserMFA_def update_users_def DeleteMFARecoveryCodes_def DeleteMFAPendingLoginsFor_def)
  show ?thesis
  proof (rule gone_sets [OF sets2 _ _ codes])
    show "enrolled u d1 = enrolled u d2" if "u \<noteq> user" for u
      using that unfolding enrolled_users [OF users] d3 DisableUserMFA_def
      by (intro update_other_enrolled) (auto simp: live_account_def)
    show "\<not> enrolled user d1"
      unfolding enrolled_users [OF users] d3 DisableUserMFA_def
      by (rule update_not_enrolled) (auto simp: has_factor_def live_account_def)
  qed
qed

lemma delete_sets:
  assumes sets: "sets_complete d" and tx: "delete_tx ck fs sole user d = (Inr x, d1)"
  shows "sets_complete d1"
proof -
  obtain d2 n where e: "DeleteAccountDependents user d = ((), d2)" "SoftDeleteUser user (ck_db_now ck) d2 = (n, d1)"
    using tx unfolding delete_tx_def by (auto elim!: tx_then_Inr simp: tx_stmt_Inr split: if_splits)
  have d1: "d1 = snd (SoftDeleteUser user (ck_db_now ck) d2)" using e(2) by simp
  have users: "db_users d2 = db_users d" and codes: "db_codes d1 = filter (\<lambda>c. rc_user_id c \<noteq> user) (db_codes d)"
    using e by (auto simp: DeleteAccountDependents_def SoftDeleteUser_def update_users_def)
  show ?thesis
  proof (rule gone_sets [OF sets _ _ codes])
    show "enrolled u d1 = enrolled u d" if "u \<noteq> user" for u
      using that unfolding enrolled_users [OF users, symmetric] d1 SoftDeleteUser_def
      by (intro update_other_enrolled) (auto simp: live_account_def)
    show "\<not> enrolled user d1"
      unfolding d1 SoftDeleteUser_def by (rule update_not_enrolled) (simp_all add: has_factor_def live_account_def)
  qed
qed

lemma in_tx_sets:
  assumes "sets_complete d" "in_tx fs m d = (r, d1)" "\<And>x d2. m d = (Inr x, d2) \<Longrightarrow> sets_complete d2"
  shows "sets_complete d1"
  using assms by (auto simp: in_tx_def split: if_splits prod.splits sum.splits sql_fault.splits)

lemma announce_sets: "sets_complete d \<Longrightarrow> sets_complete (announce kind user n d)"
  by (simp add: sets_complete_def announce_def codes_held_def enrolled_def)

definition signin_ok :: "signin_config \<Rightarrow> auth_db \<Rightarrow> bool" where
  "signin_ok sc d \<longleftrightarrow> rows_ok sc d \<and> sets_complete d"

lemma signin_state_ok:
  assumes ok: "signin_ok sc d"
  shows "signin_ok sc (signin_state sc x d)"
proof -
  have rows: "rows_ok sc d" and sets: "sets_complete d" using ok by (simp_all add: signin_ok_def)
  have "sets_complete (signin_state sc x d)"
  proof (cases x)
    case (OpConfirm ck fs rn who secret raw)
    have "sets_complete d1" if "in_tx fs (enrol_tx ck fs rn user sealed step) d = (r, d1)" for user sealed step r d1
      using sets that by (rule in_tx_sets) (rule enrol_sets [OF rows sets])
    with OpConfirm sets show ?thesis
      by (auto simp: ConfirmEnrolment_def announce_sets split: option.splits prod.splits sum.splits)
  next
    case (OpRegenerate fs rn who)
    have "sets_complete d1" if "in_tx fs (regenerate_tx fs rn user) d = (r, d1)" for user r d1
      using sets that by (rule in_tx_sets) (rule regenerate_sets [OF sets])
    with OpRegenerate sets show ?thesis
      by (auto simp: RegenerateRecoveryCodes_def announce_sets split: option.splits prod.splits sum.splits)
  next
    case (OpDisable ck fs who password raw)
    have "sets_complete d1" if "in_tx fs (disable_tx sc ck fs user raw) d = (r, d1)" for user r d1
      using sets that by (rule in_tx_sets) (rule disable_sets [OF sets])
    with OpDisable sets show ?thesis
      by (auto simp: Disable_def announce_sets split: option.splits prod.splits sum.splits)
  next
    case (OpDelete ck fs adm sole who password)
    have "sets_complete d1" if "in_tx fs (delete_tx ck fs sole user) d = (r, d1)" for user r d1
      using sets that by (rule in_tx_sets) (rule delete_sets [OF sets])
    with OpDelete sets show ?thesis
      by (auto simp: Delete_def split: option.splits prod.splits sum.splits)
  next
    case (OpLogout ck fs sid)
    have "quietly sc {} d (Logout ck fs sid d)" unfolding Logout_def by (rule pool_within) (rule quietI)
    with OpLogout sets show ?thesis by (simp add: quietly_sets)
  next
    case (OpPurge ck fs batch)
    have "quietly sc {} d (PurgePendingLogins ck fs batch d)"
      unfolding PurgePendingLogins_def by (rule pool_within) (rule quietI)
    with OpPurge sets show ?thesis by (simp add: quietly_sets)
  next
    case (OpErase user)
    have "quietly sc {} d (snd (EraseDeletedAccount user d))" by (intro r_into_rtranclp quietI)
    with OpErase sets show ?thesis by (simp add: quietly_sets)
  next
    case (OpRegister a)
    have "quietly sc {} d (snd (CreateUser (sc_lower sc) a d))" by (intro r_into_rtranclp quietI)
    with OpRegister sets show ?thesis by (simp add: quietly_sets)
  qed (use sets in \<open>simp_all add: quietly_sets [OF Login_quiet] quietly_sets [OF Assert_quiet]
      quietly_sets [OF Complete_quiet] quietly_sets [OF Authenticate_quiet] quietly_sets [OF ChangePassword_quiet]
      quietly_sets [OF Link_quiet] quietly_sets [OF Disconnect_quiet] quietly_sets [OF DisconnectFor_quiet]\<close>)
  with stmts_rows_ok [OF signin_stmts rows] show ?thesis by (simp add: signin_ok_def)
qed

interpretation signing_in: invariant_machine "signin_step sc" "signin_ok sc" for sc
  by unfold_locales (simp add: signin_step_def signin_state_ok)

text \<open>An instance before anybody has registered.\<close>

definition new_instance :: auth_db where
  "new_instance = \<lparr>db_users = [], db_sessions = [], db_pending = [], db_codes = [], db_links = [],
     db_effects = [], db_announced = []\<rparr>"

lemma new_instance_ok: "signin_ok sc new_instance"
  by (simp add: signin_ok_def rows_ok_def users_ok_def pending_ok_def codes_ok_def sets_complete_def
      codes_held_def enrolled_def new_instance_def steps_of_def)

definition factor_columns :: "account \<Rightarrow> bool" where
  "factor_columns a \<longleftrightarrow>
     (ac_mfa_secret a = None) = (ac_mfa_enabled_at a = None)
     \<and> (ac_mfa_last_step a = None \<longrightarrow> ac_mfa_enabled_at a = None)
     \<and> (ac_deleted_at a = None \<longrightarrow> (ac_mfa_last_step a = None) = (ac_mfa_enabled_at a = None))"



end
