(* ===== verification/SignIn_Sessions.thy ===== *)
theory SignIn_Sessions
  imports SignIn_Correct
begin

section \<open>What a session rests on\<close>

text \<open>
  Every session row an operation of the sign-in surface adds belongs to a live, active account that proved
  what its settings ask for: the password, an add-on's assertion over a connected identity, or an open
  challenge and a second factor. The challenge itself is traced through the history to the operation that
  opened it, which proved the first factor.
\<close>

definition session_ids :: "auth_db \<Rightarrow> uuid set" where
  "session_ids d = ss_id ` set (db_sessions d)"

lemma quiet_no_session: "quiet_stmt sc m d d1 \<Longrightarrow> Mints \<notin> m \<Longrightarrow> session_ids d1 \<subseteq> session_ids d"
  by (induction rule: quiet_stmt.induct)
    (auto simp: UpdateUserPassword_def RecordSuccessfulLogin_def RecordFailedLogin_def DeleteMFAPendingLoginsFor_def
      CreateMFAPendingLogin_def ConsumeMFAPendingLogin_def PurgeFinishedMFAPendingLogins_def AcceptMFAStep_def
      SpendMFARecoveryCode_def TouchSession_def RevokeSession_def RevokeAllUserSessions_def CreateUser_def
      EraseDeletedAccount_def CreateAddonIdentityLink_def DeleteAddonIdentityLink_def announce_def update_users_def
      session_ids_def Let_def split: option.splits if_splits)

lemma stmt_no_session: "db_stmt sc m d d1 \<Longrightarrow> Mints \<notin> m \<Longrightarrow> session_ids d1 \<subseteq> session_ids d"
proof (induction rule: db_stmt.induct)
  case (quiet d d1)
  then show ?case by (rule quiet_no_session)
qed (auto simp: EnableUserMFA_def DisableUserMFA_def InsertMFARecoveryCode_def DeleteMFARecoveryCodes_def
      DeleteAccountDependents_def SoftDeleteUser_def update_users_def session_ids_def)

lemma stmts_no_session: "stmts sc m d d1 \<Longrightarrow> Mints \<notin> m \<Longrightarrow> session_ids d1 \<subseteq> session_ids d"
  by (induction rule: rtranclp_induct) (auto dest: stmt_no_session)

lemma mint_sessions:
  assumes "s \<in> set (db_sessions (snd (mintSession sc ck fs rn su user rf d)))" "ss_id s \<notin> session_ids d"
  shows "ss_user_id s = user"
  using assms
  by (auto simp: mintSession_def pool_stmt_def CreateSession_def session_ids_def Let_def
      split: option.splits prod.splits sql_fault.splits bool.splits if_splits)

lemma no_new_session:
  "stmts sc {Challenges} d d1 \<Longrightarrow> s \<in> set (db_sessions d1) \<Longrightarrow> ss_id s \<in> session_ids d"
  using stmts_no_session by (fastforce simp: session_ids_def)

lemma quiet_then_mint:
  assumes "quietly sc {Challenges} d d1" "s \<in> set (db_sessions (snd (mintSession sc ck fs rn su user rf d1)))"
    "ss_id s \<notin> session_ids d"
  shows "ss_user_id s = user"
proof -
  have "ss_id s \<notin> session_ids d1" using assms(1,3) stmts_no_session quietly_stmts by blast
  with assms(2) show ?thesis by (rule mint_sessions)
qed

text \<open>What has to be presented as a second factor for the account to be served.\<close>

definition factor_presented :: "signin_config \<Rightarrow> clocks \<Rightarrow> auth_db \<Rightarrow> account \<Rightarrow> string \<Rightarrow> bool" where
  "factor_presented sc ck d a raw \<longleftrightarrow>
     (let presented = trim_space raw in
      presented \<noteq> ''''
      \<and> (case totp_step sc ck (ac_mfa_secret a) presented of
           Some step \<Rightarrow> \<not> below_floor step a
         | None \<Rightarrow> list_ex (\<lambda>c. rc_user_id c = ac_id a
               \<and> rc_code_hash c = HashOpaqueToken (normalizeRecoveryCode presented) \<and> rc_used_at c = None) (db_codes d)))"

definition password_right :: "signin_config \<Rightarrow> account \<Rightarrow> string \<Rightarrow> bool" where
  "password_right sc a password \<longleftrightarrow>
     (case ac_password_hash a of None \<Rightarrow> False
      | Some stored \<Rightarrow> Hasher_Verify (sc_argon2 sc) password stored = Matches)"

definition linked :: "assertion \<Rightarrow> auth_db \<Rightarrow> account \<Rightarrow> bool" where
  "linked asr d a \<longleftrightarrow>
     list_ex (\<lambda>l. il_addon l = as_addon asr \<and> il_issuer l = as_issuer asr \<and> il_subject l = as_subject asr
       \<and> il_user_id l = ac_id a) (db_links d)"

fun entitled :: "signin_config \<Rightarrow> signin_op \<Rightarrow> auth_db \<Rightarrow> account \<Rightarrow> bool" where
  "entitled sc (OpLogin ck fs rn su email password rf) d a \<longleftrightarrow>
     ac_mfa_enabled_at a = None \<and> \<not> locked_now ck a \<and> password_right sc a password
     \<and> sc_lower sc (ac_email a) = sc_lower sc (NormalizeEmail email)"
| "entitled sc (OpAssert ck fs rn su asr) d a \<longleftrightarrow>
     (ac_mfa_enabled_at a = None \<or> as_satisfies_second_factor asr) \<and> \<not> locked_now ck a
     \<and> linked asr d a"
| "entitled sc (OpComplete ck fs rn su token raw rf) d a \<longleftrightarrow>
     list_ex (\<lambda>p. pl_token_hash p = HashOpaqueToken token \<and> pl_user_id p = ac_id a \<and> challenge_open ck p a)
       (db_pending d)
     \<and> factor_presented sc ck d a raw"
| "entitled sc _ d a = False"

lemma record_then_mint_session:
  assumes "s \<in> set (db_sessions (snd (case pool_stmt f (RecordSuccessfulLogin user) d of
     (None, d1) \<Rightarrow> (Inl Faulted, d1) | (Some _, d1) \<Rightarrow> mintSession sc ck fs rn su user rf d1)))"
    and "ss_id s \<notin> session_ids d"
  shows "ss_user_id s = user"
proof -
  obtain r d1 where p: "pool_stmt f (RecordSuccessfulLogin user) d = (r, d1)" by fastforce
  have q: "quietly sc {Challenges} d d1" by (rule pool_quiet [OF p]) (rule quietI)
  show ?thesis
  proof (cases r)
    case None
    with p assms no_new_session [OF quietly_stmts [OF q]] show ?thesis by auto
  next
    case (Some n)
    with p assms(1) have "s \<in> set (db_sessions (snd (mintSession sc ck fs rn su user rf d1)))" by simp
    with q show ?thesis using assms(2) by (rule quiet_then_mint)
  qed
qed

lemma pending_session:
  "s \<in> set (db_sessions (snd (pendingSecondFactor ck fs rn user rf vouched d))) \<Longrightarrow> ss_id s \<in> session_ids d"
  using no_new_session [OF quietly_stmts [OF pending_quiet [OF singletonI]]] .

lemma after_password_session:
  assumes "s \<in> set (db_sessions (snd (after_password sc ck fs rn su a rf d)))" "ss_id s \<notin> session_ids d"
  shows "ss_user_id s = ac_id a \<and> ac_mfa_enabled_at a = None"
  using assms pending_session record_then_mint_session [OF _ assms(2)]
  by (auto simp: after_password_def split: if_splits)

text \<open>The ways the two operations that start a sign-in go.\<close>

lemma Login_cases:
  obtains (same) "snd (Login sc ck fs rn su email password rf d) = d"
  | (refused) user where "snd (Login sc ck fs rn su email password rf d) = snd (charge sc ck fs user d)"
  | (passed) a stored where "a \<in> set (db_users d)" "ac_deleted_at a = None"
      "sc_lower sc (ac_email a) = sc_lower sc (NormalizeEmail email)"
      "\<not> locked_now ck a" "ac_status a = ''active''" "password_right sc a password"
      "snd (Login sc ck fs rn su email password rf d)
         = snd (after_password sc ck fs rn su a rf (rehash sc fs rn (ac_id a) password stored d))"
proof (cases "GetUserByEmail (sc_lower sc) (NormalizeEmail email) d")
  case None
  then show ?thesis by (intro same) (simp add: Login_def pool_read_def)
next
  case (Some a)
  then have a: "a \<in> set (db_users d)" "ac_deleted_at a = None"
    "sc_lower sc (ac_email a) = sc_lower sc (NormalizeEmail email)"
    by (auto simp: GetUserByEmail_def dest!: find_Some_set)
  have "snd (wrong_password sc ck fs (ac_id a) d) = snd (charge sc ck fs (ac_id a) d)"
    by (simp add: wrong_password_def split: prod.splits option.splits)
  with Some same refused passed [OF a] show ?thesis
    by (force simp: Login_def pool_read_def password_right_def split: option.splits verify_result.splits if_splits)
qed

lemma Assert_cases:
  obtains (same) "snd (MintFromAddonAssertion sc ck fs rn su asr d) = d"
  | (passed) a where "a \<in> set (db_users d)" "ac_deleted_at a = None" "linked asr d a"
      "\<not> locked_now ck a" "ac_status a = ''active''"
      "snd (MintFromAddonAssertion sc ck fs rn su asr d)
         = snd (if ac_mfa_enabled_at a \<noteq> None \<and> \<not> as_satisfies_second_factor asr
             then pendingSecondFactor ck fs rn (ac_id a) (as_facts asr) (Some (as_addon asr, as_issuer asr)) d
             else (case pool_stmt (fs RecordLogin) (RecordSuccessfulLogin (ac_id a)) d of
                  (None, d1) \<Rightarrow> (Inl Faulted, d1)
                | (Some _, d1) \<Rightarrow> mintSession sc ck fs rn su (ac_id a) (as_facts asr) d1))"
proof (cases "ResolveAddonIdentityLink (as_addon asr) (as_issuer asr) (as_subject asr) d")
  case None
  then show ?thesis by (intro same) (simp add: MintFromAddonAssertion_def pool_read_def)
next
  case (Some a)
  then obtain l where l: "l \<in> set (db_links d)" "il_addon l = as_addon asr" "il_issuer l = as_issuer asr"
    "il_subject l = as_subject asr" "GetUser (il_user_id l) d = Some a"
    by (auto simp: ResolveAddonIdentityLink_def dest!: find_Some_set split: option.splits)
  from find_live [OF l(5)] have a: "a \<in> set (db_users d)" "ac_deleted_at a = None" "ac_id a = il_user_id l"
    by (auto simp: live_account_def)
  with l have "linked asr d a" by (auto simp: linked_def list_ex_iff)
  with Some same passed [OF a(1,2)] show ?thesis
    by (force simp: MintFromAddonAssertion_def pool_read_def split: option.splits if_splits)
qed

lemma Login_session:
  assumes s: "s \<in> set (db_sessions (snd (Login sc ck fs rn su email password rf d)))" "ss_id s \<notin> session_ids d"
  shows "\<exists>a \<in> set (db_users d). live_account (ss_user_id s) a \<and> ac_status a = ''active''
    \<and> entitled sc (OpLogin ck fs rn su email password rf) d a"
proof (cases rule: Login_cases [of sc ck fs rn su email password rf d])
  case same
  with s show ?thesis by (auto simp: session_ids_def)
next
  case (refused user)
  with no_new_session [OF quietly_stmts [OF charge_quiet]] s show ?thesis by metis
next
  case (passed a stored)
  have "ss_id s \<notin> session_ids (rehash sc fs rn (ac_id a) password stored d)"
    using s(2) stmts_no_session [OF quietly_stmts [OF rehash_quiet]] by blast
  with s(1) passed(7) have "ss_user_id s = ac_id a" "ac_mfa_enabled_at a = None"
    using after_password_session by fastforce+
  with passed show ?thesis by (auto simp: live_account_def)
qed

lemma Assert_session:
  assumes s: "s \<in> set (db_sessions (snd (MintFromAddonAssertion sc ck fs rn su asr d)))" "ss_id s \<notin> session_ids d"
  shows "\<exists>a \<in> set (db_users d). live_account (ss_user_id s) a \<and> ac_status a = ''active''
    \<and> entitled sc (OpAssert ck fs rn su asr) d a"
proof (cases rule: Assert_cases [of sc ck fs rn su asr d])
  case same
  with s show ?thesis by (auto simp: session_ids_def)
next
  case (passed a)
  have "\<not> (ac_mfa_enabled_at a \<noteq> None \<and> \<not> as_satisfies_second_factor asr)"
  proof
    assume "ac_mfa_enabled_at a \<noteq> None \<and> \<not> as_satisfies_second_factor asr"
    with passed(6) s(1) have "ss_id s \<in> session_ids d" by (auto dest: pending_session)
    with s(2) show False ..
  qed
  moreover from this passed(6) s(1) have "ss_user_id s = ac_id a"
    by (intro record_then_mint_session [OF _ s(2)]) auto
  ultimately show ?thesis using passed by (auto simp: live_account_def linked_def)
qed

lemma consume_presented:
  assumes "consumeFactor sc ck fs a raw d = (Inr kind, d1)" "a \<in> set (db_users d)"
    and unique: "\<And>b. b \<in> set (db_users d) \<Longrightarrow> ac_id b = ac_id a \<Longrightarrow> b = a"
  shows "factor_presented sc ck d a raw"
proof (cases "totp_step sc ck (ac_mfa_secret a) (trim_space raw)")
  case None
  with assms(1) have "trim_space raw \<noteq> ''''"
    "fst (SpendMFARecoveryCode (ac_id a) (HashOpaqueToken (normalizeRecoveryCode (trim_space raw))) (ck_db_now ck) d) \<noteq> 0"
    by (auto simp: consumeFactor_def spend_code_def tx_stmt_Inr Let_def elim!: tx_then_Inr split: if_splits)
  with None show ?thesis
    by (auto simp: factor_presented_def SpendMFARecoveryCode_def Let_def list_ex_iff filter_empty_conv)
next
  case (Some step)
  with assms(1) have "trim_space raw \<noteq> ''''" "fst (AcceptMFAStep (ac_id a) step d) \<noteq> 0"
    by (auto simp: consumeFactor_def tx_stmt_Inr Let_def elim!: tx_then_Inr split: if_splits)
  moreover from this obtain b where "b \<in> set (db_users d)" "ac_id b = ac_id a" "\<not> below_floor step b"
    by (auto simp: AcceptMFAStep_def update_users_def live_account_def Let_def filter_empty_conv split: if_splits)
  ultimately show ?thesis using Some unique by (auto simp: factor_presented_def)
qed

lemma finish_session:
  assumes "s \<in> set (db_sessions (snd (finish_sign_in sc ck fs rn su p kind rf d)))" "ss_id s \<notin> session_ids d"
  shows "ss_user_id s = pl_user_id p"
proof -
  obtain r d1 where p: "pool_stmt (fs RecordLogin) (RecordSuccessfulLogin (pl_user_id p)) d = (r, d1)" by fastforce
  have q: "quietly sc {Challenges} d d1" by (rule pool_quiet [OF p]) (rule quietI)
  then have "quietly sc {Challenges} d (announceRecoveryCodeUse fs (pl_user_id p) d1)"
    using announce_use_quiet by (rule rtranclp_trans)
  with q p assms show ?thesis
    by (auto simp: finish_sign_in_def Let_def split: option.splits if_splits
        dest: quiet_then_mint [OF q] quiet_then_mint [of sc d "announceRecoveryCodeUse fs (pl_user_id p) d1"]
          no_new_session [OF quietly_stmts [OF q]])
qed

lemma complete_tx_consumed:
  "complete_tx sc ck fs p a raw d = (Inr kind, d1) \<Longrightarrow> \<exists>d2. consumeFactor sc ck fs a raw d = (Inr kind, d2)"
  by (auto simp: complete_tx_def tx_stmt_Inr elim!: tx_then_Inr split: if_splits)

lemma Complete_session:
  assumes s: "s \<in> set (db_sessions (snd (CompleteSecondFactor sc ck fs rn su token raw rf d)))" "ss_id s \<notin> session_ids d"
    and unique: "\<And>a b. a \<in> set (db_users d) \<Longrightarrow> b \<in> set (db_users d) \<Longrightarrow> ac_id b = ac_id a \<Longrightarrow> b = a"
  shows "\<exists>a \<in> set (db_users d). live_account (ss_user_id s) a \<and> ac_status a = ''active''
    \<and> entitled sc (OpComplete ck fs rn su token raw rf) d a"
proof -
  have old: "\<not> s \<in> set (db_sessions d)" using s(2) by (auto simp: session_ids_def)
  have refused: "\<not> s \<in> set (db_sessions (if e = ErrMFACodeInvalid then snd (charge sc ck fs user d1) else d1))"
    if tx: "in_tx fs (complete_tx sc ck fs p a raw) d = (Inl e, d1)" for p a e d1 user
  proof -
    have "stmts sc {Challenges} d d1" by (rule in_tx_stmts [OF _ tx]) (intro loud_within complete_quiet)
    moreover have "stmts sc {Challenges} d1 (snd (charge sc ck fs user d1))" by (rule quietly_stmts [OF charge_quiet])
    ultimately have "stmts sc {Challenges} d (if e = ErrMFACodeInvalid then snd (charge sc ck fs user d1) else d1)"
      by (simp add: rtranclp_trans)
    from no_new_session [OF this] s(2) show ?thesis by blast
  qed
  from s(1) old refused obtain p a kind d1 where c: "LockMFAPendingLogin (HashOpaqueToken token) d = Some (p, a)"
    "challenge_open ck p a" "in_tx fs (complete_tx sc ck fs p a raw) d = (Inr kind, d1)"
    "s \<in> set (db_sessions (snd (finish_sign_in sc ck fs rn su p kind rf d1)))"
    by (auto simp: CompleteSecondFactor_def split: option.splits sum.splits prod.splits if_splits)
  have "stmts sc {Challenges} d d1" by (rule in_tx_stmts [OF _ c(3)]) (intro loud_within complete_quiet)
  then have "ss_id s \<notin> session_ids d1" using s(2) stmts_no_session by blast
  with c(4) have user: "ss_user_id s = pl_user_id p" by (rule finish_session)
  from c(1) have found: "p \<in> set (db_pending d)" "pl_token_hash p = HashOpaqueToken token" "GetUser (pl_user_id p) d = Some a"
    by (auto simp: LockMFAPendingLogin_def dest!: find_Some_set split: option.splits)
  from find_live [OF found(3)] have m: "a \<in> set (db_users d)" "live_account (pl_user_id p) a" by auto
  from c(3) obtain d2 where "complete_tx sc ck fs p a raw d = (Inr kind, d2)"
    by (auto simp: in_tx_def split: if_splits prod.splits sum.splits sql_fault.splits)
  then have "factor_presented sc ck d a raw"
    using complete_tx_consumed consume_presented [OF _ m(1)] unique [OF m(1)] by metis
  moreover have "pl_user_id p = ac_id a" using m(2) by (simp add: live_account_def)
  ultimately have "entitled sc (OpComplete ck fs rn su token raw rf) d a"
    using found c(2) by (auto simp: list_ex_iff)
  with m user c(2) show ?thesis by (auto simp: challenge_open_def)
qed

subsection \<open>Where a challenge comes from\<close>

definition challenge_keys :: "auth_db \<Rightarrow> (bytes \<times> uuid) set" where
  "challenge_keys d = (\<lambda>p. (pl_token_hash p, pl_user_id p)) ` set (db_pending d)"

lemma quiet_no_challenge: "quiet_stmt sc m d d1 \<Longrightarrow> Challenges \<notin> m \<Longrightarrow> challenge_keys d1 \<subseteq> challenge_keys d"
  by (induction rule: quiet_stmt.induct)
    (auto simp: UpdateUserPassword_def RecordSuccessfulLogin_def RecordFailedLogin_def DeleteMFAPendingLoginsFor_def
      CreateSession_def ConsumeMFAPendingLogin_def PurgeFinishedMFAPendingLogins_def AcceptMFAStep_def
      SpendMFARecoveryCode_def TouchSession_def RevokeSession_def RevokeAllUserSessions_def CreateUser_def
      EraseDeletedAccount_def CreateAddonIdentityLink_def DeleteAddonIdentityLink_def announce_def update_users_def
      challenge_keys_def Let_def split: option.splits if_splits)

lemma stmt_no_challenge: "db_stmt sc m d d1 \<Longrightarrow> Challenges \<notin> m \<Longrightarrow> challenge_keys d1 \<subseteq> challenge_keys d"
proof (induction rule: db_stmt.induct)
  case (quiet d d1)
  then show ?case by (rule quiet_no_challenge)
qed (auto simp: EnableUserMFA_def DisableUserMFA_def InsertMFARecoveryCode_def DeleteMFARecoveryCodes_def
      DeleteAccountDependents_def SoftDeleteUser_def update_users_def challenge_keys_def)

lemma stmts_no_challenge: "stmts sc m d d1 \<Longrightarrow> Challenges \<notin> m \<Longrightarrow> challenge_keys d1 \<subseteq> challenge_keys d"
  by (induction rule: rtranclp_induct) (auto dest: stmt_no_challenge)

lemma pending_challenge:
  assumes "(h, u) \<in> challenge_keys (snd (pendingSecondFactor ck fs rn user rf vouched d))" "(h, u) \<notin> challenge_keys d"
  shows "u = user"
  using assms
  by (auto simp: pendingSecondFactor_def pool_stmt_def DeleteMFAPendingLoginsFor_def CreateMFAPendingLogin_def
      challenge_keys_def Let_def split: option.splits prod.splits sql_fault.splits bool.splits if_splits)

text \<open>What opens a challenge: the first factor of an account that has a second one.\<close>

fun began :: "signin_config \<Rightarrow> signin_op \<Rightarrow> auth_db \<Rightarrow> account \<Rightarrow> bool" where
  "began sc (OpLogin ck fs rn su email password rf) d a \<longleftrightarrow>
     ac_mfa_enabled_at a \<noteq> None \<and> \<not> locked_now ck a \<and> password_right sc a password
     \<and> sc_lower sc (ac_email a) = sc_lower sc (NormalizeEmail email)"
| "began sc (OpAssert ck fs rn su asr) d a \<longleftrightarrow>
     ac_mfa_enabled_at a \<noteq> None \<and> \<not> as_satisfies_second_factor asr \<and> \<not> locked_now ck a
     \<and> linked asr d a"
| "began sc _ d a = False"

lemma record_then_mint_challenge:
  "challenge_keys (snd (case pool_stmt f (RecordSuccessfulLogin user) d of
     (None, d1) \<Rightarrow> (Inl Faulted, d1) | (Some _, d1) \<Rightarrow> mintSession sc ck fs rn su user rf d1)) \<subseteq> challenge_keys d"
  by (rule stmts_no_challenge [OF quietly_stmts [OF record_then_mint_quiet [OF singletonI]]]) simp

lemma Login_challenge:
  assumes "(h, u) \<in> challenge_keys (snd (Login sc ck fs rn su email password rf d))" "(h, u) \<notin> challenge_keys d"
  shows "\<exists>a \<in> set (db_users d). live_account u a \<and> ac_status a = ''active''
    \<and> began sc (OpLogin ck fs rn su email password rf) d a"
proof (cases rule: Login_cases [of sc ck fs rn su email password rf d])
  case (refused user)
  with assms stmts_no_challenge [OF quietly_stmts [OF charge_quiet]] show ?thesis by fastforce
next
  case (passed a stored)
  let ?d = "rehash sc fs rn (ac_id a) password stored d"
  have old: "(h, u) \<notin> challenge_keys ?d"
    using assms(2) stmts_no_challenge [OF quietly_stmts [OF rehash_quiet], of "{}"] by blast
  have on: "ac_mfa_enabled_at a \<noteq> None"
  proof
    assume "ac_mfa_enabled_at a = None"
    with assms(1) passed(7) have "(h, u) \<in> challenge_keys ?d"
      by (auto simp: after_password_def dest: subsetD [OF record_then_mint_challenge])
    with old show False ..
  qed
  with assms(1) passed(7) pending_challenge [OF _ old] have "u = ac_id a" by (simp add: after_password_def)
  with passed on show ?thesis by (auto simp: live_account_def)
qed (use assms in simp)

lemma Assert_challenge:
  assumes "(h, u) \<in> challenge_keys (snd (MintFromAddonAssertion sc ck fs rn su asr d))" "(h, u) \<notin> challenge_keys d"
  shows "\<exists>a \<in> set (db_users d). live_account u a \<and> ac_status a = ''active''
    \<and> began sc (OpAssert ck fs rn su asr) d a"
proof (cases rule: Assert_cases [of sc ck fs rn su asr d])
  case (passed a)
  have on: "ac_mfa_enabled_at a \<noteq> None \<and> \<not> as_satisfies_second_factor asr"
  proof (rule ccontr)
    assume "\<not> (ac_mfa_enabled_at a \<noteq> None \<and> \<not> as_satisfies_second_factor asr)"
    with assms(1) passed(6) have "(h, u) \<in> challenge_keys d"
      by (simp split: if_splits) (auto dest: subsetD [OF record_then_mint_challenge])
    with assms(2) show False ..
  qed
  with assms(1) passed(6) pending_challenge [OF _ assms(2)] have "u = ac_id a" by simp
  with passed on show ?thesis by (auto simp: live_account_def)
qed (use assms in simp)

subsection \<open>Over whole histories\<close>

lemma run_signin_snoc: "run_machine (signin_step sc) (xs @ [x]) d = map_option (signin_state sc x) (run_machine (signin_step sc) xs d)"
  by (induction xs arbitrary: d) (auto simp: signin_step_def)

lemma new_session:
  assumes ok: "signin_ok sc d"
    and s: "s \<in> set (db_sessions (signin_state sc x d))" "ss_id s \<notin> session_ids d"
  shows "\<exists>a \<in> set (db_users d). live_account (ss_user_id s) a \<and> ac_status a = ''active'' \<and> entitled sc x d a"
proof (cases "Mints \<in> grants x")
  case False
  with stmts_no_session [OF signin_stmts] have "session_ids (signin_state sc x d) \<subseteq> session_ids d" .
  with s show ?thesis by (auto simp: session_ids_def)
next
  case True
  have "b = a" if "a \<in> set (db_users d)" "b \<in> set (db_users d)" "ac_id b = ac_id a" for a b
    using ok that users_ok_unique unfolding signin_ok_def rows_ok_def by metis
  with True s show ?thesis
    by (cases x) (simp_all del: entitled.simps add: Login_session Assert_session Complete_session)
qed

lemma new_challenge:
  assumes "(h, u) \<in> challenge_keys (signin_state sc x d)" "(h, u) \<notin> challenge_keys d"
  shows "\<exists>a \<in> set (db_users d). live_account u a \<and> ac_status a = ''active'' \<and> began sc x d a"
proof (cases "Challenges \<in> grants x")
  case False
  with stmts_no_challenge [OF signin_stmts] assms show ?thesis by blast
next
  case True
  with assms show ?thesis by (cases x) (simp_all del: began.simps add: Login_challenge Assert_challenge)
qed

text \<open>Somewhere in the history an operation opened the challenge for the account.\<close>

definition challenge_begun :: "signin_config \<Rightarrow> signin_op list \<Rightarrow> bytes \<Rightarrow> uuid \<Rightarrow> bool" where
  "challenge_begun sc xs h u \<longleftrightarrow>
     (\<exists>ys y zs d. xs = ys @ y # zs \<and> run_machine (signin_step sc) ys new_instance = Some d
        \<and> (h, u) \<in> challenge_keys (signin_state sc y d)
        \<and> (\<exists>a \<in> set (db_users d). live_account u a \<and> ac_status a = ''active'' \<and> began sc y d a))"

lemma challenge_begun_more: "challenge_begun sc xs h u \<Longrightarrow> challenge_begun sc (xs @ zs) h u"
  unfolding challenge_begun_def by (metis append.assoc append_Cons)

lemma challenges_begun:
  "run_machine (signin_step sc) xs new_instance = Some d \<Longrightarrow> (h, u) \<in> challenge_keys d \<Longrightarrow> challenge_begun sc xs h u"
proof (induction xs arbitrary: d rule: rev_induct)
  case Nil
  then show ?case by (auto simp: challenge_keys_def new_instance_def)
next
  case (snoc x xs)
  then obtain d0 where d0: "run_machine (signin_step sc) xs new_instance = Some d0" "d = signin_state sc x d0"
    by (auto simp: run_signin_snoc)
  show ?case
  proof (cases "(h, u) \<in> challenge_keys d0")
    case True
    with snoc.IH d0(1) show ?thesis by (blast intro: challenge_begun_more)
  next
    case False
    with new_challenge snoc.prems(2) d0
    have "\<exists>a \<in> set (db_users d0). live_account u a \<and> ac_status a = ''active'' \<and> began sc x d0 a" by blast
    with d0 snoc.prems(2) show ?thesis unfolding challenge_begun_def by blast
  qed
qed


text \<open>An instance with one account and one identity connected to it, and the assertion of that identity.\<close>

definition sample_signin :: signin_config where
  "sample_signin = \<lparr>sc_lower = (\<lambda>x. x), sc_argon2 = sample_idkey, sc_params = DefaultParams,
     sc_ttl = \<lparr>Absolute = 7200, Idle = 3600\<rparr>, sc_lockout = DefaultLockout, sc_cipher = None, sc_issuer = ''LinkCtrl''\<rparr>"

definition sample_account :: account where
  "sample_account = \<lparr>ac_id = 1, ac_email = ''a@b.c'', ac_name = ''A'', ac_status = ''active'', ac_password_hash = None,
     ac_failed_login_count = 0, ac_locked_until = None, ac_mfa_secret = None, ac_mfa_enabled_at = None,
     ac_mfa_last_step = None, ac_deleted_at = None\<rparr>"

definition sample_random :: "uuid \<Rightarrow> randomness" where
  "sample_random i = \<lparr>rn_id = i, rn_token = Some (replicate 32 7), rn_salt = None, rn_nonce = None, rn_codes = (\<lambda>_. None)\<rparr>"

definition sample_history :: "signin_op list" where
  "sample_history = [OpRegister sample_account,
     OpLink (\<lambda>_. Runs) (sample_random 2) (Some \<lparr>at_user_id = 1, at_api_key = None\<rparr>) ''oidc'' ''issuer'' ''42'']"

definition sample_db :: auth_db where
  "sample_db = new_instance\<lparr>db_users := [sample_account],
     db_links := [\<lparr>il_id = 2, il_user_id = 1, il_addon = ''oidc'', il_issuer = ''issuer'', il_subject = ''42''\<rparr>]\<rparr>"

definition sample_assert :: signin_op where
  "sample_assert = OpAssert \<lparr>ck_now = 100, ck_db_now = 100\<rparr> (\<lambda>_. Runs) (sample_random 5)
     \<lparr>su_workspace = Some (Some 9), su_identity = True\<rparr>
     \<lparr>as_addon = ''oidc'', as_issuer = ''issuer'', as_subject = ''42'', as_already_signed_in = False,
      as_satisfies_second_factor = False, as_facts = \<lparr>rf_addr = NoAddr, rf_agent = ''curl''\<rparr>\<rparr>"

lemma sample_run: "run_machine (signin_step sample_signin) sample_history new_instance = Some sample_db"
  by (simp add: sample_history_def sample_db_def signin_step_def new_instance_def CreateUser_def LinkAddonIdentity_def
      requireSessionActor_def pool_stmt_def CreateAddonIdentityLink_def sample_account_def sample_random_def)

lemma sample_new_session:
  "\<exists>s. s \<in> set (db_sessions (signin_state sample_signin sample_assert sample_db)) \<and> ss_id s = 5
     \<and> ss_id s \<notin> session_ids sample_db"
  by (simp add: sample_assert_def sample_db_def new_instance_def MintFromAddonAssertion_def pool_read_def
      ResolveAddonIdentityLink_def GetUser_def live_account_def sample_account_def locked_now_def pool_stmt_def
      RecordSuccessfulLogin_def update_users_def mintSession_def NewOpaqueToken_def sample_random_def CreateSession_def
      session_ids_def Let_def)


end
