(* ===== verification/SignIn_Lockout.thy ===== *)
theory SignIn_Lockout
  imports SignIn_Sessions
begin

section \<open>What the lockout bounds\<close>

text \<open>
  Guesses at a password and guesses at a second factor are both charged to the account. The first are stopped
  by it: after as many wrong passwords as the threshold every sign-in with the password is refused for the
  window. The second are not: completing a challenge does not read the lockout its wrong codes charge.
\<close>

subsection \<open>One account of the table\<close>

definition put_account :: "account \<Rightarrow> auth_db \<Rightarrow> auth_db" where
  "put_account b d = d\<lparr>db_users := map (\<lambda>a. if ac_id a = ac_id b then b else a) (db_users d)\<rparr>"

definition distinct_accounts :: "auth_db \<Rightarrow> bool" where
  "distinct_accounts d \<longleftrightarrow> distinct (map ac_id (db_users d))"

text \<open>Two rows of the same account that differ in the lockout columns only.\<close>

definition same_but_lockout :: "account \<Rightarrow> account \<Rightarrow> bool" where
  "same_but_lockout a b \<longleftrightarrow>
     b = a\<lparr>ac_failed_login_count := ac_failed_login_count b, ac_locked_until := ac_locked_until b\<rparr>"

lemma same_but_lockoutD:
  "same_but_lockout a b \<Longrightarrow> ac_id b = ac_id a \<and> ac_email b = ac_email a \<and> ac_status b = ac_status a
     \<and> ac_password_hash b = ac_password_hash a \<and> ac_mfa_secret b = ac_mfa_secret a
     \<and> ac_mfa_enabled_at b = ac_mfa_enabled_at a \<and> ac_mfa_last_step b = ac_mfa_last_step a
     \<and> ac_deleted_at b = ac_deleted_at a"
  unfolding same_but_lockout_def by (metis account.select_convs account.surjective account.update_convs)

lemma same_but_lockout_refl [simp]: "same_but_lockout a a"
  by (simp add: same_but_lockout_def)

lemma charged_same: "same_but_lockout a b \<Longrightarrow> same_but_lockout a (charged th secs now b)"
  by (cases a, cases b) (simp add: same_but_lockout_def charged_def Let_def)

lemma charged_id [simp]: "ac_id (charged th secs now a) = ac_id a"
  by (simp add: charged_def Let_def)

lemma distinct_put [simp]: "distinct_accounts (put_account b d) = distinct_accounts d"
proof -
  have "map ac_id (db_users (put_account b d)) = map ac_id (db_users d)"
    by (simp add: put_account_def cong: map_cong)
  then show ?thesis by (simp add: distinct_accounts_def)
qed

lemma put_put: "ac_id c = ac_id b \<Longrightarrow> put_account c (put_account b d) = put_account c d"
  by (simp add: put_account_def o_def cong: map_cong)

lemma put_in: "a \<in> set (db_users d) \<Longrightarrow> ac_id b = ac_id a \<Longrightarrow> b \<in> set (db_users (put_account b d))"
  by (force simp: put_account_def)

lemma account_unique:
  "distinct_accounts d \<Longrightarrow> a \<in> set (db_users d) \<Longrightarrow> b \<in> set (db_users d) \<Longrightarrow> ac_id b = ac_id a \<Longrightarrow> b = a"
  by (auto simp: distinct_accounts_def distinct_map inj_on_def)

lemma put_self: "distinct_accounts d \<Longrightarrow> a \<in> set (db_users d) \<Longrightarrow> put_account a d = d"
proof -
  assume "distinct_accounts d" "a \<in> set (db_users d)"
  then have "map (\<lambda>b. if ac_id b = ac_id a then a else b) (db_users d) = db_users d"
    by (intro map_idI) (metis account_unique)
  then show ?thesis by (simp add: put_account_def)
qed

lemma put_same:
  assumes "distinct_accounts d" "a \<in> set (db_users d)" "ac_id b = ac_id a"
  shows "db_users (put_account b d) = map (\<lambda>c. if c = a then b else c) (db_users d)"
  using assms account_unique [OF assms(1,2)] by (auto simp: put_account_def)

lemma find_put:
  assumes "distinct_accounts d" "find P (db_users d) = Some a" "ac_id b = ac_id a" "P b"
  shows "find P (db_users (put_account b d)) = Some b"
proof -
  have "a \<in> set (db_users d)" using find_Some_set [OF assms(2)] by blast
  have "find P (map (\<lambda>c. if c = a then b else c) xs) = Some b" if "find P xs = Some a" for xs
    using that assms(4) by (induction xs) (auto split: if_splits)
  with assms put_same [OF assms(1) \<open>a \<in> _\<close> assms(3)] show ?thesis by simp
qed

lemma put_fields [simp]:
  "db_sessions (put_account b d) = db_sessions d" "db_pending (put_account b d) = db_pending d"
  "db_codes (put_account b d) = db_codes d" "db_links (put_account b d) = db_links d"
  by (simp_all add: put_account_def)

lemma find_account:
  "distinct_accounts d \<Longrightarrow> a \<in> set (db_users d) \<Longrightarrow> find (\<lambda>b. ac_id b = ac_id a) (db_users d) = Some a"
proof -
  assume a: "distinct_accounts d" "a \<in> set (db_users d)"
  then obtain b where "find (\<lambda>b. ac_id b = ac_id a) (db_users d) = Some b"
    by (cases "find (\<lambda>b. ac_id b = ac_id a) (db_users d)") (auto simp: find_None_iff)
  with a find_Some_set [OF this] account_unique show ?thesis by blast
qed

text \<open>A charge that goes through.\<close>

abbreviation healthy :: faults where
  "healthy \<equiv> \<lambda>_. Runs"

abbreviation charge_at :: "signin_config \<Rightarrow> clocks \<Rightarrow> account \<Rightarrow> account" where
  "charge_at sc ck a \<equiv> charged (ThresholdParam (sc_lockout sc)) (WindowSecondsParam (sc_lockout sc)) (ck_db_now ck) a"

lemma charge_put:
  assumes "distinct_accounts d" "a \<in> set (db_users d)" "ac_failed_login_count (charge_at sc ck a) \<le> 2 ^ 31 - 1"
  shows "charge sc ck healthy (ac_id a) d = (Some (charge_at sc ck a), put_account (charge_at sc ck a) d)"
proof -
  have "map (\<lambda>b. if ac_id b = ac_id a then charged th w t b else b) (db_users d)
      = map (\<lambda>b. if ac_id b = ac_id a then charged th w t a else b) (db_users d)" for th w t
    using account_unique [OF assms(1,2)] by (intro map_cong) auto
  then have "snd (update_users (\<lambda>b. ac_id b = ac_id a) (charged th w t) d) = put_account (charged th w t a) d" for th w t
    by (simp add: update_users_def put_account_def charged_id)
  with assms(3) find_account [OF assms(1,2)] show ?thesis
    by (simp add: charge_def pool_stmt_def RecordFailedLogin_def)
qed

subsection \<open>Wrong passwords\<close>

text \<open>A list of attempts, each with the clocks it runs under.\<close>

fun attempts :: "('g \<Rightarrow> 's \<Rightarrow> 'r \<times> 's) \<Rightarrow> 'g list \<Rightarrow> 's \<Rightarrow> 'r list \<times> 's" where
  "attempts f [] s = ([], s)"
| "attempts f (g # gs) s = (case f g s of (r, s1) \<Rightarrow> (case attempts f gs s1 of (rs, s2) \<Rightarrow> (r # rs, s2)))"

lemma attempts_append:
  "attempts f (gs @ hs) s = (case attempts f gs s of (rs, s1) \<Rightarrow> (case attempts f hs s1 of (ts, s2) \<Rightarrow> (rs @ ts, s2)))"
  by (induction gs arbitrary: s) (auto split: prod.splits)

text \<open>\<open>Login\<close> with a wrong password, for the account \<open>b\<close> is the row of.\<close>

definition sign_in_as :: "signin_config \<Rightarrow> string \<Rightarrow> randomness \<Rightarrow> surroundings \<Rightarrow> request_facts
    \<Rightarrow> clocks \<times> string \<Rightarrow> auth_db \<Rightarrow> (auth_error + login_result) \<times> auth_db" where
  "sign_in_as sc email rn su rf g d = Login sc (fst g) healthy rn su email (snd g) rf d"

definition wrong_for :: "signin_config \<Rightarrow> account \<Rightarrow> string \<Rightarrow> bool" where
  "wrong_for sc a password \<longleftrightarrow>
     (case ac_password_hash a of None \<Rightarrow> False | Some h \<Rightarrow> Hasher_Verify (sc_argon2 sc) password h = Mismatch)"

lemma Login_row:
  assumes "distinct_accounts d" "GetUserByEmail (sc_lower sc) (NormalizeEmail email) d = Some a" "same_but_lockout a b"
  shows "GetUserByEmail (sc_lower sc) (NormalizeEmail email) (put_account b d) = Some b"
proof -
  note f = assms(2) [unfolded GetUserByEmail_def] and b = same_but_lockoutD [OF assms(3)]
  from find_Some_set [OF f] b
  show ?thesis unfolding GetUserByEmail_def by (intro find_put [OF assms(1) f]) auto
qed

lemma Login_locked:
  assumes "GetUserByEmail (sc_lower sc) (NormalizeEmail email) d = Some b" "locked_now ck b"
  shows "Login sc ck healthy rn su email password rf d = (Inl ErrAccountLocked, d)"
  using assms by (simp add: Login_def pool_read_def)

lemma Login_wrong:
  assumes "distinct_accounts d" "GetUserByEmail (sc_lower sc) (NormalizeEmail email) d = Some b"
    and "\<not> locked_now ck b" "ac_status b = ''active''" "wrong_for sc b password"
    and "ac_failed_login_count (charge_at sc ck b) \<le> 2 ^ 31 - 1"
  shows "Login sc ck healthy rn su email password rf d
    = (Inl (if locked_now ck (charge_at sc ck b) then ErrAccountLocked else ErrInvalidCredentials),
       put_account (charge_at sc ck b) d)"
proof -
  have "b \<in> set (db_users d)" using assms(2) by (auto simp: GetUserByEmail_def dest!: find_Some_set)
  from charge_put [OF assms(1) this assms(6)] assms show ?thesis
    by (auto simp: Login_def pool_read_def wrong_password_def wrong_for_def split: option.splits)
qed

text \<open>Below the threshold a charge adds one to the count, at the threshold it locks.\<close>

lemma charge_counts:
  assumes "ac_locked_until b = None" "0 < ThresholdParam (sc_lockout sc)"
  shows "charge_at sc ck b
    = b\<lparr>ac_failed_login_count := ac_failed_login_count b + 1,
        ac_locked_until := (if ac_failed_login_count b + 1 \<ge> ThresholdParam (sc_lockout sc)
          then Some (ck_db_now ck + WindowSecondsParam (sc_lockout sc) * second_ns) else None)\<rparr>"
  using assms by (simp add: charged_def)

lemma found_account: "GetUserByEmail lower e d = Some a \<Longrightarrow> a \<in> set (db_users d)"
  by (auto simp: GetUserByEmail_def dest!: find_Some_set)

lemma threshold_bound: "ThresholdParam p \<le> 2 ^ 31 - 1"
  by (simp add: ThresholdParam_def clampInt32_def)

lemma wrong_for_same: "same_but_lockout a b \<Longrightarrow> wrong_for sc b = wrong_for sc a"
  by (auto simp: fun_eq_iff wrong_for_def dest: same_but_lockoutD)

lemma attempts_below_threshold:
  assumes "distinct_accounts d" "GetUserByEmail (sc_lower sc) (NormalizeEmail email) d = Some a"
    and "ac_status a = ''active''" "ac_locked_until a = None" "0 \<le> ac_failed_login_count a"
    and "list_all (\<lambda>g. wrong_for sc a (snd g)) gs"
    and "ac_failed_login_count a + int (length gs) < ThresholdParam (sc_lockout sc)"
  shows "attempts (sign_in_as sc email rn su rf) gs d
    = (replicate (length gs) (Inl ErrInvalidCredentials),
       put_account (a\<lparr>ac_failed_login_count := ac_failed_login_count a + int (length gs)\<rparr>) d)"
  using assms
proof (induction gs arbitrary: a d)
  case Nil
  then show ?case by (simp add: put_self [OF _ found_account])
next
  case (Cons g gs)
  let ?b = "a\<lparr>ac_failed_login_count := ac_failed_login_count a + 1\<rparr>"
  have b: "charge_at sc (fst g) a = ?b" using Cons.prems by (simp add: charge_counts)
  have same: "same_but_lockout a ?b" by (simp add: same_but_lockout_def)
  have first: "sign_in_as sc email rn su rf g d = (Inl ErrInvalidCredentials, put_account ?b d)"
    unfolding sign_in_as_def
    using Login_wrong [of d sc email a "fst g" "snd g" rn su rf] Cons.prems b threshold_bound [of "sc_lockout sc"]
    by (auto simp: locked_now_def)
  have "attempts (sign_in_as sc email rn su rf) gs (put_account ?b d)
      = (replicate (length gs) (Inl ErrInvalidCredentials),
         put_account (?b\<lparr>ac_failed_login_count := ac_failed_login_count ?b + int (length gs)\<rparr>) (put_account ?b d))"
    using Cons.prems wrong_for_same [OF same] Login_row [OF Cons.prems(1,2) same] by (intro Cons.IH) auto
  with first show ?case by (simp add: put_put add.assoc)
qed

lemma attempts_locked:
  assumes "GetUserByEmail (sc_lower sc) (NormalizeEmail email) d = Some a" "list_all (\<lambda>g. locked_now (fst g) a) gs"
  shows "attempts (sign_in_as sc email rn su rf) gs d = (replicate (length gs) (Inl ErrAccountLocked), d)"
  using assms(2) by (induction gs) (simp_all add: sign_in_as_def Login_locked [OF assms(1)])

definition locked_row :: "signin_config \<Rightarrow> clocks \<Rightarrow> account \<Rightarrow> account" where
  "locked_row sc ck a = a\<lparr>ac_failed_login_count := ThresholdParam (sc_lockout sc),
     ac_locked_until := Some (ck_db_now ck + WindowSecondsParam (sc_lockout sc) * second_ns)\<rparr>"

lemma locked_row_same: "same_but_lockout a (locked_row sc ck a)"
  by (simp add: same_but_lockout_def locked_row_def)

lemma attempts_reach_threshold:
  assumes "distinct_accounts d" "GetUserByEmail (sc_lower sc) (NormalizeEmail email) d = Some a"
    and "ac_status a = ''active''" "ac_locked_until a = None" "ac_failed_login_count a = 0"
    and "ThresholdParam (sc_lockout sc) = int (length (gs @ [g]))"
    and "list_all (\<lambda>g. wrong_for sc a (snd g)) (gs @ [g])" "locked_now (fst g) (locked_row sc (fst g) a)"
  shows "attempts (sign_in_as sc email rn su rf) (gs @ [g]) d
    = (replicate (length gs) (Inl ErrInvalidCredentials) @ [Inl ErrAccountLocked],
       put_account (locked_row sc (fst g) a) d)"
proof -
  let ?b = "a\<lparr>ac_failed_login_count := int (length gs)\<rparr>"
  have same: "same_but_lockout a ?b" by (simp add: same_but_lockout_def)
  have "attempts (sign_in_as sc email rn su rf) gs d = (replicate (length gs) (Inl ErrInvalidCredentials), put_account ?b d)"
    using assms attempts_below_threshold [of d sc email a gs rn su rf] by simp
  moreover have b: "charge_at sc (fst g) ?b = locked_row sc (fst g) a"
    using assms(4,6) by (subst charge_counts) (simp_all add: locked_row_def)
  have "sign_in_as sc email rn su rf g (put_account ?b d)
      = (Inl ErrAccountLocked, put_account (locked_row sc (fst g) a) (put_account ?b d))"
    unfolding sign_in_as_def
    using Login_wrong [of "put_account ?b d" sc email ?b "fst g" "snd g" rn su rf] assms b
      threshold_bound [of "sc_lockout sc"] wrong_for_same [OF same] Login_row [OF assms(1,2) same]
    by (auto simp: locked_now_def locked_row_def)
  ultimately show ?thesis
    using same_but_lockoutD [OF locked_row_same [of a sc "fst g"]] by (simp add: attempts_append put_put)
qed

text \<open>C27. Of consecutive sign-ins of an active account with a clean counter, the wrong passwords below the
  threshold are answered as wrong, the one that reaches it locks the account, and every later sign-in before
  the window has passed is refused as locked whatever its password, right ones included, without touching the
  row again; after the window the count starts over, so that a single wrong password does not lock again.\<close>

theorem wrong_passwords_lock_the_account:
  assumes "distinct_accounts d" "GetUserByEmail (sc_lower sc) (NormalizeEmail email) d = Some a"
    and "ac_status a = ''active''" "ac_locked_until a = None" "ac_failed_login_count a = 0"
    and "ThresholdParam (sc_lockout sc) = int (length (gs @ [g]))"
    and "list_all (\<lambda>g. wrong_for sc a (snd g)) (gs @ [g])"
    and "list_all (\<lambda>h. locked_now (fst h) (locked_row sc (fst g) a)) (g # hs)"
  shows "attempts (sign_in_as sc email rn su rf) ((gs @ [g]) @ hs) d
      = ((replicate (length gs) (Inl ErrInvalidCredentials) @ [Inl ErrAccountLocked])
           @ replicate (length hs) (Inl ErrAccountLocked), put_account (locked_row sc (fst g) a) d)
    \<and> (\<forall>ck password. wrong_for sc a password
          \<and> ck_db_now (fst g) + WindowSecondsParam (sc_lockout sc) * second_ns \<le> min (ck_now ck) (ck_db_now ck)
          \<and> gs \<noteq> []
        \<longrightarrow> Login sc ck healthy rn su email password rf (put_account (locked_row sc (fst g) a) d)
            = (Inl ErrInvalidCredentials, put_account (a\<lparr>ac_failed_login_count := 1\<rparr>) d))"
proof (intro conjI allI impI)
  let ?d = "put_account (locked_row sc (fst g) a) d"
  note row = Login_row [OF assms(1,2) locked_row_same, of sc "fst g"]
  have "attempts (sign_in_as sc email rn su rf) (gs @ [g]) d
    = (replicate (length gs) (Inl ErrInvalidCredentials) @ [Inl ErrAccountLocked], ?d)"
    using assms by (intro attempts_reach_threshold) auto
  moreover have "attempts (sign_in_as sc email rn su rf) hs ?d = (replicate (length hs) (Inl ErrAccountLocked), ?d)"
    using assms(8) by (intro attempts_locked [OF row]) simp
  ultimately show "attempts (sign_in_as sc email rn su rf) ((gs @ [g]) @ hs) d
      = ((replicate (length gs) (Inl ErrInvalidCredentials) @ [Inl ErrAccountLocked])
           @ replicate (length hs) (Inl ErrAccountLocked), ?d)"
    unfolding attempts_append [of _ "gs @ [g]"] by simp
next
  fix ck :: clocks and password
  let ?d = "put_account (locked_row sc (fst g) a) d"
  assume p: "wrong_for sc a password
      \<and> ck_db_now (fst g) + WindowSecondsParam (sc_lockout sc) * second_ns \<le> min (ck_now ck) (ck_db_now ck) \<and> gs \<noteq> []"
  note row = Login_row [OF assms(1,2) locked_row_same, of sc "fst g"]
  have free: "\<not> locked_now ck (locked_row sc (fst g) a)" using p by (auto simp: locked_now_def locked_row_def)
  have "charge_at sc ck (locked_row sc (fst g) a) = a\<lparr>ac_failed_login_count := 1\<rparr>"
    using p assms(4,6) by (cases gs) (auto simp: charged_def locked_row_def)
  moreover from this have "\<not> locked_now ck (charge_at sc ck (locked_row sc (fst g) a))"
    using assms(4) by (simp add: locked_now_def)
  moreover have "wrong_for sc (locked_row sc (fst g) a) password"
    using p wrong_for_same [OF locked_row_same] by metis
  ultimately show "Login sc ck healthy rn su email password rf ?d
      = (Inl ErrInvalidCredentials, put_account (a\<lparr>ac_failed_login_count := 1\<rparr>) d)"
    using Login_wrong [of ?d sc email "locked_row sc (fst g) a" ck password rn su rf] row free assms(1,3)
    by (simp add: locked_row_def put_put)
qed

subsection \<open>Wrong codes\<close>

lemma accept_count:
  assumes "distinct_accounts d" "a \<in> set (db_users d)" "ac_deleted_at a = None" "ac_mfa_enabled_at a \<noteq> None"
  shows "fst (AcceptMFAStep (ac_id a) step d) = 0 \<longleftrightarrow> below_floor step a"
  using assms account_unique [OF assms(1,2)]
  by (auto simp: AcceptMFAStep_def update_users_def live_account_def filter_empty_conv)

lemma consume_outcome:
  assumes "distinct_accounts d" "a \<in> set (db_users d)" "ac_deleted_at a = None" "ac_mfa_enabled_at a \<noteq> None"
  shows "if factor_presented sc ck d a raw then \<exists>kind d1. consumeFactor sc ck healthy a raw d = (Inr kind, d1)
      \<and> db_pending d1 = db_pending d \<and> db_sessions d1 = db_sessions d
    else \<exists>d1. consumeFactor sc ck healthy a raw d = (Inl ErrMFACodeInvalid, d1)"
proof (cases "totp_step sc ck (ac_mfa_secret a) (trim_space raw)")
  case None
  then show ?thesis
    by (auto simp: consumeFactor_def factor_presented_def spend_code_def tx_then_def tx_stmt_def tx_refuse_def
        tx_return_def SpendMFARecoveryCode_def Let_def list_ex_iff filter_empty_conv)
next
  case (Some step)
  obtain n d1 where n: "AcceptMFAStep (ac_id a) step d = (n, d1)" by fastforce
  then have "db_pending d1 = db_pending d" "db_sessions d1 = db_sessions d" "n = 0 \<longleftrightarrow> below_floor step a"
    using accept_count [OF assms, of step] by (auto simp: AcceptMFAStep_def update_users_def)
  with Some n show ?thesis
    by (auto simp: consumeFactor_def factor_presented_def tx_then_def tx_stmt_def tx_refuse_def tx_return_def Let_def)
qed

lemma factor_presented_put:
  "same_but_lockout a b \<Longrightarrow> factor_presented sc ck (put_account c d) b raw = factor_presented sc ck d a raw"
  using same_but_lockoutD [of a b] by (auto simp: factor_presented_def below_floor_def Let_def split: option.splits)

text \<open>Presenting a code to the challenge of a token, at the clocks of each attempt.\<close>

definition complete_as :: "signin_config \<Rightarrow> string \<Rightarrow> randomness \<Rightarrow> surroundings \<Rightarrow> request_facts
    \<Rightarrow> clocks \<times> string \<Rightarrow> auth_db \<Rightarrow> (auth_error + login_result) \<times> auth_db" where
  "complete_as sc token rn su rf g d = CompleteSecondFactor sc (fst g) healthy rn su token (snd g) rf d"

definition open_for :: "string \<Rightarrow> pending_login \<Rightarrow> account \<Rightarrow> auth_db \<Rightarrow> bool" where
  "open_for token p a d \<longleftrightarrow>
     token \<noteq> '''' \<and> distinct_accounts d \<and> LockMFAPendingLogin (HashOpaqueToken token) d = Some (p, a)
     \<and> ac_status a = ''active'' \<and> ac_mfa_enabled_at a \<noteq> None \<and> pl_consumed_at p = None"

lemma open_for_account:
  assumes "open_for token p a d"
  shows "a \<in> set (db_users d)" "ac_deleted_at a = None" "pl_user_id p = ac_id a" "p \<in> set (db_pending d)"
proof -
  from assms have g: "GetUser (pl_user_id p) d = Some a" "p \<in> set (db_pending d)"
    by (auto simp: open_for_def LockMFAPendingLogin_def dest!: find_Some_set split: option.splits)
  from find_live [OF g(1)] g(2) show "a \<in> set (db_users d)" "ac_deleted_at a = None" "pl_user_id p = ac_id a"
    "p \<in> set (db_pending d)" by (auto simp: live_account_def)
qed

lemma open_for_put:
  assumes "open_for token p a d" "same_but_lockout a b"
  shows "open_for token p b (put_account b d)"
proof -
  note a = open_for_account [OF assms(1)] and b = same_but_lockoutD [OF assms(2)]
  from assms(1) have f: "find (live_account (pl_user_id p)) (db_users d) = Some a"
    by (auto simp: open_for_def LockMFAPendingLogin_def GetUser_def split: option.splits)
  have "find (live_account (pl_user_id p)) (db_users (put_account b d)) = Some b"
    using assms(1) a b by (intro find_put [OF _ f]) (auto simp: open_for_def live_account_def)
  with assms(1) b show ?thesis
    by (auto simp: open_for_def LockMFAPendingLogin_def GetUser_def split: option.splits)
qed

lemma wrong_code:
  assumes "open_for token p a d" "ck_now ck < pl_expires_at p" "\<not> factor_presented sc ck d a raw"
    and "ac_failed_login_count (charge_at sc ck a) \<le> 2 ^ 31 - 1"
  shows "CompleteSecondFactor sc ck healthy rn su token raw rf d
    = (Inl ErrMFACodeInvalid, put_account (charge_at sc ck a) d)"
proof -
  note a = open_for_account [OF assms(1)]
  from assms(1) have o: "distinct_accounts d" "ac_mfa_enabled_at a \<noteq> None" by (simp_all add: open_for_def)
  from consume_outcome [OF o(1) a(1,2) o(2), of sc ck raw] assms(3)
  obtain d1 where "consumeFactor sc ck healthy a raw d = (Inl ErrMFACodeInvalid, d1)" by auto
  then have "in_tx healthy (complete_tx sc ck healthy p a raw) d = (Inl ErrMFACodeInvalid, d)"
    by (simp add: in_tx_def complete_tx_def tx_then_def)
  with assms(1,2) a(3) charge_put [OF o(1) a(1) assms(4)] show ?thesis
    by (simp add: CompleteSecondFactor_def open_for_def challenge_open_def)
qed

definition can_mint :: "randomness \<Rightarrow> surroundings \<Rightarrow> auth_db \<Rightarrow> bool" where
  "can_mint rn su d \<longleftrightarrow>
     su_identity su \<and> su_workspace su \<noteq> None
     \<and> (case NewOpaqueToken (rn_token rn) of None \<Rightarrow> False
        | Some (token, h) \<Rightarrow> list_all (\<lambda>s. ss_id s \<noteq> rn_id rn \<and> ss_token_hash s \<noteq> h) (db_sessions d))"

lemma can_mint_put [simp]: "can_mint rn su (put_account b d) = can_mint rn su d"
  by (simp add: can_mint_def split: option.split)

lemma mint_succeeds:
  assumes "can_mint rn su d" "db_sessions d1 = db_sessions d"
  shows "\<exists>token. fst (mintSession sc ck healthy rn su user rf d1)
    = Inr (SignedIn user (rn_id rn) token (ck_now ck + Absolute (sc_ttl sc)))"
  using assms
  by (auto simp: can_mint_def mintSession_def pool_stmt_def CreateSession_def list_all_iff list_ex_iff Let_def
      split: option.splits)

lemma finish_succeeds:
  assumes "can_mint rn su d" "db_sessions d1 = db_sessions d"
  shows "\<exists>token. fst (finish_sign_in sc ck healthy rn su p kind rf d1)
    = Inr (SignedIn (pl_user_id p) (rn_id rn) token (ck_now ck + Absolute (sc_ttl sc)))"
proof -
  define d2 where "d2 = snd (RecordSuccessfulLogin (pl_user_id p) d1)"
  have "db_sessions d2 = db_sessions d"
    "db_sessions (announceRecoveryCodeUse healthy (pl_user_id p) d2) = db_sessions d2"
    using assms(2)
    by (auto simp: d2_def RecordSuccessfulLogin_def update_users_def announceRecoveryCodeUse_def announce_def split: option.splits)
  then have "\<exists>token. fst (mintSession sc ck healthy rn su (pl_user_id p) facts
      (if kind = FactorRecoveryCode then announceRecoveryCodeUse healthy (pl_user_id p) d2 else d2))
    = Inr (SignedIn (pl_user_id p) (rn_id rn) token (ck_now ck + Absolute (sc_ttl sc)))" for facts
    by (intro mint_succeeds [OF assms(1)]) simp
  then show ?thesis
    by (auto simp: finish_sign_in_def pool_stmt_def d2_def Let_def split: prod.splits if_splits)
qed

lemma right_code:
  assumes "open_for token p a d" "ck_now ck < pl_expires_at p" "factor_presented sc ck d a raw" "can_mint rn su d"
  shows "\<exists>t. fst (CompleteSecondFactor sc ck healthy rn su token raw rf d)
    = Inr (SignedIn (ac_id a) (rn_id rn) t (ck_now ck + Absolute (sc_ttl sc)))"
proof -
  note a = open_for_account [OF assms(1)]
  from assms(1) have o: "distinct_accounts d" "ac_mfa_enabled_at a \<noteq> None" "pl_consumed_at p = None"
    by (simp_all add: open_for_def)
  from consume_outcome [OF o(1) a(1,2) o(2), of sc ck raw] assms(3)
  obtain kind d1 where c: "consumeFactor sc ck healthy a raw d = (Inr kind, d1)"
    "db_pending d1 = db_pending d" "db_sessions d1 = db_sessions d" by auto
  define d2 where "d2 = snd (ConsumeMFAPendingLogin p (ck_db_now ck) d1)"
  have "fst (ConsumeMFAPendingLogin p (ck_db_now ck) d1) \<noteq> 0"
    using a(4) c(2) o(3) by (auto simp: ConsumeMFAPendingLogin_def Let_def filter_empty_conv)
  then obtain n where "ConsumeMFAPendingLogin p (ck_db_now ck) d1 = (Suc n, d2)"
    unfolding d2_def by (metis not0_implies_Suc prod.collapse)
  with c(1) have "in_tx healthy (complete_tx sc ck healthy p a raw) d = (Inr kind, d2)"
    by (simp add: in_tx_def complete_tx_def tx_then_def tx_stmt_def tx_return_def)
  moreover have "db_sessions d2 = db_sessions d" using c(3) by (simp add: d2_def ConsumeMFAPendingLogin_def Let_def)
  ultimately show ?thesis
    using assms(1,2) a(3) finish_succeeds [OF assms(4), of d2 sc ck p kind rf]
    by (simp add: CompleteSecondFactor_def open_for_def challenge_open_def)
qed

text \<open>The row after a number of charges within one window of the first.\<close>

definition row_after :: "signin_config \<Rightarrow> account \<Rightarrow> clocks list \<Rightarrow> account" where
  "row_after sc a cks = foldl (\<lambda>b ck. charge_at sc ck b) a cks"

lemma row_after_snoc: "row_after sc a (cks @ [ck]) = charge_at sc ck (row_after sc a cks)"
  by (simp add: row_after_def)

lemma row_after_same: "same_but_lockout a (row_after sc a cks)"
  unfolding row_after_def by (induction cks rule: rev_induct) (simp_all add: charged_same)

lemma row_after_counts:
  assumes "ac_locked_until a = None" "ac_failed_login_count a = 0" "0 < ThresholdParam (sc_lockout sc)"
    and "list_all (\<lambda>ck. t0 \<le> ck_db_now ck
          \<and> ck_db_now ck < t0 + WindowSecondsParam (sc_lockout sc) * second_ns) cks"
  shows "ac_failed_login_count (row_after sc a cks) = int (length cks)
    \<and> ac_locked_until (row_after sc a cks)
      = (if int (length cks) < ThresholdParam (sc_lockout sc) then None
         else Some (ck_db_now (last cks) + WindowSecondsParam (sc_lockout sc) * second_ns))"
  using assms(4)
proof (induction cks rule: rev_induct)
  case Nil
  with assms(1-3) show ?case by (simp add: row_after_def)
next
  case (snoc ck cks)
  have "ck_db_now ck < ck_db_now (last cks) + WindowSecondsParam (sc_lockout sc) * second_ns" if "cks \<noteq> []"
    using snoc.prems last_in_set [OF that] by (fastforce simp: list_all_iff)
  moreover have "cks \<noteq> []" if "\<not> int (length cks) < ThresholdParam (sc_lockout sc)"
    using that assms(3) by auto
  ultimately show ?case
    using snoc assms(3) by (auto simp: row_after_snoc charged_def Let_def)
qed

lemma attempts_wrong_codes:
  assumes "open_for token p a d"
    and "list_all (\<lambda>g. ck_now (fst g) < pl_expires_at p \<and> \<not> factor_presented sc (fst g) d a (snd g)) gs"
    and "\<And>n. n \<le> length gs \<Longrightarrow> ac_failed_login_count (row_after sc a (map fst (take n gs))) \<le> 2 ^ 31 - 1"
  shows "attempts (complete_as sc token rn su rf) gs d
    = (replicate (length gs) (Inl ErrMFACodeInvalid), put_account (row_after sc a (map fst gs)) d)"
  using assms(2,3)
proof (induction gs rule: rev_induct)
  case Nil
  from assms(1) show ?case
    by (simp add: row_after_def put_self [OF _ open_for_account(1) [OF assms(1)]] open_for_def)
next
  case (snoc g gs)
  let ?b = "row_after sc a (map fst gs)"
  have b: "same_but_lockout a ?b" by (rule row_after_same)
  have "ac_failed_login_count (row_after sc a (map fst (take n gs))) \<le> 2 ^ 31 - 1" if "n \<le> length gs" for n
    using snoc.prems(2) [of n] that by simp
  with snoc.IH snoc.prems(1)
  have "attempts (complete_as sc token rn su rf) gs d = (replicate (length gs) (Inl ErrMFACodeInvalid), put_account ?b d)"
    by simp
  moreover have "complete_as sc token rn su rf g (put_account ?b d)
      = (Inl ErrMFACodeInvalid, put_account (charge_at sc (fst g) ?b) (put_account ?b d))"
    unfolding complete_as_def
  proof (rule wrong_code [OF open_for_put [OF assms(1) b]])
    show "ac_failed_login_count (charge_at sc (fst g) ?b) \<le> 2 ^ 31 - 1"
      using snoc.prems(2) [of "Suc (length gs)"] by (simp add: row_after_def)
  qed (use snoc.prems(1) factor_presented_put [OF b] in auto)
  moreover have "charge_at sc (fst g) ?b = row_after sc a (map fst (gs @ [g]))" by (simp add: row_after_def)
  moreover have "ac_id (row_after sc a cks) = ac_id a" for cks
    using same_but_lockoutD [OF row_after_same] by blast
  ultimately show ?case by (simp add: attempts_append put_put replicate_append_same)
qed

text \<open>C28. With a challenge open and unexpired, any number of wrong codes is answered as wrong, each charged to
  the account, whose row is locked from the threshold on: a sign-in with its password is refused as locked.
  The challenge takes the next code all the same, and the right one signs in, lockout or not.\<close>

theorem lockout_does_not_stop_a_challenge:
  assumes "open_for token p a d" "can_mint rn su d"
    and "ac_locked_until a = None" "ac_failed_login_count a = 0"
    and "0 < ThresholdParam (sc_lockout sc)" "ThresholdParam (sc_lockout sc) \<le> int (length gs)"
    and "length gs \<le> 2 ^ 31 - 1"
    and "list_all (\<lambda>g. ck_now (fst g) < pl_expires_at p \<and> \<not> factor_presented sc (fst g) d a (snd g)
          \<and> t0 \<le> ck_db_now (fst g)
          \<and> ck_db_now (fst g) < t0 + WindowSecondsParam (sc_lockout sc) * second_ns) gs"
    and "ck_now ck < min (pl_expires_at p) (ck_db_now (fst (last gs)) + WindowSecondsParam (sc_lockout sc) * second_ns)"
    and "factor_presented sc ck d a good"
    and "GetUserByEmail (sc_lower sc) (NormalizeEmail email) d = Some a"
  shows "\<exists>d1. attempts (complete_as sc token rn su rf) gs d = (replicate (length gs) (Inl ErrMFACodeInvalid), d1)
    \<and> Login sc ck healthy rn su email password rf d1 = (Inl ErrAccountLocked, d1)
    \<and> (\<exists>t. fst (CompleteSecondFactor sc ck healthy rn su token good rf d1)
         = Inr (SignedIn (ac_id a) (rn_id rn) t (ck_now ck + Absolute (sc_ttl sc))))"
proof -
  let ?b = "row_after sc a (map fst gs)"
  have gs: "gs \<noteq> []" using assms(5,6) by auto
  have within: "list_all (\<lambda>ck. t0 \<le> ck_db_now ck
      \<and> ck_db_now ck < t0 + WindowSecondsParam (sc_lockout sc) * second_ns) (map fst gs)"
    using assms(8) by (auto simp: list_all_iff)
  then have "list_all (\<lambda>ck. t0 \<le> ck_db_now ck
      \<and> ck_db_now ck < t0 + WindowSecondsParam (sc_lockout sc) * second_ns) (map fst (take n gs))" for n
    by (auto simp: list_all_iff dest: in_set_takeD)
  from row_after_counts [OF assms(3,4,5) this] assms(7)
  have "ac_failed_login_count (row_after sc a (map fst (take n gs))) \<le> 2 ^ 31 - 1" for n
    by (simp add: min_def)
  then have "attempts (complete_as sc token rn su rf) gs d
      = (replicate (length gs) (Inl ErrMFACodeInvalid), put_account ?b d)"
    using assms(8) by (intro attempts_wrong_codes [OF assms(1)]) (auto simp: list_all_iff)
  moreover have "locked_now ck ?b"
    using row_after_counts [OF assms(3,4,5) within] assms(6,9) gs by (simp add: locked_now_def last_map)
  with Login_row [OF _ assms(11) row_after_same] assms(1)
  have "Login sc ck healthy rn su email password rf (put_account ?b d) = (Inl ErrAccountLocked, put_account ?b d)"
    by (intro Login_locked) (auto simp: open_for_def)
  moreover have "\<exists>t. fst (CompleteSecondFactor sc ck healthy rn su token good rf (put_account ?b d))
      = Inr (SignedIn (ac_id ?b) (rn_id rn) t (ck_now ck + Absolute (sc_ttl sc)))"
    using assms(2,9,10)
    by (intro right_code [OF open_for_put [OF assms(1) row_after_same]])
      (auto simp: factor_presented_put [OF row_after_same])
  moreover have "ac_id ?b = ac_id a" using same_but_lockoutD [OF row_after_same] by blast
  ultimately show ?thesis by metis
qed

text \<open>An enrolled account with one challenge and one recovery code left, and six blank guesses.\<close>

definition guarded_account :: account where
  "guarded_account = sample_account\<lparr>ac_mfa_secret := Some ''1'', ac_mfa_enabled_at := Some 0, ac_mfa_last_step := Some 0\<rparr>"

definition guarded_pending :: pending_login where
  "guarded_pending = \<lparr>pl_id = 3, pl_user_id = 1, pl_token_hash = HashOpaqueToken ''token'', pl_ip_prefix = None,
     pl_user_agent = None, pl_expires_at = 1000, pl_consumed_at = None, pl_minted_by_addon = None,
     pl_minted_by_issuer = None\<rparr>"

definition guarded_db :: auth_db where
  "guarded_db = new_instance\<lparr>db_users := [guarded_account], db_pending := [guarded_pending],
     db_codes := [\<lparr>rc_user_id = 1, rc_code_hash = HashOpaqueToken (normalizeRecoveryCode ''good''), rc_used_at = None\<rparr>]\<rparr>"

definition at_one :: clocks where
  "at_one = \<lparr>ck_now = 1, ck_db_now = 1\<rparr>"

definition sample_tenancy :: surroundings where
  "sample_tenancy = \<lparr>su_workspace = Some (Some 9), su_identity = True\<rparr>"

definition sample_facts :: request_facts where
  "sample_facts = \<lparr>rf_addr = NoAddr, rf_agent = ''curl''\<rparr>"

lemma guarded_open: "open_for ''token'' guarded_pending guarded_account guarded_db"
  by (simp add: open_for_def distinct_accounts_def guarded_db_def guarded_account_def sample_account_def guarded_pending_def
      LockMFAPendingLogin_def GetUser_def live_account_def)

lemma guarded_codes:
  "\<not> factor_presented sample_signin at_one guarded_db guarded_account ''  ''"
  "factor_presented sample_signin at_one guarded_db guarded_account ''good''"
proof -
  have "trim_space ''  '' = ''''" "trim_space ''good'' = ''good''" by code_simp+
  then show "\<not> factor_presented sample_signin at_one guarded_db guarded_account ''  ''"
    "factor_presented sample_signin at_one guarded_db guarded_account ''good''"
    by (simp_all add: factor_presented_def totp_step_def sample_signin_def guarded_db_def guarded_account_def
        sample_account_def)
qed

lemma guarded_mint: "can_mint (sample_random 5) sample_tenancy guarded_db"
  by (simp add: can_mint_def sample_random_def sample_tenancy_def NewOpaqueToken_def guarded_db_def new_instance_def Let_def)

lemma guarded_email: "GetUserByEmail (sc_lower sample_signin) (NormalizeEmail ''a@b.c'') guarded_db = Some guarded_account"
proof -
  have "NormalizeEmail ''a@b.c'' = ''a@b.c''" by code_simp
  then show ?thesis
    by (simp add: GetUserByEmail_def sample_signin_def guarded_db_def guarded_account_def sample_account_def)
qed

theorem lockout_does_not_stop_a_challenge_witness:
  "\<exists>d1. attempts (complete_as sample_signin ''token'' (sample_random 5) sample_tenancy sample_facts)
        (replicate 6 (at_one, ''  '')) guarded_db
      = (replicate (length (replicate 6 (at_one, ''  ''))) (Inl ErrMFACodeInvalid), d1)
    \<and> Login sample_signin at_one healthy (sample_random 5) sample_tenancy ''a@b.c'' ''any password'' sample_facts d1
      = (Inl ErrAccountLocked, d1)
    \<and> (\<exists>t. fst (CompleteSecondFactor sample_signin at_one healthy (sample_random 5) sample_tenancy ''token'' ''good''
             sample_facts d1)
         = Inr (SignedIn (ac_id guarded_account) (rn_id (sample_random 5)) t
             (ck_now at_one + Absolute (sc_ttl sample_signin))))"
proof (rule lockout_does_not_stop_a_challenge [OF guarded_open guarded_mint, where ?t0.0 = 0])
  have "ThresholdParam DefaultLockout = 5" "WindowSecondsParam DefaultLockout = 900" by code_simp+
  then show "0 < ThresholdParam (sc_lockout sample_signin)"
    "ThresholdParam (sc_lockout sample_signin) \<le> int (length (replicate 6 (at_one, ''  '')))"
    "list_all (\<lambda>g. ck_now (fst g) < pl_expires_at guarded_pending
        \<and> \<not> factor_presented sample_signin (fst g) guarded_db guarded_account (snd g)
        \<and> 0 \<le> ck_db_now (fst g)
        \<and> ck_db_now (fst g) < 0 + WindowSecondsParam (sc_lockout sample_signin) * second_ns)
       (replicate 6 (at_one, ''  ''))"
    "ck_now at_one < min (pl_expires_at guarded_pending)
       (ck_db_now (fst (last (replicate 6 (at_one, ''  '')))) + WindowSecondsParam (sc_lockout sample_signin) * second_ns)"
    using guarded_codes
    by (simp_all add: sample_signin_def list_all_iff guarded_pending_def at_one_def second_ns_def)
  show "factor_presented sample_signin at_one guarded_db guarded_account ''good''" by (rule guarded_codes)
qed (simp_all add: guarded_email, simp_all add: guarded_account_def sample_account_def)

text \<open>An account with a password, four wrong ones, a fifth that locks it, and a right one in vain.\<close>

definition passworded_account :: account where
  "passworded_account = sample_account\<lparr>ac_password_hash := Some (encode_hash DefaultParams (replicate 16 9)
     (bytes_of ''correct horse'' @ replicate 16 9 @ replicate 3 0))\<rparr>"

definition passworded_db :: auth_db where
  "passworded_db = new_instance\<lparr>db_users := [passworded_account]\<rparr>"

lemma passworded_wrong: "wrong_for sample_signin passworded_account ''wrong''"
proof -
  have "decode_hash (encode_hash DefaultParams (replicate 16 9) (bytes_of ''correct horse'' @ replicate 16 9 @ replicate 3 0))
      = Inr (DefaultParams, replicate 16 9, bytes_of ''correct horse'' @ replicate 16 9 @ replicate 3 0)"
    by (rule decode_encode_hash) (simp add: storable_def DefaultParams_def bytes_of_def maxHashFieldLen_def)
  moreover have "sample_idkey (bytes_of ''wrong'') (replicate 16 9) (Iterations DefaultParams) (MemoryKiB DefaultParams)
      (Parallelism DefaultParams) (KeyLength DefaultParams)
    \<noteq> Some (bytes_of ''correct horse'' @ replicate 16 9 @ replicate 3 0)" by code_simp
  ultimately show ?thesis
    by (simp add: wrong_for_def passworded_account_def Hasher_Verify_def sample_signin_def MaxPasswordLength_def)
qed

theorem wrong_passwords_lock_the_account_witness:
  "fst (attempts (sign_in_as sample_signin ''a@b.c'' (sample_random 5) sample_tenancy sample_facts)
       ((replicate 4 (at_one, ''wrong'') @ [(at_one, ''wrong'')]) @ [(at_one, ''correct horse'')]) passworded_db)
     = (replicate 4 (Inl ErrInvalidCredentials) @ [Inl ErrAccountLocked]) @ [Inl ErrAccountLocked]
   \<and> fst (Login sample_signin \<lparr>ck_now = 10 ^ 12, ck_db_now = 10 ^ 12\<rparr> healthy (sample_random 5) sample_tenancy
       ''a@b.c'' ''wrong'' sample_facts (put_account (locked_row sample_signin at_one passworded_account) passworded_db))
     = Inl ErrInvalidCredentials"
proof -
  have t: "ThresholdParam DefaultLockout = 5" "WindowSecondsParam DefaultLockout = 900"
    and e: "NormalizeEmail ''a@b.c'' = ''a@b.c''" by code_simp+
  have "GetUserByEmail (sc_lower sample_signin) (NormalizeEmail ''a@b.c'') passworded_db = Some passworded_account"
    by (simp add: e GetUserByEmail_def sample_signin_def passworded_db_def passworded_account_def sample_account_def)
  moreover have "distinct_accounts passworded_db" by (simp add: distinct_accounts_def passworded_db_def)
  moreover have "ac_status passworded_account = ''active''" "ac_locked_until passworded_account = None"
    "ac_failed_login_count passworded_account = 0" by (simp_all add: passworded_account_def sample_account_def)
  moreover have "ThresholdParam (sc_lockout sample_signin)
      = int (length (replicate 4 (at_one, ''wrong'') @ [(at_one, ''wrong'')]))"
    by (simp add: t sample_signin_def)
  moreover have "list_all (\<lambda>h. locked_now (fst h) (locked_row sample_signin (fst (at_one, ''wrong'')) passworded_account))
      ((at_one, ''wrong'') # [(at_one, ''correct horse'')])"
    by (simp add: t sample_signin_def locked_now_def locked_row_def at_one_def second_ns_def)
  ultimately show ?thesis
    using wrong_passwords_lock_the_account [of passworded_db sample_signin "''a@b.c''" passworded_account
        "replicate 4 (at_one, ''wrong'')" "(at_one, ''wrong'')" "[(at_one, ''correct horse'')]"
        "sample_random 5" sample_tenancy sample_facts] passworded_wrong
    by (simp add: t sample_signin_def at_one_def second_ns_def list_all_iff)
qed

end
