(* ===== verification/Punycode.thy ===== *)
theory Punycode
  imports GoString
begin

section \<open>Homographs\<close>

text \<open>
  \<open>internal/link/punycode.go\<close>: the RFC 3492 decoder and the test for a label that is spelled to be read as an
  ASCII one. The decoder's integers are \<open>int\<close>; its theorems include that none of them leaves 32 bits. A
  decoded label is the list of its code points until it is written out as a string.
\<close>

subsection \<open>The decoder\<close>

definition punyBase :: int where "punyBase = 36"
definition punyTMin :: int where "punyTMin = 1"
definition punyTMax :: int where "punyTMax = 26"
definition punySkew :: int where "punySkew = 38"
definition punyDamp :: int where "punyDamp = 700"
definition punyInitialBias :: int where "punyInitialBias = 72"
definition punyInitialN :: int where "punyInitialN = 128"

definition MaxInt32 :: int where "MaxInt32 = 2147483647"
definition MaxRune :: int where "MaxRune = 0x10ffff"

lemmas puny_consts = punyBase_def punyTMin_def punyTMax_def punySkew_def punyDamp_def punyInitialBias_def
  punyInitialN_def MaxInt32_def MaxRune_def

definition punyDigit :: "char \<Rightarrow> int option" where
  "punyDigit c =
     (if is_digit c then Some (int (code c) - 48 + 26)
      else if 97 \<le> code c \<and> code c \<le> 122 then Some (int (code c) - 97)
      else if 65 \<le> code c \<and> code c \<le> 90 then Some (int (code c) - 65)
      else None)"

text \<open>The loop of \<open>punyAdapt\<close>; it stops because the difference shrinks.\<close>

function adapt_loop :: "int \<Rightarrow> int \<Rightarrow> int \<times> int" where
  "adapt_loop delta k =
     (if delta > (punyBase - punyTMin) * punyTMax div 2
      then adapt_loop (delta div (punyBase - punyTMin)) (k + punyBase) else (delta, k))"
  by pat_completeness auto
termination
  by (relation "measure (\<lambda>(delta, k). nat delta)") (auto simp: puny_consts)

declare adapt_loop.simps [simp del]

definition punyAdapt :: "int \<Rightarrow> int \<Rightarrow> bool \<Rightarrow> int" where
  "punyAdapt delta0 numPoints firstTime =
     (let delta1 = (if firstTime then delta0 div punyDamp else delta0 div 2);
          (delta, k) = adapt_loop (delta1 + delta1 div numPoints) 0
      in k + (punyBase - punyTMin + 1) * delta div (delta + punySkew))"

definition puny_threshold :: "int \<Rightarrow> int \<Rightarrow> int" where
  "puny_threshold k bias =
     (let t = k - bias in if t < punyTMin then punyTMin else if t > punyTMax then punyTMax else t)"

text \<open>One variable-length integer: the inner loop, from the position the text argument stands at.\<close>

fun puny_integer :: "string \<Rightarrow> int \<Rightarrow> int \<Rightarrow> int \<Rightarrow> int \<Rightarrow> (int \<times> string) option" where
  "puny_integer [] i w k bias = None"
| "puny_integer (c # cs) i w k bias =
     (case punyDigit c of
        None \<Rightarrow> None
      | Some digit \<Rightarrow>
          if digit > (MaxInt32 - i) div w then None
          else let i1 = i + digit * w; t = puny_threshold k bias in
               if digit < t then Some (i1, cs)
               else if w > MaxInt32 div (punyBase - t) then None
               else puny_integer cs i1 (w * (punyBase - t)) (k + punyBase) bias)"

lemma puny_integer_consumes: "puny_integer s i w k bias = Some (j, rest) \<Longrightarrow> length rest < length s"
  by (induction s i w k bias rule: puny_integer.induct) (fastforce simp: Let_def split: option.splits if_splits)+

definition insert_at :: "nat \<Rightarrow> 'a \<Rightarrow> 'a list \<Rightarrow> 'a list" where
  "insert_at i x xs = take i xs @ x # drop i xs"

definition scalar :: "int \<Rightarrow> bool" where
  "scalar n \<longleftrightarrow> 0 \<le> n \<and> n \<le> MaxRune \<and> \<not> (0xD800 \<le> n \<and> n \<le> 0xDFFF)"

function puny_loop :: "string \<Rightarrow> nat list \<Rightarrow> int \<Rightarrow> int \<Rightarrow> int \<Rightarrow> nat list option" where
  "puny_loop s acc n bias i =
     (if s = [] then Some acc
      else case puny_integer s i 1 punyBase bias of
        None \<Rightarrow> None
      | Some (i1, rest) \<Rightarrow>
          let out = int (length acc) + 1;
              bias1 = punyAdapt (i1 - i) out (i = 0) in
          if i1 div out > MaxInt32 - n then None
          else let n1 = n + i1 div out; i2 = i1 mod out in
               if \<not> scalar n1 then None
               else puny_loop rest (insert_at (nat i2) (nat n1) acc) n1 bias1 (i2 + 1))"
  by pat_completeness auto
termination
  by (relation "measure (\<lambda>(s, _). length s)") (auto dest: puny_integer_consumes)

declare puny_loop.simps [simp del]

definition puny_runes :: "string \<Rightarrow> nat list option" where
  "puny_runes encoded =
     (if encoded = [] then None
      else case cut_last (CHR ''-'') encoded of
        None \<Rightarrow> puny_loop encoded [] punyInitialN punyInitialBias 0
      | Some (literal, rest) \<Rightarrow>
          if is_ascii literal then puny_loop rest (map code literal) punyInitialN punyInitialBias 0 else None)"

definition punycodeDecode :: "string \<Rightarrow> string option" where
  "punycodeDecode encoded = map_option string_of_runes (puny_runes encoded)"

subsection \<open>Lookalikes\<close>

definition isASCIIHostRune :: "nat \<Rightarrow> bool" where
  "isASCIIHostRune r \<longleftrightarrow> 97 \<le> r \<and> r \<le> 122 \<or> 65 \<le> r \<and> r \<le> 90 \<or> 48 \<le> r \<and> r \<le> 57 \<or> r = 45"

text \<open>The keys of \<open>latinConfusables\<close>: Cyrillic, Greek and fullwidth Latin, in the order of the source.\<close>

definition latinConfusables :: "nat list" where
  "latinConfusables =
     [1072, 1074, 1089, 1281, 1077, 1109, 1211, 1110, 1112, 1082, 1231, 1084, 1085, 1086, 1088, 1307,
      1075, 1090, 1080, 1141, 1309, 1093, 1091, 7452, 1040, 1042, 1057, 1045, 1029, 1053, 1030, 1032,
      1050, 1052, 1054, 1056, 1306, 1058, 1140, 1308, 1061, 1059, 945, 1010, 949, 953, 954, 957, 959,
      961, 963, 964, 965, 967, 969, 956, 913, 914, 917, 918, 919, 921, 922, 924, 925, 927, 929, 932, 933,
      935, 65345, 65346, 65347, 65348, 65349, 65351, 65353, 65356, 65357, 65358, 65359, 65360, 65362,
      65363, 65364, 65365, 65369]"

fun confusable_runes :: "nat \<Rightarrow> nat list \<Rightarrow> bool" where
  "confusable_runes imitations [] \<longleftrightarrow> imitations > 0"
| "confusable_runes imitations (r # rs) \<longleftrightarrow>
     (if r < 128 then isASCIIHostRune r \<and> confusable_runes imitations rs
      else r \<in> set latinConfusables \<and> confusable_runes (Suc imitations) rs)"

definition confusableWithASCII :: "string \<Rightarrow> bool" where
  "confusableWithASCII label \<longleftrightarrow> label \<noteq> [] \<and> confusable_runes 0 (runes label)"

definition isHomograph :: "string \<Rightarrow> bool" where
  "isHomograph host \<longleftrightarrow>
     list_ex (\<lambda>label. prefix ''xn--'' label
       \<and> (case punycodeDecode (drop 4 label) of None \<Rightarrow> False | Some decoded \<Rightarrow> confusableWithASCII decoded))
       (split_on (CHR ''.'') host)"

text \<open>RFC 3492's arithmetic on two hosts spelled to be read as \<open>apple\<close>, an ordinary name and a malformed one.\<close>

lemma homograph_samples:
  "puny_runes ''80ak6aa92e'' = Some [1072, 1088, 1088, 1231, 1077]"
  "puny_runes ''pple-43d'' = Some [1072, 112, 112, 108, 101]"
  "puny_runes ''mnchen-3ya'' = Some [109, 252, 110, 99, 104, 101, 110]"
  "puny_runes ''a-b_c'' = None"
  by code_simp+

subsection \<open>Nothing overflows, nothing is guessed\<close>

lemma threshold_range: "1 \<le> puny_threshold k bias \<and> puny_threshold k bias \<le> 26"
  by (auto simp: puny_threshold_def puny_consts Let_def)

lemma digit_range: "punyDigit c = Some d \<Longrightarrow> 0 \<le> d \<and> d \<le> 35"
  by (auto simp: punyDigit_def is_digit_def split: if_splits)

lemma puny_integer_range:
  assumes "puny_integer s i w k bias = Some (j, rest)" "0 \<le> i" "i \<le> MaxInt32" "0 < w" "w \<le> MaxInt32"
  shows "i \<le> j \<and> j \<le> MaxInt32"
  using assms
proof (induction s i w k bias rule: puny_integer.induct)
  case (2 c cs i w k bias)
  from "2.prems"(1) obtain digit where d: "punyDigit c = Some digit" "\<not> digit > (MaxInt32 - i) div w"
    by (auto split: option.splits if_splits)
  have dw: "0 \<le> digit * w" "i + digit * w \<le> MaxInt32"
  proof -
    show "0 \<le> digit * w" using digit_range [OF d(1)] "2.prems"(4) by simp
    have "digit * w \<le> (MaxInt32 - i) div w * w" using d(2) "2.prems"(4) by (intro mult_right_mono) auto
    also have "\<dots> \<le> MaxInt32 - i" using "2.prems"(4) by (simp add: minus_mod_eq_div_mult [symmetric])
    finally show "i + digit * w \<le> MaxInt32" by simp
  qed
  define t where "t = puny_threshold k bias"
  have t: "0 < punyBase - t" using threshold_range [of k bias] by (simp add: t_def punyBase_def)
  have mul: "w * (punyBase - t) \<le> MaxInt32" if "\<not> w > MaxInt32 div (punyBase - t)"
  proof -
    have "w * (punyBase - t) \<le> MaxInt32 div (punyBase - t) * (punyBase - t)"
      using that t by (intro mult_right_mono) auto
    also have "\<dots> \<le> MaxInt32" using t by (simp add: minus_mod_eq_div_mult [symmetric])
    finally show ?thesis .
  qed
  show ?case
  proof (cases "digit < t")
    case True
    with "2.prems"(1) d dw show ?thesis by (auto simp: Let_def t_def)
  next
    case False
    with "2.prems"(1) d have w: "\<not> w > MaxInt32 div (punyBase - t)"
      and rec: "puny_integer cs (i + digit * w) (w * (punyBase - t)) (k + punyBase) bias = Some (j, rest)"
      by (auto simp: Let_def t_def split: if_splits)
    from "2.IH" [OF d(1) d(2) refl t_def] False w rec dw "2.prems"(2,4) mul t
    show ?thesis by fastforce
  qed
qed simp

definition decoded_ok :: "nat list \<Rightarrow> bool" where
  "decoded_ok rs = list_all (\<lambda>r. scalar (int r)) rs"

lemma insert_at_props [simp]:
  "decoded_ok (insert_at i x xs) = (scalar (int x) \<and> decoded_ok xs)" "length (insert_at i x xs) = Suc (length xs)"
proof -
  have "list_all p xs = (list_all p (take i xs) \<and> list_all p (drop i xs))" for p
    by (metis append_take_drop_id list_all_append)
  then show "decoded_ok (insert_at i x xs) = (scalar (int x) \<and> decoded_ok xs)"
    by (auto simp: insert_at_def decoded_ok_def)
  show "length (insert_at i x xs) = Suc (length xs)" by (simp add: insert_at_def)
qed

lemma puny_loop_step:
  assumes "puny_loop s acc n bias i = Some rs" "s \<noteq> []"
  obtains i1 rest where "puny_integer s i 1 punyBase bias = Some (i1, rest)"
    "scalar (n + i1 div (int (length acc) + 1))" "\<not> i1 div (int (length acc) + 1) > MaxInt32 - n"
    "puny_loop rest (insert_at (nat (i1 mod (int (length acc) + 1))) (nat (n + i1 div (int (length acc) + 1))) acc)
       (n + i1 div (int (length acc) + 1)) (punyAdapt (i1 - i) (int (length acc) + 1) (i = 0))
       (i1 mod (int (length acc) + 1) + 1) = Some rs"
  using assms by (subst (asm) puny_loop.simps) (auto simp: Let_def split: option.splits if_splits)

lemma puny_loop_range:
  assumes "puny_loop s acc n bias i = Some rs" "decoded_ok acc"
    and "0 \<le> i" "i \<le> int (length acc)" "int (length acc) + int (length s) \<le> MaxInt32"
  shows "decoded_ok rs \<and> length rs \<le> length acc + length s"
  using assms
proof (induction "length s" arbitrary: s acc n bias i rule: less_induct)
  case less
  show ?case
  proof (cases "s = []")
    case True
    with less.prems show ?thesis by (simp add: puny_loop.simps)
  next
    case False
    let ?out = "int (length acc) + 1"
    from puny_loop_step [OF less.prems(1) False] obtain i1 rest where
      p: "puny_integer s i 1 punyBase bias = Some (i1, rest)" and c: "scalar (n + i1 div ?out)"
        "puny_loop rest (insert_at (nat (i1 mod ?out)) (nat (n + i1 div ?out)) acc) (n + i1 div ?out)
           (punyAdapt (i1 - i) ?out (i = 0)) (i1 mod ?out + 1) = Some rs" by blast
    have m: "0 \<le> i1 mod ?out" "i1 mod ?out \<le> int (length acc)"
      using pos_mod_bound [of ?out i1] by auto
    have "decoded_ok rs
        \<and> length rs \<le> length (insert_at (nat (i1 mod ?out)) (nat (n + i1 div ?out)) acc) + length rest"
    proof (rule less.hyps [OF puny_integer_consumes [OF p] c(2)])
      show "decoded_ok (insert_at (nat (i1 mod ?out)) (nat (n + i1 div ?out)) acc)"
        using c(1) less.prems(2) by (simp add: scalar_def)
    qed (use m less.prems puny_integer_consumes [OF p] in auto)
    with puny_integer_consumes [OF p] show ?thesis by simp
  qed
qed

lemma cut_last_length: "cut_last c s = Some (a, b) \<Longrightarrow> length s = Suc (length a + length b)"
  by (induction s arbitrary: a b) (auto split: option.splits if_splits)

lemma puny_runes_range:
  assumes "puny_runes encoded = Some rs" "int (length encoded) \<le> MaxInt32"
  shows "decoded_ok rs \<and> length rs \<le> length encoded"
proof (cases "cut_last (CHR ''-'') encoded")
  case None
  with assms have "puny_loop encoded [] punyInitialN punyInitialBias 0 = Some rs"
    by (simp add: puny_runes_def split: if_splits)
  from puny_loop_range [OF this] assms(2) show ?thesis by (simp add: decoded_ok_def)
next
  case (Some p)
  obtain literal rest where p: "p = (literal, rest)" by fastforce
  with Some assms have l: "is_ascii literal" "puny_loop rest (map code literal) punyInitialN punyInitialBias 0 = Some rs"
    by (simp_all add: puny_runes_def split: if_splits)
  have len: "length literal + length rest \<le> length encoded"
    using Some p cut_last_length [of "CHR ''-''" encoded literal rest] by simp
  have "decoded_ok (map code literal)"
    using l(1) by (auto simp: decoded_ok_def list_all_iff is_ascii_def scalar_def MaxRune_def)
  with puny_loop_range [OF l(2)] len assms(2) show ?thesis by simp
qed

text \<open>The bytes of a code point read back, by the number of bytes it takes.\<close>

lemma decode_multi_written:
  "2 \<le> a \<Longrightarrow> a \<le> 31 \<Longrightarrow> b \<le> 63 \<Longrightarrow> decode_multi (192 + a) ((128 + b) # bs) = Some (a * 64 + b, 1)"
  "a \<le> 15 \<Longrightarrow> b \<le> 63 \<Longrightarrow> c \<le> 63 \<Longrightarrow> (a = 0 \<longrightarrow> 32 \<le> b) \<Longrightarrow> (a = 13 \<longrightarrow> b \<le> 31)
   \<Longrightarrow> decode_multi (224 + a) ((128 + b) # (128 + c) # bs) = Some (a * 4096 + b * 64 + c, 2)"
  "a \<le> 4 \<Longrightarrow> b \<le> 63 \<Longrightarrow> c \<le> 63 \<Longrightarrow> d \<le> 63 \<Longrightarrow> (a = 0 \<longrightarrow> 16 \<le> b) \<Longrightarrow> (a = 4 \<longrightarrow> b \<le> 15)
   \<Longrightarrow> decode_multi (240 + a) ((128 + b) # (128 + c) # (128 + d) # bs) = Some (a * 262144 + b * 4096 + c * 64 + d, 3)"
  by (auto simp: decode_multi_def decode2_def decode3_def decode4_def continuation_def)

lemma div_split: "(r::nat) div 4096 = r div 64 div 64" "r div 262144 = r div 64 div 64 div 64"
  by (simp_all add: div_mult2_eq [symmetric])

lemma div_parts:
  "(r::nat) div 64 * 64 + r mod 64 = r"
  "r div 64 div 64 * 4096 + r div 64 mod 64 * 64 + r mod 64 = r"
  "r div 64 div 64 div 64 * 262144 + r div 64 div 64 mod 64 * 4096 + r div 64 mod 64 * 64 + r mod 64 = r"
proof -
  show two: "r div 64 * 64 + r mod 64 = r" for r :: nat by (rule div_mult_mod_eq)
  show three: "r div 64 div 64 * 4096 + r div 64 mod 64 * 64 + r mod 64 = r" for r :: nat
    using two [of r] two [of "r div 64"] by linarith
  show "r div 64 div 64 div 64 * 262144 + r div 64 div 64 mod 64 * 4096 + r div 64 mod 64 * 64 + r mod 64 = r"
    using two [of r] three [of "r div 64"] by linarith
qed

lemma nibbles:
  fixes q :: nat
  shows "32 \<le> q \<Longrightarrow> q < 1024 \<Longrightarrow> q < 864 \<or> 896 \<le> q \<Longrightarrow> q div 64 \<le> 15 \<and> q mod 64 \<le> 63
     \<and> (q div 64 = 0 \<longrightarrow> 32 \<le> q mod 64) \<and> (q div 64 = 13 \<longrightarrow> q mod 64 \<le> 31)"
    and "16 \<le> q \<Longrightarrow> q < 272 \<Longrightarrow> q div 64 \<le> 4 \<and> q mod 64 \<le> 63
     \<and> (q div 64 = 0 \<longrightarrow> 16 \<le> q mod 64) \<and> (q div 64 = 4 \<longrightarrow> q mod 64 \<le> 15)"
proof -
  have q: "q div 64 * 64 + q mod 64 = q" "q mod 64 < 64" by (simp_all add: div_mult_mod_eq)
  show "q div 64 \<le> 15 \<and> q mod 64 \<le> 63 \<and> (q div 64 = 0 \<longrightarrow> 32 \<le> q mod 64) \<and> (q div 64 = 13 \<longrightarrow> q mod 64 \<le> 31)"
    if "32 \<le> q" "q < 1024" "q < 864 \<or> 896 \<le> q"
    using that q by (intro conjI impI) linarith+
  show "q div 64 \<le> 4 \<and> q mod 64 \<le> 63 \<and> (q div 64 = 0 \<longrightarrow> 16 \<le> q mod 64) \<and> (q div 64 = 4 \<longrightarrow> q mod 64 \<le> 15)"
    if "16 \<le> q" "q < 272"
    using that q by (intro conjI impI) linarith+
qed

lemma utf8_round:
  assumes "scalar (int r)"
  shows "utf8_decode (utf8_encode r @ bs) = r # utf8_decode bs"
proof -
  consider "r < 128" | "128 \<le> r" "r < 2048" | "2048 \<le> r" "r < 65536" "r < 55296 \<or> 57343 < r" | "65536 \<le> r" "r \<le> 1114111"
    using assms that by (cases "r < 128"; cases "r < 2048"; cases "r < 65536"; cases "r < 55296") (simp_all add: scalar_def MaxRune_def)
  then show ?thesis
  proof cases
    case 1
    then show ?thesis by (simp add: utf8_encode_def)
  next
    case 2
    then have "2 \<le> r div 64" "r div 64 \<le> 31" "r mod 64 \<le> 63" by auto
    from decode_multi_written(1) [OF this] 2 show ?thesis by (simp add: utf8_encode_def div_parts)
  next
    case 3
    then have "32 \<le> r div 64" "r div 64 < 1024" "r div 64 < 864 \<or> 896 \<le> r div 64" "r mod 64 \<le> 63" by auto
    with nibbles(1) [of "r div 64"] decode_multi_written(2) [of "r div 64 div 64" "r div 64 mod 64" "r mod 64" bs] 3
    show ?thesis by (auto simp: utf8_encode_def div_parts(2) div_split)
  next
    case 4
    then have "16 \<le> r div 64 div 64" "r div 64 div 64 < 272" "r div 64 mod 64 \<le> 63" "r mod 64 \<le> 63"
      by (auto simp: div_split [symmetric])
    with nibbles(2) [of "r div 64 div 64"] decode_multi_written(3) [of "r div 64 div 64 div 64"
        "r div 64 div 64 mod 64" "r div 64 mod 64" "r mod 64" bs] 4
    show ?thesis by (simp add: utf8_encode_def div_parts(3) div_split)
  qed
qed

lemma utf8_decode_concat: "decoded_ok rs \<Longrightarrow> utf8_decode (concat (map utf8_encode rs)) = rs"
  by (induction rs) (auto simp: decoded_ok_def utf8_round)

lemma utf8_bytes:
  assumes "scalar (int r)" "b \<in> set (utf8_encode r)"
  shows "b < 256"
proof -
  have "r \<le> 1114111" using assms(1) by (simp add: scalar_def MaxRune_def)
  then have "r div 262144 \<le> 4" by auto
  with assms(2) show ?thesis by (auto simp: utf8_encode_def split: if_splits)
qed

lemma runes_string_of_runes:
  assumes "decoded_ok rs"
  shows "runes (string_of_runes rs) = rs"
proof -
  have "\<forall>b \<in> set (concat (map utf8_encode rs)). b < 256"
    using assms utf8_bytes by (auto simp: decoded_ok_def list_all_iff)
  then have "map (code \<circ> char_of) (concat (map utf8_encode rs)) = concat (map utf8_encode rs)"
    by (intro map_idI) (simp only: o_apply code_char_of mod_less)
  with utf8_decode_concat [OF assms] show ?thesis by (simp add: runes_def string_of_runes_def)
qed

lemma confusable_runes_iff:
  "confusable_runes n rs \<longleftrightarrow>
     (\<forall>r \<in> set rs. r < 128 \<and> isASCIIHostRune r \<or> r \<in> set latinConfusables)
     \<and> (n > 0 \<or> (\<exists>r \<in> set rs. r \<in> set latinConfusables))"
proof (induction n rs rule: confusable_runes.induct)
  case (2 n r rs)
  have "r \<in> set latinConfusables \<Longrightarrow> \<not> r < 128" by (auto simp: latinConfusables_def)
  with 2 show ?case by auto
qed simp

text \<open>What decoding may answer: Unicode scalar values only, at most as many as the bytes read. With
  \<open>puny_integer_range\<close> the running integer stays below \<open>2\<close> to the \<open>31\<close>st throughout.\<close>

lemma homograph_label:
  assumes "int (length encoded) \<le> MaxInt32"
  shows "(case punycodeDecode encoded of None \<Rightarrow> False | Some decoded \<Rightarrow> confusableWithASCII decoded)
    \<longleftrightarrow> (case puny_runes encoded of None \<Rightarrow> False | Some rs \<Rightarrow> confusable_runes 0 rs)"
proof (cases "puny_runes encoded")
  case (Some rs)
  from puny_runes_range [OF Some assms] have r: "runes (string_of_runes rs) = rs"
    by (simp add: runes_string_of_runes)
  moreover have "string_of_runes rs = [] \<Longrightarrow> rs = []" using r by (simp add: runes_def)
  ultimately show ?thesis using Some by (auto simp: punycodeDecode_def confusableWithASCII_def)
qed (simp add: punycodeDecode_def)

text \<open>C22. A host is refused as a homograph exactly when one of its labels carries the punycode prefix and the rest
  of it decodes to Unicode scalar values, no more of them than bytes, every one of which is an ASCII letter,
  digit or hyphen or one of the listed lookalikes, with at least one lookalike among them; a label that is
  malformed, plain ASCII or holds any other character is not.\<close>

theorem isHomograph_iff:
  assumes "int (length host) \<le> MaxInt32"
  shows "isHomograph host \<longleftrightarrow>
    (\<exists>label \<in> set (split_on (CHR ''.'') host). \<exists>rs. prefix ''xn--'' label \<and> puny_runes (drop 4 label) = Some rs
       \<and> list_all (\<lambda>r. scalar (int r)) rs \<and> length rs \<le> length label
       \<and> list_all (\<lambda>r. r < 128 \<and> isASCIIHostRune r \<or> r \<in> set latinConfusables) rs
       \<and> list_ex (\<lambda>r. r \<in> set latinConfusables) rs)"
proof -
  have len: "int (length (drop 4 label)) \<le> MaxInt32 \<and> length (drop 4 label) \<le> length label"
    if "label \<in> set (split_on (CHR ''.'') host)" for label
    using field_length_le [OF that] assms by simp
  have "(case puny_runes e of None \<Rightarrow> False | Some rs \<Rightarrow> confusable_runes 0 rs) \<longleftrightarrow>
      (\<exists>rs. puny_runes e = Some rs \<and> list_all (\<lambda>r. scalar (int r)) rs \<and> length rs \<le> length e
         \<and> list_all (\<lambda>r. r < 128 \<and> isASCIIHostRune r \<or> r \<in> set latinConfusables) rs
         \<and> list_ex (\<lambda>r. r \<in> set latinConfusables) rs)" if "int (length e) \<le> MaxInt32" for e
    using puny_runes_range [OF _ that]
    by (auto simp: confusable_runes_iff list_all_iff list_ex_iff decoded_ok_def split: option.splits)
  then have "prefix ''xn--'' label \<and> (case punycodeDecode (drop 4 label) of None \<Rightarrow> False | Some s \<Rightarrow> confusableWithASCII s)
      \<longleftrightarrow> (\<exists>rs. prefix ''xn--'' label \<and> puny_runes (drop 4 label) = Some rs
         \<and> list_all (\<lambda>r. scalar (int r)) rs \<and> length rs \<le> length label
         \<and> list_all (\<lambda>r. r < 128 \<and> isASCIIHostRune r \<or> r \<in> set latinConfusables) rs
         \<and> list_ex (\<lambda>r. r \<in> set latinConfusables) rs)"
    if "label \<in> set (split_on (CHR ''.'') host)" for label
    using len [OF that] homograph_label [of "drop 4 label"] puny_runes_range [of "drop 4 label"] le_trans by blast
  then show ?thesis unfolding isHomograph_def list_ex_iff [of _ "split_on (CHR ''.'') host"] by blast
qed

theorem isHomograph_iff_witness:
  "isHomograph ''www.xn--80ak6aa92e.com'' \<and> \<not> isHomograph ''xn--mnchen-3ya.de''"
proof -
  have "isHomograph ''www.xn--80ak6aa92e.com''"
    by (subst isHomograph_iff)
      (simp_all add: MaxInt32_def homograph_samples scalar_def MaxRune_def latinConfusables_def isASCIIHostRune_def)
  moreover have "\<not> isHomograph ''xn--mnchen-3ya.de''"
    by (subst isHomograph_iff)
      (simp_all add: MaxInt32_def homograph_samples scalar_def MaxRune_def latinConfusables_def isASCIIHostRune_def)
  ultimately show ?thesis ..
qed

end
