(* ===== verification/HostName.thy ===== *)
theory HostName
  imports GoString
begin

section \<open>Spellings of a host\<close>

text \<open>
  \<open>CanonicalHost\<close> and \<open>HostOnly\<close> of internal/config/config.go, the two normal forms a \<open>Host\<close>
  header is compared in, over \<open>net.SplitHostPort\<close> and \<open>net.JoinHostPort\<close> of the standard
  library. The callers of \<open>SplitHostPort\<close> ask only whether it failed, so \<open>None\<close> is each of its
  errors. The lemmas compute both forms on the spellings of a plain name: any letter case, one
  trailing dot, any port.
\<close>

subsection \<open>The standard library\<close>

definition SplitHostPort :: "string \<Rightarrow> (string \<times> string) option" where
  "SplitHostPort hostport =
     (case cut_last (CHR '':'') hostport of
        None \<Rightarrow> None
      | Some (before, port) \<Rightarrow>
          if prefix ''['' hostport then
            (case cut (CHR '']'') hostport of (inside, rest, found) \<Rightarrow>
               if \<not> found \<or> rest = [] then None
               else if Suc (length inside) \<noteq> length before then None
               else if CHR ''['' \<in> set (drop 1 hostport) \<or> CHR '']'' \<in> set rest then None
               else Some (drop 1 inside, port))
          else if CHR '':'' \<in> set before then None
          else if CHR ''['' \<in> set hostport \<or> CHR '']'' \<in> set hostport then None
          else Some (before, port))"

definition bracketed :: "string \<Rightarrow> string" where
  "bracketed h = ''['' @ h @ '']''"

definition JoinHostPort :: "string \<Rightarrow> string \<Rightarrow> string" where
  "JoinHostPort h port = (if CHR '':'' \<in> set h then bracketed h else h) @ '':'' @ port"

subsection \<open>internal/config/config.go\<close>

definition CanonicalHost :: "string \<Rightarrow> string" where
  "CanonicalHost header =
     (let name = to_lower (trim_space header) in
      case SplitHostPort name of
        None \<Rightarrow> trim_suffix ''.'' name
      | Some (h, port) \<Rightarrow>
          (let h = trim_suffix ''.'' h in
           if port \<noteq> ''80'' \<and> port \<noteq> ''443'' then JoinHostPort h port
           else if CHR '':'' \<in> set h then bracketed h
           else h))"

definition HostOnly :: "string \<Rightarrow> string" where
  "HostOnly header =
     (let name = CanonicalHost header in
      case SplitHostPort name of
        None \<Rightarrow> name
      | Some (h, _) \<Rightarrow> if CHR '':'' \<in> set h then bracketed h else h)"

subsection \<open>Plain names\<close>

text \<open>A byte of a name or a port that is neither white space, nor beyond ASCII, nor one of the
  three bytes that structure a host and a port.\<close>

definition plain_char :: "char \<Rightarrow> bool" where
  "plain_char c \<longleftrightarrow> code c < 128 \<and> \<not> space1 c \<and> c \<notin> {CHR '':'', CHR ''['', CHR '']''}"

definition plain_name :: "string \<Rightarrow> bool" where
  "plain_name h \<longleftrightarrow> list_all plain_char h \<and> \<not> suffix ''.'' h"

lemma plain_charD:
  assumes "list_all plain_char h"
  shows "CHR '':'' \<notin> set h" "CHR ''['' \<notin> set h" "CHR '']'' \<notin> set h" "is_ascii h" "trim_space h = h"
  using assms by (auto simp: list_all_iff plain_char_def is_ascii_def intro: trim_space_fixed)

lemma plain_char_code:
  "plain_char c \<longleftrightarrow> code c < 128 \<and> \<not> (9 \<le> code c \<and> code c \<le> 13) \<and> code c \<notin> {32, 58, 91, 93}"
proof -
  have "code (CHR '':'') = 58" "code (CHR ''['') = 91" "code (CHR '']'') = 93" by (simp_all add: code_def)
  then have "c = CHR '':'' \<longleftrightarrow> code c = 58" "c = CHR ''['' \<longleftrightarrow> code c = 91" "c = CHR '']'' \<longleftrightarrow> code c = 93"
    by (simp_all only: code_inj [of c, symmetric])
  then show ?thesis by (auto simp: plain_char_def space1_def)
qed

lemma plain_lower_char: "plain_char c \<Longrightarrow> plain_char (ascii_lower c)"
  by (simp add: plain_char_code ascii_lower_def)

lemma plain_lower: "list_all plain_char h \<Longrightarrow> list_all plain_char (map ascii_lower h)"
  by (auto simp: list_all_iff plain_lower_char)

lemma cut_last_none: "c \<notin> set s \<Longrightarrow> cut_last c s = None"
  by (induction s) auto

lemma cut_last_append: "c \<notin> set b \<Longrightarrow> cut_last c (a @ c # b) = Some (a, b)"
  by (induction a) (auto simp: cut_last_none)

lemma SplitHostPort_no_colon: "CHR '':'' \<notin> set s \<Longrightarrow> SplitHostPort s = None"
  by (simp add: SplitHostPort_def cut_last_none)

lemma SplitHostPort_joined:
  assumes "list_all plain_char h" "list_all plain_char p"
  shows "SplitHostPort (h @ '':'' @ p) = Some (h, p)"
proof -
  have "\<not> prefix ''['' (h @ '':'' @ p)" using plain_charD(2) [OF assms(1)] by (cases h) auto
  then show ?thesis
    using plain_charD [OF assms(1)] plain_charD [OF assms(2)]
    by (auto simp: SplitHostPort_def cut_last_append)
qed

lemma trim_dot: "\<not> suffix ''.'' h \<Longrightarrow> trim_suffix ''.'' h = h" "trim_suffix ''.'' (h @ ''.'') = h"
  by (simp_all add: trim_suffix_def)

text \<open>A spelling of a name: one trailing dot or none, a port or none.\<close>

definition spelled :: "string \<Rightarrow> bool \<Rightarrow> string option \<Rightarrow> string" where
  "spelled h dot port =
     h @ (if dot then ''.'' else '''') @ (case port of None \<Rightarrow> '''' | Some p \<Rightarrow> '':'' @ p)"

lemma plain_spelled_lower:
  assumes "list_all plain_char h" "pred_option (list_all plain_char) port"
  shows "to_lower (trim_space (spelled h dot port)) =
           spelled (map ascii_lower h) dot (map_option (map ascii_lower) port)"
proof -
  let ?p = "case port of None \<Rightarrow> [] | Some p \<Rightarrow> p"
  have sub: "set (spelled h dot port) \<subseteq> set h \<union> {CHR ''.'', CHR '':''} \<union> set ?p"
    by (cases port; cases dot) (simp_all add: spelled_def, blast+)
  have a: "code c < 128 \<and> \<not> space1 c" if "c \<in> set (spelled h dot port)" for c
  proof -
    from that sub consider "c \<in> set h" | "c = CHR ''.''" | "c = CHR '':''" | "c \<in> set ?p" by blast
    then show ?thesis
    proof cases
      case 1
      with assms(1) show ?thesis by (simp add: list_all_iff plain_char_def)
    next
      case 4
      with assms(2) show ?thesis by (cases port) (simp_all add: list_all_iff plain_char_def)
    qed (simp_all add: space1_def code_def)
  qed
  have "trim_space (spelled h dot port) = spelled h dot port" by (rule trim_space_fixed) (use a in auto)
  moreover have "is_ascii (spelled h dot port)" using a by (auto simp: is_ascii_def list_all_iff)
  moreover have "ascii_lower (CHR ''.'') = CHR ''.''" "ascii_lower (CHR '':'') = CHR '':''"
    by (simp_all add: ascii_lower_def code_def)
  ultimately show ?thesis by (cases port) (simp_all add: to_lower_ascii spelled_def)
qed

lemma HostOnly_spelled:
  assumes "plain_name (map ascii_lower h)" "list_all plain_char h" "pred_option (list_all plain_char) port"
  shows "HostOnly (spelled h dot port) = map ascii_lower h"
proof -
  let ?h = "map ascii_lower h"
  have h: "list_all plain_char ?h" and d: "\<not> suffix ''.'' ?h" using assms(1) by (auto simp: plain_name_def)
  note pl = plain_spelled_lower [OF assms(2,3), of dot]
  note clean = plain_charD [OF h]
  show ?thesis
  proof (cases port)
    case None
    then show ?thesis using pl clean d
      by (cases dot) (simp_all add: HostOnly_def CanonicalHost_def spelled_def SplitHostPort_no_colon trim_dot)
  next
    case (Some p)
    let ?p = "map ascii_lower p"
    from Some assms(3) have p: "list_all plain_char ?p" by (simp add: plain_lower)
    have hd: "list_all plain_char (?h @ (if dot then ''.'' else ''''))"
      using h by (auto simp: plain_char_def space1_def code_def)
    have "SplitHostPort (spelled ?h dot (Some ?p)) = Some (?h @ (if dot then ''.'' else ''''), ?p)"
      using SplitHostPort_joined [OF hd p] by (simp add: spelled_def)
    then have "CanonicalHost (spelled h dot port) =
        (if ?p \<noteq> ''80'' \<and> ?p \<noteq> ''443'' then ?h @ '':'' @ ?p else ?h)"
      using pl Some clean d by (cases dot) (simp_all add: CanonicalHost_def trim_dot JoinHostPort_def)
    then show ?thesis
      using SplitHostPort_joined [OF h p] clean
      by (simp add: HostOnly_def SplitHostPort_no_colon)
  qed
qed

lemma host_spellings:
  "CanonicalHost '' Go.Example.COM.:443 '' = ''go.example.com''"
  "CanonicalHost ''go.example.com:8080'' = ''go.example.com:8080''"
  "HostOnly ''go.example.com:8080'' = ''go.example.com''"
  "CanonicalHost ''[2001:DB8::1]:443'' = ''[2001:db8::1]''"
  "HostOnly ''[::1]:8080'' = ''[::1]''"
  "SplitHostPort ''a:b:c'' = None"
  "SplitHostPort ''[a]b:1'' = None"
  by code_simp+

end
