(* ===== verification/HostCache.thy ===== *)
theory HostCache
  imports HostName
begin

section \<open>The verified-hostname cache\<close>

text \<open>
  internal/redirect/hosts.go: the set of verified custom hostnames a replica serves, and the
  background reload that keeps it true. The fields of \<open>HostCache\<close> are the code's; each critical
  section (of \<open>mu\<close>, of \<open>schedMu\<close>) is one function on them, and a goroutine is a program counter
  between two of them. \<open>host_step\<close> interleaves what the process runs: callers of \<open>Refresh\<close>, the
  workers \<open>Refresh\<close> starts, the timer of cmd/linkctrl/jobs.go that calls \<open>Reload\<close> on its own
  goroutine, \<open>MarkTLSActive\<close>, and other replicas and requests that change the \<open>domains\<close> table.
  A query answers with what the table holds at one moment, or fails (an error and the timeout are
  one outcome). \<open>lower\<close> is PostgreSQL's \<open>lower\<close>, whose answers depend on the collation.
\<close>

subsection \<open>The rows and the set\<close>

record domain_row =
  do_id :: uuid
  do_hostname :: string
  do_root_redirect_url :: "string option"
  do_ssl_status :: string
  do_verified_at :: "instant option"
  do_deleted_at :: "instant option"
  do_is_default :: bool

record VerifiedDomain =
  vd_id :: uuid
  vd_hostname :: string
  vd_root_redirect_url :: string
  vd_ssl_status :: string

definition sslStatusNone :: string where "sslStatusNone = ''none''"
definition sslStatusPending :: string where "sslStatusPending = ''pending''"
definition sslStatusActive :: string where "sslStatusActive = ''active''"

text \<open>The one statement that fills the cache, with its three predicates.\<close>

definition servable :: "domain_row \<Rightarrow> bool" where
  "servable r \<longleftrightarrow> do_verified_at r \<noteq> None \<and> do_deleted_at r = None \<and> \<not> do_is_default r"

definition ListVerifiedDomains :: "(string \<Rightarrow> string) \<Rightarrow> domain_row list \<Rightarrow> domain_row list" where
  "ListVerifiedDomains lower table = map (\<lambda>r. r\<lparr>do_hostname := lower (do_hostname r)\<rparr>) (filter servable table)"

definition verified_domain :: "domain_row \<Rightarrow> VerifiedDomain" where
  "verified_domain r =
     \<lparr>vd_id = do_id r, vd_hostname = do_hostname r,
      vd_root_redirect_url = (case do_root_redirect_url r of None \<Rightarrow> '''' | Some u \<Rightarrow> u),
      vd_ssl_status = do_ssl_status r\<rparr>"

type_synonym host_set = "string \<Rightarrow> VerifiedDomain option"

definition loadFromDB :: "(string \<Rightarrow> string) \<Rightarrow> domain_row list \<Rightarrow> host_set" where
  "loadFromDB lower table =
     fold (\<lambda>r hosts. hosts(HostOnly (do_hostname r) \<mapsto> verified_domain r)) (ListVerifiedDomains lower table) Map.empty"

subsection \<open>The cache\<close>

record HostCache =
  hc_hosts :: host_set
  hc_ready :: bool
  hc_running :: bool
  hc_pending :: bool

definition NewHostCache :: HostCache where
  "NewHostCache = \<lparr>hc_hosts = Map.empty, hc_ready = False, hc_running = False, hc_pending = False\<rparr>"

text \<open>A nil cache answers nothing.\<close>

definition Lookup :: "HostCache option \<Rightarrow> string \<Rightarrow> VerifiedDomain option" where
  "Lookup cache header =
     (case cache of
        None \<Rightarrow> None
      | Some c \<Rightarrow>
          if \<not> hc_ready c then None
          else let name = HostOnly header in
               if name = '''' then None else hc_hosts c name)"

definition MarkTLSActive :: "string \<Rightarrow> HostCache \<Rightarrow> HostCache" where
  "MarkTLSActive header c =
     (let name = HostOnly header in
      case hc_hosts c name of
        Some d \<Rightarrow>
          if vd_ssl_status d \<noteq> sslStatusActive
          then c\<lparr>hc_hosts := (hc_hosts c)(name \<mapsto> d\<lparr>vd_ssl_status := sslStatusActive\<rparr>)\<rparr> else c
      | None \<Rightarrow> c)"

definition Size :: "HostCache option \<Rightarrow> nat" where
  "Size cache = (case cache of None \<Rightarrow> 0 | Some c \<Rightarrow> card (dom (hc_hosts c)))"

definition Ready :: "HostCache option \<Rightarrow> bool" where
  "Ready cache = (case cache of None \<Rightarrow> False | Some c \<Rightarrow> hc_ready c)"

text \<open>\<open>Refresh\<close>: arm, and start a worker unless there is one. The answer says whether the caller
  goes on to its \<open>go\<close> statement.\<close>

definition Refresh :: "HostCache \<Rightarrow> HostCache \<times> bool" where
  "Refresh c =
     (let c = c\<lparr>hc_pending := True\<rparr> in
      if hc_running c then (c, False) else (c\<lparr>hc_running := True\<rparr>, True))"

text \<open>The critical section at the head of the loop of \<open>reloadWorker\<close>: take the work, or retire.\<close>

definition takeWork :: "HostCache \<Rightarrow> HostCache \<times> bool" where
  "takeWork c = (if \<not> hc_pending c then (c\<lparr>hc_running := False\<rparr>, False) else (c\<lparr>hc_pending := False\<rparr>, True))"

text \<open>The critical section after a failed load.\<close>

definition rearm :: "HostCache \<Rightarrow> HostCache" where
  "rearm c = c\<lparr>hc_pending := True, hc_running := False\<rparr>"

subsection \<open>Goroutines\<close>

text \<open>
  Where a call of \<open>Reload\<close> stands: about to query, with the rows answered, with the set replaced
  and \<open>ready\<close> still to be stored. The number beside the rows is the age of the table when the
  query saw it: it is not data of the program, only what the theorems talk about.
\<close>

datatype reload = Asking | Answered host_set nat | Replaced

text \<open>A worker: between the unlock of \<open>Refresh\<close> and its first statement, at the head of the loop,
  in \<open>Reload\<close>, or with the error of one in its hands.\<close>

datatype worker = Starting | AtLoop | Loading reload | Failing

record world =
  w_cache :: HostCache
  w_workers :: "worker multiset"
  w_timer :: "reload option"
  w_onReload :: nat \<comment> \<open>how often \<open>OnReload\<close> has been called\<close>
  w_table :: "domain_row list"
  w_age :: nat \<comment> \<open>how often the table has changed\<close>
  w_armed :: nat \<comment> \<open>the age of the table at the last \<open>Refresh\<close>\<close>
  w_seen :: nat \<comment> \<open>the age of the table the installed set was read from\<close>

datatype event =
    Changed | Refreshed | Started | Took | Retired | Queried | QueryFailed | Installed | Completed | Rearmed
  | TimerBegan | TimerQueried | TimerFailed | TimerInstalled | TimerCompleted | Marked

definition replaceSet :: "host_set \<Rightarrow> nat \<Rightarrow> world \<Rightarrow> world" where
  "replaceSet hosts age w = w\<lparr>w_cache := (w_cache w)\<lparr>hc_hosts := hosts\<rparr>, w_seen := age\<rparr>"

definition completeReload :: "world \<Rightarrow> world" where
  "completeReload w = w\<lparr>w_cache := (w_cache w)\<lparr>hc_ready := True\<rparr>, w_onReload := Suc (w_onReload w)\<rparr>"

abbreviation answer :: "(string \<Rightarrow> string) \<Rightarrow> world \<Rightarrow> reload" where
  "answer lower w \<equiv> Answered (loadFromDB lower (w_table w)) (w_age w)"

text \<open>What the worker \<open>a\<close> does next replaces it by \<open>b\<close>, or takes it away.\<close>

abbreviation becomes :: "world \<Rightarrow> worker \<Rightarrow> worker multiset \<Rightarrow> world" where
  "becomes w a bs \<equiv> w\<lparr>w_workers := w_workers w - {#a#} + bs\<rparr>"

inductive host_step :: "(string \<Rightarrow> string) \<Rightarrow> world \<Rightarrow> event \<Rightarrow> world \<Rightarrow> bool" for lower where
  change: "host_step lower w Changed (w\<lparr>w_table := table, w_age := Suc (w_age w)\<rparr>)"
| refresh: "Refresh (w_cache w) = (c, spawn) \<Longrightarrow>
    host_step lower w Refreshed
      (w\<lparr>w_cache := c, w_armed := w_age w, w_workers := w_workers w + (if spawn then {#Starting#} else {#})\<rparr>)"
| start: "Starting \<in># w_workers w \<Longrightarrow> host_step lower w Started (becomes w Starting {#AtLoop#})"
| take_work: "\<lbrakk>AtLoop \<in># w_workers w; takeWork (w_cache w) = (c, True)\<rbrakk> \<Longrightarrow>
    host_step lower w Took (becomes (w\<lparr>w_cache := c\<rparr>) AtLoop {#Loading Asking#})"
| retire: "\<lbrakk>AtLoop \<in># w_workers w; takeWork (w_cache w) = (c, False)\<rbrakk> \<Longrightarrow>
    host_step lower w Retired (becomes (w\<lparr>w_cache := c\<rparr>) AtLoop {#})"
| query: "Loading Asking \<in># w_workers w \<Longrightarrow>
    host_step lower w Queried (becomes w (Loading Asking) {#Loading (answer lower w)#})"
| query_fails: "Loading Asking \<in># w_workers w \<Longrightarrow>
    host_step lower w QueryFailed (becomes w (Loading Asking) {#Failing#})"
| install: "Loading (Answered hosts age) \<in># w_workers w \<Longrightarrow>
    host_step lower w Installed (becomes (replaceSet hosts age w) (Loading (Answered hosts age)) {#Loading Replaced#})"
| complete: "Loading Replaced \<in># w_workers w \<Longrightarrow>
    host_step lower w Completed (becomes (completeReload w) (Loading Replaced) {#AtLoop#})"
| give_up: "Failing \<in># w_workers w \<Longrightarrow>
    host_step lower w Rearmed (becomes (w\<lparr>w_cache := rearm (w_cache w)\<rparr>) Failing {#})"
| timer_begin: "w_timer w = None \<Longrightarrow> host_step lower w TimerBegan (w\<lparr>w_timer := Some Asking\<rparr>)"
| timer_query: "w_timer w = Some Asking \<Longrightarrow> host_step lower w TimerQueried (w\<lparr>w_timer := Some (answer lower w)\<rparr>)"
| timer_fails: "w_timer w = Some Asking \<Longrightarrow> host_step lower w TimerFailed (w\<lparr>w_timer := None\<rparr>)"
| timer_install: "w_timer w = Some (Answered hosts age) \<Longrightarrow>
    host_step lower w TimerInstalled ((replaceSet hosts age w)\<lparr>w_timer := Some Replaced\<rparr>)"
| timer_complete: "w_timer w = Some Replaced \<Longrightarrow>
    host_step lower w TimerCompleted ((completeReload w)\<lparr>w_timer := None\<rparr>)"
| mark: "host_step lower w Marked (w\<lparr>w_cache := MarkTLSActive header (w_cache w)\<rparr>)"

inductive host_run :: "(string \<Rightarrow> string) \<Rightarrow> world \<Rightarrow> event list \<Rightarrow> world \<Rightarrow> bool" for lower where
  run_nil: "host_run lower w [] w"
| run_snoc: "host_run lower w es w' \<Longrightarrow> host_step lower w' e w'' \<Longrightarrow> host_run lower w (es @ [e]) w''"

text \<open>A process as main.go hands it to the listener: the boot \<open>Reload\<close> has succeeded.\<close>

definition booted :: "(string \<Rightarrow> string) \<Rightarrow> domain_row list \<Rightarrow> world" where
  "booted lower table =
     \<lparr>w_cache = NewHostCache\<lparr>hc_hosts := loadFromDB lower table, hc_ready := True\<rparr>, w_workers = {#},
      w_timer = None, w_onReload = 1, w_table = table, w_age = 0, w_armed = 0, w_seen = 0\<rparr>"

inductive_simps host_step_retired: "host_step lower w Retired w'"
inductive_simps host_step_took: "host_step lower w Took w'"
inductive_cases host_runE: "host_run lower w es w'"

end
