(* ===== verification/HostCache_Correct.thy ===== *)
theory HostCache_Correct
  imports HostCache
begin

section \<open>The verified-hostname cache serves the truth\<close>

text \<open>
  What the schedule of internal/redirect/hosts.go guarantees: there is one worker while \<open>running\<close>
  is set and none otherwise, whatever is interleaved; an armed bit is served, or waits after a
  failed load; a worker retires after a bounded number of steps and is never stuck; and, while the
  timer installs nothing, a cache that has come to rest is the table of the last \<open>Refresh\<close> or
  later. The timer's \<open>Reload\<close> is not serialised with the worker's, and the last theorem is a run
  in which it puts back a hostname that has just been revoked.
\<close>

lemmas world_ops = Refresh_def takeWork_def rearm_def replaceSet_def completeReload_def Let_def

subsection \<open>One worker\<close>

definition one_worker :: "world \<Rightarrow> bool" where
  "one_worker w \<longleftrightarrow> size (w_workers w) = (if hc_running (w_cache w) then 1 else 0)"

lemma one_workerD:
  assumes "one_worker w" "a \<in># w_workers w"
  shows "w_workers w = {#a#}" "hc_running (w_cache w)"
proof -
  from assms show "hc_running (w_cache w)" by (auto simp: one_worker_def split: if_splits)
  with assms(1) have "size (w_workers w) = 1" by (simp add: one_worker_def)
  with assms(2) show "w_workers w = {#a#}" by (metis size_1_singleton_mset multi_member_split add_mset_eq_singleton_iff)
qed

lemma MarkTLSActive_bits [simp]:
  "hc_running (MarkTLSActive h c) = hc_running c" "hc_pending (MarkTLSActive h c) = hc_pending c"
  "hc_ready (MarkTLSActive h c) = hc_ready c"
  by (auto simp: MarkTLSActive_def Let_def split: option.splits)

lemma one_worker_step:
  assumes "host_step lower w e w'" "one_worker w"
  shows "one_worker w'"
  using assms(1)
proof cases
  case (refresh c spawn)
  with assms(2) show ?thesis by (auto simp: one_worker_def world_ops split: if_splits)
qed (use assms(2) in \<open>auto simp: one_worker_def world_ops dest: one_workerD [OF assms(2)] split: if_splits\<close>)

subsection \<open>No arming is lost\<close>

definition resting :: "world \<Rightarrow> bool" where
  "resting w \<longleftrightarrow> \<not> hc_running (w_cache w)"

definition gave_up_last :: "event list \<Rightarrow> bool" where
  "gave_up_last es \<longleftrightarrow> (\<exists>as bs. es = as @ Rearmed # bs \<and> Refreshed \<notin> set bs \<and> Took \<notin> set bs)"

lemma gave_up_last_snoc:
  "gave_up_last (es @ [e]) \<longleftrightarrow> e = Rearmed \<or> e \<noteq> Refreshed \<and> e \<noteq> Took \<and> gave_up_last es"
proof
  assume "gave_up_last (es @ [e])"
  then obtain as bs where "es @ [e] = as @ Rearmed # bs" "Refreshed \<notin> set bs" "Took \<notin> set bs"
    by (auto simp: gave_up_last_def)
  then show "e = Rearmed \<or> e \<noteq> Refreshed \<and> e \<noteq> Took \<and> gave_up_last es"
    by (cases bs rule: rev_cases) (auto simp: gave_up_last_def)
next
  assume e: "e = Rearmed \<or> e \<noteq> Refreshed \<and> e \<noteq> Took \<and> gave_up_last es"
  show "gave_up_last (es @ [e])"
  proof (cases "e = Rearmed")
    case True
    then show ?thesis unfolding gave_up_last_def by (intro exI [of _ es] exI [of _ "[]"]) simp
  next
    case False
    with e obtain as bs where "es = as @ Rearmed # bs" "Refreshed \<notin> set bs" "Took \<notin> set bs"
      by (auto simp: gave_up_last_def)
    with e False show ?thesis unfolding gave_up_last_def
      by (intro exI [of _ as] exI [of _ "bs @ [e]"]) auto
  qed
qed

lemma booted_bits [simp]:
  "hc_running (w_cache (booted lower t)) = False" "hc_pending (w_cache (booted lower t)) = False"
  "w_workers (booted lower t) = {#}"
  by (simp_all add: booted_def NewHostCache_def)

lemma schedule_step:
  assumes "host_step lower w e w'" "one_worker w"
    "resting w \<and> hc_pending (w_cache w) \<Longrightarrow> gave_up_last es"
    "resting w' \<and> hc_pending (w_cache w')"
  shows "gave_up_last (es @ [e])"
  using assms(1)
proof cases
  case (refresh c spawn)
  with assms(4) show ?thesis by (auto simp: resting_def world_ops split: if_splits)
qed (use assms(2-4) in \<open>auto simp: resting_def gave_up_last_snoc world_ops split: if_splits\<close>)

lemma host_run_schedule:
  assumes "host_run lower (booted lower t) es w"
  shows "one_worker w \<and> (resting w \<and> hc_pending (w_cache w) \<longrightarrow> gave_up_last es)"
  using assms
proof (induction "booted lower t" es w rule: host_run.induct)
  case run_nil
  show ?case by (simp add: one_worker_def resting_def)
next
  case (run_snoc es w' e w'')
  then show ?case using one_worker_step schedule_step by blast
qed

subsection \<open>A worker retires\<close>

text \<open>The steps a worker can still take when nobody arms: to the end of its load, once more round the
  loop when the bit is set, and out.\<close>

definition round_left :: "bool \<Rightarrow> nat" where
  "round_left pending = (if pending then 5 else 1)"

fun steps_left :: "bool \<Rightarrow> worker \<Rightarrow> nat" where
  "steps_left pending Failing = 1"
| "steps_left pending AtLoop = round_left pending"
| "steps_left pending Starting = Suc (round_left pending)"
| "steps_left pending (Loading Replaced) = Suc (round_left pending)"
| "steps_left pending (Loading (Answered h a)) = Suc (Suc (round_left pending))"
| "steps_left pending (Loading Asking) = Suc (Suc (Suc (round_left pending)))"

definition work_left :: "world \<Rightarrow> nat" where
  "work_left w = (\<Sum>a \<in># w_workers w. steps_left (hc_pending (w_cache w)) a)"

definition by_worker :: "event \<Rightarrow> bool" where
  "by_worker e \<longleftrightarrow> e \<in> {Started, Took, Retired, Queried, QueryFailed, Installed, Completed, Rearmed}"

lemma steps_left_le: "steps_left p a \<le> 8"
  by (cases "(p, a)" rule: steps_left.cases) (auto simp: round_left_def)

lemma work_left_le: "one_worker w \<Longrightarrow> work_left w \<le> 8"
  using size_1_singleton_mset [of "w_workers w"] steps_left_le
  by (auto simp: one_worker_def work_left_def split: if_splits)

lemma work_left_step:
  assumes "host_step lower w e w'" "one_worker w" "e \<noteq> Refreshed"
  shows "work_left w' + (if by_worker e then 1 else 0) \<le> work_left w"
  using assms(1)
proof cases
  case (refresh c spawn)
  with assms(3) show ?thesis by simp
qed (auto simp: work_left_def by_worker_def world_ops round_left_def dest!: one_workerD(1) [OF assms(2)] split: if_splits)

lemma work_left_run:
  assumes "host_run lower w es w'" "one_worker w" "Refreshed \<notin> set es"
  shows "one_worker w' \<and> work_left w' + length (filter by_worker es) \<le> work_left w"
  using assms
proof (induction es w' rule: host_run.induct)
  case (run_snoc w es w' e w'')
  then have "one_worker w'" "work_left w' + length (filter by_worker es) \<le> work_left w" by auto
  then show ?case
    using one_worker_step [OF run_snoc.hyps(2)] work_left_step [OF run_snoc.hyps(2)] run_snoc.prems
    by (auto split: if_splits)
qed simp

lemma worker_never_stuck:
  assumes "one_worker w" "hc_running (w_cache w)"
  shows "\<exists>e w'. by_worker e \<and> e \<noteq> QueryFailed \<and> host_step lower w e w'"
proof -
  from assms obtain a where "a \<in># w_workers w"
    by (metis one_worker_def multiset_nonemptyE size_empty zero_neq_one)
  then show ?thesis
  proof (cases "(True, a)" rule: steps_left.cases)
    case (2 p)
    with \<open>a \<in># w_workers w\<close> show ?thesis
      by (cases "hc_pending (w_cache w)")
        (force intro: host_step.take_work host_step.retire simp: takeWork_def by_worker_def)+
  qed (force intro: host_step.intros simp: by_worker_def)+
qed

subsection \<open>What a cache at rest holds\<close>

text \<open>A served entry up to the certificate status, which \<open>MarkTLSActive\<close> records ahead of the
  table.\<close>

definition unmarked :: "VerifiedDomain option \<Rightarrow> VerifiedDomain option" where
  "unmarked d = map_option (\<lambda>d. d\<lparr>vd_ssl_status := sslStatusPending\<rparr>) d"

definition holds_table :: "(string \<Rightarrow> string) \<Rightarrow> world \<Rightarrow> host_set \<Rightarrow> bool" where
  "holds_table lower w hosts \<longleftrightarrow> unmarked \<circ> hosts = unmarked \<circ> loadFromDB lower (w_table w)"

lemma MarkTLSActive_unmarked: "unmarked \<circ> hc_hosts (MarkTLSActive h c) = unmarked \<circ> hc_hosts c"
  by (auto simp: MarkTLSActive_def Let_def unmarked_def fun_eq_iff split: option.splits)

definition load_current :: "(string \<Rightarrow> string) \<Rightarrow> world \<Rightarrow> reload \<Rightarrow> bool" where
  "load_current lower w r =
     (case r of
        Answered hosts age \<Rightarrow>
          age \<le> w_age w \<and> (age = w_age w \<longrightarrow> holds_table lower w hosts)
          \<and> (w_armed w \<le> age \<or> hc_pending (w_cache w))
      | Replaced \<Rightarrow> w_armed w \<le> w_seen w \<or> hc_pending (w_cache w)
      | Asking \<Rightarrow> True)"

fun worker_current :: "(string \<Rightarrow> string) \<Rightarrow> world \<Rightarrow> worker \<Rightarrow> bool" where
  "worker_current lower w (Loading r) = load_current lower w r"
| "worker_current lower w Failing = True"
| "worker_current lower w AtLoop \<longleftrightarrow> w_armed w \<le> w_seen w \<or> hc_pending (w_cache w)"
| "worker_current lower w Starting \<longleftrightarrow> hc_pending (w_cache w)"

definition fresh :: "(string \<Rightarrow> string) \<Rightarrow> world \<Rightarrow> bool" where
  "fresh lower w \<longleftrightarrow>
     one_worker w \<and> hc_ready (w_cache w) \<and> w_seen w \<le> w_age w \<and> w_armed w \<le> w_age w
     \<and> (w_seen w = w_age w \<longrightarrow> holds_table lower w (hc_hosts (w_cache w)))
     \<and> (\<forall>a \<in># w_workers w. worker_current lower w a)
     \<and> (resting w \<longrightarrow> w_armed w \<le> w_seen w \<or> hc_pending (w_cache w))"

lemmas fresh_defs = fresh_def load_current_def holds_table_def one_worker_def resting_def

lemma fresh_booted: "fresh lower (booted lower t)"
  by (simp add: fresh_defs booted_def NewHostCache_def)

lemma worker_current_mono:
  assumes "worker_current lower w a" "w_table w' = w_table w" "w_age w' = w_age w" "w_seen w' = w_seen w"
    "hc_pending (w_cache w') \<or> hc_pending (w_cache w') = hc_pending (w_cache w) \<and> w_armed w' = w_armed w"
  shows "worker_current lower w' a"
  using assms by (cases "(True, a)" rule: steps_left.cases) (auto simp: load_current_def holds_table_def)

lemma worker_current_changed:
  "worker_current lower w a \<Longrightarrow> worker_current lower (w\<lparr>w_table := t, w_age := Suc (w_age w)\<rparr>) a"
  by (cases "(True, a)" rule: steps_left.cases) (auto simp: load_current_def)

lemma fresh_step:
  assumes "host_step lower w e w'" "fresh lower w" "e \<noteq> TimerInstalled"
  shows "fresh lower w'"
proof -
  have one: "one_worker w" using assms(2) by (simp add: fresh_def)
  note single = one_workerD [OF one]
  from assms(1) show ?thesis
  proof cases
    case (refresh c spawn)
    then have "worker_current lower w' a" if "a \<in># w_workers w" for a
      using that assms(2) by (auto simp: fresh_def world_ops intro: worker_current_mono split: if_splits)
    with refresh show ?thesis using assms(2) by (auto simp: fresh_defs world_ops split: if_splits)
  next
    case (mark header)
    then have "worker_current lower w' a" if "a \<in># w_workers w" for a
      using that assms(2) by (auto simp: fresh_def intro: worker_current_mono)
    with mark show ?thesis using assms(2) MarkTLSActive_unmarked [of header "w_cache w"]
      by (auto simp: fresh_defs)
  qed (use assms(2,3) in \<open>auto simp: fresh_defs world_ops dest!: single(1) intro: worker_current_changed
      elim!: worker_current_mono split: if_splits\<close>)
qed

lemma fresh_run:
  assumes "host_run lower (booted lower t) es w" "TimerInstalled \<notin> set es"
  shows "fresh lower w"
  using assms
proof (induction "booted lower t" es w rule: host_run.induct)
  case run_nil
  show ?case by (rule fresh_booted)
next
  case (run_snoc es w' e w'')
  then show ?case using fresh_step by auto
qed

text \<open>Every change of the table has been announced to this replica.\<close>

definition announced :: "event list \<Rightarrow> bool" where
  "announced es \<longleftrightarrow> Changed \<notin> set (takeWhile (\<lambda>e. e \<noteq> Refreshed) (rev es))"

lemma armed_step:
  "host_step lower w e w' \<Longrightarrow> w_armed w' = (if e = Refreshed then w_age w else w_armed w)
     \<and> w_age w' = (if e = Changed then Suc (w_age w) else w_age w)"
  by (cases rule: host_step.cases) (auto simp: replaceSet_def completeReload_def)

lemma armed_run:
  assumes "host_run lower (booted lower t) es w" "announced es"
  shows "w_armed w = w_age w"
  using assms
proof (induction "booted lower t" es w rule: host_run.induct)
  case run_nil
  show ?case by (simp add: booted_def)
next
  case (run_snoc es w' e w'')
  then show ?case using armed_step [OF run_snoc.hyps(3)] by (auto simp: announced_def split: if_splits)
qed

subsection \<open>What a load holds\<close>

lemma load_step_dom:
  "dom (fold (\<lambda>r hosts. hosts(HostOnly (do_hostname r) \<mapsto> verified_domain r)) rs m) =
     dom m \<union> (HostOnly \<circ> do_hostname) ` set rs"
  by (induction rs arbitrary: m) auto

lemma loadFromDB_dom:
  "loadFromDB lower table name \<noteq> None \<longleftrightarrow>
     (\<exists>r \<in> set table. servable r \<and> HostOnly (lower (do_hostname r)) = name)"
  using load_step_dom [of "ListVerifiedDomains lower table" Map.empty]
  by (auto simp: loadFromDB_def ListVerifiedDomains_def dom_def set_eq_iff image_iff)

lemma unmarked_None [simp]: "unmarked d = None \<longleftrightarrow> d = None"
  by (simp add: unmarked_def)

lemma fresh_Lookup:
  assumes "fresh lower w" "w_seen w = w_age w"
  shows "unmarked (Lookup (Some (w_cache w)) header) =
           (if HostOnly header = '''' then None else unmarked (loadFromDB lower (w_table w) (HostOnly header)))"
proof -
  from assms have "unmarked (hc_hosts (w_cache w) n) = unmarked (loadFromDB lower (w_table w) n)" for n
    by (auto simp: fresh_def holds_table_def dest!: fun_cong [where x = n])
  with assms(1) show ?thesis by (auto simp: Lookup_def Let_def fresh_def)
qed

lemma host_run_append: "host_run lower w' fs w'' \<Longrightarrow> host_run lower w es w' \<Longrightarrow> host_run lower w (es @ fs) w''"
  by (induction w' fs w'' rule: host_run.induct) (auto simp flip: append_assoc intro: host_run.intros)

lemma host_run_cons: "host_step lower w e w' \<Longrightarrow> host_run lower w' es w'' \<Longrightarrow> host_run lower w (e # es) w''"
  using host_run_append [of lower w' es w'' w "[e]"] host_run.intros [of lower w]
  by (metis append_Cons append_Nil)

subsection \<open>A run\<close>

text \<open>A replica that serves one customer hostname hears that the row is gone.\<close>

definition go_row :: domain_row where
  "go_row = \<lparr>do_id = 7, do_hostname = ''Go.example.com'', do_root_redirect_url = None,
     do_ssl_status = sslStatusPending, do_verified_at = Some 0, do_deleted_at = None, do_is_default = False\<rparr>"

abbreviation ascii :: "string \<Rightarrow> string" where
  "ascii \<equiv> map ascii_lower"

definition scene :: "domain_row list \<Rightarrow> bool \<Rightarrow> bool \<Rightarrow> worker multiset \<Rightarrow> reload option \<Rightarrow> nat
    \<Rightarrow> domain_row list \<Rightarrow> nat \<Rightarrow> nat \<Rightarrow> nat \<Rightarrow> world" where
  "scene served running pending workers timer n table age armed seen =
     \<lparr>w_cache = \<lparr>hc_hosts = loadFromDB ascii served, hc_ready = True, hc_running = running, hc_pending = pending\<rparr>,
      w_workers = workers, w_timer = timer, w_onReload = n, w_table = table, w_age = age,
      w_armed = armed, w_seen = seen\<rparr>"

definition revocation :: "event list" where
  "revocation = [Changed, Refreshed, Started, Took, Queried, Installed, Completed, Retired]"

lemma scene_run:
  "host_run ascii (scene [go_row] False False {#} timer n [go_row] 0 0 0) revocation
     (scene [] False False {#} timer (Suc n) [] 1 1 1)"
proof -
  let ?r = "Loading (Answered (loadFromDB ascii []) 1)"
  have "host_step ascii (scene [go_row] False False {#} timer n [go_row] 0 0 0) Changed
      (scene [go_row] False False {#} timer n [] 1 0 0)"
    using host_step.change [of ascii "scene [go_row] False False {#} timer n [go_row] 0 0 0" "[]"]
    by (simp add: scene_def)
  moreover have "host_step ascii (scene [go_row] False False {#} timer n [] 1 0 0) Refreshed
      (scene [go_row] True True {#Starting#} timer n [] 1 1 0)"
    using host_step.refresh [OF prod.collapse [symmetric], where w = "scene [go_row] False False {#} timer n [] 1 0 0" and lower = ascii]
    by (simp add: scene_def Refresh_def)
  moreover have "host_step ascii (scene [go_row] True True {#Starting#} timer n [] 1 1 0) Started
      (scene [go_row] True True {#AtLoop#} timer n [] 1 1 0)"
    using host_step.start [of "scene [go_row] True True {#Starting#} timer n [] 1 1 0" ascii] by (simp add: scene_def)
  moreover have "host_step ascii (scene [go_row] True True {#AtLoop#} timer n [] 1 1 0) Took
      (scene [go_row] True False {#Loading Asking#} timer n [] 1 1 0)"
    using host_step.take_work [of "scene [go_row] True True {#AtLoop#} timer n [] 1 1 0" _ ascii]
    by (simp add: scene_def takeWork_def)
  moreover have "host_step ascii (scene [go_row] True False {#Loading Asking#} timer n [] 1 1 0) Queried
      (scene [go_row] True False {#?r#} timer n [] 1 1 0)"
    using host_step.query [of "scene [go_row] True False {#Loading Asking#} timer n [] 1 1 0" ascii]
    by (simp add: scene_def)
  moreover have "host_step ascii (scene [go_row] True False {#?r#} timer n [] 1 1 0) Installed
      (scene [] True False {#Loading Replaced#} timer n [] 1 1 1)"
    using host_step.install [of _ _ "scene [go_row] True False {#?r#} timer n [] 1 1 0" ascii]
    by (simp add: scene_def replaceSet_def)
  moreover have "host_step ascii (scene [] True False {#Loading Replaced#} timer n [] 1 1 1) Completed
      (scene [] True False {#AtLoop#} timer (Suc n) [] 1 1 1)"
    using host_step.complete [of "scene [] True False {#Loading Replaced#} timer n [] 1 1 1" ascii]
    by (simp add: scene_def completeReload_def)
  moreover have "host_step ascii (scene [] True False {#AtLoop#} timer (Suc n) [] 1 1 1) Retired
      (scene [] False False {#} timer (Suc n) [] 1 1 1)"
    using host_step.retire [of "scene [] True False {#AtLoop#} timer (Suc n) [] 1 1 1" _ ascii]
    by (simp add: scene_def takeWork_def)
  ultimately show ?thesis
    unfolding revocation_def by (blast intro: host_run_cons host_run.intros(1))
qed

lemma booted_scene: "booted ascii table = scene table False False {#} None 1 table 0 0 0"
  by (simp add: booted_def scene_def NewHostCache_def)

lemma revocation_facts:
  "TimerInstalled \<notin> set revocation" "announced revocation" "\<not> gave_up_last revocation"
  "Refreshed \<notin> set (drop 2 revocation)"
proof -
  show "\<not> gave_up_last revocation"
    unfolding gave_up_last_def revocation_def by (metis event.distinct in_set_conv_decomp set_ConsD empty_iff list.set(1))
qed (simp_all add: revocation_def announced_def)

subsection \<open>The theorems\<close>

text \<open>C29. A replica at rest serves exactly the verified hostnames of the table. After any interleaving
  of changes, invalidations, workers and failing queries in which the timer installed no set, when
  the last change was announced, no worker exists and no load has failed since, a \<open>Host\<close> header is
  answered with the row the table holds for it now, up to the certificate status; it is answered at
  all if and only if an undeleted, verified row that is not the default domain has that name. A
  revoked hostname is therefore not served.\<close>

theorem rested_cache_is_the_table:
  assumes "host_run lower (booted lower t) es w" and "TimerInstalled \<notin> set es"
    and "announced es" and "resting w" and "\<not> gave_up_last es"
  shows "unmarked (Lookup (Some (w_cache w)) header) =
           (if HostOnly header = '''' then None else unmarked (loadFromDB lower (w_table w) (HostOnly header)))
     \<and> (Lookup (Some (w_cache w)) header \<noteq> None \<longleftrightarrow>
          HostOnly header \<noteq> '''' \<and>
          (\<exists>r \<in> set (w_table w). servable r \<and> HostOnly (lower (do_hostname r)) = HostOnly header))"
proof -
  have f: "fresh lower w" by (rule fresh_run [OF assms(1,2)])
  have "\<not> hc_pending (w_cache w)" using host_run_schedule [OF assms(1)] assms(4,5) by blast
  with f assms(4) armed_run [OF assms(1,3)] have "w_seen w = w_age w" by (auto simp: fresh_def)
  from fresh_Lookup [OF f this, of header] show ?thesis
    using loadFromDB_dom [of lower "w_table w" "HostOnly header"]
    by (metis unmarked_None)
qed

text \<open>C30. No arming is lost and a worker retires. Whatever is interleaved, timer included, there is one
  worker while \<open>running\<close> is set and none otherwise; once nobody calls \<open>Refresh\<close> the workers take at
  most eight more steps, a worker that exists can always take one that is not a failure, and a
  cache at rest with the bit still armed is one whose last load failed with no \<open>Refresh\<close> since.\<close>

theorem worker_retires:
  assumes "host_run lower (booted lower t) es w" and "host_run lower w fs w'" and "Refreshed \<notin> set fs"
  shows "length (filter by_worker fs) \<le> 8
     \<and> size (w_workers w') = (if hc_running (w_cache w') then 1 else 0)
     \<and> (hc_running (w_cache w') \<longrightarrow> (\<exists>e w''. by_worker e \<and> e \<noteq> QueryFailed \<and> host_step lower w' e w''))
     \<and> (resting w' \<and> hc_pending (w_cache w') \<longrightarrow> gave_up_last (es @ fs))"
proof -
  have one: "one_worker w" using host_run_schedule [OF assms(1)] by simp
  have "host_run lower (booted lower t) (es @ fs) w'"
    by (rule host_run_append [OF assms(2,1)])
  note whole = host_run_schedule [OF this]
  note left = work_left_run [OF assms(2) one assms(3)] work_left_le [OF one]
  show ?thesis
  proof (intro conjI)
    show "length (filter by_worker fs) \<le> 8" using left by linarith
    show "size (w_workers w') = (if hc_running (w_cache w') then 1 else 0)"
      using whole by (simp add: one_worker_def)
    show "hc_running (w_cache w') \<longrightarrow> (\<exists>e w''. by_worker e \<and> e \<noteq> QueryFailed \<and> host_step lower w' e w'')"
      using worker_never_stuck [of w' lower] whole by blast
    show "resting w' \<and> hc_pending (w_cache w') \<longrightarrow> gave_up_last (es @ fs)" using whole by blast
  qed
qed

theorem rested_cache_is_the_table_witness:
  "\<exists>w. host_run ascii (booted ascii [go_row]) revocation w \<and> Lookup (Some (w_cache w)) ''go.example.com'' = None"
proof (intro exI conjI)
  let ?w = "scene [] False False {#} None 2 [] 1 1 1"
  show run: "host_run ascii (booted ascii [go_row]) revocation ?w"
    using scene_run [of None 1] by (simp add: booted_scene numeral_2_eq_2)
  show "Lookup (Some (w_cache ?w)) ''go.example.com'' = None"
    using rested_cache_is_the_table [OF run revocation_facts(1,2) _ revocation_facts(3), of "''go.example.com''"]
    by (simp add: scene_def resting_def)
qed

theorem worker_retires_witness:
  "\<exists>w. host_run ascii (booted ascii [go_row]) [] w
     \<and> (\<exists>w'. host_run ascii w [Changed] w' \<and> length (filter by_worker [Changed]) \<le> 8)"
proof -
  let ?w = "scene [go_row] False False {#} None 1 [go_row] 0 0 0"
  have a: "host_run ascii (booted ascii [go_row]) [] ?w" by (simp add: booted_scene host_run.intros)
  have b: "host_run ascii ?w [Changed] (?w\<lparr>w_table := [], w_age := Suc (w_age ?w)\<rparr>)"
    by (rule host_run_cons [OF host_step.change host_run.intros(1)])
  have "Refreshed \<notin> set [Changed]" by simp
  from worker_retires [OF a b this] a b show ?thesis by blast
qed


text \<open>One hostname is served under every spelling of it: in any letter case, with or without the
  trailing dot, on any port.\<close>

theorem every_spelling_is_one_hostname:
  assumes "plain_name (map ascii_lower h)" and "list_all plain_char h"
    and "pred_option (list_all plain_char) port"
  shows "Lookup cache (spelled h dot port) = Lookup cache (map ascii_lower h)"
proof -
  have "list_all plain_char (map ascii_lower h)" by (rule plain_lower [OF assms(2)])
  from HostOnly_spelled [OF _ this, of None False] assms(1)
  have "HostOnly (map ascii_lower h) = map ascii_lower h"
    by (simp add: spelled_def comp_def)
  with HostOnly_spelled [OF assms] show ?thesis by (cases cache) (simp_all add: Lookup_def)
qed

theorem every_spelling_is_one_hostname_witness:
  "Lookup (Some (w_cache (booted ascii [go_row]))) ''GO.Example.com.:8443''
     = Lookup (Some (w_cache (booted ascii [go_row]))) ''go.example.com''"
proof -
  have p: "plain_name (map ascii_lower ''GO.Example.com'')" "list_all plain_char ''GO.Example.com''"
    "list_all plain_char ''8443''" by code_simp+
  then have q: "pred_option (list_all plain_char) (Some ''8443'')" by simp
  have s: "spelled ''GO.Example.com'' True (Some ''8443'') = ''GO.Example.com.:8443''"
    "map ascii_lower ''GO.Example.com'' = ''go.example.com''" by code_simp+
  show ?thesis using every_spelling_is_one_hostname [OF p(1,2) q, of _ True] unfolding s by simp
qed

end
