(* ===== verification/HostRouter.thy ===== *)
theory HostRouter
  imports HostCache NetUrl
begin

section \<open>Serving a verified hostname\<close>

text \<open>
  internal/httpx/redirect_hosts.go over the hostname cache: the router that hands a request for a
  verified hostname to the customer tree, the root of such a hostname, and the answer to Caddy's
  question whether to obtain a certificate, with \<open>MarkDomainTLSActive\<close> of
  store/query/domains.sql as the write behind it (cmd/linkctrl/main.go passes it as \<open>Activate\<close>). The
  write may fail before or after it takes effect, which the endpoint does not learn.
\<close>

record host_request =
  hr_host :: string
  hr_head :: bool \<comment> \<open>the method is \<open>HEAD\<close>\<close>
  hr_raw_query :: string

text \<open>Which handler a request reaches: the customer tree with the domain in its context, or what the
  instance did before.\<close>

datatype route_to = Custom VerifiedDomain | Next

definition customHostRouter :: "HostCache option \<Rightarrow> host_request \<Rightarrow> route_to" where
  "customHostRouter hosts r = (case Lookup hosts (hr_host r) of Some d \<Rightarrow> Custom d | None \<Rightarrow> Next)"

text \<open>\<open>CustomDomainFrom\<close> on the context the router built.\<close>

definition CustomDomainFrom :: "route_to \<Rightarrow> VerifiedDomain option" where
  "CustomDomainFrom ctx = (case ctx of Custom d \<Rightarrow> Some d | Next \<Rightarrow> None)"

record host_reply =
  hy_status :: nat
  hy_location :: "string option"
  hy_headers :: "(string \<times> string) list"
  hy_body :: string

definition DomainRootRedirect :: "nat \<Rightarrow> route_to \<Rightarrow> host_reply" where
  "DomainRootRedirect configured ctx =
     (case CustomDomainFrom ctx of
        None \<Rightarrow> \<lparr>hy_status = 404, hy_location = None, hy_headers = [], hy_body = ''404 page not found''\<rparr>
      | Some d \<Rightarrow>
          if vd_root_redirect_url d = ''''
          then \<lparr>hy_status = 404, hy_location = None, hy_headers = [], hy_body = ''404 page not found''\<rparr>
          else \<lparr>hy_status = (if configured = 0 then 302 else configured),
                hy_location = Some (vd_root_redirect_url d),
                hy_headers = [(''X-Content-Type-Options'', ''nosniff''), (''Cache-Control'', ''no-store'')],
                hy_body = ''''\<rparr>)"

subsection \<open>The certificate question\<close>

text \<open>How a statement ends: it took effect, or it failed before or after taking effect.\<close>

datatype write_fate = WriteDone | WriteRefused | WriteUnanswered

definition MarkDomainTLSActive :: "uuid \<Rightarrow> domain_row list \<Rightarrow> domain_row list" where
  "MarkDomainTLSActive i table =
     map (\<lambda>r. if do_id r = i \<and> do_ssl_status r = sslStatusPending \<and> do_deleted_at r = None
              then r\<lparr>do_ssl_status := sslStatusActive\<rparr> else r) table"

definition activate :: "write_fate \<Rightarrow> VerifiedDomain \<Rightarrow> domain_row list \<Rightarrow> domain_row list" where
  "activate fate d table = (if fate = WriteRefused then table else MarkDomainTLSActive (vd_id d) table)"

definition ask_headers :: "(string \<times> string) list" where
  "ask_headers = [(''Cache-Control'', ''no-store''), (''X-Content-Type-Options'', ''nosniff''),
     (''X-Robots-Tag'', ''noindex, nofollow'')]"

definition ask_reply :: "nat \<Rightarrow> bool \<Rightarrow> string \<Rightarrow> host_reply" where
  "ask_reply status head body =
     \<lparr>hy_status = status, hy_location = None, hy_headers = ask_headers,
      hy_body = (if head then '''' else body)\<rparr>"

record ask_state =
  as_hosts :: HostCache
  as_table :: "domain_row list"
  as_writes :: nat \<comment> \<open>how often \<open>Activate\<close> has been called\<close>

text \<open>\<open>TLSAsk.ServeHTTP\<close> with \<open>Activate\<close> set: the cached status is the guard of the write, and is
  moved before the write is made.\<close>

definition TLSAsk :: "write_fate \<Rightarrow> host_request \<Rightarrow> ask_state \<Rightarrow> host_reply \<times> ask_state" where
  "TLSAsk fate r s =
     (case Lookup (Some (as_hosts s)) (values_get (fst (ParseQuery (hr_raw_query r))) ''domain'') of
        None \<Rightarrow> (ask_reply 404 (hr_head r) (''not a verified domain on this instance'' @ [CHR 0x0A]), s)
      | Some d \<Rightarrow>
          (ask_reply 200 (hr_head r) (''ok'' @ [CHR 0x0A]),
           if vd_ssl_status d = sslStatusPending
           then s\<lparr>as_hosts := MarkTLSActive (vd_hostname d) (as_hosts s),
                  as_table := activate fate d (as_table s), as_writes := Suc (as_writes s)\<rparr>
           else s))"

text \<open>A sequence of questions.\<close>

fun asks :: "(write_fate \<times> host_request) list \<Rightarrow> ask_state \<Rightarrow> host_reply list \<times> ask_state" where
  "asks [] s = ([], s)"
| "asks ((fate, r) # qs) s =
     (let (y, s) = TLSAsk fate r s; (ys, s) = asks qs s in (y # ys, s))"

subsection \<open>One write per verification\<close>

text \<open>The entries of a set are filed under their own hostname, as \<open>loadFromDB\<close> files them.\<close>

definition filed :: "HostCache \<Rightarrow> bool" where
  "filed c \<longleftrightarrow> (\<forall>n d. hc_hosts c n = Some d \<longrightarrow> HostOnly (vd_hostname d) = n)"

lemma filed_fold:
  assumes "\<forall>n d. m n = Some d \<longrightarrow> HostOnly (vd_hostname d) = n"
  shows "fold (\<lambda>r hosts. hosts(HostOnly (do_hostname r) \<mapsto> verified_domain r)) rs m n = Some d
    \<Longrightarrow> HostOnly (vd_hostname d) = n"
  using assms by (induction rs arbitrary: m) (auto simp: verified_domain_def split: if_splits)

lemma filed_load: "filed (c\<lparr>hc_hosts := loadFromDB lower table\<rparr>)"
  using filed_fold [of Map.empty "ListVerifiedDomains lower table"] by (simp add: filed_def loadFromDB_def)

definition pending_names :: "HostCache \<Rightarrow> string set" where
  "pending_names c = {n. \<exists>d. hc_hosts c n = Some d \<and> vd_ssl_status d = sslStatusPending}"

lemma Lookup_Some:
  "Lookup (Some c) h = Some d \<longleftrightarrow> hc_ready c \<and> HostOnly h \<noteq> '''' \<and> hc_hosts c (HostOnly h) = Some d"
  by (auto simp: Lookup_def Let_def)

lemma pending_not_active [simp]: "sslStatusPending \<noteq> sslStatusActive" "sslStatusActive \<noteq> sslStatusPending"
  by (simp_all add: sslStatusPending_def sslStatusActive_def)

lemma MarkTLSActive_filed: "filed c \<Longrightarrow> filed (MarkTLSActive h c)"
  by (auto simp: filed_def MarkTLSActive_def Let_def split: option.splits)

lemma MarkTLSActive_pending: "pending_names (MarkTLSActive h c) = pending_names c - {HostOnly h}"
  using pending_not_active
  by (auto simp: pending_names_def MarkTLSActive_def Let_def split: option.splits if_splits)

lemma TLSAsk_step:
  assumes "filed (as_hosts s)" "finite (pending_names (as_hosts s))"
  shows "filed (as_hosts (snd (TLSAsk fate r s)))
     \<and> pending_names (as_hosts (snd (TLSAsk fate r s))) \<subseteq> pending_names (as_hosts s)
     \<and> as_writes (snd (TLSAsk fate r s)) + card (pending_names (as_hosts (snd (TLSAsk fate r s))))
         \<le> as_writes s + card (pending_names (as_hosts s))"
proof (cases "Lookup (Some (as_hosts s)) (values_get (fst (ParseQuery (hr_raw_query r))) ''domain'')")
  case (Some d)
  let ?n = "HostOnly (values_get (fst (ParseQuery (hr_raw_query r))) ''domain'')"
  from Some have d: "hc_hosts (as_hosts s) ?n = Some d" by (simp add: Lookup_Some)
  with assms(1) have n: "HostOnly (vd_hostname d) = ?n" by (simp add: filed_def)
  show ?thesis
  proof (cases "vd_ssl_status d = sslStatusPending")
    case True
    with d have "?n \<in> pending_names (as_hosts s)" by (auto simp: pending_names_def)
    with assms(2) have "Suc (card (pending_names (as_hosts s) - {?n})) = card (pending_names (as_hosts s))"
      by (rule card_Suc_Diff1)
    moreover have "snd (TLSAsk fate r s) = s\<lparr>as_hosts := MarkTLSActive (vd_hostname d) (as_hosts s),
        as_table := activate fate d (as_table s), as_writes := Suc (as_writes s)\<rparr>"
      using True Some by (simp add: TLSAsk_def)
    ultimately show ?thesis
      using MarkTLSActive_filed [OF assms(1)] n by (simp add: MarkTLSActive_pending)
  qed (use Some assms in \<open>simp add: TLSAsk_def\<close>)
qed (use assms in \<open>simp add: TLSAsk_def\<close>)

lemma asks_writes:
  assumes "filed (as_hosts s)" "finite (pending_names (as_hosts s))"
  shows "as_writes (snd (asks qs s)) \<le> as_writes s + card (pending_names (as_hosts s))"
  using assms
proof (induction qs arbitrary: s)
  case (Cons q qs)
  obtain fate r where q: "q = (fate, r)" by (cases q)
  let ?s = "snd (TLSAsk fate r s)"
  note step = TLSAsk_step [OF Cons.prems, of fate r]
  have "as_writes (snd (asks qs ?s)) \<le> as_writes ?s + card (pending_names (as_hosts ?s))"
    using step Cons.prems(2) by (intro Cons.IH) (auto intro: finite_subset)
  with step show ?case by (auto simp: q split: prod.splits)
qed simp

text \<open>The rows a load would serve with the certificate question still open.\<close>

definition pending_rows :: "domain_row list \<Rightarrow> domain_row list" where
  "pending_rows table = filter (\<lambda>r. servable r \<and> do_ssl_status r = sslStatusPending) table"

lemma fold_files:
  assumes "fold (\<lambda>r hosts. hosts(HostOnly (do_hostname r) \<mapsto> verified_domain r)) rs m n = Some d"
  shows "m n = Some d \<or> (\<exists>r \<in> set rs. n = HostOnly (do_hostname r) \<and> d = verified_domain r)"
  using assms by (induction rs arbitrary: m) (force split: if_splits)+

lemma pending_names_load:
  "pending_names (c\<lparr>hc_hosts := loadFromDB lower table\<rparr>) \<subseteq>
     (\<lambda>r. HostOnly (lower (do_hostname r))) ` set (pending_rows table)"
proof
  fix n
  assume "n \<in> pending_names (c\<lparr>hc_hosts := loadFromDB lower table\<rparr>)"
  then obtain d where "loadFromDB lower table n = Some d" "vd_ssl_status d = sslStatusPending"
    by (auto simp: pending_names_def)
  then obtain r where "r \<in> set (ListVerifiedDomains lower table)" "n = HostOnly (do_hostname r)"
      "do_ssl_status r = sslStatusPending"
    using fold_files [of "ListVerifiedDomains lower table" Map.empty n d]
    by (auto simp: loadFromDB_def verified_domain_def)
  then show "n \<in> (\<lambda>r. HostOnly (lower (do_hostname r))) ` set (pending_rows table)"
    by (auto simp: ListVerifiedDomains_def pending_rows_def)
qed

lemma card_pending_names:
  "finite (pending_names (c\<lparr>hc_hosts := loadFromDB lower table\<rparr>))"
  "card (pending_names (c\<lparr>hc_hosts := loadFromDB lower table\<rparr>)) \<le> length (pending_rows table)"
proof -
  note sub = pending_names_load [where c = c and lower = lower and table = table]
  show "finite (pending_names (c\<lparr>hc_hosts := loadFromDB lower table\<rparr>))"
    by (rule finite_subset [OF sub]) simp
  have "card (pending_names (c\<lparr>hc_hosts := loadFromDB lower table\<rparr>)) \<le>
      card ((\<lambda>r. HostOnly (lower (do_hostname r))) ` set (pending_rows table))"
    by (rule card_mono [OF _ sub]) simp
  also have "\<dots> \<le> card (set (pending_rows table))" by (rule card_image_le) simp
  also have "\<dots> \<le> length (pending_rows table)" by (rule card_length)
  finally show "card (pending_names (c\<lparr>hc_hosts := loadFromDB lower table\<rparr>)) \<le> length (pending_rows table)" .
qed


end
