(* ===== verification/Limiter.thy ===== *)
theory Limiter
  imports Snapshot Session "HOL-Library.AList"
begin

section \<open>The rate limiter\<close>

text \<open>
  internal/ratelimit: \<open>ratelimit.go\<close>, the token buckets of one process in 32 shards, and \<open>shared.go\<close>,
  the Redis script behind a shared limit with the breaker in front of it. Tokens and rates are
  \<open>float64\<close>: a value is the rational it denotes, and every arithmetic operation is the exact one
  followed by \<open>fl\<close>, the rounding to a \<open>float64\<close>. \<open>binary64\<close> states what is used of IEEE 754: rounding
  is monotone, exact on the integers up to \<open>2 ^ 53\<close>, and overshoots by at most half a unit in the
  last place or the smallest positive number. Lua's numbers are the same doubles. \<open>shardFor\<close> is the
  seeded \<open>maphash\<close>. A bucket's key stands for its text: a full IPv4 address, an IPv6 prefix of 64
  bits, or what \<open>AllowKey\<close> is given; that a given text is not an address is left to the caller, as in
  the code. A shard holds its mutex during an operation, so operations are atomic.
\<close>

subsection \<open>float64\<close>

definition binary64 :: "(rat \<Rightarrow> rat) \<Rightarrow> bool" where
  "binary64 fl \<longleftrightarrow>
     mono fl
     \<and> (\<forall>n::int. \<bar>n\<bar> \<le> 2 ^ 53 \<longrightarrow> fl (of_int n) = of_int n)
     \<and> (\<forall>x. 0 \<le> x \<and> x \<le> 2 ^ 1000 \<longrightarrow> fl x \<le> x + x / 2 ^ 53 + 1 / 2 ^ 1074)"

text \<open>\<open>Duration.Seconds\<close>: whole seconds and the rest, each truncated towards zero.\<close>

definition Seconds :: "(rat \<Rightarrow> rat) \<Rightarrow> duration \<Rightarrow> rat" where
  "Seconds fl d =
     (let s = (if d < 0 then - ((- d) div second_ns) else d div second_ns);
          n = d - s * second_ns
      in fl (fl (of_int s) + fl (fl (of_int n) / of_int second_ns)))"

text \<open>\<open>time.Duration(x)\<close> truncates towards zero.\<close>

definition duration_of :: "rat \<Rightarrow> duration" where
  "duration_of x = (if x < 0 then \<lceil>x\<rceil> else \<lfloor>x\<rfloor>)"

subsection \<open>Keys\<close>

datatype limit_key = AddrKey addr | NetKey "128 word" | NamedKey string

definition invalidKey :: limit_key where
  "invalidKey = NamedKey ''?''"

definition Key :: "addr \<Rightarrow> limit_key" where
  "Key a =
     (case Unmap a of
        NoAddr \<Rightarrow> invalidKey
      | Addr4 v \<Rightarrow> AddrKey (Addr4 v)
      | Addr6 w \<Rightarrow> NetKey (push_bit 64 (drop_bit 64 w)))"

definition named_key :: "string \<Rightarrow> limit_key" where
  "named_key s = (if s = '''' then invalidKey else NamedKey s)"

subsection \<open>The shared backend\<close>

definition breakerThreshold :: int where "breakerThreshold = 3"
definition breakerCooldown :: duration where "breakerCooldown = 5 * second_ns"

record breaker =
  br_consecutive :: int
  br_openUntil :: "instant option"
  br_openedNotify :: bool

definition new_breaker :: breaker where
  "new_breaker = \<lparr>br_consecutive = 0, br_openUntil = None, br_openedNotify = False\<rparr>"

text \<open>The two clock readings of \<open>allow\<close> are arguments.\<close>

definition breaker_allow :: "instant \<Rightarrow> instant \<Rightarrow> breaker \<Rightarrow> breaker \<times> bool" where
  "breaker_allow now again b =
     (case br_openUntil b of
        None \<Rightarrow> (b, True)
      | Some until \<Rightarrow>
          if until < now then (b\<lparr>br_openUntil := Some (again + breakerCooldown)\<rparr>, True) else (b, False))"

definition recordFailure :: "instant \<Rightarrow> breaker \<Rightarrow> breaker \<times> bool" where
  "recordFailure now b =
     (let b = b\<lparr>br_consecutive := br_consecutive b + 1\<rparr> in
      if br_consecutive b < breakerThreshold then (b, False)
      else let b = b\<lparr>br_openUntil := Some (now + breakerCooldown)\<rparr> in
           if br_openedNotify b then (b, False) else (b\<lparr>br_openedNotify := True\<rparr>, True))"

definition succeed :: "breaker \<Rightarrow> breaker" where
  "succeed b = b\<lparr>br_consecutive := 0, br_openUntil := None, br_openedNotify := False\<rparr>"

text \<open>What Redis keeps under a key, and \<open>takeScript\<close> on it, at the server's own millisecond clock. An
  absent or unreadable hash is a full bucket. The answer is whether the cost was met and a wait in
  milliseconds.\<close>

record script_bucket =
  sb_tokens :: rat
  sb_ts :: int

definition script_refill :: "(rat \<Rightarrow> rat) \<Rightarrow> rat \<Rightarrow> rat \<Rightarrow> int \<Rightarrow> script_bucket option \<Rightarrow> rat" where
  "script_refill fl rate burst now data =
     (case data of
        None \<Rightarrow> min burst (fl (burst + fl (fl (0 / 1000) * rate)))
      | Some b \<Rightarrow>
          let elapsed = (if now - sb_ts b < 0 then 0 else now - sb_ts b) in
          min burst (fl (sb_tokens b + fl (fl (of_int elapsed / 1000) * rate))))"

definition takeScript ::
    "(rat \<Rightarrow> rat) \<Rightarrow> rat \<Rightarrow> rat \<Rightarrow> rat \<Rightarrow> int \<Rightarrow> script_bucket option \<Rightarrow> (bool \<times> int) \<times> script_bucket" where
  "takeScript fl rate burst cost now data =
     (let tokens = script_refill fl rate burst now data in
      if cost \<le> tokens
      then ((True, 0), \<lparr>sb_tokens = min burst (fl (tokens - cost)), sb_ts = now\<rparr>)
      else ((False, \<lceil>fl (fl (fl (cost - tokens) / rate) * 1000)\<rceil>), \<lparr>sb_tokens = tokens, sb_ts = now\<rparr>))"

record shared =
  sh_breaker :: breaker
  sh_fallbacks :: int

definition NewShared :: "bool \<Rightarrow> shared option" where
  "NewShared client = (if client then Some \<lparr>sh_breaker = new_breaker, sh_fallbacks = 0\<rparr> else None)"

text \<open>How the Redis call of one \<open>take\<close> ends: an answer within the budget, an error or an unexpected
  result, or the timer first.\<close>

datatype redis_outcome = Replied bool int | RedisFault | NoReply

record readings =
  rd_check :: instant
  rd_arm :: instant
  rd_fail :: instant

definition shared_fail :: "instant \<Rightarrow> shared \<Rightarrow> shared" where
  "shared_fail now s = s\<lparr>sh_fallbacks := sh_fallbacks s + 1, sh_breaker := fst (recordFailure now (sh_breaker s))\<rparr>"

text \<open>\<open>Shared.take\<close>; \<open>None\<close> is "not answered".\<close>

definition shared_take :: "readings \<Rightarrow> redis_outcome \<Rightarrow> shared \<Rightarrow> (bool \<times> duration) option \<times> shared" where
  "shared_take rd outcome s =
     (case breaker_allow (rd_check rd) (rd_arm rd) (sh_breaker s) of
        (b, False) \<Rightarrow> (None, s\<lparr>sh_breaker := b, sh_fallbacks := sh_fallbacks s + 1\<rparr>)
      | (b, True) \<Rightarrow>
          (case outcome of
             Replied ok ms \<Rightarrow> (Some (ok, ms * millisecond_ns), s\<lparr>sh_breaker := succeed b\<rparr>)
           | RedisFault \<Rightarrow> (None, shared_fail (rd_fail rd) (s\<lparr>sh_breaker := b\<rparr>))
           | NoReply \<Rightarrow> (None, shared_fail (rd_fail rd) (s\<lparr>sh_breaker := b\<rparr>))))"

subsection \<open>The buckets of one process\<close>

definition shardCount :: nat where "shardCount = 32"
definition defaultMaxKeys :: int where "defaultMaxKeys = 100000"
definition sweepEvery :: nat where "sweepEvery = 4096"

record bucket =
  bk_tokens :: rat
  bk_last :: instant

type_synonym shard = "(limit_key \<times> bucket) list"

record Limiter =
  li_perSecond :: rat
  li_burst :: rat
  li_maxShard :: int
  li_shared :: "shared option"
  li_shards :: "nat \<Rightarrow> shard"
  li_calls :: int64
  li_overflows :: int

record limiter_options =
  lo_burst :: int
  lo_maxKeys :: int
  lo_shared :: "shared option"

definition NewLimiter :: "(rat \<Rightarrow> rat) \<Rightarrow> int \<Rightarrow> limiter_options \<Rightarrow> Limiter option" where
  "NewLimiter fl perMinute opts =
     (if perMinute \<le> 0 then None
      else let burst = (if lo_burst opts \<le> 0 then perMinute else lo_burst opts);
               maxKeys = (if lo_maxKeys opts \<le> 0 then defaultMaxKeys else lo_maxKeys opts)
           in Some \<lparr>li_perSecond = fl (fl (of_int perMinute) / 60), li_burst = fl (of_int burst),
                    li_maxShard = (maxKeys + int shardCount - 1) div int shardCount,
                    li_shared = lo_shared opts, li_shards = (\<lambda>_. []), li_calls = 0, li_overflows = 0\<rparr>)"

text \<open>What a bucket's tokens are worth after \<open>elapsed\<close>.\<close>

definition refilled :: "(rat \<Rightarrow> rat) \<Rightarrow> Limiter \<Rightarrow> bucket \<Rightarrow> duration \<Rightarrow> rat" where
  "refilled fl l b elapsed = fl (bk_tokens b + fl (Seconds fl elapsed * li_perSecond l))"

definition refill :: "(rat \<Rightarrow> rat) \<Rightarrow> Limiter \<Rightarrow> instant \<Rightarrow> bucket \<Rightarrow> bucket" where
  "refill fl l now b =
     (let elapsed = time_sub now (bk_last b) in
      if 0 < elapsed then \<lparr>bk_tokens = min (li_burst l) (refilled fl l b elapsed), bk_last = now\<rparr> else b)"

definition sweepLocked :: "(rat \<Rightarrow> rat) \<Rightarrow> Limiter \<Rightarrow> instant \<Rightarrow> shard \<Rightarrow> shard" where
  "sweepLocked fl l now sh = filter (\<lambda>(k, b). \<not> li_burst l \<le> refilled fl l b (time_sub now (bk_last b))) sh"

definition set_shard :: "nat \<Rightarrow> shard \<Rightarrow> Limiter \<Rightarrow> Limiter" where
  "set_shard i sh l = l\<lparr>li_shards := (li_shards l)(i := sh)\<rparr>"

text \<open>The amortised sweep after a decision: the counter wraps, one shard per trigger.\<close>

definition maintain :: "(rat \<Rightarrow> rat) \<Rightarrow> instant \<Rightarrow> Limiter \<Rightarrow> Limiter" where
  "maintain fl now l =
     (let l = l\<lparr>li_calls := li_calls l + 1\<rparr>; n = unat (li_calls l) in
      if n mod sweepEvery = 0
      then let i = n div sweepEvery mod shardCount in set_shard i (sweepLocked fl l now (li_shards l i)) l
      else l)"

text \<open>The decision on a bucket that is in hand, filed in shard \<open>i\<close>.\<close>

definition decide :: "(rat \<Rightarrow> rat) \<Rightarrow> nat \<Rightarrow> shard \<Rightarrow> limit_key \<Rightarrow> bucket \<Rightarrow> bool \<Rightarrow> instant \<Rightarrow> Limiter
    \<Rightarrow> (bool \<times> duration) \<times> Limiter" where
  "decide fl i sh k b consume now l =
     (let allowed = 1 \<le> bk_tokens b;
          retry = (if allowed then 0
                   else duration_of (fl (fl (fl (1 - bk_tokens b) / li_perSecond l) * of_int second_ns)));
          b = (if allowed \<and> consume then b\<lparr>bk_tokens := fl (bk_tokens b - 1)\<rparr> else b)
      in ((allowed, retry), maintain fl now (set_shard i (AList.update k b sh) l)))"

definition local_take :: "(rat \<Rightarrow> rat) \<Rightarrow> (limit_key \<Rightarrow> nat) \<Rightarrow> limit_key \<Rightarrow> bool \<Rightarrow> instant \<Rightarrow> Limiter
    \<Rightarrow> (bool \<times> duration) \<times> Limiter" where
  "local_take fl shardFor k consume now l =
     (let i = shardFor k; sh = li_shards l i; full = \<lparr>bk_tokens = li_burst l, bk_last = now\<rparr> in
      case map_of sh k of
        Some b \<Rightarrow> decide fl i sh k (refill fl l now b) consume now l
      | None \<Rightarrow>
          if int (length sh) \<ge> li_maxShard l then
            (let sh = sweepLocked fl l now sh in
             if int (length sh) \<ge> li_maxShard l
             then ((True, 0), (set_shard i sh l)\<lparr>li_overflows := li_overflows l + 1\<rparr>)
             else decide fl i sh k full consume now l)
          else decide fl i sh k full consume now l)"

text \<open>\<open>takeKey\<close>: a consuming take asks Redis first when the limit is shared. A nil limiter allows
  everything.\<close>

definition takeKey :: "(rat \<Rightarrow> rat) \<Rightarrow> (limit_key \<Rightarrow> nat) \<Rightarrow> readings \<Rightarrow> redis_outcome \<Rightarrow> limit_key \<Rightarrow> bool
    \<Rightarrow> instant \<Rightarrow> Limiter option \<Rightarrow> (bool \<times> duration) \<times> Limiter option" where
  "takeKey fl shardFor rd outcome k consume now limiter =
     (case limiter of
        None \<Rightarrow> ((True, 0), None)
      | Some l \<Rightarrow>
          (case (if consume then li_shared l else None) of
             None \<Rightarrow> (case local_take fl shardFor k consume now l of (a, l) \<Rightarrow> (a, Some l))
           | Some s \<Rightarrow>
               (case shared_take rd outcome s of
                  (Some a, s) \<Rightarrow> (a, Some (l\<lparr>li_shared := Some s\<rparr>))
                | (None, s) \<Rightarrow>
                    (case local_take fl shardFor k consume now (l\<lparr>li_shared := Some s\<rparr>) of
                       (a, l) \<Rightarrow> (a, Some l)))))"

definition refundLocal :: "(rat \<Rightarrow> rat) \<Rightarrow> (limit_key \<Rightarrow> nat) \<Rightarrow> limit_key \<Rightarrow> Limiter \<Rightarrow> Limiter" where
  "refundLocal fl shardFor k l =
     (let i = shardFor k; sh = li_shards l i in
      case map_of sh k of
        Some b \<Rightarrow>
          set_shard i (AList.update k (b\<lparr>bk_tokens := min (li_burst l) (fl (bk_tokens b + 1))\<rparr>) sh) l
      | None \<Rightarrow> l)"

definition RefundKey :: "(rat \<Rightarrow> rat) \<Rightarrow> (limit_key \<Rightarrow> nat) \<Rightarrow> readings \<Rightarrow> redis_outcome \<Rightarrow> string
    \<Rightarrow> Limiter option \<Rightarrow> Limiter option" where
  "RefundKey fl shardFor rd outcome key limiter =
     (case limiter of
        None \<Rightarrow> None
      | Some l \<Rightarrow>
          (case li_shared l of
             None \<Rightarrow> Some (refundLocal fl shardFor (named_key key) l)
           | Some s \<Rightarrow>
               (case shared_take rd outcome s of
                  (Some _, s) \<Rightarrow> Some (l\<lparr>li_shared := Some s\<rparr>)
                | (None, s) \<Rightarrow> Some (refundLocal fl shardFor (named_key key) (l\<lparr>li_shared := Some s\<rparr>)))))"

definition Allow :: "(rat \<Rightarrow> rat) \<Rightarrow> (limit_key \<Rightarrow> nat) \<Rightarrow> readings \<Rightarrow> redis_outcome \<Rightarrow> addr
    \<Rightarrow> instant \<Rightarrow> Limiter option \<Rightarrow> (bool \<times> duration) \<times> Limiter option" where
  "Allow fl shardFor rd outcome a = takeKey fl shardFor rd outcome (Key a) True"

definition AllowKey :: "(rat \<Rightarrow> rat) \<Rightarrow> (limit_key \<Rightarrow> nat) \<Rightarrow> readings \<Rightarrow> redis_outcome \<Rightarrow> string
    \<Rightarrow> instant \<Rightarrow> Limiter option \<Rightarrow> (bool \<times> duration) \<times> Limiter option" where
  "AllowKey fl shardFor rd outcome key = takeKey fl shardFor rd outcome (named_key key) True"

definition Check :: "(rat \<Rightarrow> rat) \<Rightarrow> (limit_key \<Rightarrow> nat) \<Rightarrow> readings \<Rightarrow> redis_outcome \<Rightarrow> addr
    \<Rightarrow> instant \<Rightarrow> Limiter option \<Rightarrow> (bool \<times> duration) \<times> Limiter option" where
  "Check fl shardFor rd outcome a = takeKey fl shardFor rd outcome (Key a) False"

definition Charge :: "(rat \<Rightarrow> rat) \<Rightarrow> (limit_key \<Rightarrow> nat) \<Rightarrow> readings \<Rightarrow> redis_outcome \<Rightarrow> addr \<Rightarrow> instant
    \<Rightarrow> Limiter option \<Rightarrow> Limiter option" where
  "Charge fl shardFor rd outcome a now l = snd (takeKey fl shardFor rd outcome (Key a) True now l)"

definition Len :: "Limiter option \<Rightarrow> nat" where
  "Len limiter = (case limiter of None \<Rightarrow> 0 | Some l \<Rightarrow> sum_list (map (\<lambda>i. length (li_shards l i)) [0..<shardCount]))"

definition Overflows :: "Limiter option \<Rightarrow> int" where
  "Overflows limiter = (case limiter of None \<Rightarrow> 0 | Some l \<Rightarrow> li_overflows l)"

definition Fallbacks :: "Limiter option \<Rightarrow> int" where
  "Fallbacks limiter =
     (case limiter of None \<Rightarrow> 0 | Some l \<Rightarrow> (case li_shared l of None \<Rightarrow> 0 | Some s \<Rightarrow> sh_fallbacks s))"

end
