(* ===== verification/Limiter_Correct.thy ===== *)
theory Limiter_Correct
  imports Limiter
begin

section \<open>What the rate limiter bounds\<close>

text \<open>
  Each bucket is worth a credit: its tokens and what the time since they were counted has added, at
  most a burst. A granted request costs one token of it, time adds at the configured rate, a swept
  bucket was full, and rounding is worth less than a burst in \<open>2 ^ 50\<close> per call. Adding up a run
  bounds what one key is granted.
\<close>

subsection \<open>Rounding\<close>

definition ulp :: rat where "ulp = 1 / 2 ^ 53"
definition tiny :: rat where "tiny = 1 / 2 ^ 1074"

lemma ulp_range: "0 < ulp" "8 * ulp \<le> 1"
  by (simp_all add: ulp_def)

lemma tiny_range: "0 < tiny" "8 * tiny * (2 ^ 54 + 1) \<le> ulp"
proof -
  have "(8::rat) * (2 ^ 54 + 1) \<le> 2 ^ 58" by simp
  also have "\<dots> * 2 ^ 53 \<le> (2::rat) ^ 1074"
    using power_increasing [of 111 1074 "2::rat"] by (simp flip: power_add)
  finally show "8 * tiny * (2 ^ 54 + 1) \<le> ulp"
    unfolding tiny_def ulp_def by (simp add: field_simps)
qed (simp add: tiny_def)

lemma binary64D:
  assumes "binary64 fl"
  shows fl_mono: "x \<le> y \<Longrightarrow> fl x \<le> fl y"
    and fl_int: "\<bar>n\<bar> \<le> 2 ^ 53 \<Longrightarrow> fl (of_int n) = of_int n"
    and fl_above: "0 \<le> x \<Longrightarrow> x \<le> 2 ^ 1000 \<Longrightarrow> fl x \<le> x + x * ulp + tiny"
  using assms unfolding binary64_def ulp_def tiny_def mono_def by (blast, blast, simp)

lemma fl_0_1: "binary64 fl \<Longrightarrow> fl 0 = 0" "binary64 fl \<Longrightarrow> fl 1 = 1"
  using fl_int [of fl 0] fl_int [of fl 1] by simp_all

lemma fl_nonneg: "binary64 fl \<Longrightarrow> 0 \<le> x \<Longrightarrow> 0 \<le> fl x"
  using fl_mono [of fl 0 x] fl_0_1(1) [of fl] by simp

text \<open>The roundings on the way from an elapsed time to new tokens, added up.\<close>

lemma rounding_chain:
  fixes u t s x r tok B sec p v :: rat
  assumes "0 \<le> u" "8 * u \<le> 1" "0 \<le> t" "8 * t * (r + 1) \<le> u" "0 \<le> s" "0 \<le> x" "0 \<le> r" "0 \<le> tok" "tok \<le> B" "1 \<le> B"
    and sec: "sec \<le> (s + (x + x * u + t)) * (1 + u) + t"
    and p: "p \<le> sec * r * (1 + u) + t"
    and v: "v \<le> (tok + p) * (1 + u) + t"
  shows "v \<le> tok + (1 + 8 * u) * (r * (s + x)) + 2 * u * B"
proof -
  define a where "a = 1 + u"
  have a: "1 \<le> a" "a * a \<le> 1 + 3 * u" "a * a * a * a \<le> 1 + 8 * u" "a * a * a \<le> 2" "a \<le> 2" "a * a \<le> 2"
  proof -
    have uu: "u * u \<le> u / 8" using mult_left_mono [OF assms(2,1)] by simp
    show 1: "1 \<le> a" using assms(1) by (simp add: a_def)
    show 2: "a * a \<le> 1 + 3 * u" using uu assms(1) by (simp add: a_def algebra_simps)
    have "a * a * (a * a) \<le> (1 + 3 * u) * (1 + 3 * u)" using 1 2 assms(1) by (intro mult_mono) auto
    also have "\<dots> \<le> 1 + 8 * u" using uu assms(1) by (simp add: algebra_simps)
    finally show 3: "a * a * a * a \<le> 1 + 8 * u" by (simp add: mult.assoc)
    show "a \<le> 2" "a * a \<le> 2" using 2 assms(1,2) by (simp_all add: a_def)
    have "a * a * a * 1 \<le> a * a * a * a" using 1 by (intro mult_left_mono) auto
    with 3 assms(2) show "a * a * a \<le> 2" by simp
  qed
  have "s + (x + x * u + t) \<le> (s + x) * a + t" using assms(1,5) by (simp add: a_def algebra_simps)
  then have "(s + (x + x * u + t)) * a \<le> ((s + x) * a + t) * a" using a(1) by (intro mult_right_mono) auto
  then have "sec \<le> ((s + x) * a + t) * a + t" using sec by (simp add: a_def)
  then have "sec * r \<le> (((s + x) * a + t) * a + t) * r" using assms(7) by (rule mult_right_mono)
  then have "sec * r * a \<le> (((s + x) * a + t) * a + t) * r * a" by (rule mult_right_mono) (use a(1) in simp)
  then have "p \<le> (((s + x) * a + t) * a + t) * r * a + t" using p by (simp add: a_def)
  then have "(tok + p) * a \<le> (tok + ((((s + x) * a + t) * a + t) * r * a + t)) * a"
    by (intro mult_right_mono add_left_mono) (use a(1) in simp_all)
  then have "v \<le> (tok + ((((s + x) * a + t) * a + t) * r * a + t)) * a + t" using v by (simp add: a_def)
  also have "\<dots> = tok * a + r * (s + x) * (a * a * a * a) + (t * r) * (a * a * a) + (t * r) * (a * a) + t * a + t"
    by (simp add: algebra_simps)
  also have "\<dots> \<le> tok * a + r * (s + x) * (1 + 8 * u) + (t * r) * 2 + (t * r) * 2 + t * 2 + t"
    using a assms by (intro add_mono mult_left_mono) auto
  also have "\<dots> \<le> tok + (1 + 8 * u) * (r * (s + x)) + 2 * u * B"
  proof -
    have "tok * u \<le> B * u" using assms by (intro mult_right_mono) auto
    moreover have "u * 1 \<le> u * B" using assms by (intro mult_left_mono) auto
    moreover have "(t * r) * 4 + t * 3 \<le> u" using assms(3,4) mult_nonneg_nonneg [OF assms(3,7)] by (simp add: algebra_simps)
    ultimately show ?thesis by (simp add: a_def algebra_simps)
  qed
  finally show ?thesis .
qed

text \<open>The limits the theorems are about: a rate and a burst of at most \<open>2 ^ 53\<close>.\<close>

definition rate_ok :: "rat \<Rightarrow> rat \<Rightarrow> bool" where
  "rate_ok rate burst \<longleftrightarrow> 0 \<le> rate \<and> rate \<le> 2 ^ 53 \<and> 1 \<le> burst \<and> burst \<le> 2 ^ 53"

text \<open>Tokens per nanosecond, with what rounding can add, and what it can add to a bucket at once.\<close>

definition per_ns :: "rat \<Rightarrow> rat" where
  "per_ns rate = (1 + 8 * ulp) * (rate / of_int second_ns)"

definition slack :: "rat \<Rightarrow> rat" where
  "slack burst = 2 * ulp * burst"

lemma slack_range: "rate_ok rate burst \<Longrightarrow> 0 \<le> slack burst"
  using ulp_range(1) by (simp add: slack_def rate_ok_def)

lemma per_ns_nonneg: "rate_ok rate burst \<Longrightarrow> 0 \<le> per_ns rate"
  using ulp_range(1) by (simp add: per_ns_def rate_ok_def second_ns_def)

lemma fl_sec_small:
  assumes "binary64 fl" "0 \<le> x" "x \<le> 2 ^ 53"
  shows "fl x \<le> x + x * ulp + tiny" "0 \<le> fl x" "fl x \<le> 2 ^ 53"
proof -
  have "x \<le> 2 ^ 1000" using assms(3) power_increasing [of 53 1000 "2::rat"] by linarith
  then show "fl x \<le> x + x * ulp + tiny" by (rule fl_above [OF assms(1,2)])
  show "0 \<le> fl x" by (rule fl_nonneg [OF assms(1,2)])
  have "fl x \<le> fl (of_int (2 ^ 53))" using assms(3) by (intro fl_mono [OF assms(1)]) simp
  also have "\<dots> = of_int (2 ^ 53)" by (rule fl_int [OF assms(1)]) simp
  finally show "fl x \<le> 2 ^ 53" by simp
qed

lemma Seconds_pos:
  assumes "0 \<le> d"
  shows "Seconds fl d = fl (fl (of_int (d div second_ns)) + fl (fl (of_int (d mod second_ns)) / of_int second_ns))"
  using assms by (simp add: Seconds_def Let_def minus_div_mult_eq_mod del: of_int_diff of_int_mult)

lemma Seconds_nonneg:
  assumes "binary64 fl" "0 \<le> d"
  shows "0 \<le> Seconds fl d"
proof -
  note pos = fl_nonneg [OF assms(1)]
  have "0 \<le> d div second_ns" "0 \<le> d mod second_ns" "(0::rat) < of_int second_ns"
    using assms(2) by (simp_all add: second_ns_def pos_imp_zdiv_nonneg_iff)
  then have "0 \<le> fl (of_int (d div second_ns))" "0 \<le> fl (fl (of_int (d mod second_ns)) / of_int second_ns)"
    by (simp_all add: pos divide_nonneg_pos)
  then show ?thesis unfolding Seconds_pos [OF assms(2)] by (rule pos [OF add_nonneg_nonneg])
qed

lemma refill_above:
  assumes fl: "binary64 fl" and ok: "rate_ok rate burst" and d: "0 \<le> d" "d < 2 ^ 63"
    and tok: "0 \<le> tok" "tok \<le> burst"
  shows "fl (tok + fl (Seconds fl d * rate)) \<le> tok + per_ns rate * of_int d + slack burst"
proof -
  let ?s = "of_int (d div second_ns) :: rat" and ?n = "d mod second_ns"
  let ?x = "of_int ?n / of_int second_ns :: rat"
  let ?sec = "Seconds fl d" let ?p = "fl (?sec * rate)"
  have n: "0 \<le> ?n" "?n < 1000000000" and q: "0 \<le> d div second_ns" "d div second_ns \<le> 2 ^ 34"
    using d by (auto simp: second_ns_def)
  have exact: "fl ?s = ?s" "fl (of_int ?n) = of_int ?n"
    using fl_int [OF fl, of "d div second_ns"] fl_int [OF fl, of ?n] q n by simp_all
  have x: "0 \<le> ?x" "?x \<le> 1" using n by (simp_all add: second_ns_def)
  have s: "0 \<le> ?s" "?s \<le> 2 ^ 34" using q by (simp_all flip: of_int_power add: of_int_le_iff)
  note fx = fl_sec_small [OF fl x(1)]
  have x1: "fl ?x \<le> 1" using fl_mono [OF fl x(2)] fl_0_1(2) [OF fl] by simp
  have f0: "0 \<le> fl ?x" by (rule fl_nonneg [OF fl x(1)])
  have sec_eq: "?sec = fl (?s + fl ?x)"
    using exact by (simp add: Seconds_pos [OF d(1)])
  have y: "0 \<le> ?s + fl ?x" "?s + fl ?x \<le> 2 ^ 35" using s x1 f0 by simp_all
  have ys: "?s + fl ?x \<le> 2 ^ 53" using y(2) by simp
  have sec: "0 \<le> ?sec" "?sec \<le> (?s + fl ?x) + (?s + fl ?x) * ulp + tiny" "?sec \<le> 2 ^ 53"
    using fl_sec_small [OF fl y(1) ys] sec_eq by simp_all
  have r: "0 \<le> rate" "rate \<le> 2 ^ 53" "1 \<le> burst" "burst \<le> 2 ^ 53" using ok by (simp_all add: rate_ok_def)
  have sr: "0 \<le> ?sec * rate" "?sec * rate \<le> 2 ^ 53 * 2 ^ 53" using sec r by (simp, intro mult_mono) auto
  have big: "(2::rat) ^ 53 * 2 ^ 53 \<le> 2 ^ 1000" "(2::rat) ^ 53 + 2 ^ 108 \<le> 2 ^ 1000"
    using power_increasing [of 106 1000 "2::rat"] power_increasing [of 109 1000 "2::rat"] by simp_all
  have p: "0 \<le> ?p" "?p \<le> ?sec * rate + ?sec * rate * ulp + tiny"
    using fl_nonneg [OF fl sr(1)] fl_above [OF fl sr(1)] sr(2) big(1) by linarith+
  have "?sec * rate * ulp \<le> ?sec * rate * 1" using ulp_range sr(1) by (intro mult_left_mono) auto
  then have "?p \<le> 2 ^ 108" using p(2) sr(2) tiny_range ulp_range by simp
  then have v: "fl (tok + ?p) \<le> (tok + ?p) + (tok + ?p) * ulp + tiny"
    using tok r p(1) big(2) by (intro fl_above [OF fl]) auto
  have t: "8 * tiny * (rate + 1) \<le> ulp"
  proof -
    have "8 * tiny * (rate + 1) \<le> 8 * tiny * (2 ^ 54 + 1)" using tiny_range(1) r by (intro mult_left_mono) auto
    with tiny_range(2) show ?thesis by linarith
  qed
  have "?sec \<le> (?s + (?x + ?x * ulp + tiny)) * (1 + ulp) + tiny"
  proof -
    have "fl ?x \<le> ?x + ?x * ulp + tiny" by (rule fx(1)) (use x(2) in simp)
    then have "(?s + fl ?x) * (1 + ulp) \<le> (?s + (?x + ?x * ulp + tiny)) * (1 + ulp)"
      using ulp_range by (intro mult_right_mono) auto
    with sec(2) show ?thesis by (simp add: distrib_left)
  qed
  from rounding_chain [OF _ ulp_range(2) _ t s(1) x(1) r(1) tok r(3) this, of ?p "fl (tok + ?p)"]
  have "fl (tok + ?p) \<le> tok + (1 + 8 * ulp) * (rate * (?s + ?x)) + 2 * ulp * burst"
    using p(2) v ulp_range(1) tiny_range(1) by (simp add: distrib_left)
  moreover have "?s + ?x = of_int d / of_int second_ns"
  proof -
    have "(of_int d :: rat) = of_int (d div second_ns * second_ns + ?n)" by simp
    then have "(of_int d :: rat) = ?s * of_int second_ns + of_int ?n" by (simp only: of_int_add of_int_mult)
    then show ?thesis by (simp add: add_divide_distrib second_ns_def)
  qed
  ultimately show ?thesis by (simp add: per_ns_def slack_def)
qed

lemma slack_eq: "slack burst = 2 * (burst * ulp)"
  by (simp add: slack_def)

lemma spend_above:
  assumes "binary64 fl" "rate_ok rate burst" "1 \<le> tok" "tok \<le> burst"
  shows "fl (tok - 1) \<le> tok - 1 + slack burst" "0 \<le> fl (tok - 1)" "fl (tok - 1) \<le> fl burst"
proof -
  have t: "0 \<le> tok - 1" "tok - 1 \<le> 2 ^ 53" using assms(2-4) by (auto simp: rate_ok_def)
  have "(tok - 1) * ulp \<le> burst * ulp" using assms(4) ulp_range(1) by (intro mult_right_mono) auto
  moreover have "1 * ulp \<le> burst * ulp" using assms(3,4) ulp_range(1) by (intro mult_right_mono) auto
  moreover have "tiny \<le> ulp" using tiny_range by simp
  ultimately show "fl (tok - 1) \<le> tok - 1 + slack burst"
    using fl_sec_small(1) [OF assms(1) t] slack_eq [of burst] by linarith
  show "0 \<le> fl (tok - 1)" by (rule fl_nonneg [OF assms(1) t(1)])
  show "fl (tok - 1) \<le> fl burst" using assms(4) by (intro fl_mono [OF assms(1)]) simp
qed

lemma refund_above:
  assumes "binary64 fl" "rate_ok rate burst" "0 \<le> tok" "tok \<le> burst"
  shows "fl (tok + 1) \<le> tok + 1 + 2 * slack burst" "0 \<le> fl (tok + 1)"
proof -
  have t: "0 \<le> tok + 1" "tok + 1 \<le> 2 ^ 1000"
    using assms(2-4) power_increasing [of 54 1000 "2::rat"] by (auto simp: rate_ok_def)
  have "(tok + 1) * ulp \<le> (burst + burst) * ulp"
    using assms(2,4) ulp_range(1) by (intro mult_right_mono) (auto simp: rate_ok_def)
  then have "(tok + 1) * ulp \<le> burst * ulp + burst * ulp" by (simp only: distrib_right)
  moreover have "1 * ulp \<le> burst * ulp" using assms(2) ulp_range(1) by (intro mult_right_mono) (auto simp: rate_ok_def)
  moreover have "tiny \<le> ulp" using tiny_range by simp
  ultimately show "fl (tok + 1) \<le> tok + 1 + 2 * slack burst"
    using fl_above [OF assms(1) t] tiny_range(1) slack_eq [of burst] by linarith
  show "0 \<le> fl (tok + 1)" by (rule fl_nonneg [OF assms(1) t(1)])
qed

subsection \<open>The credit of a key\<close>

definition worth :: "Limiter \<Rightarrow> instant \<Rightarrow> bucket \<Rightarrow> rat" where
  "worth l now b = min (li_burst l) (bk_tokens b + per_ns (li_perSecond l) * of_int (now - bk_last b))"

definition credit_in :: "Limiter \<Rightarrow> shard \<Rightarrow> limit_key \<Rightarrow> instant \<Rightarrow> rat" where
  "credit_in l sh k now = (case map_of sh k of None \<Rightarrow> li_burst l | Some b \<Rightarrow> worth l now b)"

definition credit :: "(limit_key \<Rightarrow> nat) \<Rightarrow> Limiter \<Rightarrow> limit_key \<Rightarrow> instant \<Rightarrow> rat" where
  "credit shardFor l k now = credit_in l (li_shards l (shardFor k)) k now"

definition bucket_ok :: "Limiter \<Rightarrow> instant \<Rightarrow> bucket \<Rightarrow> bool" where
  "bucket_ok l now b \<longleftrightarrow> 0 \<le> bk_tokens b \<and> bk_tokens b \<le> li_burst l \<and> bk_last b \<le> now"

definition shard_ok :: "Limiter \<Rightarrow> instant \<Rightarrow> shard \<Rightarrow> bool" where
  "shard_ok l now sh \<longleftrightarrow> distinct (map fst sh) \<and> (\<forall>(k, b) \<in> set sh. bucket_ok l now b)"

text \<open>A limiter between operations, by the clock reading \<open>now\<close>: every bucket holds between nothing and
  a burst and was last counted in the past, and no shard files a key twice.\<close>

definition limiter_ok :: "(rat \<Rightarrow> rat) \<Rightarrow> instant \<Rightarrow> Limiter \<Rightarrow> bool" where
  "limiter_ok fl now l \<longleftrightarrow>
     binary64 fl \<and> rate_ok (li_perSecond l) (li_burst l) \<and> fl (li_burst l) = li_burst l
     \<and> (\<forall>i. shard_ok l now (li_shards l i))"

lemma limiter_okD:
  assumes "limiter_ok fl now l"
  shows "binary64 fl" "rate_ok (li_perSecond l) (li_burst l)" "fl (li_burst l) = li_burst l"
    "shard_ok l now (li_shards l i)"
  using assms by (simp_all add: limiter_ok_def)

definition same_limits :: "Limiter \<Rightarrow> Limiter \<Rightarrow> bool" where
  "same_limits l m \<longleftrightarrow> li_perSecond m = li_perSecond l \<and> li_burst m = li_burst l"

lemma same_limits_ok:
  assumes "same_limits l m"
  shows "worth m = worth l" "bucket_ok m = bucket_ok l" "shard_ok m = shard_ok l" "credit_in m = credit_in l"
    "refilled fl m = refilled fl l"
  using assms
  by (simp_all add: same_limits_def worth_def bucket_ok_def shard_ok_def credit_in_def refilled_def fun_eq_iff
      split: option.split)

lemma bucket_ok_later: "bucket_ok l now b \<Longrightarrow> now \<le> later \<Longrightarrow> bucket_ok l later b"
  by (simp add: bucket_ok_def)

lemma limiter_ok_later: "limiter_ok fl now l \<Longrightarrow> now \<le> later \<Longrightarrow> limiter_ok fl later l"
  by (force simp: limiter_ok_def shard_ok_def intro: bucket_ok_later)

lemma shard_ok_bucket: "shard_ok l now sh \<Longrightarrow> map_of sh k = Some b \<Longrightarrow> bucket_ok l now b"
  by (auto simp: shard_ok_def dest: map_of_SomeD)

lemma worth_range:
  assumes "rate_ok (li_perSecond l) (li_burst l)" "bucket_ok l now b"
  shows "0 \<le> worth l now b" "worth l now b \<le> li_burst l" "bk_tokens b \<le> worth l now b"
  using assms per_ns_nonneg [OF assms(1)] by (auto simp: worth_def bucket_ok_def rate_ok_def)

lemma credit_range:
  assumes "limiter_ok fl now l"
  shows "0 \<le> credit shardFor l k now" "credit shardFor l k now \<le> li_burst l"
proof -
  note ok = limiter_okD [OF assms]
  show "0 \<le> credit shardFor l k now" "credit shardFor l k now \<le> li_burst l"
    using worth_range [OF ok(2) shard_ok_bucket [OF ok(4)]] ok(2)
    by (auto simp: credit_def credit_in_def rate_ok_def split: option.split)
qed

text \<open>Time adds to a credit at the configured rate.\<close>

lemma credit_later:
  assumes "limiter_ok fl now l" "now \<le> later"
  shows "credit shardFor l k later \<le> credit shardFor l k now + per_ns (li_perSecond l) * of_int (later - now)"
proof -
  have p: "0 \<le> per_ns (li_perSecond l)" by (rule per_ns_nonneg [OF limiter_okD(2) [OF assms(1)]])
  then have q: "0 \<le> per_ns (li_perSecond l) * of_int (later - now)" using assms(2) by simp
  have "worth l later b \<le> worth l now b + per_ns (li_perSecond l) * of_int (later - now)" for b
  proof -
    have "per_ns (li_perSecond l) * of_int (later - bk_last b) =
        per_ns (li_perSecond l) * of_int (now - bk_last b) + per_ns (li_perSecond l) * of_int (later - now)"
      by (simp add: algebra_simps)
    with q show ?thesis by (simp add: worth_def)
  qed
  with q show ?thesis by (simp add: credit_def credit_in_def split: option.split)
qed

lemma time_sub_range: "bk_last b \<le> now \<Longrightarrow> 0 \<le> time_sub now (bk_last b)
    \<and> time_sub now (bk_last b) < 2 ^ 63 \<and> time_sub now (bk_last b) \<le> now - bk_last b"
  by (simp add: time_sub_def)

text \<open>What the code counts a bucket at is its worth, up to rounding.\<close>

lemma refilled_above:
  assumes "limiter_ok fl now l" "bucket_ok l now b"
  shows "min (li_burst l) (refilled fl l b (time_sub now (bk_last b))) \<le> worth l now b + slack (li_burst l)"
    "0 \<le> refilled fl l b (time_sub now (bk_last b))"
proof -
  note ok = limiter_okD [OF assms(1)]
  let ?d = "time_sub now (bk_last b)" let ?r = "li_perSecond l"
  have b: "0 \<le> bk_tokens b" "bk_tokens b \<le> li_burst l" "bk_last b \<le> now"
    using assms(2) by (simp_all add: bucket_ok_def)
  note d = time_sub_range [OF b(3)]
  have "refilled fl l b ?d \<le> bk_tokens b + per_ns ?r * of_int ?d + slack (li_burst l)"
    unfolding refilled_def using d b by (intro refill_above [OF ok(1,2)]) auto
  moreover have "per_ns ?r * of_int ?d \<le> per_ns ?r * of_int (now - bk_last b)"
    using d per_ns_nonneg [OF ok(2)] by (intro mult_left_mono) (auto simp del: of_int_diff)
  ultimately show "min (li_burst l) (refilled fl l b ?d) \<le> worth l now b + slack (li_burst l)"
    using slack_range [OF ok(2)] by (simp add: worth_def min_def split: if_splits)
  have "0 \<le> Seconds fl ?d * ?r" using Seconds_nonneg [OF ok(1)] d ok(2) by (simp add: rate_ok_def)
  then show "0 \<le> refilled fl l b ?d"
    unfolding refilled_def using b(1) by (intro fl_nonneg [OF ok(1)] add_nonneg_nonneg) auto
qed

lemma refill_worth:
  assumes "limiter_ok fl now l" "bucket_ok l now b"
  shows "bucket_ok l now (refill fl l now b)"
    "bk_tokens (refill fl l now b) \<le> worth l now b + slack (li_burst l)"
    "worth l now (refill fl l now b) \<le> worth l now b + slack (li_burst l)"
proof -
  note ok = limiter_okD [OF assms(1)]
  note r = refilled_above [OF assms]
  have "0 \<le> li_burst l" using ok(2) by (simp add: rate_ok_def)
  then show "bucket_ok l now (refill fl l now b)"
    using r(2) assms(2) by (auto simp: refill_def Let_def bucket_ok_def)
  show "bk_tokens (refill fl l now b) \<le> worth l now b + slack (li_burst l)"
    using r(1) worth_range [OF ok(2) assms(2)] slack_range [OF ok(2)] by (simp add: refill_def Let_def)
  show "worth l now (refill fl l now b) \<le> worth l now b + slack (li_burst l)"
    using r(1) slack_range [OF ok(2)] by (simp add: refill_def Let_def) (simp add: worth_def)
qed

lemma refill_last: "bk_last b \<le> now \<Longrightarrow> bk_last (refill fl l now b) = now"
  by (auto simp: refill_def Let_def time_sub_def)

subsection \<open>Sweeping\<close>

lemma map_of_filter_distinct:
  "distinct (map fst sh) \<Longrightarrow>
   map_of (filter (\<lambda>(k, b). P b) sh) k = (case map_of sh k of None \<Rightarrow> None | Some b \<Rightarrow> if P b then Some b else None)"
  by (induction sh) (auto split: option.splits dest: map_of_SomeD simp: rev_image_eqI)

lemma sweep_ok:
  assumes "shard_ok l now sh"
  shows "shard_ok l now (sweepLocked fl l now sh)"
  using assms unfolding shard_ok_def sweepLocked_def by (auto intro: distinct_map_filter)

lemma sweep_credit:
  assumes "limiter_ok fl now l" "shard_ok l now sh"
  shows "credit_in l (sweepLocked fl l now sh) k now \<le> credit_in l sh k now + slack (li_burst l)"
proof -
  have s: "0 \<le> slack (li_burst l)" by (rule slack_range [OF limiter_okD(2) [OF assms(1)]])
  have m: "map_of (sweepLocked fl l now sh) k = (case map_of sh k of None \<Rightarrow> None
      | Some b \<Rightarrow> if \<not> li_burst l \<le> refilled fl l b (time_sub now (bk_last b)) then Some b else None)"
    using assms(2) unfolding sweepLocked_def shard_ok_def
    by (intro map_of_filter_distinct [where P = "\<lambda>b. \<not> li_burst l \<le> refilled fl l b (time_sub now (bk_last b))"]) simp
  show ?thesis
  proof (cases "map_of sh k")
    case (Some b)
    note w = refilled_above(1) [OF assms(1) shard_ok_bucket [OF assms(2) Some]]
    show ?thesis using w s Some m by (simp add: credit_in_def min_def split: if_splits)
  qed (use m s in \<open>simp add: credit_in_def\<close>)
qed

lemma set_shard_simps [simp]:
  "li_burst (set_shard i sh l) = li_burst l" "li_perSecond (set_shard i sh l) = li_perSecond l"
  "li_overflows (set_shard i sh l) = li_overflows l" "li_shared (set_shard i sh l) = li_shared l"
  "li_calls (set_shard i sh l) = li_calls l" "li_shards (set_shard i sh l) = (li_shards l)(i := sh)"
  by (simp_all add: set_shard_def)

lemma same_limits_set_shard [simp]: "same_limits l (set_shard i sh l)"
  by (simp add: same_limits_def)

lemma same_limits_calls [simp]:
  "same_limits l (l\<lparr>li_calls := n\<rparr>)" "same_limits l (l\<lparr>li_overflows := v\<rparr>)" "same_limits l (l\<lparr>li_shared := z\<rparr>)"
  by (simp_all add: same_limits_def)

lemma credit_set_shard:
  "credit shardFor (set_shard i sh l) k now = (if shardFor k = i then credit_in l sh k now else credit shardFor l k now)"
  by (simp add: credit_def same_limits_ok(4) [OF same_limits_set_shard])

lemma limiter_ok_set_shard:
  "limiter_ok fl now l \<Longrightarrow> shard_ok l now sh \<Longrightarrow> limiter_ok fl now (set_shard i sh l)"
  by (simp add: limiter_ok_def same_limits_ok(3) [OF same_limits_set_shard])

lemma limiter_ok_counters:
  "limiter_ok fl now (l\<lparr>li_calls := n\<rparr>) = limiter_ok fl now l"
  "limiter_ok fl now (l\<lparr>li_overflows := v\<rparr>) = limiter_ok fl now l"
  "limiter_ok fl now (l\<lparr>li_shared := z\<rparr>) = limiter_ok fl now l"
  by (simp_all add: limiter_ok_def same_limits_ok(3) [OF same_limits_calls(1)]
      same_limits_ok(3) [OF same_limits_calls(2)] same_limits_ok(3) [OF same_limits_calls(3)])

lemma credit_counters:
  "credit shardFor (l\<lparr>li_calls := n\<rparr>) = credit shardFor l"
  "credit shardFor (l\<lparr>li_overflows := v\<rparr>) = credit shardFor l"
  "credit shardFor (l\<lparr>li_shared := z\<rparr>) = credit shardFor l"
  by (simp_all add: credit_def fun_eq_iff same_limits_ok(4) [OF same_limits_calls(1)]
      same_limits_ok(4) [OF same_limits_calls(2)] same_limits_ok(4) [OF same_limits_calls(3)])

lemma maintain_props:
  assumes "limiter_ok fl now l"
  shows "limiter_ok fl now (maintain fl now l)" "same_limits l (maintain fl now l)"
    "li_overflows (maintain fl now l) = li_overflows l" "li_shared (maintain fl now l) = li_shared l"
    "credit shardFor (maintain fl now l) k now \<le> credit shardFor l k now + slack (li_burst l)"
proof -
  let ?l = "l\<lparr>li_calls := li_calls l + 1\<rparr>"
  have l: "limiter_ok fl now ?l" using assms by (simp add: limiter_ok_counters)
  note shard = limiter_okD(4) [OF l]
  show "limiter_ok fl now (maintain fl now l)"
    using limiter_ok_set_shard [OF l] sweep_ok [OF shard] l
    by (auto simp: maintain_def Let_def same_limits_ok(3,5) [OF same_limits_calls(1)] sweepLocked_def)
  show "same_limits l (maintain fl now l)" "li_overflows (maintain fl now l) = li_overflows l"
      "li_shared (maintain fl now l) = li_shared l"
    by (simp_all add: maintain_def Let_def same_limits_def)
  have "credit shardFor (set_shard i (sweepLocked fl ?l now (li_shards ?l i)) ?l) k now \<le>
      credit shardFor ?l k now + slack (li_burst ?l)" for i
    using sweep_credit [OF l shard [of i], of k] slack_range [OF limiter_okD(2) [OF l]]
      credit_def [of shardFor ?l k now]
    by (auto simp only: credit_set_shard split: if_split)
  then show "credit shardFor (maintain fl now l) k now \<le> credit shardFor l k now + slack (li_burst l)"
    using slack_range [OF limiter_okD(2) [OF l]] by (simp add: maintain_def Let_def credit_counters)
qed

subsection \<open>One call\<close>

definition granted_to :: "limit_key \<Rightarrow> limit_key \<Rightarrow> bool \<Rightarrow> bool \<Rightarrow> rat" where
  "granted_to k k' consume ok = (if k' = k \<and> consume \<and> ok then 1 else 0)"

lemma credit_in_update:
  "credit_in l (AList.update k' b sh) k now = (if k' = k then worth l now b else credit_in l sh k now)"
  by (simp add: credit_in_def update_conv')

lemma shard_ok_update:
  assumes "shard_ok l now sh" "bucket_ok l now b"
  shows "shard_ok l now (AList.update k b sh)"
proof -
  have "set (AList.update k b sh) \<subseteq> insert (k, b) (set sh)" by (induction sh) auto
  with assms show ?thesis by (auto simp: shard_ok_def intro: distinct_update)
qed

lemma decide_props:
  fixes consume :: bool
  assumes "limiter_ok fl now l" "shard_ok l now sh" "bucket_ok l now b" "bk_last b = now" "i = shardFor k'"
  defines "r \<equiv> decide fl i sh k' b consume now l"
  shows "limiter_ok fl now (snd r) \<and> same_limits l (snd r)
     \<and> li_overflows (snd r) = li_overflows l \<and> li_shared (snd r) = li_shared l
     \<and> credit shardFor (snd r) k now + granted_to k k' consume (fst (fst r))
         \<le> (if k' = k then bk_tokens b else if shardFor k = i then credit_in l sh k now else credit shardFor l k now)
           + 2 * slack (li_burst l)"
proof -
  note ok = limiter_okD [OF assms(1)]
  let ?spent = "1 \<le> bk_tokens b \<and> consume"
  let ?b = "if ?spent then b\<lparr>bk_tokens := fl (bk_tokens b - 1)\<rparr> else b"
  let ?l = "set_shard i (AList.update k' ?b sh) l"
  have bt: "0 \<le> bk_tokens b" "bk_tokens b \<le> li_burst l" using assms(3) by (simp_all add: bucket_ok_def)
  have b: "bucket_ok l now ?b"
    using spend_above(2,3) [OF ok(1,2) _ bt(2)] assms(3) ok(3) by (auto simp: bucket_ok_def)
  have l: "limiter_ok fl now ?l"
    by (rule limiter_ok_set_shard [OF assms(1) shard_ok_update [OF assms(2) b]])
  have r: "snd r = maintain fl now ?l" "fst (fst r) = (1 \<le> bk_tokens b)"
    by (simp_all add: r_def decide_def Let_def)
  have w: "worth l now ?b + granted_to k k consume (1 \<le> bk_tokens b) \<le> bk_tokens b + slack (li_burst l)"
    using spend_above(1) [OF ok(1,2) _ bt(2)] assms(4) slack_range [OF ok(2)]
    by (cases "1 \<le> bk_tokens b"; cases consume) (simp_all add: worth_def granted_to_def min_le_iff_disj min_def)
  have c: "credit shardFor ?l k now + granted_to k k' consume (1 \<le> bk_tokens b)
      \<le> (if k' = k then bk_tokens b else if shardFor k = i then credit_in l sh k now else credit shardFor l k now)
        + slack (li_burst l)"
    using w assms(5) slack_range [OF ok(2)]
    by (simp only: credit_set_shard credit_in_update) (auto simp: granted_to_def)
  have "same_limits ?l (snd r)" using maintain_props(2) [OF l] by (simp add: r)
  then have "same_limits l (snd r)" by (simp add: same_limits_def)
  moreover have "credit shardFor (snd r) k now \<le> credit shardFor ?l k now + slack (li_burst l)"
    using maintain_props(5) [OF l, of shardFor k] by (simp add: r)
  ultimately show ?thesis using maintain_props(1,3,4) [OF l] c by (simp add: r)
qed

lemma local_take_props:
  fixes consume :: bool and k' :: limit_key and shardFor :: "limit_key \<Rightarrow> nat"
  assumes "limiter_ok fl now l"
  defines "r \<equiv> local_take fl shardFor k' consume now l"
  shows "limiter_ok fl now (snd r) \<and> same_limits l (snd r) \<and> li_shared (snd r) = li_shared l
     \<and> credit shardFor (snd r) k now + granted_to k k' consume (fst (fst r))
         \<le> credit shardFor l k now + of_int (li_overflows (snd r) - li_overflows l) + 3 * slack (li_burst l)"
proof -
  note ok = limiter_okD [OF assms(1)]
  let ?i = "shardFor k'" let ?sh = "li_shards l ?i" let ?full = "\<lparr>bk_tokens = li_burst l, bk_last = now\<rparr>"
  let ?sw = "sweepLocked fl l now ?sh"
  have s: "0 \<le> slack (li_burst l)" by (rule slack_range [OF ok(2)])
  have full: "bucket_ok l now ?full" "bk_last ?full = now" using ok(2) by (simp_all add: bucket_ok_def rate_ok_def)
  note sw = sweep_ok [OF ok(4) [of ?i], of fl]
  note cr = credit_def [of shardFor l k now]
  show ?thesis
  proof (cases "map_of ?sh k'")
    case (Some b)
    note b = shard_ok_bucket [OF ok(4) Some]
    note w = refill_worth [OF assms(1) b]
    have last: "bk_last (refill fl l now b) = now" using b by (intro refill_last) (simp add: bucket_ok_def)
    have "k' = k \<Longrightarrow> credit shardFor l k now = worth l now b" using Some by (simp add: credit_def credit_in_def)
    with decide_props [OF assms(1) ok(4) [of ?i] w(1) last refl, where shardFor = shardFor and k' = k' and consume = consume and k = k] show ?thesis
      using Some w(2) s cr by (auto simp: r_def local_take_def Let_def split: if_splits)
  next
    case None
    have cn: "k' = k \<Longrightarrow> credit shardFor l k now = li_burst l" using None by (simp add: credit_def credit_in_def)
    have swept: "credit_in l ?sw k now \<le> credit shardFor l k now + slack (li_burst l)" if "shardFor k = ?i"
      using sweep_credit [OF assms(1) ok(4) [of ?i], of k] that cr by simp
    show ?thesis
    proof (cases "int (length ?sh) \<ge> li_maxShard l")
      case False
      with decide_props [OF assms(1) ok(4) [of ?i] full refl, where shardFor = shardFor and k' = k' and consume = consume and k = k] show ?thesis
        using None cn s cr by (auto simp: r_def local_take_def Let_def split: if_splits)
    next
      case t: True
      show ?thesis
      proof (cases "int (length ?sw) \<ge> li_maxShard l")
        case False
        with decide_props [OF assms(1) sw full refl, where shardFor = shardFor and k' = k' and consume = consume and k = k] show ?thesis
          using None t cn s swept by (auto simp: r_def local_take_def Let_def split: if_splits)
      next
        case True
        let ?m = "(set_shard ?i ?sw l)\<lparr>li_overflows := li_overflows l + 1\<rparr>"
        have r: "r = ((True, 0), ?m)" using None t True by (simp add: r_def local_take_def Let_def)
        have "limiter_ok fl now ?m"
          by (simp only: limiter_ok_counters) (rule limiter_ok_set_shard [OF assms(1) sw])
        moreover have "credit shardFor ?m k now \<le> credit shardFor l k now + slack (li_burst l)"
          using swept s by (simp add: credit_counters credit_set_shard)
        ultimately show ?thesis using s by (auto simp: r same_limits_def granted_to_def)
      qed
    qed
  qed
qed

lemma refund_props:
  fixes k' :: limit_key and shardFor :: "limit_key \<Rightarrow> nat"
  assumes "limiter_ok fl now l"
  defines "m \<equiv> refundLocal fl shardFor k' l"
  shows "limiter_ok fl now m \<and> same_limits l m \<and> li_shared m = li_shared l \<and> li_overflows m = li_overflows l
     \<and> credit shardFor m k now \<le> credit shardFor l k now + (if k' = k then 1 else 0) + 3 * slack (li_burst l)"
proof -
  note ok = limiter_okD [OF assms(1)]
  let ?i = "shardFor k'" let ?sh = "li_shards l ?i"
  have s: "0 \<le> slack (li_burst l)" by (rule slack_range [OF ok(2)])
  show ?thesis
  proof (cases "map_of ?sh k'")
    case None
    then show ?thesis using s assms(1) by (simp add: m_def refundLocal_def Let_def same_limits_def)
  next
    case (Some b)
    let ?b = "b\<lparr>bk_tokens := min (li_burst l) (fl (bk_tokens b + 1))\<rparr>"
    have b: "bucket_ok l now b" by (rule shard_ok_bucket [OF ok(4) Some])
    then have bt: "0 \<le> bk_tokens b" "bk_tokens b \<le> li_burst l" "bk_last b \<le> now" by (simp_all add: bucket_ok_def)
    note up = refund_above [OF ok(1,2) bt(1,2)]
    have "bucket_ok l now ?b" using up(2) bt(3) ok(2) by (simp add: bucket_ok_def rate_ok_def)
    then have "limiter_ok fl now (set_shard ?i (AList.update k' ?b ?sh) l)"
      by (intro limiter_ok_set_shard assms(1) shard_ok_update ok(4))
    moreover have "worth l now ?b \<le> worth l now b + 1 + 2 * slack (li_burst l)"
      using up(1) s by (simp add: worth_def min_def split: if_splits)
    moreover have "k' = k \<Longrightarrow> credit shardFor l k now = worth l now b" using Some by (simp add: credit_def credit_in_def)
    moreover note credit_def [of shardFor l k now]
    ultimately show ?thesis
      using s Some by (auto simp: m_def refundLocal_def Let_def credit_set_shard credit_in_update)
  qed
qed

subsection \<open>A run\<close>

text \<open>The calls a limiter that is not shared serves, in the order of its shard locks. What Redis and the
  breaker's clock would say is there and is not asked.\<close>

datatype call = Take limit_key bool instant | Refund string

fun call_time :: "call \<Rightarrow> instant list" where
  "call_time (Take k consume now) = [now]"
| "call_time (Refund key) = []"

fun serve :: "(rat \<Rightarrow> rat) \<Rightarrow> (limit_key \<Rightarrow> nat) \<Rightarrow> limit_key \<Rightarrow> call list \<Rightarrow> Limiter option \<Rightarrow> nat \<times> Limiter option" where
  "serve fl shardFor k [] l = (0, l)"
| "serve fl shardFor k (Take k' consume now # cs) l =
     (case takeKey fl shardFor \<lparr>rd_check = 0, rd_arm = 0, rd_fail = 0\<rparr> NoReply k' consume now l of
        ((ok, _), l) \<Rightarrow>
          (case serve fl shardFor k cs l of (n, l) \<Rightarrow> ((if k' = k \<and> consume \<and> ok then Suc n else n), l)))"
| "serve fl shardFor k (Refund key # cs) l =
     serve fl shardFor k cs (RefundKey fl shardFor \<lparr>rd_check = 0, rd_arm = 0, rd_fail = 0\<rparr> NoReply key l)"

definition refunds_of :: "limit_key \<Rightarrow> call list \<Rightarrow> nat" where
  "refunds_of k cs = length (filter (\<lambda>c. case c of Refund key \<Rightarrow> named_key key = k | _ \<Rightarrow> False) cs)"

lemma serve_bounded:
  assumes "limiter_ok fl t0 l" "li_shared l = None" "sorted (t0 # concat (map call_time cs) @ [t1])"
  shows "\<exists>n m. serve fl shardFor k cs (Some l) = (n, Some m)
     \<and> of_nat n \<le> credit shardFor l k t0 + per_ns (li_perSecond l) * of_int (t1 - t0) + of_nat (refunds_of k cs)
         + of_int (li_overflows m - li_overflows l) + 3 * slack (li_burst l) * of_nat (length cs)"
  using assms
proof (induction cs arbitrary: l t0)
  case Nil
  have "0 \<le> per_ns (li_perSecond l) * of_int (t1 - t0)"
    using Nil per_ns_nonneg [OF limiter_okD(2) [OF Nil.prems(1)]] by simp
  with Nil credit_range(1) [OF Nil.prems(1), of shardFor k] show ?case by (simp add: refunds_of_def)
next
  case (Cons c cs)
  note s = slack_range [OF limiter_okD(2) [OF Cons.prems(1)]]
  show ?case
  proof (cases c)
    case (Take k' consume now)
    with Cons.prems(3) have t: "t0 \<le> now" "sorted (now # concat (map call_time cs) @ [t1])" by auto
    have l: "limiter_ok fl now l" by (rule limiter_ok_later [OF Cons.prems(1) t(1)])
    let ?r = "local_take fl shardFor k' consume now l"
    obtain ok w m where r: "?r = ((ok, w), m)" by (metis prod.collapse)
    note props = local_take_props [OF l, of shardFor k' consume k, unfolded r, simplified]
    from props Cons.prems(2) have "li_shared m = None" "limiter_ok fl now m" by simp_all
    from Cons.IH [OF this(2,1) t(2)] obtain n z where z: "serve fl shardFor k cs (Some m) = (n, Some z)"
      "of_nat n \<le> credit shardFor m k now + per_ns (li_perSecond m) * of_int (t1 - now) + of_nat (refunds_of k cs)
         + of_int (li_overflows z - li_overflows m) + 3 * slack (li_burst m) * of_nat (length cs)" by blast
    have lim: "li_perSecond m = li_perSecond l" "li_burst m = li_burst l"
      using props by (simp_all add: same_limits_def)
    have "serve fl shardFor k (c # cs) (Some l) = ((if k' = k \<and> consume \<and> ok then Suc n else n), Some z)"
    proof -
      have "(if consume then li_shared l else None) = None" using Cons.prems(2) by simp
      with r have "takeKey fl shardFor rd NoReply k' consume now (Some l) = ((ok, w), Some m)" for rd
        by (simp only: takeKey_def option.case prod.case)
      with z(1) show ?thesis by (simp add: Take)
    qed
    moreover have "of_nat (if k' = k \<and> consume \<and> ok then Suc n else n) = of_nat n + granted_to k k' consume ok"
      by (simp add: granted_to_def)
    moreover have "credit shardFor l k now \<le> credit shardFor l k t0 + per_ns (li_perSecond l) * of_int (now - t0)"
      by (rule credit_later [OF Cons.prems(1) t(1)])
    moreover have "per_ns (li_perSecond l) * of_int (t1 - t0) =
        per_ns (li_perSecond l) * of_int (now - t0) + per_ns (li_perSecond l) * of_int (t1 - now)"
      by (simp add: algebra_simps)
    moreover have "refunds_of k (c # cs) = refunds_of k cs" by (simp add: refunds_of_def Take)
    ultimately show ?thesis
      using z(2) props lim by (intro exI [of _ "if k' = k \<and> consume \<and> ok then Suc n else n"] exI [of _ z])
        (simp add: algebra_simps)
  next
    case (Refund key)
    with Cons.prems(3) have t: "sorted (t0 # concat (map call_time cs) @ [t1])" by simp
    let ?m = "refundLocal fl shardFor (named_key key) l"
    note props = refund_props [OF Cons.prems(1), of shardFor "named_key key" k]
    from props Cons.prems(2) have "li_shared ?m = None" "limiter_ok fl t0 ?m" by simp_all
    from Cons.IH [OF this(2,1) t] obtain n z where z: "serve fl shardFor k cs (Some ?m) = (n, Some z)"
      "of_nat n \<le> credit shardFor ?m k t0 + per_ns (li_perSecond ?m) * of_int (t1 - t0) + of_nat (refunds_of k cs)
         + of_int (li_overflows z - li_overflows ?m) + 3 * slack (li_burst ?m) * of_nat (length cs)" by blast
    have lim: "li_perSecond ?m = li_perSecond l" "li_burst ?m = li_burst l" "li_overflows ?m = li_overflows l"
      using props by (simp_all add: same_limits_def)
    have "serve fl shardFor k (c # cs) (Some l) = (n, Some z)"
      using z(1) Cons.prems(2) by (simp add: Refund RefundKey_def)
    moreover have "(of_nat (refunds_of k (c # cs)) :: rat) = of_nat (refunds_of k cs) + (if named_key key = k then 1 else 0)"
      by (simp add: refunds_of_def Refund)
    ultimately show ?thesis
      using z(2) props lim by (intro exI [of _ n] exI [of _ z]) (simp add: algebra_simps)
  qed
qed

definition configured_burst :: "int \<Rightarrow> limiter_options \<Rightarrow> int" where
  "configured_burst perMinute opts = (if lo_burst opts \<le> 0 then perMinute else lo_burst opts)"

lemma NewLimiter_ok:
  assumes "binary64 fl" "NewLimiter fl perMinute opts = Some l" "perMinute \<le> 2 ^ 53" "lo_burst opts \<le> 2 ^ 53"
  shows "limiter_ok fl now l" "li_burst l = of_int (configured_burst perMinute opts)"
    "li_perSecond l \<le> of_int perMinute / 60 + of_int perMinute / 60 * ulp + tiny"
    "li_shared l = lo_shared opts" "li_overflows l = 0"
proof -
  let ?b = "configured_burst perMinute opts" let ?p = "of_int perMinute / 60 :: rat"
  from assms(2) have pos: "0 < perMinute" by (simp add: NewLimiter_def split: if_splits)
  have b: "1 \<le> ?b" "?b \<le> 2 ^ 53" using pos assms(3,4) by (simp_all add: configured_burst_def)
  have fb: "fl (of_int ?b) = of_int ?b" by (rule fl_int [OF assms(1)]) (use b in simp)
  have fp: "fl (of_int perMinute) = of_int perMinute" by (rule fl_int [OF assms(1)]) (use pos assms(3) in simp)
  from assms(2) pos have l: "li_burst l = fl (of_int ?b)" "li_perSecond l = fl (fl (of_int perMinute) / 60)"
    "li_shared l = lo_shared opts" "li_overflows l = 0" "li_shards l = (\<lambda>_. [])"
    by (auto simp: NewLimiter_def configured_burst_def)
  show "li_burst l = of_int ?b" "li_shared l = lo_shared opts" "li_overflows l = 0" using l fb by simp_all
  have "(of_int perMinute :: rat) \<le> of_int (2 ^ 53)" using assms(3) by (simp only: of_int_le_iff)
  then have p: "0 \<le> ?p" "?p \<le> 2 ^ 53" using pos by simp_all
  note rate = fl_sec_small [OF assms(1) p]
  from rate(1) show "li_perSecond l \<le> ?p + ?p * ulp + tiny" by (simp add: l fp)
  have "(1::rat) \<le> of_int ?b" "(of_int ?b :: rat) \<le> of_int (2 ^ 53)" using b by (simp_all only: of_int_le_iff of_int_1_le_iff)
  then show "limiter_ok fl now l"
    using assms(1) rate(2,3) fb by (simp add: limiter_ok_def rate_ok_def shard_ok_def l fp)
qed

text \<open>C39. The limit holds for every key. A limiter made for \<open>perMinute\<close> requests, kept in one process
  and served in the order of its clock, grants one key at most its burst, what the configured rate
  adds over the time of the run, one token per refund of that key, and the requests the overflow
  counter reports as let through because the table was full - whatever other keys are served,
  whatever sweeps drop buckets, with every operation rounded to a \<open>float64\<close>, which is worth less
  than a burst in \<open>2 ^ 50\<close> per call and the rate in \<open>2 ^ 50\<close>.\<close>

theorem limit_holds:
  assumes "binary64 fl" and "NewLimiter fl perMinute opts = Some l" and "lo_shared opts = None"
    and "perMinute \<le> 2 ^ 53" and "lo_burst opts \<le> 2 ^ 53"
    and "sorted (t0 # concat (map call_time cs) @ [t1])"
  shows "\<exists>n m. serve fl shardFor k cs (Some l) = (n, Some m)
     \<and> of_nat n \<le> of_int (configured_burst perMinute opts) + per_ns (li_perSecond l) * of_int (t1 - t0)
         + of_nat (refunds_of k cs) + of_int (Overflows (Some m)) + 3 * slack (li_burst l) * of_nat (length cs)
     \<and> li_perSecond l \<le> of_int perMinute / 60 * (1 + ulp) + tiny"
proof -
  note new = NewLimiter_ok [OF assms(1,2,4,5)]
  have "li_shared l = None" using new(4) assms(3) by simp
  from serve_bounded [OF new(1) this assms(6), of shardFor k] obtain n m where
    run: "serve fl shardFor k cs (Some l) = (n, Some m)"
    "of_nat n \<le> credit shardFor l k t0 + per_ns (li_perSecond l) * of_int (t1 - t0) + of_nat (refunds_of k cs)
       + of_int (li_overflows m - li_overflows l) + 3 * slack (li_burst l) * of_nat (length cs)" by blast
  have "of_nat n \<le> of_int (configured_burst perMinute opts) + per_ns (li_perSecond l) * of_int (t1 - t0)
       + of_nat (refunds_of k cs) + of_int (Overflows (Some m)) + 3 * slack (li_burst l) * of_nat (length cs)"
    using run(2) credit_range(2) [OF new(1), of shardFor k t0] new(2,5) by (simp add: Overflows_def)
  moreover have "li_perSecond l \<le> of_int perMinute / 60 * (1 + ulp) + tiny"
    using new(3) by (simp add: distrib_left)
  ultimately show ?thesis using run(1) by blast
qed

lemma binary64_id: "binary64 id"
  by (simp add: binary64_def mono_def add_nonneg_nonneg)

definition login_options :: limiter_options where
  "login_options = \<lparr>lo_burst = 2, lo_maxKeys = 0, lo_shared = None\<rparr>"

theorem limit_holds_witness:
  "\<exists>l n m. NewLimiter id 60 login_options = Some l
     \<and> serve id (\<lambda>_. 0) (NamedKey ''a'') [Take (NamedKey ''a'') True 0, Take (NamedKey ''a'') True 5] (Some l) = (n, Some m)
     \<and> of_nat n \<le> 2 + per_ns (li_perSecond l) * 10 + of_int (Overflows (Some m)) + 6 * slack (li_burst l)"
proof -
  obtain l where l: "NewLimiter id 60 login_options = Some l" by (simp add: NewLimiter_def Let_def)
  have "lo_shared login_options = None" "(60::int) \<le> 2 ^ 53" "lo_burst login_options \<le> 2 ^ 53"
    by (simp_all add: login_options_def)
  from limit_holds [OF binary64_id l this,
      of 0 "[Take (NamedKey ''a'') True 0, Take (NamedKey ''a'') True 5]" 10 "\<lambda>_. 0" "NamedKey ''a''"] l
  show ?thesis by (force simp: configured_burst_def login_options_def refunds_of_def)
qed

subsection \<open>The limit across replicas\<close>

text \<open>
  What one Redis key goes through, whoever calls: runs of the script with a cost at the server's
  clock, whose answers may or may not reach the caller, and the expiry of the key. Between two runs
  the clock may stand still or go back.
\<close>

datatype script_event = Run bool int | Expired

text \<open>A run takes a token, or refunds one.\<close>

definition cost_of :: "bool \<Rightarrow> rat" where
  "cost_of refund = (if refund then -1 else 1)"

fun script_runs :: "(rat \<Rightarrow> rat) \<Rightarrow> rat \<Rightarrow> rat \<Rightarrow> script_event list \<Rightarrow> script_bucket option \<Rightarrow> nat \<times> script_bucket option" where
  "script_runs fl rate burst [] data = (0, data)"
| "script_runs fl rate burst (Expired # es) data = script_runs fl rate burst es None"
| "script_runs fl rate burst (Run refund now # es) data =
     (case takeScript fl rate burst (cost_of refund) now data of
        ((ok, _), b) \<Rightarrow>
          (case script_runs fl rate burst es (Some b) of
             (n, d) \<Rightarrow> ((if ok \<and> \<not> refund then Suc n else n), d)))"

text \<open>How far the clock has gone forward over the runs, from the reading the bucket holds.\<close>

fun advance :: "script_event list \<Rightarrow> int option \<Rightarrow> int" where
  "advance [] ts = 0"
| "advance (Expired # es) ts = advance es None"
| "advance (Run refund now # es) ts =
     (case ts of None \<Rightarrow> 0 | Some t \<Rightarrow> max 0 (now - t)) + advance es (Some now)"

definition per_ms :: "rat \<Rightarrow> rat" where
  "per_ms rate = (1 + 8 * ulp) * (rate / 1000)"

definition clock_ok :: "script_event list \<Rightarrow> bool" where
  "clock_ok es \<longleftrightarrow> (\<forall>refund now. Run refund now \<in> set es \<longrightarrow> 0 \<le> now \<and> now \<le> 2 ^ 52)"

definition script_ok :: "rat \<Rightarrow> script_bucket option \<Rightarrow> bool" where
  "script_ok burst data \<longleftrightarrow>
     (case data of None \<Rightarrow> True | Some b \<Rightarrow> 0 \<le> sb_tokens b \<and> sb_tokens b \<le> burst \<and> 0 \<le> sb_ts b)"

definition script_tokens :: "rat \<Rightarrow> script_bucket option \<Rightarrow> rat" where
  "script_tokens burst data = (case data of None \<Rightarrow> burst | Some b \<Rightarrow> sb_tokens b)"

lemma ms_refill_above:
  assumes fl: "binary64 fl" and ok: "rate_ok rate burst" and e: "0 \<le> e" "e \<le> (2::int) ^ 52"
    and tok: "0 \<le> tok" "tok \<le> burst"
  shows "fl (tok + fl (fl (of_int e / 1000) * rate)) \<le> tok + per_ms rate * of_int e + slack burst"
    "0 \<le> fl (tok + fl (fl (of_int e / 1000) * rate))"
proof -
  let ?x = "of_int e / 1000 :: rat" let ?sec = "fl ?x" let ?p = "fl (?sec * rate)"
  have "(of_int e :: rat) \<le> of_int (2 ^ 52)" using e(2) by (simp only: of_int_le_iff)
  then have x: "0 \<le> ?x" "?x \<le> 2 ^ 53" using e(1) by simp_all
  note sec = fl_sec_small [OF fl x]
  have r: "0 \<le> rate" "rate \<le> 2 ^ 53" "1 \<le> burst" "burst \<le> 2 ^ 53" using ok by (simp_all add: rate_ok_def)
  have sr: "0 \<le> ?sec * rate" "?sec * rate \<le> 2 ^ 53 * 2 ^ 53" using sec(2,3) r by (simp, intro mult_mono) auto
  have big: "(2::rat) ^ 53 * 2 ^ 53 \<le> 2 ^ 1000" "(2::rat) ^ 53 + 2 ^ 108 \<le> 2 ^ 1000"
    using power_increasing [of 106 1000 "2::rat"] power_increasing [of 109 1000 "2::rat"] by simp_all
  have p: "0 \<le> ?p" "?p \<le> ?sec * rate + ?sec * rate * ulp + tiny"
    using fl_nonneg [OF fl sr(1)] fl_above [OF fl sr(1)] sr(2) big(1) by linarith+
  have "?sec * rate * ulp \<le> ?sec * rate * 1" using ulp_range sr(1) by (intro mult_left_mono) auto
  then have "?p \<le> 2 ^ 108" using p(2) sr(2) tiny_range ulp_range by simp
  then have v: "fl (tok + ?p) \<le> (tok + ?p) + (tok + ?p) * ulp + tiny"
    using tok r p(1) big(2) by (intro fl_above [OF fl]) auto
  show "0 \<le> fl (tok + ?p)" using tok p(1) by (intro fl_nonneg [OF fl]) simp
  have t: "8 * tiny * (rate + 1) \<le> ulp"
  proof -
    have "8 * tiny * (rate + 1) \<le> 8 * tiny * (2 ^ 54 + 1)" using tiny_range(1) r by (intro mult_left_mono) auto
    with tiny_range(2) show ?thesis by linarith
  qed
  have "?sec * 1 \<le> ?sec * (1 + ulp)" using ulp_range(1) sec(2) by (intro mult_left_mono) auto
  also have "\<dots> \<le> (?x + ?x * ulp + tiny) * (1 + ulp)" using ulp_range(1) sec(1) by (intro mult_right_mono) auto
  finally have "?sec \<le> (0 + (?x + ?x * ulp + tiny)) * (1 + ulp) + tiny" using tiny_range(1) by simp
  from rounding_chain [OF _ ulp_range(2) _ t _ x(1) r(1) tok r(3) this, of ?p "fl (tok + ?p)"]
  have "fl (tok + ?p) \<le> tok + (1 + 8 * ulp) * (rate * ?x) + 2 * ulp * burst"
    using p(2) v ulp_range(1) tiny_range(1) by (simp add: distrib_left)
  then show "fl (tok + ?p) \<le> tok + per_ms rate * of_int e + slack burst"
    by (simp add: per_ms_def slack_def)
qed

lemma script_refill_props:
  assumes "binary64 fl" "rate_ok rate burst" "script_ok burst data" "0 \<le> now" "now \<le> 2 ^ 52"
  shows "0 \<le> script_refill fl rate burst now data" "script_refill fl rate burst now data \<le> burst"
    "script_refill fl rate burst now data \<le> script_tokens burst data
       + per_ms rate * of_int (case map_option sb_ts data of None \<Rightarrow> 0 | Some t \<Rightarrow> max 0 (now - t)) + slack burst"
proof -
  have b: "0 \<le> burst" using assms(2) by (simp add: rate_ok_def)
  have e: "0 \<le> max 0 (now - t) \<and> max 0 (now - t) \<le> (2::int) ^ 52" if "0 \<le> t" for t using that assms(4,5) by auto
  have m: "(if now - t < 0 then 0 else now - t) = max 0 (now - t)" for t by auto
  have "0 \<le> script_refill fl rate burst now data \<and> script_refill fl rate burst now data \<le> burst
     \<and> script_refill fl rate burst now data \<le> script_tokens burst data
       + per_ms rate * of_int (case map_option sb_ts data of None \<Rightarrow> 0 | Some t \<Rightarrow> max 0 (now - t)) + slack burst"
  proof (cases data)
    case None
    then show ?thesis
      using ms_refill_above [OF assms(1,2), of 0 burst] b by (simp add: script_refill_def script_tokens_def)
  next
    case (Some s)
    with assms(3) have s: "0 \<le> sb_tokens s" "sb_tokens s \<le> burst" "0 \<le> sb_ts s" by (simp_all add: script_ok_def)
    note up = ms_refill_above [OF assms(1,2) conjunct1 [OF e [OF s(3)]] conjunct2 [OF e [OF s(3)]] s(1,2)]
    have "script_refill fl rate burst now data =
        min burst (fl (sb_tokens s + fl (fl (of_int (max 0 (now - sb_ts s)) / 1000) * rate)))"
      by (simp only: Some script_refill_def option.case Let_def m)
    with up b show ?thesis by (simp add: Some script_tokens_def min_le_iff_disj)
  qed
  then show "0 \<le> script_refill fl rate burst now data" "script_refill fl rate burst now data \<le> burst"
    "script_refill fl rate burst now data \<le> script_tokens burst data
       + per_ms rate * of_int (case map_option sb_ts data of None \<Rightarrow> 0 | Some t \<Rightarrow> max 0 (now - t)) + slack burst"
    by blast+
qed

definition runs_of :: "(script_event \<Rightarrow> bool) \<Rightarrow> script_event list \<Rightarrow> nat" where
  "runs_of P es = length (filter P es)"

lemma takeScript_props:
  fixes refund :: bool
  assumes "binary64 fl" "rate_ok rate burst" "script_ok burst data" "0 \<le> now" "now \<le> 2 ^ 52"
  defines "r \<equiv> takeScript fl rate burst (cost_of refund) now data"
  shows "script_ok burst (Some (snd r)) \<and> sb_ts (snd r) = now
     \<and> sb_tokens (snd r) + (if fst (fst r) \<and> \<not> refund then 1 else 0)
       \<le> script_tokens burst data + per_ms rate * of_int (case map_option sb_ts data of None \<Rightarrow> 0 | Some t \<Rightarrow> max 0 (now - t))
         + (if refund then 1 else 0) + 3 * slack burst"
proof -
  note re = script_refill_props [OF assms(1-5)]
  let ?t = "script_refill fl rate burst now data"
  have b: "0 \<le> burst" using assms(2) by (simp add: rate_ok_def)
  note s = slack_range [OF assms(2)]
  show ?thesis
  proof (cases "cost_of refund \<le> ?t")
    case False
    then show ?thesis using re assms(4) s by (simp add: r_def takeScript_def Let_def script_ok_def)
  next
    case True
    show ?thesis
    proof (cases refund)
      case True
      with refund_above [OF assms(1,2) re(1,2)] re s b assms(4) show ?thesis
        by (simp add: r_def takeScript_def Let_def script_ok_def cost_of_def min_def)
    next
      case False
      with True spend_above(1,2) [OF assms(1,2) _ re(2)] re s b assms(4) show ?thesis
        by (simp add: r_def takeScript_def Let_def script_ok_def cost_of_def min_def)
    qed
  qed
qed

lemma script_runs_bounded:
  assumes "binary64 fl" "rate_ok rate burst" "script_ok burst data" "clock_ok es"
  shows "of_nat (fst (script_runs fl rate burst es data)) \<le> script_tokens burst data
     + per_ms rate * of_int (advance es (map_option sb_ts data))
     + of_nat (runs_of (\<lambda>e. \<exists>now. e = Run True now) es) + burst * of_nat (runs_of (\<lambda>e. e = Expired) es)
     + 3 * slack burst * of_nat (length es)"
  using assms(3,4)
proof (induction es arbitrary: data)
  case Nil
  then show ?case using assms(2) by (simp add: script_tokens_def script_ok_def runs_of_def rate_ok_def split: option.splits)
next
  case (Cons e es)
  note s = slack_range [OF assms(2)]
  have es: "clock_ok es" using Cons.prems(2) by (auto simp: clock_ok_def)
  show ?case
  proof (cases e)
    case Expired
    have "0 \<le> script_tokens burst data" using Cons.prems(1) assms(2)
      by (simp add: script_tokens_def script_ok_def rate_ok_def split: option.splits)
    moreover have "script_ok burst None" by (simp add: script_ok_def)
    note Cons.IH [OF this es]
    ultimately show ?thesis using s by (simp add: Expired runs_of_def script_tokens_def algebra_simps)
  next
    case (Run refund now)
    with Cons.prems(2) have now: "0 \<le> now" "now \<le> 2 ^ 52" by (auto simp: clock_ok_def)
    obtain ok w b where r: "takeScript fl rate burst (cost_of refund) now data = ((ok, w), b)" by (metis prod.collapse)
    note t = takeScript_props [OF assms(1,2) Cons.prems(1) now, of refund, unfolded r fst_conv snd_conv]
    then have b: "script_ok burst (Some b)" by simp
    have a: "(of_int (advance (e # es) (map_option sb_ts data)) :: rat) =
        of_int (case map_option sb_ts data of None \<Rightarrow> 0 | Some t \<Rightarrow> max 0 (now - t)) + of_int (advance es (Some now))"
      by (simp add: Run)
    obtain n d where nd: "script_runs fl rate burst es (Some b) = (n, d)" by (cases "script_runs fl rate burst es (Some b)")
    have "fst (script_runs fl rate burst (e # es) data) = (if ok \<and> \<not> refund then Suc n else n)"
      by (simp add: Run r nd)
    then have n: "(of_nat (fst (script_runs fl rate burst (e # es) data)) :: rat) = of_nat n + (if ok \<and> \<not> refund then 1 else 0)"
      by simp
    have f: "(of_nat (runs_of (\<lambda>e. \<exists>now. e = Run True now) (e # es)) :: rat) =
        of_nat (runs_of (\<lambda>e. \<exists>now. e = Run True now) es) + (if refund then 1 else 0)"
      "runs_of (\<lambda>e. e = Expired) (e # es) = runs_of (\<lambda>e. e = Expired) es"
      by (simp_all add: Run runs_of_def)
    have "of_nat n \<le> sb_tokens b + per_ms rate * of_int (advance es (Some now))
       + of_nat (runs_of (\<lambda>e. \<exists>now. e = Run True now) es) + burst * of_nat (runs_of (\<lambda>e. e = Expired) es)
       + 3 * slack burst * of_nat (length es)"
      using Cons.IH [OF b es] t by (simp add: nd script_tokens_def)
    moreover have "(3 * slack burst * of_nat (length (e # es)) :: rat) = 3 * slack burst * of_nat (length es) + 3 * slack burst"
      by (simp add: algebra_simps)
    moreover note t
    ultimately show ?thesis unfolding n a f distrib_left by linarith
  qed
qed

text \<open>C40. A shared limit holds across replicas. However many replicas run the script on one key, in
  whatever order Redis serves them and whether or not its answers arrive, the runs that take a
  token number at most a burst, a further burst for each time the key expires, what the rate adds
  over the forward movement of the server's clock, and one per refund, up to rounding. A clock that
  stands still or goes back adds nothing.\<close>

theorem shared_limit_holds:
  assumes "binary64 fl" and "NewLimiter fl perMinute opts = Some l"
    and "perMinute \<le> 2 ^ 53" and "lo_burst opts \<le> 2 ^ 53" and "clock_ok es"
  shows "of_nat (fst (script_runs fl (li_perSecond l) (li_burst l) es None)) \<le>
     of_int (configured_burst perMinute opts) * (1 + of_nat (runs_of (\<lambda>e. e = Expired) es))
     + per_ms (li_perSecond l) * of_int (advance es None)
     + of_nat (runs_of (\<lambda>e. \<exists>now. e = Run True now) es) + 3 * slack (li_burst l) * of_nat (length es)"
proof -
  note new = NewLimiter_ok [OF assms(1,2,3,4)]
  have "script_ok (li_burst l) None" by (simp add: script_ok_def)
  from script_runs_bounded [OF assms(1) limiter_okD(2) [OF new(1)] this assms(5)] new(2)
  show ?thesis by (simp add: script_tokens_def distrib_left)
qed

theorem shared_limit_holds_witness:
  "\<exists>l. NewLimiter id 60 login_options = Some l
     \<and> of_nat (fst (script_runs id (li_perSecond l) (li_burst l) [Run False 1000, Run False 1000, Run False 2000] None))
       \<le> (2 :: rat) + per_ms (li_perSecond l) * 1000 + 9 * slack (li_burst l)"
proof -
  obtain l where l: "NewLimiter id 60 login_options = Some l" by (simp add: NewLimiter_def Let_def)
  have o: "(60::int) \<le> 2 ^ 53" "lo_burst login_options \<le> 2 ^ 53" by (simp_all add: login_options_def)
  have "clock_ok [Run False 1000, Run False 1000, Run False 2000]" by (auto simp: clock_ok_def)
  from shared_limit_holds [OF binary64_id l o this] l show ?thesis
    by (simp add: configured_burst_def login_options_def runs_of_def)
qed

subsection \<open>The breaker\<close>

text \<open>What happens to an open breaker while Redis stays silent: requests ask whether to try it, at two
  clock readings, and calls that were under way fail.\<close>

datatype breaker_event = Ask instant instant | Failed instant

fun breaker_times :: "breaker_event \<Rightarrow> instant list" where
  "breaker_times (Ask now again) = [now, again]"
| "breaker_times (Failed now) = [now]"

fun admitted :: "breaker_event list \<Rightarrow> breaker \<Rightarrow> (instant \<times> instant) list" where
  "admitted [] b = []"
| "admitted (Ask now again # es) b =
     (case breaker_allow now again b of (b, ok) \<Rightarrow> (if ok then (now, again) # admitted es b else admitted es b))"
| "admitted (Failed now # es) b = admitted es (fst (recordFailure now b))"

lemma admitted_after:
  assumes "br_openUntil b = Some u" "sorted (t0 # concat (map breaker_times es))" "u \<le> t0 + breakerCooldown"
  shows "(\<forall>(n, a) \<in> set (admitted es b). u < n)
     \<and> sorted_wrt (\<lambda>(n, a) (n', a'). a + breakerCooldown < n') (admitted es b)"
  using assms
proof (induction es arbitrary: b u t0)
  case (Cons e es)
  have c: "0 \<le> breakerCooldown" by (simp add: breakerCooldown_def second_ns_def)
  show ?case
  proof (cases e)
    case (Ask now again)
    show ?thesis
    proof (cases "u < now")
      case True
      let ?b = "b\<lparr>br_openUntil := Some (again + breakerCooldown)\<rparr>"
      have "sorted (again # concat (map breaker_times es))" "now \<le> again" using Cons.prems(2) by (simp_all add: Ask)
      from Cons.IH [OF _ this(1), of ?b "again + breakerCooldown"] True this(2) Cons.prems(1) c show ?thesis
        by (fastforce simp: Ask breaker_allow_def)
    next
      case False
      have "sorted (t0 # concat (map breaker_times es))" using Cons.prems(2) by (simp add: Ask)
      from Cons.IH [OF Cons.prems(1) this Cons.prems(3)] False Cons.prems(1) show ?thesis
        by (simp add: Ask breaker_allow_def)
    qed
  next
    case (Failed now)
    let ?b = "fst (recordFailure now b)"
    have s: "sorted (now # concat (map breaker_times es))" "t0 \<le> now" using Cons.prems(2) by (simp_all add: Failed)
    have "br_openUntil ?b = Some u \<or> br_openUntil ?b = Some (now + breakerCooldown)"
      using Cons.prems(1) by (simp add: recordFailure_def Let_def)
    then obtain v where v: "br_openUntil ?b = Some v" "u \<le> v" "v \<le> now + breakerCooldown"
      using Cons.prems(3) s(2) by force
    from Cons.IH [OF v(1) s(1) v(3)] v(2) show ?thesis by (auto simp: Failed)
  qed
qed simp

text \<open>An open breaker admits one probe per cooldown. While no call succeeds, whatever requests ask
  and whatever earlier calls fail, no request is let through to Redis before the breaker's time, and
  two that are let through are more than the cooldown apart.\<close>

theorem one_probe_per_cooldown:
  assumes "br_openUntil b = Some u" and "sorted (t0 # concat (map breaker_times es))"
    and "u \<le> t0 + breakerCooldown"
  shows "(\<forall>(n, a) \<in> set (admitted es b). u < n)
     \<and> sorted_wrt (\<lambda>(n, a) (n', a'). a + breakerCooldown < n') (admitted es b)"
  by (rule admitted_after [OF assms])

theorem one_probe_per_cooldown_witness:
  "sorted_wrt (\<lambda>(n, a) (n', a'). a + breakerCooldown < n')
     (admitted [Ask 6000000000 6000000000, Ask 6000000001 6000000001, Failed 6100000000]
        (new_breaker\<lparr>br_openUntil := Some 5000000000\<rparr>))"
  using one_probe_per_cooldown [of "new_breaker\<lparr>br_openUntil := Some 5000000000\<rparr>" 5000000000 0
      "[Ask 6000000000 6000000000, Ask 6000000001 6000000001, Failed 6100000000]"]
  by (simp add: breakerCooldown_def second_ns_def)

end
