(* ===== verification/NetIp.thy ===== *)
theory NetIp
  imports GoString
begin

section \<open>IP addresses\<close>

text \<open>
  The parser of Go's \<open>net/netip\<close> and the questions \<open>net.IP\<close> and \<open>netip.Addr\<close> answer about an address:
  four decimal fields without leading zeros, or hexadecimal groups with at most one \<open>::\<close>, an IPv4
  tail and a zone. An address is 32 bits, or 128 bits with its zone (empty for none).
\<close>

datatype netip = V4 "32 word" | V6 "128 word" string

subsection \<open>Parsing\<close>

definition v4_field :: "string \<Rightarrow> nat option" where
  "v4_field f =
     (if f = [] \<or> \<not> list_all is_digit f \<or> 3 < length f then None
      else if 1 < length f \<and> hd f = CHR ''0'' then None
      else let v = digits_value f in if 255 < v then None else Some v)"

text \<open>\<open>parseIPv4Fields\<close>: exactly four fields.\<close>

definition v4_fields :: "string \<Rightarrow> (nat \<times> nat \<times> nat \<times> nat) option" where
  "v4_fields s =
     (case map v4_field (split_on (CHR ''.'') s) of
        [Some a, Some b, Some c, Some d] \<Rightarrow> Some (a, b, c, d)
      | _ \<Rightarrow> None)"

definition hex_value :: "char \<Rightarrow> int option" where
  "hex_value c =
     (let n = code c in
      if 48 \<le> n \<and> n \<le> 57 then Some (int n - 48)
      else if 97 \<le> n \<and> n \<le> 102 then Some (int n - 87)
      else if 65 \<le> n \<and> n \<le> 70 then Some (int n - 55)
      else None)"

definition hex_group :: "string \<Rightarrow> int" where
  "hex_group ds = foldl (\<lambda>acc c. 16 * acc + the (hex_value c)) 0 ds"

text \<open>The loop of \<open>parseIPv6\<close> over what is left of the text, the groups read so far and the place
  of the \<open>::\<close> among them.\<close>

function v6_groups :: "string \<Rightarrow> int list \<Rightarrow> nat option \<Rightarrow> (int list \<times> nat option) option" where
  "v6_groups s gs ellipsis =
     (if 8 \<le> length gs then (if s = [] then Some (gs, ellipsis) else None)
      else let ds = takeWhile (\<lambda>c. hex_value c \<noteq> None) s; rest = drop (length ds) s in
           if ds = [] \<or> 4 < length ds then None
           else (case rest of
                  [] \<Rightarrow> Some (gs @ [hex_group ds], ellipsis)
                | c # s1 \<Rightarrow>
                    if c = CHR ''.'' then
                      (if ellipsis = None \<and> length gs \<noteq> 6 then None
                       else if 8 < length gs + 2 then None
                       else (case v4_fields s of
                              None \<Rightarrow> None
                            | Some (a, b, c, d) \<Rightarrow> Some (gs @ [256 * int a + int b, 256 * int c + int d], ellipsis)))
                    else if c \<noteq> CHR '':'' then None
                    else let gs = gs @ [hex_group ds] in
                         (case s1 of
                           [] \<Rightarrow> None
                         | d # s2 \<Rightarrow>
                             if d = CHR '':'' then
                               (if ellipsis \<noteq> None then None
                                else if s2 = [] then Some (gs, Some (length gs))
                                else v6_groups s2 gs (Some (length gs)))
                             else v6_groups s1 gs ellipsis)))"
  by pat_completeness auto
termination
proof (relation "measure (\<lambda>(s, _, _). length s)", goal_cases)
  case 1
  show ?case by simp
qed (auto dest!: arg_cong [where f = length] split: if_splits)

declare v6_groups.simps [simp del]

definition v6_expand :: "int list \<Rightarrow> nat option \<Rightarrow> int list option" where
  "v6_expand gs ellipsis =
     (case ellipsis of
        None \<Rightarrow> if length gs < 8 then None else Some gs
      | Some e \<Rightarrow>
          if length gs < 8 then Some (take e gs @ replicate (8 - length gs) 0 @ drop e gs) else None)"

definition groups_value :: "int list \<Rightarrow> int" where
  "groups_value gs = foldl (\<lambda>n g. 65536 * n + g) 0 gs"

definition parseIPv6 :: "string \<Rightarrow> netip option" where
  "parseIPv6 s =
     (let (body, zone, zoned) = cut (CHR ''%'') s in
      if zoned \<and> zone = [] then None
      else let leading = prefix ''::'' body; body = (if leading then drop 2 body else body) in
           if leading \<and> body = [] then Some (V6 0 zone)
           else case v6_groups body [] (if leading then Some 0 else None) of
                  None \<Rightarrow> None
                | Some (gs, ellipsis) \<Rightarrow>
                    (case v6_expand gs ellipsis of
                       None \<Rightarrow> None
                     | Some gs \<Rightarrow> Some (V6 (word_of_int (groups_value gs)) zone)))"

definition parseIPv4 :: "string \<Rightarrow> netip option" where
  "parseIPv4 s =
     (case v4_fields s of
        None \<Rightarrow> None
      | Some (a, b, c, d) \<Rightarrow> Some (V4 (word_of_int (((int a * 256 + int b) * 256 + int c) * 256 + int d))))"

text \<open>\<open>netip.ParseAddr\<close> decides by the first of the three bytes it meets, \<open>net.ParseIP\<close> also refuses
  a zone.\<close>

fun ParseAddr_from :: "string \<Rightarrow> string \<Rightarrow> netip option" where
  "ParseAddr_from s [] = None"
| "ParseAddr_from s (c # cs) =
     (if c = CHR ''.'' then parseIPv4 s
      else if c = CHR '':'' then parseIPv6 s
      else if c = CHR ''%'' then None
      else ParseAddr_from s cs)"

definition ParseAddr :: "string \<Rightarrow> netip option" where
  "ParseAddr s = ParseAddr_from s s"

definition ParseIP :: "string \<Rightarrow> netip option" where
  "ParseIP s = (case ParseAddr s of Some (V6 w zone) \<Rightarrow> if zone = [] then Some (V6 w zone) else None | r \<Rightarrow> r)"

lemma addr_samples:
  "ParseAddr ''192.0.2.7'' = Some (V4 0xC0000207)"
  "ParseAddr ''192.0.02.7'' = None"
  "ParseAddr ''1.2.3'' = None"
  "ParseAddr ''::1'' = Some (V6 1 '''')"
  "ParseAddr ''2001:db8::8:800:200c:417a'' = Some (V6 0x20010db80000000000080800200c417a '''')"
  "ParseAddr ''::ffff:10.0.0.1'' = Some (V6 0xffff0a000001 '''')"
  "ParseAddr ''fe80::1%eth0'' = Some (V6 0xfe800000000000000000000000000001 ''eth0'')"
  "ParseAddr ''1::2::3'' = None"
  "ParseAddr ''1:2:3:4:5:6:7'' = None"
  "ParseAddr ''1:2:3:4:5:6:7::'' = Some (V6 0x00010002000300040005000600070000 '''')"
  "ParseAddr ''1:2:3:4:5:6:7:8:'' = None"
  "ParseIP ''::1%lo'' = None"
  by code_simp+

lemma ParseAddr_needs_mark:
  assumes "CHR ''.'' \<notin> set s" "CHR '':'' \<notin> set s"
  shows "ParseAddr s = None"
proof -
  have "ParseAddr_from s t = None" if "set t \<subseteq> set s" for t
    using that assms by (induction t) auto
  then show ?thesis by (simp add: ParseAddr_def)
qed

end
