(* ===== verification/ValidHostname.thy ===== *)
theory ValidHostname
  imports HostName NetIp
begin

section \<open>Registered hostnames and their challenge\<close>

text \<open>
  internal/domain/hostname.go and verification.go: what a hostname must look like to be registered,
  the form it is stored in, and the TXT record that proves control of it. The refusals are the
  codes of the field errors. \<open>NewVerificationToken\<close> takes its sixteen random bytes as an argument.
\<close>

subsection \<open>ValidateHostname\<close>

definition MaxHostnameLength :: nat where "MaxHostnameLength = 253"
definition MaxLabelLength :: nat where "MaxLabelLength = 63"
definition MaxDomainsPerWorkspace :: nat where "MaxDomainsPerWorkspace = 25"

datatype hostname_error = HostRequired | LooksLikeURL | HostTooLong | IsAnIP | OneLabel | BadLabel string | BadTLD

definition ldh :: "char \<Rightarrow> bool" where
  "ldh c \<longleftrightarrow> 97 \<le> code c \<and> code c \<le> 122 \<or> 48 \<le> code c \<and> code c \<le> 57 \<or> c = CHR ''-''"

definition validLabel :: "string \<Rightarrow> bool" where
  "validLabel label \<longleftrightarrow>
     label \<noteq> '''' \<and> length label \<le> MaxLabelLength \<and> hd label \<noteq> CHR ''-'' \<and> last label \<noteq> CHR ''-''
     \<and> list_all ldh label"

definition allLetters :: "string \<Rightarrow> bool" where
  "allLetters s \<longleftrightarrow> s \<noteq> '''' \<and> list_all (\<lambda>c. 97 \<le> code c \<and> code c \<le> 122) s"

definition ValidateHostname :: "string \<Rightarrow> hostname_error + string" where
  "ValidateHostname raw =
     (let host = trim_suffix ''.'' (to_lower (trim_space raw)) in
      if host = '''' then Inl HostRequired
      else if contains_sub host ''://'' \<or> list_ex (\<lambda>c. c \<in> set ''/?#@ '') host then Inl LooksLikeURL
      else if length host > MaxHostnameLength then Inl HostTooLong
      else if ParseIP host \<noteq> None then Inl IsAnIP
      else let labels = split_on (CHR ''.'') host in
           if length labels < 2 then Inl OneLabel
           else case find (\<lambda>l. \<not> validLabel l) labels of
                  Some l \<Rightarrow> Inl (BadLabel l)
                | None \<Rightarrow> if \<not> allLetters (last labels) then Inl BadTLD else Inr host)"

subsection \<open>The challenge\<close>

definition ChallengeLabel :: string where
  "ChallengeLabel = ''_linkctrl-challenge''"

definition ChallengeRecordName :: "string \<Rightarrow> string" where
  "ChallengeRecordName hostname = ChallengeLabel @ ''.'' @ to_lower (trim_suffix ''.'' hostname)"

definition NewVerificationToken :: "char list \<Rightarrow> string" where
  "NewVerificationToken random = concat (map (\<lambda>b. [''0123456789abcdef'' ! (code b div 16), ''0123456789abcdef'' ! (code b mod 16)]) random)"

definition ChallengeSatisfied :: "string \<Rightarrow> string list \<Rightarrow> bool" where
  "ChallengeSatisfied token records \<longleftrightarrow> token \<noteq> '''' \<and> list_ex (\<lambda>r. trim_space r = token) records"

subsection \<open>The stored form\<close>

text \<open>What a stored hostname is: at least two labels of letters, digits and hyphens, the last of
  letters only, within the length of a domain name.\<close>

definition stored_hostname :: "string \<Rightarrow> bool" where
  "stored_hostname h \<longleftrightarrow>
     length h \<le> MaxHostnameLength \<and> 2 \<le> length (split_on (CHR ''.'') h)
     \<and> list_all validLabel (split_on (CHR ''.'') h) \<and> allLetters (last (split_on (CHR ''.'') h))"

lemma join_split_on: "set s \<subseteq> insert c (\<Union> (set ` set (split_on c s)))"
proof (induction s)
  case (Cons x xs)
  obtain f fs where f: "split_on c xs = f # fs" by (metis list.exhaust split_on_ne)
  with Cons show ?case by auto
qed simp

lemma ldh_char:
  assumes "ldh c"
  shows "plain_char c" "ascii_lower c = c" "c \<noteq> CHR ''/''" "c \<noteq> CHR ''?''" "c \<noteq> CHR ''#''" "c \<noteq> CHR ''@''"
    "c \<noteq> CHR '' ''" "c \<noteq> CHR ''.''" "c \<noteq> CHR '':''" "c \<noteq> CHR ''%''"
  using assms by (auto simp: ldh_def plain_char_code ascii_lower_def) (auto simp: code_def)

lemma dot_char: "plain_char (CHR ''.'')" "ascii_lower (CHR ''.'') = CHR ''.''"
  by (simp_all add: plain_char_code ascii_lower_def code_def)

lemma stored_chars:
  assumes "stored_hostname h"
  shows "list_all (\<lambda>c. ldh c \<or> c = CHR ''.'') h"
  using assms join_split_on [of h "CHR ''.''"]
  by (fastforce simp: stored_hostname_def validLabel_def list_all_iff)

lemma split_on_last_append: "split_on c (s @ [c]) = split_on c s @ [[]]"
  by (induction s) (auto split: list.split)

lemma stored_plain:
  assumes "stored_hostname h"
  shows "plain_name h" "map ascii_lower h = h" "h \<noteq> ''''"
proof -
  note ch = stored_chars [OF assms]
  have "list_all plain_char h"
    using ch ldh_char(1) dot_char(1) by (auto simp: list_all_iff)
  moreover have "\<not> suffix ''.'' h"
  proof
    assume "suffix ''.'' h"
    then obtain t where "h = t @ ''.''" by (auto simp: suffix_def)
    then have "[] \<in> set (split_on (CHR ''.'') h)" by (simp add: split_on_last_append)
    with assms show False by (auto simp: stored_hostname_def validLabel_def list_all_iff)
  qed
  ultimately show "plain_name h" by (simp add: plain_name_def)
  show "map ascii_lower h = h"
    using ch ldh_char(2) dot_char(2) by (intro map_idI) (auto simp: list_all_iff)
  show "h \<noteq> ''''" using assms by (auto simp: stored_hostname_def)
qed

lemma find_None_list_all: "find (\<lambda>x. \<not> P x) xs = None \<longleftrightarrow> list_all P xs"
  by (auto simp: find_None_iff list_all_iff)

lemma ValidateHostname_stored:
  assumes "ValidateHostname raw = Inr h"
  shows "stored_hostname h" "ParseIP h = None" "h = trim_suffix ''.'' (to_lower (trim_space raw))"
  using assms
  by (auto simp: ValidateHostname_def stored_hostname_def Let_def find_None_list_all split: if_splits option.splits)

lemma contains_sub_subset: "contains_sub s p \<Longrightarrow> set p \<subseteq> set s"
  by (auto simp: contains_sub_iff dest: set_mono_sublist)

lemma accepted_form:
  assumes "ValidateHostname raw = Inr h"
  shows "ValidateHostname h = Inr h" "HostOnly h = h" "ChallengeRecordName h = ChallengeLabel @ ''.'' @ h"
    "ChallengeRecordName other \<noteq> h"
proof -
  note st = ValidateHostname_stored [OF assms]
  note pl = stored_plain [OF st(1)]
  note ch = stored_chars [OF st(1)]
  have pc: "list_all plain_char h" and nd: "\<not> suffix ''.'' h" using pl(1) by (simp_all add: plain_name_def)
  note clean = plain_charD [OF pc]
  have lower: "to_lower h = h" using to_lower_ascii [OF clean(4)] pl(2) by simp
  have "\<not> contains_sub h ''://''" using contains_sub_subset [of h "''://''"] clean(1) by auto
  moreover have "\<not> list_ex (\<lambda>c. c \<in> set ''/?#@ '') h"
    using ch by (auto simp: list_ex_iff list_all_iff ldh_def code_def)
  moreover have "find (\<lambda>l. \<not> validLabel l) (split_on (CHR ''.'') h) = None"
    using st(1) by (simp add: find_None_list_all stored_hostname_def)
  ultimately show "ValidateHostname h = Inr h"
    using st(1,2) pl(3) by (simp add: ValidateHostname_def clean(5) lower trim_dot(1) [OF nd] stored_hostname_def Let_def)
  show "HostOnly h = h" using HostOnly_spelled [of h None False] pl pc by (simp add: spelled_def)
  show "ChallengeRecordName h = ChallengeLabel @ ''.'' @ h"
    by (simp add: ChallengeRecordName_def trim_dot(1) [OF nd] lower)
  show "ChallengeRecordName other \<noteq> h"
  proof
    assume "ChallengeRecordName other = h"
    then have "CHR ''_'' \<in> set h" by (auto simp: ChallengeRecordName_def ChallengeLabel_def)
    with ch show False by (auto simp: list_all_iff ldh_def code_def)
  qed
qed

text \<open>C37. A hostname that is accepted is stored in one form: lower-case labels of letters, digits and
  hyphens within the bounds of DNS, at least two of them, the last alphabetic, and not an IP
  address. Accepting the stored form again gives it back unchanged, the host cache files it under
  itself, and no registered hostname is the place another one's challenge is published at.\<close>

theorem ValidateHostname_canonical:
  assumes "ValidateHostname raw = Inr h"
  shows "stored_hostname h \<and> ParseIP h = None \<and> ValidateHostname h = Inr h \<and> HostOnly h = h
     \<and> ChallengeRecordName h = ChallengeLabel @ ''.'' @ h
     \<and> (\<forall>other. ChallengeRecordName other \<noteq> h)"
  using ValidateHostname_stored [OF assms] accepted_form [OF assms] by simp

theorem ValidateHostname_canonical_witness:
  "ValidateHostname '' Go.Example.COM. '' = Inr ''go.example.com'' \<and> HostOnly ''go.example.com'' = ''go.example.com''"
proof -
  have "ValidateHostname '' Go.Example.COM. '' = Inr ''go.example.com''" by code_simp
  with ValidateHostname_canonical [OF this] show ?thesis by simp
qed

lemma hostname_refusals:
  "ValidateHostname ''https://example.com'' = Inl LooksLikeURL"
  "ValidateHostname ''192.0.2.1'' = Inl IsAnIP"
  "ValidateHostname ''localhost'' = Inl OneLabel"
  "ValidateHostname ''a..com'' = Inl (BadLabel '''')"
  "ValidateHostname ''example.c0m'' = Inl BadTLD"
  by code_simp+

end
