(* ===== verification/Domains.thy ===== *)
theory Domains
  imports HostRouter ValidHostname Folder_Service
begin

section \<open>Custom domains: registration and verification\<close>

text \<open>
  internal/link/domains.go and verification.go over the statements of store/query/domains.sql and
  the constraints of the \<open>domains\<close> table (migrations 00300, 02500 and 02600).

  Nothing here runs in a transaction: an operation reads, may wait for a nameserver, and writes, and
  other requests run in between. An operation is therefore a function of the tables its reads saw
  and of the table its write meets; \<open>Domains_Correct\<close> runs them against any earlier tables. A write
  may fail before or after it takes effect (\<open>write_fate\<close>). The clock of the database is \<open>now\<close>;
  \<open>lower\<close> is its \<open>lower\<close>. Identifiers and tokens are drawn by the caller. A reason is a constructor
  in place of its sentence; log lines are left out.
\<close>

subsection \<open>The table\<close>

text \<open>What the last failed check said.\<close>

datatype reason = NoToken | NoRecordAt string | LookupIncomplete string | NoMatchAt string

record domain = domain_row +
  do_organization_id :: "uuid option"
  do_workspace_id :: "uuid option"
  do_verification_token :: "string option"
  do_checked_at :: "instant option"
  do_failing_since :: "instant option"
  do_error :: "reason option"
  do_block_bots :: bool
  do_block_bots_enforced :: bool
  do_created_at :: instant
  do_updated_at :: instant

type_synonym domains = "domain list"

definition live :: "domain \<Rightarrow> bool" where
  "live r \<longleftrightarrow> do_deleted_at r = None"

text \<open>\<open>domains_hostname_key\<close>: one live row per lowered name.\<close>

definition hostname_held :: "(string \<Rightarrow> string) \<Rightarrow> string \<Rightarrow> domains \<Rightarrow> bool" where
  "hostname_held lower h t \<longleftrightarrow> list_ex (\<lambda>r. live r \<and> lower (do_hostname r) = lower h) t"

text \<open>An \<open>UPDATE ... RETURNING *\<close> of the rows a condition selects; identifiers are unique, so it
  returns one row or none.\<close>

definition update_rows :: "(domain \<Rightarrow> bool) \<Rightarrow> (domain \<Rightarrow> domain) \<Rightarrow> domains \<Rightarrow> domain option \<times> domains" where
  "update_rows P f t = (map_option f (find P t), map (\<lambda>r. if P r then f r else r) t)"

definition GetDomainByID :: "uuid \<Rightarrow> domains \<Rightarrow> domain option" where
  "GetDomainByID i t = find (\<lambda>r. do_id r = i \<and> live r) t"

definition GetDomainByHostname :: "(string \<Rightarrow> string) \<Rightarrow> string \<Rightarrow> domains \<Rightarrow> domain option" where
  "GetDomainByHostname lower h t = find (\<lambda>r. lower (do_hostname r) = lower h \<and> live r) t"

definition CountWorkspaceDomains :: "uuid \<Rightarrow> domains \<Rightarrow> nat" where
  "CountWorkspaceDomains ws t = length (filter (\<lambda>r. do_workspace_id r = Some ws \<and> live r) t)"

definition ListDomains :: "pg_text \<Rightarrow> uuid \<Rightarrow> uuid \<Rightarrow> domains \<Rightarrow> domains" where
  "ListDomains pg org ws t =
     sort_key (\<lambda>r. (\<not> do_is_default r, pg_collate pg (pg_lower pg (do_hostname r)), do_id r))
       (filter (\<lambda>r. live r \<and>
          (do_organization_id r = None \<and> do_workspace_id r = None
           \<or> do_organization_id r = Some org \<and> do_workspace_id r = None
           \<or> do_workspace_id r = Some ws)) t)"

text \<open>The bot policy of the instance default, which a registration inherits.\<close>

definition default_of :: "(domain \<Rightarrow> bool) \<Rightarrow> domains \<Rightarrow> bool" where
  "default_of f t = (case find (\<lambda>r. do_is_default r \<and> live r) t of Some r \<Rightarrow> f r | None \<Rightarrow> False)"

definition new_domain :: "uuid \<Rightarrow> uuid \<Rightarrow> uuid \<Rightarrow> string \<Rightarrow> string \<Rightarrow> instant \<Rightarrow> domains \<Rightarrow> domain" where
  "new_domain i org ws h token now t =
     \<lparr>do_id = i, do_hostname = h, do_root_redirect_url = None, do_ssl_status = sslStatusNone,
      do_verified_at = None, do_deleted_at = None, do_is_default = False,
      do_organization_id = Some org, do_workspace_id = Some ws, do_verification_token = Some token,
      do_checked_at = None, do_failing_since = None, do_error = None,
      do_block_bots = default_of do_block_bots t, do_block_bots_enforced = default_of do_block_bots_enforced t,
      do_created_at = now, do_updated_at = now\<rparr>"

text \<open>\<open>CreateDomain\<close> and \<open>RenameDomain\<close> meet the unique index: \<open>None\<close> is its violation.\<close>

definition CreateDomain :: "(string \<Rightarrow> string) \<Rightarrow> domain \<Rightarrow> domains \<Rightarrow> (domain \<times> domains) option" where
  "CreateDomain lower r t =
     (if list_ex (\<lambda>x. do_id x = do_id r) t \<or> hostname_held lower (do_hostname r) t then None else Some (r, t @ [r]))"

definition renamed :: "string \<Rightarrow> string \<Rightarrow> instant \<Rightarrow> domain \<Rightarrow> domain" where
  "renamed h token now r =
     r\<lparr>do_hostname := h, do_verification_token := Some token, do_verified_at := None,
       do_ssl_status := sslStatusNone, do_checked_at := None, do_failing_since := None,
       do_error := None, do_updated_at := now\<rparr>"

definition RenameDomain_row :: "(string \<Rightarrow> string) \<Rightarrow> uuid \<Rightarrow> string \<Rightarrow> string \<Rightarrow> instant \<Rightarrow> domains
    \<Rightarrow> (domain option \<times> domains) option" where
  "RenameDomain_row lower i h token now t =
     (if list_ex (\<lambda>r. do_id r = i \<and> live r) t
         \<and> hostname_held lower h (filter (\<lambda>r. do_id r \<noteq> i) t) then None
      else Some (update_rows (\<lambda>r. do_id r = i \<and> live r) (renamed h token now) t))"

definition SoftDeleteDomain :: "uuid \<Rightarrow> instant \<Rightarrow> domains \<Rightarrow> domain option \<times> domains" where
  "SoftDeleteDomain i now t =
     update_rows (\<lambda>r. do_id r = i \<and> live r) (\<lambda>r. r\<lparr>do_deleted_at := Some now, do_updated_at := now\<rparr>) t"

text \<open>The two writes of a check name what the check was made against.\<close>

definition checked_row :: "uuid \<Rightarrow> string \<Rightarrow> string option \<Rightarrow> domain \<Rightarrow> bool" where
  "checked_row i h token r \<longleftrightarrow>
     do_id r = i \<and> do_hostname r = h \<and> token \<noteq> None \<and> do_verification_token r = token \<and> live r"

definition verified_row :: "instant \<Rightarrow> domain \<Rightarrow> domain" where
  "verified_row now r =
     r\<lparr>do_verified_at := (case do_verified_at r of None \<Rightarrow> Some now | v \<Rightarrow> v),
       do_ssl_status := (if do_ssl_status r = sslStatusNone then sslStatusPending else do_ssl_status r),
       do_checked_at := Some now, do_failing_since := None, do_error := None, do_updated_at := now\<rparr>"

definition MarkDomainVerified :: "uuid \<Rightarrow> string \<Rightarrow> string option \<Rightarrow> instant \<Rightarrow> domains \<Rightarrow> domain option \<times> domains" where
  "MarkDomainVerified i h token now t = update_rows (checked_row i h token) (verified_row now) t"

definition failed_row :: "reason \<Rightarrow> instant \<Rightarrow> domain \<Rightarrow> domain" where
  "failed_row reason now r =
     r\<lparr>do_checked_at := Some now,
       do_failing_since := (case do_failing_since r of None \<Rightarrow> Some now | s \<Rightarrow> s),
       do_error := Some reason, do_updated_at := now\<rparr>"

definition MarkDomainVerificationFailed ::
    "uuid \<Rightarrow> string \<Rightarrow> string option \<Rightarrow> reason \<Rightarrow> instant \<Rightarrow> domains \<Rightarrow> domain option \<times> domains" where
  "MarkDomainVerificationFailed i h token reason now t =
     update_rows (checked_row i h token) (failed_row reason now) t"

definition unverified_row :: "reason \<Rightarrow> instant \<Rightarrow> domain \<Rightarrow> domain" where
  "unverified_row reason now r =
     r\<lparr>do_verified_at := None, do_ssl_status := sslStatusNone, do_error := Some reason, do_updated_at := now\<rparr>"

definition UnverifyDomain :: "uuid \<Rightarrow> reason \<Rightarrow> instant \<Rightarrow> domains \<Rightarrow> domain option \<times> domains" where
  "UnverifyDomain i reason now t =
     update_rows (\<lambda>r. do_id r = i \<and> do_verified_at r \<noteq> None \<and> live r) (unverified_row reason now) t"

definition SetDomainRootRedirect_row :: "uuid \<Rightarrow> string option \<Rightarrow> instant \<Rightarrow> domains \<Rightarrow> domain option \<times> domains" where
  "SetDomainRootRedirect_row i url now t =
     update_rows (\<lambda>r. do_id r = i \<and> live r) (\<lambda>r. r\<lparr>do_root_redirect_url := url, do_updated_at := now\<rparr>) t"

text \<open>The two draws of the work list, oldest check first.\<close>

definition due_key :: "domain \<Rightarrow> bool \<times> instant \<times> uuid" where
  "due_key r = (do_checked_at r \<noteq> None, (case do_checked_at r of None \<Rightarrow> 0 | Some c \<Rightarrow> c), do_id r)"

definition due :: "bool \<Rightarrow> domain \<Rightarrow> bool" where
  "due serving r \<longleftrightarrow> live r \<and> \<not> do_is_default r \<and> do_verification_token r \<noteq> None
     \<and> (do_verified_at r \<noteq> None) = serving"

definition ListServingDomainsForVerification :: "nat \<Rightarrow> domains \<Rightarrow> domains" where
  "ListServingDomainsForVerification limit t = take limit (sort_key due_key (filter (due True) t))"

definition ListPendingDomainsForVerification :: "nat \<Rightarrow> domains \<Rightarrow> domains" where
  "ListPendingDomainsForVerification limit t = take limit (sort_key due_key (filter (due False) t))"

text \<open>A write with its fate: what the caller learns (\<open>None\<close> is an error that is not a constraint's),
  and the table.\<close>

definition with_fate :: "write_fate \<Rightarrow> 'a \<times> domains \<Rightarrow> domains \<Rightarrow> 'a option \<times> domains" where
  "with_fate fate result t =
     (case fate of
        WriteDone \<Rightarrow> (Some (fst result), snd result)
      | WriteRefused \<Rightarrow> (None, t)
      | WriteUnanswered \<Rightarrow> (None, snd result))"

subsection \<open>Who may\<close>

record actor =
  da_identity :: identity
  da_org :: uuid

definition PermDomainsWrite :: string where "PermDomainsWrite = ''domains.write''"
definition PermDomainsWriteInstance :: string where "PermDomainsWriteInstance = ''domains.write.instance''"

datatype domain_scope = ScopeInstance | ScopeOrganization | ScopeWorkspace

definition domainScope :: "uuid option \<Rightarrow> uuid option \<Rightarrow> domain_scope" where
  "domainScope org ws =
     (if ws \<noteq> None then ScopeWorkspace else if org \<noteq> None then ScopeOrganization else ScopeInstance)"

definition canAdminister :: "actor \<Rightarrow> uuid option \<Rightarrow> uuid option \<Rightarrow> bool" where
  "canAdminister a org ws =
     (if org = None \<and> ws = None then Can (Some (da_identity a)) PermDomainsWriteInstance
      else if \<not> Can (Some (da_identity a)) PermDomainsWrite then False
      else case ws of Some w \<Rightarrow> w = id_workspace (da_identity a) | None \<Rightarrow> org = Some (da_org a))"

text \<open>How much of the grace window is left, as the refusal of a check on a serving hostname says it.\<close>

datatype still_served = NoAnchor | RanOut instant | StopsAt instant

datatype domain_error =
    DomainForbidden | DomainNotFound | DomainUnavailable | DomainFailed
  | BadHostname hostname_error
  | DomainRefused string string \<comment> \<open>field and code\<close>
  | DomainUnverified "still_served option" reason

text \<open>The row is read from \<open>seen\<close>, the table at the time of the read; \<open>None\<close> is a failed read.\<close>

definition domainForWrite :: "actor \<Rightarrow> uuid \<Rightarrow> domains option \<Rightarrow> domain_error + domain" where
  "domainForWrite a i seen =
     (case map_option (GetDomainByID i) seen of
        None \<Rightarrow> Inl DomainFailed
      | Some None \<Rightarrow> Inl DomainNotFound
      | Some (Some r) \<Rightarrow>
          if do_is_default r then Inl (DomainRefused ''hostname'' ''instance_default'')
          else if \<not> canAdminister a (do_organization_id r) (do_workspace_id r) then Inl DomainForbidden
          else Inr r)"

subsection \<open>What a caller sees\<close>

definition DefaultVerifyGrace :: duration where
  "DefaultVerifyGrace = 24 * 60 * minute_ns"

definition verifyGrace :: "duration \<Rightarrow> duration" where
  "verifyGrace configured = (if configured \<le> 0 then DefaultVerifyGrace else configured)"

record verification_view =
  vv_name :: string
  vv_data :: string
  vv_checked_at :: "instant option"
  vv_failing_since :: "instant option"
  vv_stops_at :: "instant option"
  vv_error :: "reason option"

definition verificationOf :: "duration \<Rightarrow> domain \<Rightarrow> verification_view option" where
  "verificationOf grace r =
     (case do_verification_token r of
        None \<Rightarrow> None
      | Some token \<Rightarrow>
          if do_is_default r then None
          else Some \<lparr>vv_name = ChallengeRecordName (do_hostname r), vv_data = token,
                     vv_checked_at = do_checked_at r, vv_failing_since = do_failing_since r,
                     vv_stops_at =
                       (case (do_failing_since r, do_verified_at r) of
                          (Some since, Some _) \<Rightarrow> Some (since + verifyGrace grace)
                        | _ \<Rightarrow> None),
                     vv_error = do_error r\<rparr>)"

record domain_view =
  dv_id :: uuid
  dv_hostname :: string
  dv_scope :: domain_scope
  dv_is_default :: bool
  dv_verified :: bool
  dv_verified_at :: "instant option"
  dv_ssl_status :: string
  dv_root_redirect_url :: string
  dv_verification :: "verification_view option"
  dv_link_count :: nat
  dv_manageable :: bool
  dv_created_at :: instant
  dv_updated_at :: instant

definition deref :: "string option \<Rightarrow> string" where
  "deref p = (case p of None \<Rightarrow> [] | Some s \<Rightarrow> s)"

definition domainFromRow :: "duration \<Rightarrow> domain \<Rightarrow> nat \<Rightarrow> bool \<Rightarrow> domain_view" where
  "domainFromRow grace r links manageable =
     \<lparr>dv_id = do_id r, dv_hostname = do_hostname r,
      dv_scope = domainScope (do_organization_id r) (do_workspace_id r),
      dv_is_default = do_is_default r,
      dv_verified = (do_verified_at r \<noteq> None), dv_verified_at = do_verified_at r, dv_ssl_status = do_ssl_status r,
      dv_root_redirect_url = deref (do_root_redirect_url r),
      dv_verification = verificationOf grace r, dv_link_count = links,
      dv_manageable = (manageable \<and> \<not> do_is_default r),
      dv_created_at = do_created_at r, dv_updated_at = do_updated_at r\<rparr>"

definition Domains :: "pg_text \<Rightarrow> duration \<Rightarrow> actor \<Rightarrow> (uuid \<Rightarrow> nat) \<Rightarrow> domains option \<Rightarrow> domain_error + domain_view list" where
  "Domains pg grace a links read =
     (if \<not> Can (Some (da_identity a)) PermRead then Inl DomainForbidden
      else case read of
             None \<Rightarrow> Inl DomainFailed
           | Some t \<Rightarrow>
               Inr (map (\<lambda>r. domainFromRow grace r (links (do_id r))
                         (canAdminister a (do_organization_id r) (do_workspace_id r)))
                      (ListDomains pg (da_org a) (id_workspace (da_identity a)) t)))"

subsection \<open>Registering, renaming, removing\<close>

text \<open>What an operation leaves outside the table: audit records, warnings, and the broadcast that makes
  every replica reload its hostname cache.\<close>

datatype domain_event =
    EvCreated uuid string | EvRenamed uuid string string | EvDeleted uuid string
  | EvVerified uuid string | EvUnverified uuid string instant reason | EvRootRedirect uuid string string string
  | WarnFailing uuid string instant | WarnUnverified uuid string
  | HostsInvalidated

type_synonym 'a domain_result = "(domain_error + 'a) \<times> domain_event list \<times> domains"

definition refused :: "domain_error \<Rightarrow> domains \<Rightarrow> 'a domain_result" where
  "refused e t = (Inl e, [], t)"

text \<open>The answer an operation ends with once its write is done: the links are counted for it, which
  can still fail.\<close>

definition answer_with :: "duration \<Rightarrow> nat option \<Rightarrow> domain \<Rightarrow> domain_event list \<Rightarrow> domains \<Rightarrow> domain_view domain_result" where
  "answer_with grace links r evs t =
     (case links of
        None \<Rightarrow> (Inl DomainFailed, evs, t)
      | Some n \<Rightarrow> (Inr (domainFromRow grace r n True), evs, t))"

text \<open>\<open>RegisterDomain\<close>: \<open>counted\<close> and \<open>taken\<close> are what its two reads answered, \<open>None\<close> a failed read.\<close>

definition RegisterDomain :: "pg_text \<Rightarrow> duration \<Rightarrow> uuid \<Rightarrow> string \<Rightarrow> instant \<Rightarrow> actor \<Rightarrow> string
    \<Rightarrow> nat option \<Rightarrow> bool option \<Rightarrow> write_fate \<Rightarrow> domains \<Rightarrow> domain_view domain_result" where
  "RegisterDomain pg grace i token now a raw counted taken fate t =
     (if \<not> Can (Some (da_identity a)) PermDomainsWrite then refused DomainForbidden t
      else case ValidateHostname raw of
        Inl e \<Rightarrow> refused (BadHostname e) t
      | Inr h \<Rightarrow>
          (case counted of
             None \<Rightarrow> refused DomainFailed t
           | Some n \<Rightarrow>
               if MaxDomainsPerWorkspace \<le> n then refused (DomainRefused ''hostname'' ''too_many'') t
               else (case taken of
                       None \<Rightarrow> refused DomainFailed t
                     | Some True \<Rightarrow> refused (DomainRefused ''hostname'' ''conflict'') t
                     | Some False \<Rightarrow>
                         let r = new_domain i (da_org a) (id_workspace (da_identity a)) h token now t in
                         (case CreateDomain (pg_lower pg) r t of
                            None \<Rightarrow> refused (DomainRefused ''hostname'' ''conflict'') t
                          | Some written \<Rightarrow>
                              (case with_fate fate written t of
                                 (None, t) \<Rightarrow> refused DomainFailed t
                               | (Some r, t) \<Rightarrow>
                                   (Inr (domainFromRow grace r 0 True), [EvCreated (do_id r) (do_hostname r)], t))))))"

text \<open>\<open>RenameDomain\<close>: the row was read from \<open>seen\<close>.\<close>

definition RenameDomain :: "pg_text \<Rightarrow> duration \<Rightarrow> string \<Rightarrow> instant \<Rightarrow> actor \<Rightarrow> uuid \<Rightarrow> string
    \<Rightarrow> domains option \<Rightarrow> bool option \<Rightarrow> write_fate \<Rightarrow> nat option \<Rightarrow> domains \<Rightarrow> domain_view domain_result" where
  "RenameDomain pg grace token now a i raw seen taken fate links t =
     (case domainForWrite a i seen of
        Inl e \<Rightarrow> refused e t
      | Inr current \<Rightarrow>
          (case ValidateHostname raw of
             Inl e \<Rightarrow> refused (BadHostname e) t
           | Inr h \<Rightarrow>
               (case (if h \<noteq> do_hostname current then taken else Some False) of
                  None \<Rightarrow> refused DomainFailed t
                | Some True \<Rightarrow> refused (DomainRefused ''hostname'' ''conflict'') t
                | Some False \<Rightarrow>
                    (case RenameDomain_row (pg_lower pg) i h token now t of
                       None \<Rightarrow> refused (DomainRefused ''hostname'' ''conflict'') t
                     | Some written \<Rightarrow>
                         (case with_fate fate written t of
                            (None, t) \<Rightarrow> refused DomainFailed t
                          | (Some None, t) \<Rightarrow> refused DomainNotFound t
                          | (Some (Some r), t) \<Rightarrow>
                              answer_with grace links r
                                [EvRenamed (do_id r) (do_hostname current) (do_hostname r), HostsInvalidated] t)))))"

definition DeleteDomain :: "instant \<Rightarrow> actor \<Rightarrow> uuid \<Rightarrow> domains option \<Rightarrow> nat option
    \<Rightarrow> write_fate \<Rightarrow> domains \<Rightarrow> unit domain_result" where
  "DeleteDomain now a i seen links fate t =
     (case domainForWrite a i seen of
        Inl e \<Rightarrow> refused e t
      | Inr current \<Rightarrow>
          (case links of
             None \<Rightarrow> refused DomainFailed t
           | Some n \<Rightarrow>
               if 0 < n then refused (DomainRefused ''hostname'' ''in_use'') t
               else (case with_fate fate (SoftDeleteDomain i now t) t of
                       (None, t) \<Rightarrow> refused DomainFailed t
                     | (Some None, t) \<Rightarrow> refused DomainNotFound t
                     | (Some (Some r), t) \<Rightarrow>
                         (Inr (), [EvDeleted i (do_hostname current), HostsInvalidated], t))))"

text \<open>\<open>SetDomainRootRedirect\<close> of domain_settings.go; \<open>check\<close> is the validation of a destination.\<close>

definition SetDomainRootRedirect :: "duration \<Rightarrow> (string \<Rightarrow> domain_error + string) \<Rightarrow> instant \<Rightarrow> actor \<Rightarrow> uuid \<Rightarrow> string
    \<Rightarrow> domains option \<Rightarrow> write_fate \<Rightarrow> nat option \<Rightarrow> domains \<Rightarrow> domain_view domain_result" where
  "SetDomainRootRedirect grace check now a i raw seen fate links t =
     (case domainForWrite a i seen of
        Inl e \<Rightarrow> refused e t
      | Inr row \<Rightarrow>
          if do_verified_at row = None then refused (DomainRefused ''root_redirect_url'' ''unverified'') t
          else (case (if trim_space raw = [] then Inr None else map_sum id Some (check (trim_space raw))) of
                  Inl e \<Rightarrow> refused e t
                | Inr url \<Rightarrow>
                    (case with_fate fate (SetDomainRootRedirect_row i url now t) t of
                       (Some (Some r), t) \<Rightarrow> answer_with grace links r
                           [EvRootRedirect (do_id r) (do_hostname r) (deref (do_root_redirect_url row)) (deref (do_root_redirect_url r)),
                            HostsInvalidated] t
                     | (_, t) \<Rightarrow> refused DomainFailed t)))"

text \<open>Three writes from elsewhere: Caddy's question, and of links.sql the bot policy of the instance and
  the root redirect of its default domain.\<close>

definition MarkDomainTLSActive_row :: "uuid \<Rightarrow> instant \<Rightarrow> domains \<Rightarrow> domains" where
  "MarkDomainTLSActive_row i now t =
     map (\<lambda>r. if do_id r = i \<and> do_ssl_status r = sslStatusPending \<and> live r
              then r\<lparr>do_ssl_status := sslStatusActive, do_updated_at := now\<rparr> else r) t"

definition SetBotBlockingForEveryDomain :: "bool \<Rightarrow> bool \<Rightarrow> instant \<Rightarrow> domains \<Rightarrow> domains" where
  "SetBotBlockingForEveryDomain block enforced now t =
     map (\<lambda>r. if live r
              then r\<lparr>do_block_bots := block, do_block_bots_enforced := enforced, do_updated_at := now\<rparr> else r) t"

definition SetDefaultDomainRootRedirect :: "string option \<Rightarrow> instant \<Rightarrow> domains \<Rightarrow> domains" where
  "SetDefaultDomainRootRedirect url now t =
     map (\<lambda>r. if do_is_default r \<and> live r then r\<lparr>do_root_redirect_url := url, do_updated_at := now\<rparr> else r) t"

subsection \<open>The check\<close>

text \<open>What a nameserver answers to a question for TXT records. An error may carry the two methods
  of \<open>net.Error\<close>: a miss is neither a timeout nor temporary.\<close>

datatype lookup_error = NetError bool bool | OtherError
datatype txt_answer = TXT "string list" | LookupError lookup_error

type_synonym nameserver = "string \<Rightarrow> txt_answer"

definition notFound :: "lookup_error \<Rightarrow> bool" where
  "notFound e = (case e of NetError timeout temporary \<Rightarrow> \<not> timeout \<and> \<not> temporary | OtherError \<Rightarrow> False)"

text \<open>\<open>None\<close> is a check that passed.\<close>

definition checkChallenge :: "domain \<Rightarrow> nameserver \<Rightarrow> reason option" where
  "checkChallenge r lookup =
     (let name = ChallengeRecordName (do_hostname r) in
      if deref (do_verification_token r) = [] then Some NoToken
      else case lookup name of
             LookupError e \<Rightarrow> Some (if notFound e then NoRecordAt name else LookupIncomplete name)
           | TXT records \<Rightarrow>
               if ChallengeSatisfied (deref (do_verification_token r)) records then None
               else Some (NoMatchAt name))"

definition verifiedWrite :: "domain \<Rightarrow> instant \<Rightarrow> domains \<Rightarrow> domain option \<times> domains" where
  "verifiedWrite r = MarkDomainVerified (do_id r) (do_hostname r) (do_verification_token r)"

definition failedWrite :: "domain \<Rightarrow> reason \<Rightarrow> instant \<Rightarrow> domains \<Rightarrow> domain option \<times> domains" where
  "failedWrite r = MarkDomainVerificationFailed (do_id r) (do_hostname r) (do_verification_token r)"

definition newlyVerified :: "domain \<Rightarrow> bool" where
  "newlyVerified r \<longleftrightarrow> do_verified_at r = Some (do_updated_at r)"

definition stillServedFor :: "domain \<Rightarrow> duration \<Rightarrow> still_served" where
  "stillServedFor failed grace =
     (case do_failing_since failed of
        None \<Rightarrow> NoAnchor
      | Some since \<Rightarrow>
          (case do_checked_at failed of
             Some checked \<Rightarrow> if since + grace \<le> checked then RanOut (since + grace) else StopsAt (since + grace)
           | None \<Rightarrow> StopsAt (since + grace)))"

definition domainChangedUnderCheck :: domain_error where
  "domainChangedUnderCheck = DomainRefused ''hostname'' ''conflict''"

text \<open>\<open>VerifyDomain\<close>: the check now, on demand. \<open>dns\<close> is \<open>None\<close> in a process that has no resolver.\<close>

definition VerifyDomain :: "duration \<Rightarrow> nameserver option \<Rightarrow> instant \<Rightarrow> actor \<Rightarrow> uuid
    \<Rightarrow> domains option \<Rightarrow> write_fate \<Rightarrow> nat option \<Rightarrow> domains \<Rightarrow> domain_view domain_result" where
  "VerifyDomain grace dns now a i seen fate links t =
     (case domainForWrite a i seen of
        Inl e \<Rightarrow> refused e t
      | Inr row \<Rightarrow>
          (case dns of
             None \<Rightarrow> refused DomainUnavailable t
           | Some lookup \<Rightarrow>
               (case checkChallenge row lookup of
                  Some reason \<Rightarrow>
                    (case with_fate fate (failedWrite row reason now t) t of
                       (None, t) \<Rightarrow> refused DomainFailed t
                     | (Some None, t) \<Rightarrow> refused domainChangedUnderCheck t
                     | (Some (Some failed), t) \<Rightarrow>
                         refused (DomainUnverified
                           (if do_verified_at failed \<noteq> None then Some (stillServedFor failed (verifyGrace grace)) else None)
                           reason) t)
                | None \<Rightarrow>
                    (case with_fate fate (verifiedWrite row now t) t of
                       (None, t) \<Rightarrow> refused DomainFailed t
                     | (Some None, t) \<Rightarrow> refused domainChangedUnderCheck t
                     | (Some (Some verified), t) \<Rightarrow>
                         answer_with grace links verified
                           ((if newlyVerified verified then [EvVerified (do_id verified) (do_hostname row)] else [])
                            @ [HostsInvalidated]) t))))"

subsection \<open>The pass of the leader\<close>

definition verificationWorkList :: "nat \<Rightarrow> domains option \<Rightarrow> domains option \<Rightarrow> (uuid \<times> string) list option" where
  "verificationWorkList batch served waiting =
     (case map_option (ListServingDomainsForVerification batch) served of
        None \<Rightarrow> None
      | Some serving \<Rightarrow>
          let targets = map (\<lambda>r. (do_id r, do_hostname r)) in
          if batch \<le> length serving then Some (targets serving)
          else (case map_option (ListPendingDomainsForVerification (batch - length serving)) waiting of
                  None \<Rightarrow> None
                | Some pending \<Rightarrow> Some (targets serving @ targets pending)))"

record check_summary =
  cs_checked :: nat
  cs_verified :: nat
  cs_failing :: nat
  cs_unverified :: nat

definition no_checks :: check_summary where
  "no_checks = \<lparr>cs_checked = 0, cs_verified = 0, cs_failing = 0, cs_unverified = 0\<rparr>"

record pass =
  pa_sum :: check_summary
  pa_changed :: bool
  pa_errors :: nat
  pa_events :: "domain_event list"

definition warnDomainFailing :: "domain \<Rightarrow> instant \<Rightarrow> domain_event list" where
  "warnDomainFailing r stops_at =
     (if do_organization_id r = None then [] else [WarnFailing (do_id r) (do_hostname r) stops_at])"

definition warnDomainUnverified :: "domain \<Rightarrow> domain_event list" where
  "warnDomainUnverified r =
     (if do_organization_id r = None then [] else [WarnUnverified (do_id r) (do_hostname r)])"

text \<open>A visit to one row is two stretches, each ending with a write: what the check concludes, and the
  stop, when the window has run out. Between them other writes may land. \<open>clock\<close> is the \<open>now\<close> of the
  pass; \<open>full\<close> the row as it was re-read.\<close>

datatype visit_end = VisitDone | VisitStops domain reason instant

definition check_visit :: "duration \<Rightarrow> instant \<Rightarrow> nameserver \<Rightarrow> instant \<Rightarrow> uuid \<Rightarrow> domains option \<Rightarrow> write_fate
    \<Rightarrow> domains \<Rightarrow> pass \<Rightarrow> visit_end \<times> pass \<times> domains" where
  "check_visit grace clock lookup now i seen fate t p =
     (let bump = (\<lambda>f p. p\<lparr>pa_sum := f (pa_sum p)\<rparr>);
          failure = (\<lambda>p. p\<lparr>pa_errors := pa_errors p + 1\<rparr>) in
      case map_option (GetDomainByID i) seen of
        None \<Rightarrow> (VisitDone, failure p, t)
      | Some None \<Rightarrow> (VisitDone, p, t)
      | Some (Some full) \<Rightarrow>
          (let p = bump (cs_checked_update Suc) p in
           case checkChallenge full lookup of
             None \<Rightarrow>
               (case with_fate fate (verifiedWrite full now t) t of
                  (None, t) \<Rightarrow> (VisitDone, failure p, t)
                | (Some None, t) \<Rightarrow> (VisitDone, p, t)
                | (Some (Some verified), t) \<Rightarrow>
                    if newlyVerified verified
                    then (VisitDone, (bump (cs_verified_update Suc) p)
                            \<lparr>pa_changed := True,
                             pa_events := pa_events p @ [EvVerified (do_id verified) (do_hostname full)]\<rparr>, t)
                    else if do_failing_since full \<noteq> None then (VisitDone, p\<lparr>pa_changed := True\<rparr>, t)
                    else (VisitDone, p, t))
           | Some reason \<Rightarrow>
               (case with_fate fate (failedWrite full reason now t) t of
                  (None, t) \<Rightarrow> (VisitDone, failure p, t)
                | (Some None, t) \<Rightarrow> (VisitDone, p, t)
                | (Some (Some failed), t) \<Rightarrow>
                    if do_verified_at full = None then (VisitDone, p, t)
                    else
                      (let p = bump (cs_failing_update Suc) p;
                           since = (case do_failing_since failed of None \<Rightarrow> clock | Some s \<Rightarrow> s) in
                       if do_failing_since full = None
                       then (VisitDone, p\<lparr>pa_events := pa_events p @ warnDomainFailing full (since + verifyGrace grace)\<rparr>, t)
                       else if clock - since < verifyGrace grace then (VisitDone, p, t)
                       else (VisitStops full reason since, p, t)))))"

definition stop_visit :: "domain \<Rightarrow> reason \<Rightarrow> instant \<Rightarrow> instant \<Rightarrow> write_fate \<Rightarrow> domains \<Rightarrow> pass \<Rightarrow> pass \<times> domains" where
  "stop_visit full reason since now fate t p =
     (case with_fate fate (UnverifyDomain (do_id full) reason now t) t of
        (Some (Some stopped), t) \<Rightarrow>
          (p\<lparr>pa_sum := (pa_sum p)\<lparr>cs_unverified := cs_unverified (pa_sum p) + 1\<rparr>, pa_changed := True,
             pa_events := pa_events p @ [EvUnverified (do_id stopped) (do_hostname stopped) since reason] @ warnDomainUnverified full\<rparr>, t)
      | (_, t) \<Rightarrow> (p\<lparr>pa_errors := pa_errors p + 1\<rparr>, t))"

text \<open>What surrounds one visit: whether the deadline has passed, what others write before the row is
  read and before each of the two writes, and how nameserver, clock and statements answer.\<close>

record surroundings =
  su_cancelled :: bool
  su_before_read :: "domains \<Rightarrow> domains"
  su_read :: bool \<comment> \<open>the row is read without an error\<close>
  su_lookup :: nameserver
  su_before_write :: "domains \<Rightarrow> domains"
  su_write_at :: instant
  su_write_fate :: write_fate
  su_before_stop :: "domains \<Rightarrow> domains"
  su_stop_at :: instant
  su_stop_fate :: write_fate

fun visits :: "duration \<Rightarrow> instant \<Rightarrow> ((uuid \<times> string) \<times> surroundings) list \<Rightarrow> domains \<Rightarrow> pass \<Rightarrow> pass \<times> domains" where
  "visits grace clock [] t p = (p, t)"
| "visits grace clock ((target, s) # rest) t p =
     (if su_cancelled s then (p, t)
      else
        (let seen = su_before_read s t in
         case check_visit grace clock (su_lookup s) (su_write_at s) (fst target) (if su_read s then Some seen else None)
                (su_write_fate s) (su_before_write s seen) p of
           (VisitDone, p, t) \<Rightarrow> visits grace clock rest t p
         | (VisitStops full reason since, p, t) \<Rightarrow>
             (case stop_visit full reason since (su_stop_at s) (su_stop_fate s) (su_before_stop s t) p of
                (p, t) \<Rightarrow> visits grace clock rest t p)))"

text \<open>\<open>ReverifyDomains\<close>: the two draws see the tables \<open>served\<close> and \<open>waiting\<close>, the visits start at \<open>t\<close>;
  \<open>env\<close> surrounds the visit of each number. One broadcast ends a pass that changed anything.\<close>

definition ReverifyDomains :: "duration \<Rightarrow> bool \<Rightarrow> instant \<Rightarrow> int \<Rightarrow> domains option \<Rightarrow> domains option
    \<Rightarrow> (nat \<Rightarrow> surroundings) \<Rightarrow> domains \<Rightarrow> pass \<times> domains" where
  "ReverifyDomains grace resolves clock batch served waiting env t =
     (let p = \<lparr>pa_sum = no_checks, pa_changed = False, pa_errors = 0, pa_events = []\<rparr> in
      if \<not> resolves then (p, t)
      else case verificationWorkList (if batch \<le> 0 then 200 else nat batch) served waiting of
             None \<Rightarrow> (p\<lparr>pa_errors := 1\<rparr>, t)
           | Some targets \<Rightarrow>
               (case visits grace clock (zip targets (map env [0..<length targets])) t p of
                  (p, t) \<Rightarrow>
                    (if pa_changed p then p\<lparr>pa_events := pa_events p @ [HostsInvalidated]\<rparr> else p, t)))"

end
