(* ===== verification/Domains_Correct.thy ===== *)
theory Domains_Correct
  imports Domains
begin

section \<open>What the life of a custom hostname guarantees\<close>

text \<open>
  The operations of \<open>Domains\<close> interleaved without any order between them: every write may be the
  consequence of a read made against any earlier table, and the stop that ends a grace window is a
  step of its own, after the failed check that decided on it. \<open>effect\<close> says what a step may do to the
  table, and every invariant is proved over it: identifiers and lowered names are unique, no row
  changes its owner, a stored name is a valid one, and a verified name was proved by an answer of
  a nameserver to a check of that very name with that very token.
\<close>

subsection \<open>Operations on the table\<close>

definition altered :: "(domain \<Rightarrow> bool) \<Rightarrow> (domain \<Rightarrow> domain) \<Rightarrow> domains \<Rightarrow> domains" where
  "altered P f t = map (\<lambda>r. if P r then f r else r) t"

lemma update_rows_altered: "update_rows P f t = (map_option f (find P t), altered P f t)"
  by (simp add: update_rows_def altered_def)

lemmas statements =
  update_rows_altered MarkDomainVerified_def MarkDomainVerificationFailed_def UnverifyDomain_def SoftDeleteDomain_def
  SetDomainRootRedirect_row_def verifiedWrite_def failedWrite_def with_fate_def

lemma altered_iff: "r \<in> set (altered P f t) \<longleftrightarrow> (\<exists>s\<in>set t. r = (if P s then f s else s))"
  by (auto simp: altered_def)

lemma altered_other: "r \<in> set t \<Longrightarrow> \<not> P r \<Longrightarrow> r \<in> set (altered P f t)"
  by (force simp: altered_iff)

lemma altered_ids:
  assumes "\<And>r. do_id (f r) = do_id r"
  shows "map do_id (altered P f t) = map do_id t"
  using assms by (simp add: altered_def)

definition named_row :: "uuid \<Rightarrow> domain \<Rightarrow> bool" where
  "named_row i r \<longleftrightarrow> do_id r = i \<and> live r"

lemma GetDomainByID_Some:
  assumes "GetDomainByID i t = Some r"
  shows "r \<in> set t" "do_id r = i" "live r"
  using assms by (auto simp: GetDomainByID_def find_Some_iff)

lemma domainForWrite_Inr:
  assumes "domainForWrite a i seen = Inr r"
  obtains t where "seen = Some t" "GetDomainByID i t = Some r" "\<not> do_is_default r"
    "canAdminister a (do_organization_id r) (do_workspace_id r)"
  using assms by (auto simp: domainForWrite_def split: option.splits if_splits)

subsection \<open>The runs\<close>

record domain_world =
  dm_table :: domains
  dm_past :: "domains list" \<comment> \<open>every table there has been, with the present one\<close>
  dm_stops :: "(domain \<times> reason \<times> instant \<times> instant) set"
    \<comment> \<open>decided and not yet written: the row as checked, the reason, the anchor, the clock of the pass\<close>
  dm_asked :: "(string \<times> txt_answer) list" \<comment> \<open>the questions to nameservers, with their answers\<close>

datatype request = Register | Rename | Delete | RootRedirect | Verify

datatype domain_label =
    Requested request actor uuid write_fate "domain_event list"
  | Checked uuid
  | Stopped uuid instant instant
  | Elsewhere

definition earlier :: "domain_world \<Rightarrow> domains option \<Rightarrow> bool" where
  "earlier w seen \<longleftrightarrow> (case seen of None \<Rightarrow> True | Some t \<Rightarrow> t \<in> set (dm_past w))"

definition moves :: "domains \<Rightarrow> domain_world \<Rightarrow> domain_world" where
  "moves t w = w\<lparr>dm_table := t, dm_past := t # dm_past w\<rparr>"

definition asks_for :: "domain \<Rightarrow> nameserver \<Rightarrow> (string \<times> txt_answer) list" where
  "asks_for r lookup =
     (if deref (do_verification_token r) = [] then []
      else let name = ChallengeRecordName (do_hostname r) in [(name, lookup name)])"

definition asking :: "domain option \<Rightarrow> nameserver option \<Rightarrow> domain_world \<Rightarrow> domain_world" where
  "asking r dns w =
     (case (r, dns) of
        (Some r, Some lookup) \<Rightarrow> w\<lparr>dm_asked := dm_asked w @ asks_for r lookup\<rparr>
      | _ \<Rightarrow> w)"

definition right_of :: "'e + 'a \<Rightarrow> 'a option" where
  "right_of x = (case x of Inl _ \<Rightarrow> None | Inr y \<Rightarrow> Some y)"

inductive domain_step :: "pg_text \<Rightarrow> duration \<Rightarrow> domain_world \<Rightarrow> domain_label \<Rightarrow> domain_world \<Rightarrow> bool" for pg grace where
  step_register: "RegisterDomain pg grace i token now a raw counted taken fate (dm_table w) = (reply, evs, t) \<Longrightarrow>
    domain_step pg grace w (Requested Register a i fate evs) (moves t w)"
| step_rename: "\<lbrakk>earlier w seen;
     RenameDomain pg grace token now a i raw seen taken fate links (dm_table w) = (reply, evs, t)\<rbrakk> \<Longrightarrow>
    domain_step pg grace w (Requested Rename a i fate evs) (moves t w)"
| step_delete: "\<lbrakk>earlier w seen; DeleteDomain now a i seen links fate (dm_table w) = (gone, evs, t)\<rbrakk> \<Longrightarrow>
    domain_step pg grace w (Requested Delete a i fate evs) (moves t w)"
| step_root: "\<lbrakk>earlier w seen;
     SetDomainRootRedirect grace check now a i raw seen fate links (dm_table w) = (reply, evs, t)\<rbrakk> \<Longrightarrow>
    domain_step pg grace w (Requested RootRedirect a i fate evs) (moves t w)"
| step_verify: "\<lbrakk>earlier w seen; VerifyDomain grace dns now a i seen fate links (dm_table w) = (reply, evs, t)\<rbrakk> \<Longrightarrow>
    domain_step pg grace w (Requested Verify a i fate evs)
      (moves t (asking (right_of (domainForWrite a i seen)) dns w))"
| step_check: "\<lbrakk>earlier w seen; verificationWorkList batch served waiting = Some targets;
     earlier w served; earlier w waiting; i \<in> fst ` set targets;
     check_visit grace clock lookup now i seen fate (dm_table w) p = (end_of, p', t)\<rbrakk> \<Longrightarrow>
    domain_step pg grace w (Checked i)
      (moves t (asking (Option.bind seen (GetDomainByID i)) (Some lookup)
        (w\<lparr>dm_stops := dm_stops w \<union> (case end_of of VisitDone \<Rightarrow> {}
           | VisitStops full reason since \<Rightarrow> {(full, reason, since, clock)})\<rparr>)))"
| step_stop: "\<lbrakk>(full, reason, since, clock) \<in> dm_stops w; stop_visit full reason since now fate (dm_table w) p = (p', t)\<rbrakk> \<Longrightarrow>
    domain_step pg grace w (Stopped (do_id full) since clock)
      (moves t (w\<lparr>dm_stops := dm_stops w - {(full, reason, since, clock)}\<rparr>))"
| step_certificate: "domain_step pg grace w Elsewhere (moves (MarkDomainTLSActive_row i now (dm_table w)) w)"
| step_bots: "domain_step pg grace w Elsewhere (moves (SetBotBlockingForEveryDomain block enforced now (dm_table w)) w)"
| step_default: "domain_step pg grace w Elsewhere (moves (SetDefaultDomainRootRedirect url now (dm_table w)) w)"

inductive domain_run :: "pg_text \<Rightarrow> duration \<Rightarrow> domain_world \<Rightarrow> domain_label list \<Rightarrow> domain_world \<Rightarrow> bool" for pg grace where
  domain_run_nil: "domain_run pg grace w [] w"
| domain_run_snoc: "\<lbrakk>domain_run pg grace w ls w'; domain_step pg grace w' l w''\<rbrakk> \<Longrightarrow> domain_run pg grace w (ls @ [l]) w''"

text \<open>The instance starts with the row its migrations seed.\<close>

definition seeded :: "domain \<Rightarrow> domain_world" where
  "seeded r = \<lparr>dm_table = [r], dm_past = [[r]], dm_stops = {}, dm_asked = []\<rparr>"

lemma world_parts [simp]:
  "dm_table (moves t w) = t" "dm_past (moves t w) = t # dm_past w" "dm_stops (moves t w) = dm_stops w"
  "dm_asked (moves t w) = dm_asked w" "dm_table (asking r dns w) = dm_table w" "dm_past (asking r dns w) = dm_past w"
  "dm_stops (asking r dns w) = dm_stops w"
  by (auto simp: moves_def asking_def split: option.splits)

subsection \<open>What a step may do to the table\<close>

text \<open>Each operation leaves the table as it was or makes the one change its statement makes, on the
  strength of what it read.\<close>

lemma RegisterDomain_table:
  assumes "RegisterDomain pg grace i token now a raw counted taken fate t = (reply, evs, t')"
  shows "t' = t \<or> (\<exists>h. Can (Some (da_identity a)) PermDomainsWrite \<and> ValidateHostname raw = Inr h \<and> i \<notin> do_id ` set t \<and> \<not> hostname_held (pg_lower pg) h t
    \<and> t' = t @ [new_domain i (da_org a) (id_workspace (da_identity a)) h token now t])"
  using assms
  by (auto simp: RegisterDomain_def refused_def CreateDomain_def Let_def with_fate_def new_domain_def list_ex_iff
           split: if_splits sum.splits option.splits bool.splits write_fate.splits)

lemma RenameDomain_table:
  assumes "RenameDomain pg grace token now a i raw seen taken fate links t = (reply, evs, t')"
  shows "t' = t \<or> (\<exists>r h. domainForWrite a i seen = Inr r \<and> ValidateHostname raw = Inr h
    \<and> ((\<exists>r\<in>set t. named_row i r) \<longrightarrow> \<not> hostname_held (pg_lower pg) h (filter (\<lambda>r. do_id r \<noteq> i) t))
    \<and> t' = altered (named_row i) (renamed h token now) t)"
  using assms
  by (auto simp: RenameDomain_def refused_def answer_with_def RenameDomain_row_def statements named_row_def [abs_def] list_ex_iff
           split: if_splits sum.splits option.splits bool.splits write_fate.splits)

lemma DeleteDomain_table:
  assumes "DeleteDomain now a i seen links fate t = (gone, evs, t')"
  shows "t' = t \<or> (\<exists>r. domainForWrite a i seen = Inr r
    \<and> t' = altered (named_row i) (\<lambda>r. r\<lparr>do_deleted_at := Some now, do_updated_at := now\<rparr>) t)"
  using assms
  by (auto simp: DeleteDomain_def refused_def statements named_row_def [abs_def]
           split: if_splits sum.splits option.splits write_fate.splits)

lemma SetDomainRootRedirect_table:
  assumes "SetDomainRootRedirect grace check now a i raw seen fate links t = (reply, evs, t')"
  shows "t' = t \<or> (\<exists>r url. domainForWrite a i seen = Inr r
    \<and> t' = altered (named_row i) (\<lambda>r. r\<lparr>do_root_redirect_url := url, do_updated_at := now\<rparr>) t)"
  using assms
  by (auto simp: SetDomainRootRedirect_def refused_def answer_with_def statements named_row_def [abs_def] Let_def
           split: if_splits sum.splits option.splits write_fate.splits)

definition checked_as :: "domain \<Rightarrow> domain \<Rightarrow> bool" where
  "checked_as r = checked_row (do_id r) (do_hostname r) (do_verification_token r)"

text \<open>What a check of the row \<open>r\<close> writes.\<close>

definition check_writes :: "domain \<Rightarrow> nameserver \<Rightarrow> instant \<Rightarrow> domain \<Rightarrow> domain" where
  "check_writes r lookup now =
     (case checkChallenge r lookup of None \<Rightarrow> verified_row now | Some reason \<Rightarrow> failed_row reason now)"

lemma VerifyDomain_table:
  assumes "VerifyDomain grace dns now a i seen fate links t = (reply, evs, t')"
  shows "t' = t \<or> (\<exists>r lookup. domainForWrite a i seen = Inr r \<and> dns = Some lookup
    \<and> t' = altered (checked_as r) (check_writes r lookup now) t)"
  using assms
  by (auto simp: VerifyDomain_def refused_def answer_with_def statements checked_as_def check_writes_def
           split: if_splits sum.splits option.splits write_fate.splits)

lemma check_visit_table:
  assumes "check_visit grace clock lookup now i seen fate t p = (end_of, p', t')"
  shows "t' = t \<or> (\<exists>s r. seen = Some s \<and> GetDomainByID i s = Some r
    \<and> t' = altered (checked_as r) (check_writes r lookup now) t)"
  using assms
  by (auto simp: check_visit_def statements checked_as_def check_writes_def Let_def
           split: if_splits sum.splits option.splits write_fate.splits)

lemma stop_visit_table:
  assumes "stop_visit full reason since now fate t p = (p', t')"
  shows "t' = t \<or> t' = altered (\<lambda>r. named_row (do_id full) r \<and> do_verified_at r \<noteq> None) (unverified_row reason now) t"
  using assms
  by (auto simp: stop_visit_def statements named_row_def [abs_def] conj_ac
           split: option.splits write_fate.splits)

text \<open>A change of a row that leaves identity, owner, name, proof and deletion alone.\<close>

definition harmless :: "(domain \<Rightarrow> domain) \<Rightarrow> bool" where
  "harmless f \<longleftrightarrow> (\<forall>r.
     do_id (f r) = do_id r \<and> do_hostname (f r) = do_hostname r \<and> do_verification_token (f r) = do_verification_token r
     \<and> do_organization_id (f r) = do_organization_id r \<and> do_workspace_id (f r) = do_workspace_id r
     \<and> do_is_default (f r) = do_is_default r \<and> do_deleted_at (f r) = do_deleted_at r
     \<and> do_verified_at (f r) = do_verified_at r \<and> (do_ssl_status (f r) = sslStatusNone \<longrightarrow> do_ssl_status r = sslStatusNone))"

inductive effect :: "pg_text \<Rightarrow> domain_world \<Rightarrow> domain_label \<Rightarrow> domain_world \<Rightarrow> bool" for pg w where
  same: "dm_table w' = dm_table w \<Longrightarrow> effect pg w l w'"
| added: "\<lbrakk>Can (Some (da_identity a)) PermDomainsWrite; ValidateHostname raw = Inr h; i \<notin> do_id ` set (dm_table w); \<not> hostname_held (pg_lower pg) h (dm_table w);
     dm_table w' = dm_table w @ [new_domain i (da_org a) (id_workspace (da_identity a)) h token now (dm_table w)]\<rbrakk> \<Longrightarrow>
    effect pg w (Requested Register a i fate evs) w'"
| renames: "\<lbrakk>seen \<in> set (dm_past w); domainForWrite a i (Some seen) = Inr r; ValidateHostname raw = Inr h;
     (\<exists>r\<in>set (dm_table w). named_row i r) \<longrightarrow> \<not> hostname_held (pg_lower pg) h (filter (\<lambda>r. do_id r \<noteq> i) (dm_table w));
     dm_table w' = altered (named_row i) (renamed h token now) (dm_table w)\<rbrakk> \<Longrightarrow>
    effect pg w (Requested Rename a i fate evs) w'"
| deletes: "\<lbrakk>seen \<in> set (dm_past w); domainForWrite a i (Some seen) = Inr r;
     dm_table w' = altered (named_row i) (\<lambda>r. r\<lparr>do_deleted_at := Some now, do_updated_at := now\<rparr>) (dm_table w)\<rbrakk> \<Longrightarrow>
    effect pg w (Requested Delete a i fate evs) w'"
| redirects: "\<lbrakk>seen \<in> set (dm_past w); domainForWrite a i (Some seen) = Inr r;
     dm_table w' = altered (named_row i) (\<lambda>r. r\<lparr>do_root_redirect_url := url, do_updated_at := now\<rparr>) (dm_table w)\<rbrakk> \<Longrightarrow>
    effect pg w (Requested RootRedirect a i fate evs) w'"
| checks: "\<lbrakk>seen \<in> set (dm_past w); GetDomainByID i seen = Some r; set (asks_for r lookup) \<subseteq> set (dm_asked w');
     l = Checked i \<or> (\<exists>a fate evs. l = Requested Verify a i fate evs \<and> domainForWrite a i (Some seen) = Inr r);
     dm_table w' = altered (checked_as r) (check_writes r lookup now) (dm_table w)\<rbrakk> \<Longrightarrow>
    effect pg w l w'"
| stops: "\<lbrakk>(full, reason, since, clock) \<in> dm_stops w;
     dm_table w' = altered (\<lambda>r. named_row (do_id full) r \<and> do_verified_at r \<noteq> None) (unverified_row reason now) (dm_table w)\<rbrakk> \<Longrightarrow>
    effect pg w (Stopped (do_id full) since clock) w'"
| elsewhere: "\<lbrakk>harmless f; dm_table w' = altered P f (dm_table w)\<rbrakk> \<Longrightarrow> effect pg w Elsewhere w'"

lemma earlier_Some [simp]: "earlier w (Some t) \<longleftrightarrow> t \<in> set (dm_past w)"
  by (simp add: earlier_def)

lemma judged_earlier:
  assumes "domainForWrite a i seen = Inr r" "earlier w seen"
  obtains t where "t \<in> set (dm_past w)" "seen = Some t" "domainForWrite a i (Some t) = Inr r" "GetDomainByID i t = Some r"
  using assms by (auto elim!: domainForWrite_Inr) (auto simp: domainForWrite_def)

lemma asking_asked: "set (dm_asked (asking r dns w)) = set (dm_asked w) \<union>
    (case (r, dns) of (Some r, Some lookup) \<Rightarrow> set (asks_for r lookup) | _ \<Rightarrow> {})"
  by (auto simp: asking_def split: option.splits)

lemmas status_words = sslStatusNone_def sslStatusPending_def sslStatusActive_def

lemma elsewhere_altered:
  "MarkDomainTLSActive_row i now t =
     altered (\<lambda>r. do_id r = i \<and> do_ssl_status r = sslStatusPending \<and> live r)
       (\<lambda>r. r\<lparr>do_ssl_status := sslStatusActive, do_updated_at := now\<rparr>) t"
  "SetBotBlockingForEveryDomain block enforced now t =
     altered live (\<lambda>r. r\<lparr>do_block_bots := block, do_block_bots_enforced := enforced, do_updated_at := now\<rparr>) t"
  "SetDefaultDomainRootRedirect url now t =
     altered (\<lambda>r. do_is_default r \<and> live r) (\<lambda>r. r\<lparr>do_root_redirect_url := url, do_updated_at := now\<rparr>) t"
  by (simp_all add: MarkDomainTLSActive_row_def SetBotBlockingForEveryDomain_def SetDefaultDomainRootRedirect_def altered_def)

lemma domain_step_effect:
  assumes "domain_step pg grace w l w'"
  shows "effect pg w l w'"
  using assms
proof cases
  case (step_register i token now a raw counted taken fate reply evs t)
  from RegisterDomain_table [OF step_register(3)] show ?thesis
    unfolding step_register(1,2) by (auto intro: effect.intros)
next
  case (step_rename seen token now a i raw taken fate links reply evs t)
  from RenameDomain_table [OF step_rename(4)] show ?thesis
    unfolding step_rename(1,2) by (fastforce intro: effect.intros elim: judged_earlier [OF _ step_rename(3)])
next
  case (step_delete seen now a i links fate gone evs t)
  from DeleteDomain_table [OF step_delete(4)] show ?thesis
    unfolding step_delete(1,2) by (auto intro: effect.intros elim!: judged_earlier [OF _ step_delete(3)])
next
  case (step_root seen check now a i raw fate links reply evs t)
  from SetDomainRootRedirect_table [OF step_root(4)] show ?thesis
    unfolding step_root(1,2) by (auto intro: effect.intros elim!: judged_earlier [OF _ step_root(3)])
next
  case (step_verify seen dns now a i fate links reply evs t)
  from VerifyDomain_table [OF step_verify(4)] show ?thesis
    unfolding step_verify(1,2)
    by (elim disjE exE conjE judged_earlier [OF _ step_verify(3)])
       (rule effect.same, simp, rule effect.checks, auto simp: asking_asked right_of_def)
next
  case (step_check seen batch served waiting targets i clock lookup now fate p end_of p' t)
  from check_visit_table [OF step_check(8)] step_check(3) show ?thesis
    unfolding step_check(1,2)
    by (elim disjE exE conjE) (rule effect.same, simp, rule effect.checks, auto simp: asking_asked)
next
  case (step_stop full reason since clock now fate p p' t)
  from stop_visit_table [OF step_stop(4)] step_stop(3) show ?thesis
    unfolding step_stop(1,2) by (auto intro: effect.intros)
next
  case step_certificate
  show ?thesis unfolding step_certificate elsewhere_altered
    by (rule effect.elsewhere) (auto simp: harmless_def status_words)
next
  case step_bots
  show ?thesis unfolding step_bots elsewhere_altered
    by (rule effect.elsewhere) (auto simp: harmless_def status_words)
next
  case step_default
  show ?thesis unfolding step_default elsewhere_altered
    by (rule effect.elsewhere) (auto simp: harmless_def status_words)
qed

lemma domain_step_grows:
  assumes "domain_step pg grace w l w'"
  shows "set (dm_asked w) \<subseteq> set (dm_asked w')" "dm_past w' = dm_table w' # dm_past w"
  using assms by (induction) (auto simp: asking_asked)

subsection \<open>The invariant\<close>

definition same_owner :: "domain \<Rightarrow> domain \<Rightarrow> bool" where
  "same_owner r s \<longleftrightarrow> do_id r = do_id s \<and> do_organization_id r = do_organization_id s
     \<and> do_workspace_id r = do_workspace_id s \<and> do_is_default r = do_is_default s"

text \<open>A nameserver was asked at the place of this name's challenge, and answered with its token.\<close>

definition proved :: "(string \<times> txt_answer) list \<Rightarrow> domain \<Rightarrow> bool" where
  "proved asked r \<longleftrightarrow> deref (do_verification_token r) \<noteq> [] \<and>
     (\<exists>records. (ChallengeRecordName (do_hostname r), TXT records) \<in> set asked
        \<and> ChallengeSatisfied (deref (do_verification_token r)) records)"

definition row_ok :: "(string \<times> txt_answer) list \<Rightarrow> domain \<Rightarrow> bool" where
  "row_ok asked r \<longleftrightarrow> do_is_default r \<or>
     ValidateHostname (do_hostname r) = Inr (do_hostname r)
     \<and> (do_verified_at r \<noteq> None \<longrightarrow> proved asked r \<and> do_ssl_status r \<noteq> sslStatusNone)"

definition names_apart :: "(string \<Rightarrow> string) \<Rightarrow> domains \<Rightarrow> bool" where
  "names_apart lower t \<longleftrightarrow> (\<forall>r\<in>set t. \<forall>s\<in>set t.
     live r \<and> live s \<and> lower (do_hostname r) = lower (do_hostname s) \<longrightarrow> do_id r = do_id s)"

definition domains_ok :: "pg_text \<Rightarrow> domain_world \<Rightarrow> bool" where
  "domains_ok pg w \<longleftrightarrow>
     distinct (map do_id (dm_table w)) \<and> names_apart (pg_lower pg) (dm_table w)
     \<and> (\<forall>r\<in>set (dm_table w). row_ok (dm_asked w) r)
     \<and> (\<forall>t\<in>set (dm_past w). \<forall>r\<in>set t. \<exists>s\<in>set (dm_table w). same_owner r s)"

lemma changed_rows_keep [simp]:
  "same_owner r (renamed h token now r)" "same_owner r (check_writes q lookup now r)" "same_owner r (unverified_row reason now r)"
  "same_owner r (r\<lparr>do_deleted_at := d, do_updated_at := now\<rparr>)" "same_owner r (r\<lparr>do_root_redirect_url := url, do_updated_at := now\<rparr>)"
  by (auto simp: same_owner_def renamed_def check_writes_def verified_row_def failed_row_def unverified_row_def
           split: option.split)

lemma harmless_keeps:
  assumes "harmless f"
  shows "same_owner r (f r)" "do_id (f r) = do_id r" "do_hostname (f r) = do_hostname r" "do_deleted_at (f r) = do_deleted_at r"
    "do_verified_at (f r) = do_verified_at r" "do_is_default (f r) = do_is_default r"
  using assms by (simp_all add: harmless_def same_owner_def)

lemma same_owner_refl [simp]: "same_owner r r" by (simp add: same_owner_def)
lemma same_owner_trans: "same_owner r s \<Longrightarrow> same_owner s u \<Longrightarrow> same_owner r u" by (simp add: same_owner_def)
lemma same_owner_id: "same_owner r s \<Longrightarrow> do_id s = do_id r" by (simp add: same_owner_def)

text \<open>A step keeps every row with its owner, and adds at most one.\<close>

lemma effect_shape:
  assumes "effect pg w l w'"
  obtains (rows) P f where "\<And>r. same_owner r (f r)" "dm_table w' = altered P f (dm_table w)"
  | (row) new where "do_id new \<notin> do_id ` set (dm_table w)" "dm_table w' = dm_table w @ [new]"
  using assms
proof cases
  case same
  then show ?thesis by (intro rows [of id "\<lambda>_. False"]) (simp_all add: altered_def)
next
  case (added a raw h i token now fate evs)
  then show ?thesis by (intro row) (auto simp: new_domain_def)
next
  case (elsewhere f P)
  then show ?thesis by (intro rows [of f P]) (simp_all add: harmless_keeps)
qed (auto intro: rows [rotated])

lemma effect_ids:
  assumes "effect pg w l w'" "distinct (map do_id (dm_table w))"
  shows "distinct (map do_id (dm_table w'))"
  using assms(1)
proof (cases rule: effect_shape)
  case (rows P f)
  then have "map do_id (dm_table w') = map do_id (dm_table w)" by (simp add: altered_ids same_owner_id)
  with assms(2) show ?thesis by metis
qed (use assms(2) in auto)

lemma effect_owners:
  assumes "effect pg w l w'" "r \<in> set (dm_table w)"
  shows "\<exists>s\<in>set (dm_table w'). same_owner r s"
  using assms(1)
proof (cases rule: effect_shape)
  case (rows P f)
  with assms(2) have "(if P r then f r else r) \<in> set (dm_table w')" by (auto simp: altered_iff)
  with rows(1) show ?thesis by (metis same_owner_refl)
qed (use assms(2) same_owner_refl in fastforce)

lemma row_ok_mono: "row_ok asked r \<Longrightarrow> set asked \<subseteq> set asked' \<Longrightarrow> row_ok asked' r"
  by (auto simp: row_ok_def proved_def)

lemma checkChallenge_None:
  assumes "checkChallenge r lookup = None" "set (asks_for r lookup) \<subseteq> set asked" "checked_as r s"
  shows "proved asked s"
  using assms
  by (auto simp: checkChallenge_def asks_for_def proved_def checked_as_def checked_row_def Let_def
           split: if_splits txt_answer.splits)

lemma row_ok_changed:
  assumes "row_ok asked s"
  shows "ValidateHostname raw = Inr h \<Longrightarrow> row_ok asked (renamed h token now s)"
    "row_ok asked (unverified_row reason now s)" "harmless f \<Longrightarrow> row_ok asked (f s)"
    "row_ok asked (s\<lparr>do_deleted_at := d, do_updated_at := now\<rparr>)"
    "row_ok asked (s\<lparr>do_root_redirect_url := url, do_updated_at := now\<rparr>)"
    "checked_as r s \<Longrightarrow> set (asks_for r lookup) \<subseteq> set asked \<Longrightarrow> row_ok asked (check_writes r lookup now s)"
  using assms checkChallenge_None [of r lookup asked s]
  by (auto simp: row_ok_def proved_def renamed_def unverified_row_def harmless_def check_writes_def verified_row_def
      failed_row_def status_words accepted_form split: option.split)

lemma effect_rows_ok:
  assumes "effect pg w l w'" "\<forall>r\<in>set (dm_table w). row_ok (dm_asked w) r" "set (dm_asked w) \<subseteq> set (dm_asked w')"
  shows "\<forall>r\<in>set (dm_table w'). row_ok (dm_asked w') r"
proof -
  have ok: "\<forall>r\<in>set (dm_table w). row_ok (dm_asked w') r" using assms(2,3) row_ok_mono by blast
  from assms(1) show ?thesis
  proof cases
    case (added a raw h i token now fate evs)
    then have "row_ok (dm_asked w') (new_domain i (da_org a) (id_workspace (da_identity a)) h token now (dm_table w))"
      by (simp add: row_ok_def new_domain_def accepted_form)
    with added ok show ?thesis by simp
  qed (use ok in \<open>auto simp: altered_iff row_ok_changed\<close>)
qed

lemma names_apartI:
  assumes "\<And>r s. \<lbrakk>r \<in> set t; s \<in> set t; live r; live s; lower (do_hostname r) = lower (do_hostname s)\<rbrakk> \<Longrightarrow> do_id r = do_id s"
  shows "names_apart lower t"
  using assms unfolding names_apart_def by blast

lemma names_apartD:
  assumes "names_apart lower t" "r \<in> set t" "s \<in> set t" "live r" "live s" "lower (do_hostname r) = lower (do_hostname s)"
  shows "do_id r = do_id s"
  using assms unfolding names_apart_def by blast

lemma names_apart_altered:
  assumes "names_apart lower t"
    "\<And>r. do_id (f r) = do_id r \<and> do_hostname (f r) = do_hostname r \<and> (live (f r) \<longrightarrow> live r)"
  shows "names_apart lower (altered P f t)"
proof (rule names_apartI)
  fix r s assume rs: "r \<in> set (altered P f t)" "s \<in> set (altered P f t)" "live r" "live s"
    "lower (do_hostname r) = lower (do_hostname s)"
  have origin: "\<exists>y\<in>set t. do_id y = do_id x \<and> do_hostname y = do_hostname x \<and> live y" if "x \<in> set (altered P f t)" "live x" for x
    using that assms(2) by (auto simp: altered_iff split: if_splits)
  from origin [OF rs(1,3)] origin [OF rs(2,4)] names_apartD [OF assms(1)] rs(5) show "do_id r = do_id s" by metis
qed

lemma names_apart_renamed:
  assumes "names_apart lower t" "(\<exists>r\<in>set t. named_row i r) \<longrightarrow> \<not> hostname_held lower h (filter (\<lambda>r. do_id r \<noteq> i) t)"
  shows "names_apart lower (altered (named_row i) (renamed h token now) t)"
proof (rule names_apartI)
  fix r s assume rs: "r \<in> set (altered (named_row i) (renamed h token now) t)"
    "s \<in> set (altered (named_row i) (renamed h token now) t)" "live r" "live s" "lower (do_hostname r) = lower (do_hostname s)"
  have origin: "x \<in> set t \<and> do_id x \<noteq> i \<or> do_id x = i \<and> do_hostname x = h \<and> (\<exists>y\<in>set t. named_row i y)"
    if "x \<in> set (altered (named_row i) (renamed h token now) t)" "live x" for x
  proof -
    from that(1) obtain y where y: "y \<in> set t" "x = (if named_row i y then renamed h token now y else y)"
      by (auto simp: altered_iff)
    with that(2) show ?thesis
      by (cases "named_row i y") (auto simp: renamed_def named_row_def [of i x], auto simp: renamed_def named_row_def)
  qed
  have free: "lower (do_hostname x) \<noteq> lower h" if "x \<in> set t" "do_id x \<noteq> i" "live x" "y \<in> set t" "named_row i y" for x y
    using that assms(2) by (auto simp: hostname_held_def list_ex_iff)
  from origin [OF rs(1,3)] origin [OF rs(2,4)] names_apartD [OF assms(1) _ _ rs(3-5)] free rs(3-5)
  show "do_id r = do_id s" by metis
qed

lemma names_apart_added:
  assumes "names_apart lower t" "\<not> hostname_held lower (do_hostname r) t"
  shows "names_apart lower (t @ [r])"
proof (rule names_apartI)
  fix x y assume xy: "x \<in> set (t @ [r])" "y \<in> set (t @ [r])" "live x" "live y" "lower (do_hostname x) = lower (do_hostname y)"
  have "lower (do_hostname z) \<noteq> lower (do_hostname r)" if "z \<in> set t" "live z" for z
    using that assms(2) by (auto simp: hostname_held_def list_ex_iff)
  with xy names_apartD [OF assms(1)] show "do_id x = do_id y" by (metis Un_iff empty_iff empty_set list.simps(15) insert_iff set_append)
qed

lemma names_kept [simp]:
  "do_hostname (check_writes r lookup now s) = do_hostname s" "do_deleted_at (check_writes r lookup now s) = do_deleted_at s"
  "do_hostname (unverified_row reason now s) = do_hostname s" "do_deleted_at (unverified_row reason now s) = do_deleted_at s"
  by (simp_all add: check_writes_def verified_row_def failed_row_def unverified_row_def split: option.split)

lemma effect_names:
  assumes "effect pg w l w'" "names_apart (pg_lower pg) (dm_table w)"
  shows "names_apart (pg_lower pg) (dm_table w')"
  using assms(1)
proof cases
  case (added a raw h i token now fate evs)
  from names_apart_added [OF assms(2), of "new_domain i (da_org a) (id_workspace (da_identity a)) h token now (dm_table w)"] added
  show ?thesis by (simp add: new_domain_def)
next
  case (renames seen a i r raw h token now fate evs)
  from names_apart_renamed [OF assms(2) renames(5)] renames(6) show ?thesis by simp
next
  case same
  with assms(2) show ?thesis by simp
next
  case (elsewhere f P)
  then show ?thesis using names_apart_altered [OF assms(2), of f P] by (simp add: harmless_keeps live_def)
qed (auto intro!: names_apart_altered [OF assms(2)] simp: same_owner_id live_def)

lemma domains_ok_step:
  assumes "domain_step pg grace w l w'" "domains_ok pg w"
  shows "domains_ok pg w'"
proof -
  note e = domain_step_effect [OF assms(1)] and g = domain_step_grows [OF assms(1)]
  have "\<exists>s\<in>set (dm_table w'). same_owner r s" if "t \<in> set (dm_past w')" "r \<in> set t" for t r
  proof (cases "t = dm_table w'")
    case True
    with that(2) show ?thesis using same_owner_refl by blast
  next
    case False
    with that(1) g(2) have "t \<in> set (dm_past w)" by simp
    with that(2) assms(2) obtain s where "s \<in> set (dm_table w)" "same_owner r s" by (force simp: domains_ok_def)
    with effect_owners [OF e] show ?thesis using same_owner_trans by blast
  qed
  with effect_ids [OF e] effect_names [OF e] effect_rows_ok [OF e] g(1) assms(2) show ?thesis
    by (simp add: domains_ok_def)
qed

lemma domains_ok_run:
  assumes "domain_run pg grace (seeded r) ls w" "do_is_default r"
  shows "domains_ok pg w"
  using assms
proof (induction "seeded r" ls w rule: domain_run.induct)
  case domain_run_nil
  then show ?case by (simp add: domains_ok_def seeded_def names_apart_def row_ok_def)
qed (auto intro: domains_ok_step)

subsection \<open>Only proved names are served\<close>

definition rows_read :: "domains \<Rightarrow> domain_row list" where
  "rows_read t = map domain_row.truncate t"

lemma fold_lookup:
  assumes "fold (\<lambda>r hosts. hosts(k r \<mapsto> g r)) rs m x = Some d"
  shows "m x = Some d \<or> (\<exists>r\<in>set rs. k r = x \<and> d = g r)"
  using assms
proof (induction rs arbitrary: m)
  case (Cons a rs)
  from Cons.IH [of "m(k a \<mapsto> g a)"] Cons.prems show ?case by (auto split: if_splits)
qed simp

lemma loadFromDB_row:
  assumes "loadFromDB lower (rows_read t) x = Some d"
  obtains r where "r \<in> set t" "live r" "do_verified_at r \<noteq> None" "\<not> do_is_default r"
    "x = HostOnly (lower (do_hostname r))" "vd_id d = do_id r"
  using fold_lookup [OF assms [unfolded loadFromDB_def]]
  by (auto simp: ListVerifiedDomains_def servable_def rows_read_def live_def verified_domain_def domain_row.defs)

text \<open>C32. Whatever requests and passes are interleaved, a hostname the instance would serve belongs to
  one live row that is not the instance default, is registered in its stored form, and was proved: a
  nameserver was asked for the TXT records at this name's challenge and answered with the token the
  row holds. No rename, late write or second check puts an unproved name into the set.\<close>

theorem served_names_were_proved:
  assumes "domain_run pg grace (seeded r0) ls w" "do_is_default r0"
    "\<And>h. stored_hostname h \<Longrightarrow> pg_lower pg h = h"
    "loadFromDB (pg_lower pg) (rows_read (dm_table w)) h = Some d"
  shows "\<exists>r\<in>set (dm_table w). do_id r = vd_id d \<and> do_hostname r = h \<and> live r \<and> \<not> do_is_default r
     \<and> (\<exists>records. (ChallengeLabel @ ''.'' @ h, TXT records) \<in> set (dm_asked w)
          \<and> ChallengeSatisfied (deref (do_verification_token r)) records)
     \<and> (\<forall>s\<in>set (dm_table w). live s \<and> do_hostname s = h \<longrightarrow> s = r)"
proof -
  have ok: "domains_ok pg w" by (rule domains_ok_run [OF assms(1,2)])
  from assms(4) obtain r where r: "r \<in> set (dm_table w)" "live r" "do_verified_at r \<noteq> None" "\<not> do_is_default r"
    "h = HostOnly (pg_lower pg (do_hostname r))" "vd_id d = do_id r"
    by (rule loadFromDB_row)
  from ok r have v: "ValidateHostname (do_hostname r) = Inr (do_hostname r)" "proved (dm_asked w) r"
    by (auto simp: domains_ok_def row_ok_def)
  note form = ValidateHostname_stored(1) [OF v(1)] accepted_form(2,3) [OF v(1)]
  then have h: "do_hostname r = h" using r(5) assms(3) by simp
  moreover have "s = r" if "s \<in> set (dm_table w)" "live s" "do_hostname s = h" for s
  proof -
    from ok have "names_apart (pg_lower pg) (dm_table w)" by (simp add: domains_ok_def)
    from names_apartD [OF this that(1) r(1) that(2) r(2)] that(3) h have "do_id s = do_id r" by simp
    with ok that(1) r(1) show ?thesis by (auto simp: domains_ok_def distinct_map dest: inj_onD)
  qed
  moreover obtain records where "(ChallengeLabel @ ''.'' @ h, TXT records) \<in> set (dm_asked w)"
    "ChallengeSatisfied (deref (do_verification_token r)) records"
    using v(2) form(3) h by (auto simp: proved_def)
  ultimately show ?thesis using r by metis
qed

subsection \<open>Whose rows a request reaches\<close>

lemma judged_row:
  assumes "domains_ok pg w" "seen \<in> set (dm_past w)" "domainForWrite a i (Some seen) = Inr c"
    "r \<in> set (dm_table w)" "do_id r = i"
  shows "\<not> do_is_default r" "canAdminister a (do_organization_id r) (do_workspace_id r)"
proof -
  from assms(3) have c: "c \<in> set seen" "do_id c = i" "\<not> do_is_default c"
    "canAdminister a (do_organization_id c) (do_workspace_id c)"
    by (auto elim!: domainForWrite_Inr dest: GetDomainByID_Some)
  with assms(1,2) obtain s where s: "s \<in> set (dm_table w)" "same_owner c s" by (force simp: domains_ok_def)
  with assms(1,4,5) c(2) have "s = r"
    by (auto simp: domains_ok_def distinct_map same_owner_def dest: inj_onD)
  with s(2) c(3,4) show "\<not> do_is_default r" "canAdminister a (do_organization_id r) (do_workspace_id r)"
    by (simp_all add: same_owner_def)
qed

text \<open>What the statement of a request selects, with the owner's judgement.\<close>

lemma requested_rows:
  assumes "effect pg w (Requested q a i fate evs) w'" "domains_ok pg w"
  obtains (rows) P f where "\<And>r. same_owner r (f r)" "dm_table w' = altered P f (dm_table w)"
      "\<And>r. r \<in> set (dm_table w) \<Longrightarrow> P r \<Longrightarrow>
         do_id r = i \<and> \<not> do_is_default r \<and> canAdminister a (do_organization_id r) (do_workspace_id r)"
  | (row) new where "q = Register" "dm_table w' = dm_table w @ [new]"
      "canAdminister a (do_organization_id new) (do_workspace_id new)" "do_verified_at new = None"
  using assms(1)
proof cases
  case same
  then show ?thesis by (intro rows [of id "\<lambda>_. False"]) (simp_all add: altered_def)
next
  case (added raw h token now)
  then show ?thesis by (intro row) (auto simp: new_domain_def canAdminister_def)
next
  case (checks seen r lookup now)
  then show ?thesis
    by (intro rows [OF _ checks(5)])
       (auto simp: checked_as_def checked_row_def dest: GetDomainByID_Some judged_row [OF assms(2)])
qed (auto intro!: rows simp: named_row_def dest: judged_row [OF assms(2)])

text \<open>C33. A request reaches only what its actor may administer, whatever has happened since the row was
  read: every row of another owner, and the instance default, is left exactly as it was, and every row
  the table then holds is an old one or one the actor administers.\<close>

theorem requests_stay_with_their_owner:
  assumes "domain_run pg grace (seeded r0) ls w" "do_is_default r0"
    "domain_step pg grace w (Requested q a i fate evs) w'"
  shows "(\<forall>r\<in>set (dm_table w). do_is_default r \<or> \<not> canAdminister a (do_organization_id r) (do_workspace_id r)
            \<longrightarrow> r \<in> set (dm_table w'))
     \<and> (\<forall>s\<in>set (dm_table w'). s \<in> set (dm_table w) \<or> canAdminister a (do_organization_id s) (do_workspace_id s))"
  using domain_step_effect [OF assms(3)] domains_ok_run [OF assms(1,2)]
proof (cases rule: requested_rows)
  case (rows P f)
  have "r \<in> set (dm_table w')" if "r \<in> set (dm_table w)" "\<not> P r" for r
    using that rows(2) by (simp add: altered_other)
  moreover have "canAdminister a (do_organization_id s) (do_workspace_id s)"
    if "s \<in> set (dm_table w')" "s \<notin> set (dm_table w)" for s
  proof -
    from that rows(2) obtain r where "r \<in> set (dm_table w)" "P r" "s = f r" by (auto simp: altered_iff split: if_splits)
    with rows(1) [of r] rows(3) [of r] show ?thesis by (simp add: same_owner_def)
  qed
  ultimately show ?thesis using rows(3) by blast
qed auto

subsection \<open>How serving ends\<close>

definition stop_founded :: "duration \<Rightarrow> domain_world \<Rightarrow> domain \<times> reason \<times> instant \<times> instant \<Rightarrow> bool" where
  "stop_founded grace w stop \<longleftrightarrow> (case stop of (full, reason, since, clock) \<Rightarrow>
     verifyGrace grace \<le> clock - since \<and>
     (\<exists>t\<in>set (dm_past w). \<exists>s\<in>set t. checked_as full s \<and> do_failing_since s = Some since \<and> do_error s = Some reason))"

lemma check_visit_stops:
  assumes "check_visit grace clock lookup now i seen fate t p = (VisitStops full reason since, p', t')"
  shows "verifyGrace grace \<le> clock - since"
    "\<exists>s\<in>set t'. checked_as full s \<and> do_failing_since s = Some since \<and> do_error s = Some reason"
proof -
  from assms obtain s x where x: "find (checked_as full) t = Some x" "t' = altered (checked_as full) (failed_row reason now) t"
      "do_failing_since (failed_row reason now x) = Some since" "verifyGrace grace \<le> clock - since"
    by (auto simp: check_visit_def statements checked_as_def Let_def failed_row_def
             split: if_splits option.splits write_fate.splits)
  then show "verifyGrace grace \<le> clock - since" by simp
  from x(1) have "x \<in> set t" "checked_as full x" by (auto simp: find_Some_iff)
  with x(2) have "failed_row reason now x \<in> set t'" by (auto simp: altered_iff intro!: bexI [of _ x])
  moreover have "checked_as full (failed_row reason now x)"
    using \<open>checked_as full x\<close> by (simp add: failed_row_def checked_as_def checked_row_def live_def)
  ultimately show "\<exists>s\<in>set t'. checked_as full s \<and> do_failing_since s = Some since \<and> do_error s = Some reason"
    using x(3) by (intro bexI [of _ "failed_row reason now x"]) (simp_all add: failed_row_def)
qed

lemma stops_founded_step:
  assumes "domain_step pg grace w l w'" "\<forall>stop\<in>dm_stops w. stop_founded grace w stop"
  shows "\<forall>stop\<in>dm_stops w'. stop_founded grace w' stop"
proof -
  have old: "stop_founded grace w' stop" if "stop_founded grace w stop" for stop
    using that domain_step_grows(2) [OF assms(1)] by (auto simp: stop_founded_def split: prod.split)
  have new: "stop_founded grace w' stop" if "stop \<in> dm_stops w'" "stop \<notin> dm_stops w" for stop
    using assms(1) that
  proof cases
    case (step_check seen batch served waiting targets i clock lookup now fate p end_of p' t)
    with that obtain full reason since where e: "end_of = VisitStops full reason since" "stop = (full, reason, since, clock)"
      by (auto split: visit_end.splits)
    from check_visit_stops [OF step_check(8) [unfolded e(1)]] show ?thesis
      by (auto simp: e(2) stop_founded_def step_check(2))
  qed (use that in auto)
  from old new assms(2) show ?thesis by blast
qed

lemma stops_founded_run:
  assumes "domain_run pg grace (seeded r0) ls w"
  shows "\<forall>stop\<in>dm_stops w. stop_founded grace w stop"
  using assms
proof (induction "seeded r0" ls w rule: domain_run.induct)
  case (domain_run_snoc ls w' l w'')
  then show ?case using stops_founded_step by blast
qed (simp add: seeded_def)

definition serving :: "domain \<Rightarrow> bool" where
  "serving r \<longleftrightarrow> live r \<and> \<not> do_is_default r \<and> do_verified_at r \<noteq> None"

lemma serving_kept:
  assumes "serving r"
  shows "serving (check_writes q lookup now r)" "serving (r\<lparr>do_root_redirect_url := url, do_updated_at := now\<rparr>)"
    "harmless f \<Longrightarrow> serving (f r)"
proof -
  show "serving (check_writes q lookup now r)" "serving (r\<lparr>do_root_redirect_url := url, do_updated_at := now\<rparr>)"
    using assms by (cases "checkChallenge q lookup"; simp add: serving_def live_def check_writes_def verified_row_def failed_row_def
      split: option.split)+
  show "serving (f r)" if "harmless f"
    using assms harmless_keeps [OF that, of r] by (simp add: serving_def live_def)
qed

text \<open>C34. A hostname that is served stops being served in three ways only: its owner renames it, its owner
  removes it, or a pass of the leader stops it; and a pass does so only on a row of which it had written
  that a check failed, in a run of failures that began at least a whole grace window before the pass.\<close>

theorem serving_stops_by_owner_or_grace:
  assumes "domain_run pg grace (seeded r0) ls w" "do_is_default r0" "domain_step pg grace w l w'"
    "r \<in> set (dm_table w)" "serving r"
    "\<And>s. s \<in> set (dm_table w') \<Longrightarrow> do_id s = do_id r \<Longrightarrow> do_hostname s = do_hostname r \<Longrightarrow> \<not> serving s"
  shows "(\<exists>q a fate evs. l = Requested q a (do_id r) fate evs \<and> q \<in> {Rename, Delete}
            \<and> canAdminister a (do_organization_id r) (do_workspace_id r))
     \<or> (\<exists>since clock reason. l = Stopped (do_id r) since clock \<and> verifyGrace grace \<le> clock - since
          \<and> (\<exists>t\<in>set (dm_past w). \<exists>s\<in>set t. do_id s = do_id r \<and> do_failing_since s = Some since \<and> do_error s = Some reason))"
proof -
  note ok = domains_ok_run [OF assms(1,2)]
  have kept: False if "dm_table w' = altered P f (dm_table w)" "P r \<Longrightarrow> serving (f r) \<and> do_id (f r) = do_id r \<and> do_hostname (f r) = do_hostname r" for P f
  proof -
    from that(1) assms(4) have "(if P r then f r else r) \<in> set (dm_table w')" by (auto simp: altered_iff)
    with that(2) assms(5,6) show False by (auto split: if_splits)
  qed
  have hit: "named_row i r" if "dm_table w' = altered (named_row i) f (dm_table w)" for i f
    using kept [OF that] by blast
  from domain_step_effect [OF assms(3)] show ?thesis
  proof cases
    case same
    with assms(6) [of r] assms(4,5) show ?thesis by simp
  next
    case (added a raw h i token now fate evs)
    with assms(6) [of r] assms(4,5) show ?thesis by simp
  next
    case (renames seen a i c raw h token now fate evs)
    with hit [OF renames(6)] judged_row(2) [OF ok renames(2,3) assms(4)] show ?thesis by (auto simp: named_row_def)
  next
    case (deletes seen a i c now fate evs)
    with hit [OF deletes(4)] judged_row(2) [OF ok deletes(2,3) assms(4)] show ?thesis by (auto simp: named_row_def)
  next
    case (redirects seen a i c url now fate evs)
    with kept [OF redirects(4)] serving_kept(2) [OF assms(5)] show ?thesis by simp
  next
    case (checks seen i c lookup now)
    with kept [OF checks(5)] serving_kept(1) [OF assms(5)] show ?thesis by (simp add: same_owner_id)
  next
    case (stops full reason since clock now)
    have "named_row (do_id full) r" using kept [OF stops(3)] by blast
    moreover have "stop_founded grace w (full, reason, since, clock)" using stops_founded_run [OF assms(1)] stops(2) by blast
    ultimately show ?thesis using stops(1)
      by (auto simp: stop_founded_def named_row_def checked_as_def checked_row_def)
  next
    case (elsewhere f P)
    with kept [OF elsewhere(3)] serving_kept(3) [OF assms(5) elsewhere(2)] harmless_keeps(2,3) [OF elsewhere(2)] show ?thesis by metis
  qed
qed

subsection \<open>Every change reaches the replicas\<close>

definition served :: "pg_text \<Rightarrow> domains \<Rightarrow> host_set" where
  "served pg t = loadFromDB (pg_lower pg) (rows_read t)"

lemma update_rows_none:
  "fst (update_rows P f t) = None \<Longrightarrow> snd (update_rows P f t) = t" "update_rows P f t = (None, t') \<Longrightarrow> t' = t"
  by (auto simp: update_rows_def find_None_iff intro!: map_idI)

lemma served_failed: "served pg (altered P (failed_row reason now) t) = served pg t"
proof -
  have "rows_read (altered P (failed_row reason now) t) = rows_read t"
    by (simp add: rows_read_def altered_def failed_row_def domain_row.defs)
  then show ?thesis by (simp add: served_def)
qed

lemma served_update_failed:
  "served pg (snd (update_rows P (failed_row reason now) t)) = served pg t"
  "update_rows P (failed_row reason now) t = (x, t') \<Longrightarrow> served pg t' = served pg t"
  using served_failed by (auto simp: update_rows_altered)

lemma served_added: "do_verified_at r = None \<Longrightarrow> served pg (t @ [r]) = served pg t"
  by (simp add: served_def rows_read_def loadFromDB_def ListVerifiedDomains_def servable_def domain_row.defs)

text \<open>A request whose write is answered ends with the broadcast that makes every replica reload, whenever
  it changed what the replicas would serve, also when the request itself then fails.\<close>

theorem every_change_is_broadcast:
  assumes "domain_step pg grace w (Requested q a i fate evs) w'" "fate \<noteq> WriteUnanswered"
    "served pg (dm_table w') \<noteq> served pg (dm_table w)"
  shows "HostsInvalidated \<in> set evs"
  using assms(1)
proof cases
  case (step_register token now raw counted taken reply t)
  from RegisterDomain_table [OF step_register(3)] assms(3) show ?thesis
    by (auto simp: step_register(2) served_added new_domain_def)
next
  case (step_rename seen token now raw taken links reply t)
  with assms(2,3) show ?thesis
    by (auto simp: RenameDomain_def refused_def answer_with_def with_fate_def RenameDomain_row_def dest: update_rows_none
             split: if_splits sum.splits option.splits bool.splits write_fate.splits)
next
  case (step_delete seen now links gone t)
  with assms(2,3) show ?thesis
    by (auto simp: DeleteDomain_def refused_def with_fate_def SoftDeleteDomain_def dest: update_rows_none
             split: if_splits sum.splits option.splits write_fate.splits)
next
  case (step_root seen check now raw links reply t)
  with assms(2,3) show ?thesis
    by (auto simp: SetDomainRootRedirect_def refused_def answer_with_def with_fate_def SetDomainRootRedirect_row_def
             dest: update_rows_none split: if_splits sum.splits option.splits write_fate.splits)
next
  case (step_verify seen dns now links reply t)
  with assms(2,3) show ?thesis
    by (auto simp: VerifyDomain_def refused_def answer_with_def with_fate_def verifiedWrite_def failedWrite_def
               MarkDomainVerified_def MarkDomainVerificationFailed_def served_update_failed dest: update_rows_none
             split: if_splits sum.splits option.splits write_fate.splits)
qed

subsection \<open>A life\<close>

text \<open>A registration that is verified, fails for a day, and is stopped: the run the witnesses are taken from.\<close>

definition demo_pg :: pg_text where "demo_pg = \<lparr>pg_lower = id, pg_collate = id\<rparr>"

definition demo_owner :: actor where
  "demo_owner =
     \<lparr>da_identity = \<lparr>id_user = 7, id_workspace = 5, id_permissions = {PermDomainsWrite, PermRead}\<rparr>, da_org = 3\<rparr>"

definition demo_stranger :: actor where
  "demo_stranger =
     \<lparr>da_identity = \<lparr>id_user = 8, id_workspace = 6, id_permissions = {PermDomainsWrite, PermRead}\<rparr>, da_org = 3\<rparr>"

definition demo_default :: domain where
  "demo_default =
     (new_domain 0 0 0 ''localhost'' [] 0 [])
       \<lparr>do_is_default := True, do_organization_id := None, do_workspace_id := None, do_verification_token := None\<rparr>"

text \<open>A nameserver that publishes a token at one place.\<close>

definition publishes :: "string \<Rightarrow> string \<Rightarrow> nameserver" where
  "publishes host token name =
     (if name = ChallengeRecordName host then TXT [token] else LookupError (NetError False False))"

definition after_register :: "string \<Rightarrow> domain_world \<Rightarrow> domain_world \<times> domain_event list" where
  "after_register token w =
     (case RegisterDomain demo_pg 0 1 token 10 demo_owner ''Go.Example.com'' (Some 0) (Some False) WriteDone (dm_table w) of
        (_, evs, t) \<Rightarrow> (moves t w, evs))"

definition after_rename :: "actor \<Rightarrow> string \<Rightarrow> string \<Rightarrow> instant \<Rightarrow> domain_world \<Rightarrow> domain_world \<times> domain_event list" where
  "after_rename a h token now w =
     (case RenameDomain demo_pg 0 token now a 1 h (Some (dm_table w)) (Some False) WriteDone (Some 0) (dm_table w) of
        (_, evs, t) \<Rightarrow> (moves t w, evs))"

definition after_verify :: "nameserver \<Rightarrow> instant \<Rightarrow> domain_world \<Rightarrow> domain_world \<times> domain_event list" where
  "after_verify dns now w =
     (case VerifyDomain 0 (Some dns) now demo_owner 1 (Some (dm_table w)) WriteDone (Some 0) (dm_table w) of
        (_, evs, t) \<Rightarrow> (moves t (asking (right_of (domainForWrite demo_owner 1 (Some (dm_table w)))) (Some dns) w), evs))"

definition after_check :: "nameserver \<Rightarrow> instant \<Rightarrow> domain_world \<Rightarrow> domain_world" where
  "after_check dns clock w =
     (case check_visit 0 clock dns clock 1 (Some (dm_table w)) WriteDone (dm_table w)
             \<lparr>pa_sum = no_checks, pa_changed = False, pa_errors = 0, pa_events = []\<rparr> of
        (end_of, _, t) \<Rightarrow>
          moves t (asking (Option.bind (Some (dm_table w)) (GetDomainByID 1)) (Some dns)
            (w\<lparr>dm_stops := dm_stops w \<union> (case end_of of VisitDone \<Rightarrow> {}
               | VisitStops full reason since \<Rightarrow> {(full, reason, since, clock)})\<rparr>)))"

lemma demo_steps:
  "domain_step demo_pg 0 w (Requested Register demo_owner 1 WriteDone (snd (after_register token w))) (fst (after_register token w))"
  "dm_table w \<in> set (dm_past w) \<Longrightarrow>
     domain_step demo_pg 0 w (Requested Rename a 1 WriteDone (snd (after_rename a h token now w))) (fst (after_rename a h token now w))"
  "dm_table w \<in> set (dm_past w) \<Longrightarrow>
     domain_step demo_pg 0 w (Requested Verify demo_owner 1 WriteDone (snd (after_verify dns now w))) (fst (after_verify dns now w))"
  "dm_table w \<in> set (dm_past w) \<Longrightarrow>
     verificationWorkList 200 (Some (dm_table w)) (Some (dm_table w)) = Some targets \<Longrightarrow> 1 \<in> fst ` set targets \<Longrightarrow>
     domain_step demo_pg 0 w (Checked 1) (after_check dns clock w)"
proof -
  assume here: "dm_table w \<in> set (dm_past w)"
  show "domain_step demo_pg 0 w (Requested Rename a 1 WriteDone (snd (after_rename a h token now w)))
      (fst (after_rename a h token now w))"
    using here by (auto simp: after_rename_def intro!: step_rename [where seen = "Some (dm_table w)"] split: prod.split)
  show "domain_step demo_pg 0 w (Requested Verify demo_owner 1 WriteDone (snd (after_verify dns now w)))
      (fst (after_verify dns now w))"
    using here
    by (auto simp: after_verify_def simp del: earlier_Some intro!: step_verify [where seen = "Some (dm_table w)"] split: prod.split)
      (simp_all add: earlier_def)
  assume work: "verificationWorkList 200 (Some (dm_table w)) (Some (dm_table w)) = Some targets" "1 \<in> fst ` set targets"
  from here have e: "earlier w (Some (dm_table w))" by simp
  show "domain_step demo_pg 0 w (Checked 1) (after_check dns clock w)"
  proof -
    obtain end_of p t where cv: "check_visit 0 clock dns clock 1 (Some (dm_table w)) WriteDone (dm_table w)
        \<lparr>pa_sum = no_checks, pa_changed = False, pa_errors = 0, pa_events = []\<rparr> = (end_of, p, t)"
      by (rule prod_cases3)
    from step_check [OF e work(1) e e work(2) cv] show ?thesis by (simp add: after_check_def cv)
  qed
qed (auto simp: after_register_def intro: step_register split: prod.split)

lemma demo_past:
  "dm_table (fst (after_register token w)) \<in> set (dm_past (fst (after_register token w)))"
  "dm_table (fst (after_rename a h token now w)) \<in> set (dm_past (fst (after_rename a h token now w)))"
  "dm_table (fst (after_verify dns now w)) \<in> set (dm_past (fst (after_verify dns now w)))"
  "dm_table (after_check dns clock w) \<in> set (dm_past (after_check dns clock w))"
  by (simp_all add: after_register_def after_rename_def after_verify_def after_check_def split: prod.split)

definition demo_registered :: domain_world where
  "demo_registered = fst (after_register ''t1'' (seeded demo_default))"

definition demo_verified :: domain_world where
  "demo_verified = fst (after_verify (publishes ''go.example.com'' ''t1'') 20 demo_registered)"

lemma demo_hosts:
  "map (\<lambda>r. (do_hostname r, serving r)) (dm_table demo_registered) = [(''localhost'', False), (''go.example.com'', False)]"
  "map (\<lambda>r. (do_hostname r, serving r)) (dm_table demo_verified) = [(''localhost'', False), (''go.example.com'', True)]"
  by code_simp+

lemma demo_run:
  "domain_run demo_pg 0 (seeded demo_default)
     (([] @ [Requested Register demo_owner 1 WriteDone (snd (after_register ''t1'' (seeded demo_default)))])
      @ [Requested Verify demo_owner 1 WriteDone (snd (after_verify (publishes ''go.example.com'' ''t1'') 20 demo_registered))])
     demo_verified"
proof (rule domain_run_snoc [OF domain_run_snoc [OF domain_run_nil]])
  show "domain_step demo_pg 0 (seeded demo_default)
      (Requested Register demo_owner 1 WriteDone (snd (after_register ''t1'' (seeded demo_default)))) demo_registered"
    unfolding demo_registered_def by (rule demo_steps)
  show "domain_step demo_pg 0 demo_registered
      (Requested Verify demo_owner 1 WriteDone (snd (after_verify (publishes ''go.example.com'' ''t1'') 20 demo_registered))) demo_verified"
    unfolding demo_verified_def by (rule demo_steps) (simp add: demo_registered_def demo_past)
qed

lemma demo_default_flag [simp]: "do_is_default demo_default" by (simp add: demo_default_def)
lemma demo_lower [simp]: "pg_lower demo_pg = id" by (simp add: demo_pg_def)

lemma demo_served:
  "served demo_pg (dm_table demo_registered) ''go.example.com'' = None"
  "served demo_pg (dm_table demo_verified) ''go.example.com'' \<noteq> None"
  by code_simp+

theorem served_names_were_proved_witness:
  "\<exists>r\<in>set (dm_table demo_verified). do_hostname r = ''go.example.com'' \<and> live r \<and> \<not> do_is_default r
     \<and> (\<exists>records. (ChallengeLabel @ ''.'' @ ''go.example.com'', TXT records) \<in> set (dm_asked demo_verified)
          \<and> ChallengeSatisfied (deref (do_verification_token r)) records)"
proof -
  from demo_served(2) obtain d where "loadFromDB (pg_lower demo_pg) (rows_read (dm_table demo_verified)) ''go.example.com'' = Some d"
    by (auto simp: served_def)
  from served_names_were_proved [OF demo_run demo_default_flag _ this] show ?thesis by auto
qed

theorem requests_stay_with_their_owner_witness:
  "\<exists>r\<in>set (dm_table (fst (after_rename demo_stranger ''evil.example.com'' ''t9'' 30 demo_verified))).
     do_hostname r = ''go.example.com'' \<and> serving r"
proof -
  have "\<exists>r\<in>set (dm_table demo_verified). do_hostname r = ''go.example.com'' \<and> serving r
      \<and> \<not> canAdminister demo_stranger (do_organization_id r) (do_workspace_id r)"
    by code_simp
  moreover have "domain_step demo_pg 0 demo_verified
      (Requested Rename demo_stranger 1 WriteDone (snd (after_rename demo_stranger ''evil.example.com'' ''t9'' 30 demo_verified)))
      (fst (after_rename demo_stranger ''evil.example.com'' ''t9'' 30 demo_verified))"
    by (rule demo_steps) (simp add: demo_verified_def demo_past)
  note requests_stay_with_their_owner [OF demo_run demo_default_flag this]
  ultimately show ?thesis by blast
qed

theorem serving_stops_by_owner_or_grace_witness:
  "canAdminister demo_owner (do_organization_id (dm_table demo_verified ! 1)) (do_workspace_id (dm_table demo_verified ! 1))"
proof -
  let ?r = "dm_table demo_verified ! 1" and ?w = "fst (after_rename demo_owner ''new.example.com'' ''t2'' 30 demo_verified)"
  have "domain_step demo_pg 0 demo_verified
      (Requested Rename demo_owner 1 WriteDone (snd (after_rename demo_owner ''new.example.com'' ''t2'' 30 demo_verified))) ?w"
    by (rule demo_steps) (simp add: demo_verified_def demo_past)
  moreover have "?r \<in> set (dm_table demo_verified)" by (rule nth_mem) code_simp
  moreover have "serving ?r" by code_simp
  moreover have "list_all (\<lambda>s. do_id s = do_id ?r \<longrightarrow> do_hostname s = do_hostname ?r \<longrightarrow> \<not> serving s) (dm_table ?w)"
    by code_simp
  ultimately show ?thesis
    using serving_stops_by_owner_or_grace [OF demo_run demo_default_flag, of _ ?w ?r] by (auto simp: list_all_iff)
qed

theorem every_change_is_broadcast_witness:
  "HostsInvalidated \<in> set (snd (after_verify (publishes ''go.example.com'' ''t1'') 20 demo_registered))"
proof -
  have "domain_step demo_pg 0 demo_registered
      (Requested Verify demo_owner 1 WriteDone (snd (after_verify (publishes ''go.example.com'' ''t1'') 20 demo_registered))) demo_verified"
    unfolding demo_verified_def by (rule demo_steps) (simp add: demo_registered_def demo_past)
  from every_change_is_broadcast [OF this] demo_served show ?thesis by (metis write_fate.distinct(3))
qed

end
