(* ===== verification/Domains_Grace.thy ===== *)
theory Domains_Grace
  imports Domains_Correct
begin

section \<open>Two ways the grace window is not what it promises\<close>

text \<open>
  The stop at the end of a grace window names its row by identifier only, so it can land on a name
  the pass never checked; and a window that starts with a check on demand runs out without the
  warning that the passes send when they start one.
\<close>

subsection \<open>A stop that was meant for another name\<close>

definition silent :: nameserver where
  "silent = publishes ''nowhere.example.com'' ''t0''"

definition demo_failing :: domain_world where
  "demo_failing = after_check silent 100 demo_verified"

definition demo_due :: domain_world where
  "demo_due = after_check silent (100 + DefaultVerifyGrace) demo_failing"

definition demo_renamed :: domain_world where
  "demo_renamed = fst (after_rename demo_owner ''new.example.com'' ''t2'' (110 + DefaultVerifyGrace) demo_due)"

definition demo_renewed :: domain_world where
  "demo_renewed = fst (after_verify (publishes ''new.example.com'' ''t2'') (120 + DefaultVerifyGrace) demo_renamed)"

definition after_stop :: "domain \<times> reason \<times> instant \<times> instant \<Rightarrow> domain_world \<Rightarrow> domain_world" where
  "after_stop stop w =
     (case stop of (full, reason, since, clock) \<Rightarrow>
        (case stop_visit full reason since (clock + 30) WriteDone (dm_table w)
                \<lparr>pa_sum = no_checks, pa_changed = False, pa_errors = 0, pa_events = []\<rparr> of
           (_, t) \<Rightarrow> moves t (w\<lparr>dm_stops := dm_stops w - {stop}\<rparr>)))"

lemma after_stop_step:
  assumes "(full, reason, since, clock) \<in> dm_stops w"
  shows "domain_step pg grace w (Stopped (do_id full) since clock) (after_stop (full, reason, since, clock) w)"
  using step_stop [OF assms] by (auto simp: after_stop_def split: prod.split)

text \<open>The row of the registration at each moment, so that each step is evaluated by itself.\<close>

definition demo_row :: "string \<Rightarrow> string \<Rightarrow> instant option \<Rightarrow> string \<Rightarrow> instant option \<Rightarrow> instant option
    \<Rightarrow> reason option \<Rightarrow> instant \<Rightarrow> domain" where
  "demo_row h token verified ssl checked failing err updated =
     (new_domain 1 3 5 h token 10 [])
       \<lparr>do_verified_at := verified, do_ssl_status := ssl, do_checked_at := checked, do_failing_since := failing,
        do_error := err, do_updated_at := updated\<rparr>"

definition no_pass :: pass where
  "no_pass = \<lparr>pa_sum = no_checks, pa_changed = False, pa_errors = 0, pa_events = []\<rparr>"

definition gone :: "string \<Rightarrow> reason option" where
  "gone h = Some (NoRecordAt (''_linkctrl-challenge.'' @ h))"

lemma after_check_parts:
  "dm_table (after_check dns clock w) =
     snd (snd (check_visit 0 clock dns clock 1 (Some (dm_table w)) WriteDone (dm_table w) no_pass))"
  "dm_stops (after_check dns clock w) = dm_stops w \<union>
     (case fst (check_visit 0 clock dns clock 1 (Some (dm_table w)) WriteDone (dm_table w) no_pass) of
        VisitDone \<Rightarrow> {} | VisitStops full reason since \<Rightarrow> {(full, reason, since, clock)})"
  "dm_asked (after_check dns clock w) =
     dm_asked w @ (case GetDomainByID 1 (dm_table w) of None \<Rightarrow> [] | Some r \<Rightarrow> asks_for r dns)"
  by (simp_all add: after_check_def no_pass_def asking_def split: prod.split option.split)

lemma after_rename_parts:
  "dm_table (fst (after_rename a h token now w)) =
     snd (snd (RenameDomain demo_pg 0 token now a 1 h (Some (dm_table w)) (Some False) WriteDone (Some 0) (dm_table w)))"
  "dm_stops (fst (after_rename a h token now w)) = dm_stops w" "dm_asked (fst (after_rename a h token now w)) = dm_asked w"
  by (simp_all add: after_rename_def split: prod.split)

lemma after_verify_parts:
  "dm_table (fst (after_verify dns now w)) =
     snd (snd (VerifyDomain 0 (Some dns) now demo_owner 1 (Some (dm_table w)) WriteDone (Some 0) (dm_table w)))"
  "dm_stops (fst (after_verify dns now w)) = dm_stops w"
  "dm_asked (fst (after_verify dns now w)) =
     dm_asked w @ (case right_of (domainForWrite demo_owner 1 (Some (dm_table w))) of None \<Rightarrow> [] | Some r \<Rightarrow> asks_for r dns)"
  by (simp_all add: after_verify_def asking_def split: prod.split option.split)

lemma verified_table:
  "dm_table demo_verified =
     [demo_default, demo_row ''go.example.com'' ''t1'' (Some 20) sslStatusPending (Some 20) None None 20]"
  "map fst (dm_asked demo_verified) = [''_linkctrl-challenge.go.example.com'']"
  by code_simp+

lemma failing_table:
  "dm_table demo_failing =
     [demo_default, demo_row ''go.example.com'' ''t1'' (Some 20) sslStatusPending (Some 100) (Some 100) (gone ''go.example.com'') 100]"
  unfolding demo_failing_def after_check_parts verified_table by code_simp

definition demo_full :: domain where
  "demo_full = demo_row ''go.example.com'' ''t1'' (Some 20) sslStatusPending (Some 100) (Some 100) (gone ''go.example.com'') 100"

lemma due_table:
  "dm_table demo_due =
     [demo_default, demo_row ''go.example.com'' ''t1'' (Some 20) sslStatusPending (Some (100 + DefaultVerifyGrace)) (Some 100)
        (gone ''go.example.com'') (100 + DefaultVerifyGrace)]"
  unfolding demo_due_def after_check_parts failing_table by code_simp

lemma due_stop:
  "(demo_full, NoRecordAt ''_linkctrl-challenge.go.example.com'', 100, 100 + DefaultVerifyGrace) \<in> dm_stops demo_due"
proof -
  have "fst (check_visit 0 (100 + DefaultVerifyGrace) silent (100 + DefaultVerifyGrace) 1 (Some (dm_table demo_failing)) WriteDone
      (dm_table demo_failing) no_pass) = VisitStops demo_full (NoRecordAt ''_linkctrl-challenge.go.example.com'') 100"
    unfolding failing_table by code_simp
  then show ?thesis by (simp add: demo_due_def after_check_parts)
qed

lemma renamed_table:
  "dm_table demo_renamed =
     [demo_default, demo_row ''new.example.com'' ''t2'' None sslStatusNone None None None (110 + DefaultVerifyGrace)]"
  unfolding demo_renamed_def after_rename_parts due_table by code_simp

lemma renewed_table:
  "dm_table demo_renewed =
     [demo_default, demo_row ''new.example.com'' ''t2'' (Some (120 + DefaultVerifyGrace)) sslStatusPending
        (Some (120 + DefaultVerifyGrace)) None None (120 + DefaultVerifyGrace)]"
  unfolding demo_renewed_def after_verify_parts renamed_table by code_simp

lemma demo_work:
  "map_option (map fst) (verificationWorkList 200 (Some (dm_table demo_verified)) (Some (dm_table demo_verified))) = Some [1]"
  "map_option (map fst) (verificationWorkList 200 (Some (dm_table demo_failing)) (Some (dm_table demo_failing))) = Some [1]"
  unfolding verified_table failing_table by code_simp+

lemma renewed_asked:
  "filter (\<lambda>q. fst q = ''_linkctrl-challenge.new.example.com'') (dm_asked demo_renewed)
     = [(''_linkctrl-challenge.new.example.com'', TXT [''t2''])]"
proof -
  have "filter (\<lambda>q. fst q = ''_linkctrl-challenge.new.example.com'') (dm_asked demo_verified) = []"
    by (simp add: filter_empty_conv) (use verified_table(2) in \<open>force simp: map_eq_Cons_conv\<close>)
  moreover have
    "(case GetDomainByID 1 (dm_table demo_verified) of None \<Rightarrow> [] | Some r \<Rightarrow> asks_for r silent)
       = [(''_linkctrl-challenge.go.example.com'', LookupError (NetError False False))]"
    "(case GetDomainByID 1 (dm_table demo_failing) of None \<Rightarrow> [] | Some r \<Rightarrow> asks_for r silent)
       = [(''_linkctrl-challenge.go.example.com'', LookupError (NetError False False))]"
    "(case right_of (domainForWrite demo_owner 1 (Some (dm_table demo_renamed))) of None \<Rightarrow> []
        | Some r \<Rightarrow> asks_for r (publishes ''new.example.com'' ''t2''))
       = [(''_linkctrl-challenge.new.example.com'', TXT [''t2''])]"
    unfolding verified_table failing_table renamed_table by code_simp+
  ultimately show ?thesis
    by (simp add: demo_renewed_def after_verify_parts demo_renamed_def after_rename_parts demo_due_def after_check_parts
        demo_failing_def)
qed

definition demo_stopped :: domain_world where
  "demo_stopped = after_stop (demo_full, NoRecordAt ''_linkctrl-challenge.go.example.com'', 100, 100 + DefaultVerifyGrace) demo_renewed"

lemma stopped_table:
  "dm_table demo_stopped =
     [demo_default, demo_row ''new.example.com'' ''t2'' None sslStatusNone
        (Some (120 + DefaultVerifyGrace)) None (gone ''go.example.com'') (130 + DefaultVerifyGrace)]"
proof -
  have "dm_table demo_stopped = snd (stop_visit demo_full (NoRecordAt ''_linkctrl-challenge.go.example.com'') 100
      (100 + DefaultVerifyGrace + 30) WriteDone (dm_table demo_renewed) no_pass)"
    by (simp add: demo_stopped_def after_stop_def no_pass_def split: prod.split)
  then show ?thesis unfolding renewed_table by (rule trans) code_simp
qed

lemma renewed_run: "\<exists>ls. domain_run demo_pg 0 (seeded demo_default) ls demo_renewed"
proof -
  have past: "dm_table w \<in> set (dm_past w)" if "w \<in> {demo_verified, demo_failing, demo_due, demo_renamed}" for w
    using that by (auto simp: demo_verified_def demo_failing_def demo_due_def demo_renamed_def demo_past)
  have work: "\<exists>targets. verificationWorkList 200 (Some (dm_table w)) (Some (dm_table w)) = Some targets \<and> 1 \<in> fst ` set targets"
    if "w \<in> {demo_verified, demo_failing}" for w
    using that demo_work by (auto simp: map_eq_Cons_conv)
  from work obtain v f where
    v: "verificationWorkList 200 (Some (dm_table demo_verified)) (Some (dm_table demo_verified)) = Some v" "1 \<in> fst ` set v" and
    f: "verificationWorkList 200 (Some (dm_table demo_failing)) (Some (dm_table demo_failing)) = Some f" "1 \<in> fst ` set f"
    by blast
  note c1 = demo_steps(4) [OF past v, of silent 100, folded demo_failing_def]
  note c2 = demo_steps(4) [OF past f, of silent "100 + DefaultVerifyGrace", folded demo_due_def]
  note c3 = demo_steps(2) [OF past, of demo_due demo_owner "''new.example.com''" "''t2''" "110 + DefaultVerifyGrace",
      folded demo_renamed_def]
  note c4 = demo_steps(3) [OF past, of demo_renamed "publishes ''new.example.com'' ''t2''" "120 + DefaultVerifyGrace",
      folded demo_renewed_def]
  note run = domain_run_snoc [OF domain_run_snoc [OF domain_run_snoc [OF domain_run_snoc [OF demo_run c1] c2] c3] c4]
  show ?thesis by (rule exI, rule run) simp_all
qed

text \<open>C35. There is a run in which the stop at the end of a grace window takes a hostname out of service that
  had never failed a check: between the failed check of the pass and its stop the owner renames the
  row and proves the new name, every question asked about the new name having been answered with
  its token; the stop then lands on it, and the row says that the old name's record is missing.\<close>

theorem stop_lands_on_a_name_that_never_failed:
  "\<exists>ls w since clock w'. domain_run demo_pg 0 (seeded demo_default) ls w
     \<and> domain_step demo_pg 0 w (Stopped 1 since clock) w'
     \<and> (\<exists>r\<in>set (dm_table w). do_id r = 1 \<and> do_hostname r = ''new.example.com'' \<and> serving r \<and> do_failing_since r = None)
     \<and> filter (\<lambda>q. fst q = ''_linkctrl-challenge.new.example.com'') (dm_asked w)
         = [(''_linkctrl-challenge.new.example.com'', TXT [''t2''])]
     \<and> (\<exists>r\<in>set (dm_table w'). do_id r = 1 \<and> do_hostname r = ''new.example.com'' \<and> \<not> serving r
          \<and> do_error r = Some (NoRecordAt ''_linkctrl-challenge.go.example.com''))"
proof -
  from renewed_run obtain ls where run: "domain_run demo_pg 0 (seeded demo_default) ls demo_renewed" by blast
  have "(demo_full, NoRecordAt ''_linkctrl-challenge.go.example.com'', 100, 100 + DefaultVerifyGrace) \<in> dm_stops demo_renewed"
    using due_stop by (simp add: demo_renewed_def demo_renamed_def after_verify_parts after_rename_parts)
  from after_stop_step [OF this, of demo_pg 0]
  have step: "domain_step demo_pg 0 demo_renewed (Stopped 1 100 (100 + DefaultVerifyGrace)) demo_stopped"
    by (simp add: demo_stopped_def demo_full_def demo_row_def new_domain_def)
  have before: "\<exists>r\<in>set (dm_table demo_renewed). do_id r = 1 \<and> do_hostname r = ''new.example.com'' \<and> serving r \<and> do_failing_since r = None"
    unfolding renewed_table by (simp add: demo_row_def new_domain_def serving_def live_def)
  have "\<exists>r\<in>set (dm_table demo_stopped). do_id r = 1 \<and> do_hostname r = ''new.example.com'' \<and> \<not> serving r
      \<and> do_error r = Some (NoRecordAt ''_linkctrl-challenge.go.example.com'')"
    unfolding stopped_table by (simp add: demo_row_def new_domain_def serving_def gone_def)
  with run step before renewed_asked show ?thesis by blast
qed

subsection \<open>A window that starts without a warning\<close>

text \<open>Passes over a table of one registration while nothing else happens.\<close>

definition calm :: "nameserver \<Rightarrow> instant \<Rightarrow> surroundings" where
  "calm lookup now =
     \<lparr>su_cancelled = False, su_before_read = id, su_read = True, su_lookup = lookup, su_before_write = id, su_write_at = now,
      su_write_fate = WriteDone, su_before_stop = id, su_stop_at = now, su_stop_fate = WriteDone\<rparr>"

fun passes :: "duration \<Rightarrow> int \<Rightarrow> nameserver \<Rightarrow> instant list \<Rightarrow> domains \<Rightarrow> domain_event list \<times> domains" where
  "passes grace batch lookup [] t = ([], t)"
| "passes grace batch lookup (clock # rest) t =
     (case ReverifyDomains grace True clock batch (Some t) (Some t) (\<lambda>_. calm lookup clock) t of
        (p, t) \<Rightarrow> (case passes grace batch lookup rest t of (evs, t) \<Rightarrow> (pa_events p @ evs, t)))"

lemma serving_work:
  assumes "serving x" "do_verification_token x \<noteq> None"
  shows "verificationWorkList (Suc n) (Some [x]) (Some [x]) = Some [(do_id x, do_hostname x)]"
  using assms
  by (auto simp: verificationWorkList_def ListServingDomainsForVerification_def ListPendingDomainsForVerification_def
      due_def serving_def Let_def)

lemma failing_pass:
  assumes "serving x" "do_verification_token x \<noteq> None" "do_failing_since x = Some since"
    "checkChallenge x lookup = Some reason" "do_organization_id x \<noteq> None"
  shows "ReverifyDomains grace True clock batch (Some [x]) (Some [x]) (\<lambda>_. calm lookup clock) [x] =
    (let p = \<lparr>pa_sum = no_checks\<lparr>cs_checked := 1, cs_failing := 1\<rparr>, pa_changed = False, pa_errors = 0, pa_events = []\<rparr>;
         y = failed_row reason clock x in
     if clock - since < verifyGrace grace then (p, [y])
     else (p\<lparr>pa_sum := (pa_sum p)\<lparr>cs_unverified := 1\<rparr>, pa_changed := True,
             pa_events := [EvUnverified (do_id x) (do_hostname x) since reason, WarnUnverified (do_id x) (do_hostname x),
               HostsInvalidated]\<rparr>, [unverified_row reason clock y]))"
proof -
  obtain n where n: "(if batch \<le> 0 then 200 else nat batch) = Suc n"
    by (metis gr0_conv_Suc not_le zero_less_nat_eq zero_less_numeral)
  have found: "GetDomainByID (do_id x) [x] = Some x" using assms(1) by (simp add: GetDomainByID_def serving_def)
  have row: "checked_as x x" using assms(1,2) by (simp add: checked_as_def checked_row_def serving_def)
  have y: "do_failing_since (failed_row reason clock x) = Some since" "live (failed_row reason clock x)"
    "do_verified_at (failed_row reason clock x) \<noteq> None" "do_id (failed_row reason clock x) = do_id x"
    "do_hostname (failed_row reason clock x) = do_hostname x"
    using assms(1,3) by (simp_all add: failed_row_def serving_def live_def)
  have landed: "failedWrite x reason clock [x] = (Some (failed_row reason clock x), [failed_row reason clock x])"
    using row by (simp add: failedWrite_def MarkDomainVerificationFailed_def update_rows_def checked_as_def)
  have stop: "UnverifyDomain (do_id x) reason clock [failed_row reason clock x] =
      (Some (unverified_row reason clock (failed_row reason clock x)), [unverified_row reason clock (failed_row reason clock x)])"
    using y by (simp add: UnverifyDomain_def update_rows_def)
  have verified: "do_verified_at x \<noteq> None" using assms(1) by (simp add: serving_def)
  have names: "do_id (unverified_row reason clock z) = do_id z" "do_hostname (unverified_row reason clock z) = do_hostname z" for z
    by (simp_all add: unverified_row_def)
  obtain org where org: "do_organization_id x = Some org" using assms(5) by blast
  show ?thesis
    unfolding ReverifyDomains_def n serving_work [OF assms(1,2)]
    using assms(3,4) verified
    by (simp add: Let_def calm_def check_visit_def found landed with_fate_def y stop stop_visit_def names no_checks_def
        warnDomainUnverified_def org)
qed

text \<open>What a failed check leaves unchanged.\<close>

definition failing_since :: "instant \<Rightarrow> domain \<Rightarrow> domain \<Rightarrow> bool" where
  "failing_since since r x \<longleftrightarrow> serving x \<and> do_failing_since x = Some since \<and> do_id x = do_id r \<and> do_hostname x = do_hostname r
     \<and> do_verification_token x = do_verification_token r \<and> do_organization_id x = do_organization_id r"

lemma failing_since_kept: "failing_since since r x \<Longrightarrow> failing_since since r (failed_row reason now x)"
  by (simp add: failing_since_def failed_row_def serving_def live_def)

lemma checkChallenge_same:
  "failing_since since r x \<Longrightarrow> checkChallenge x lookup = checkChallenge r lookup"
  by (clarsimp simp: failing_since_def checkChallenge_def Let_def split: txt_answer.split)

lemma passes_to_the_stop:
  assumes "failing_since since r x" "do_verification_token r \<noteq> None" "do_organization_id r \<noteq> None"
    "checkChallenge r lookup = Some reason" "\<forall>c\<in>set clocks. c < since + verifyGrace grace" "since + verifyGrace grace \<le> final"
  shows "\<exists>y. passes grace batch lookup (clocks @ [final]) [x] =
      ([EvUnverified (do_id r) (do_hostname r) since reason, WarnUnverified (do_id r) (do_hostname r), HostsInvalidated], [y])
      \<and> \<not> serving y"
  using assms(1,5)
proof (induction clocks arbitrary: x)
  case Nil
  note f = Nil(1)
  from f assms(2-4) checkChallenge_same [OF f]
  have "serving x" "do_verification_token x \<noteq> None" "do_failing_since x = Some since" "checkChallenge x lookup = Some reason"
    "do_organization_id x \<noteq> None"
    by (simp_all add: failing_since_def)
  note pass = failing_pass [OF this, of grace final batch]
  have "\<not> serving (unverified_row reason final (failed_row reason final x))" by (simp add: serving_def unverified_row_def)
  with pass assms(6) f show ?case by (simp add: Let_def failing_since_def)
next
  case (Cons c cs)
  note f = Cons(2)
  from f assms(2-4) checkChallenge_same [OF f]
  have "serving x" "do_verification_token x \<noteq> None" "do_failing_since x = Some since" "checkChallenge x lookup = Some reason"
    "do_organization_id x \<noteq> None"
    by (simp_all add: failing_since_def)
  note pass = failing_pass [OF this, of grace c batch]
  from Cons.IH [OF failing_since_kept [OF f], of reason c] Cons(3) obtain y where
    "passes grace batch lookup (cs @ [final]) [failed_row reason c x] =
      ([EvUnverified (do_id r) (do_hostname r) since reason, WarnUnverified (do_id r) (do_hostname r), HostsInvalidated], [y])"
    "\<not> serving y"
    by auto
  with pass Cons(3) show ?case by (simp add: Let_def)
qed

text \<open>C36. When the first failed check of a serving hostname is one made on demand, its owner is never warned:
  the request sends nothing, no pass inside the window sends anything, and the first pass after it
  takes the hostname out of service and says so only then.\<close>

theorem a_window_started_on_demand_ends_without_warning:
  assumes "serving r" "do_failing_since r = None" "do_verification_token r \<noteq> None" "do_organization_id r \<noteq> None"
    "canAdminister a (do_organization_id r) (do_workspace_id r)" "checkChallenge r lookup = Some reason"
    "\<forall>c\<in>set clocks. c < now + verifyGrace grace" "now + verifyGrace grace \<le> final"
  shows "case VerifyDomain grace (Some lookup) now a (do_id r) (Some [r]) WriteDone links [r] of (reply, evs, t) \<Rightarrow>
      (case passes grace batch lookup (clocks @ [final]) t of (evs', t') \<Rightarrow>
         evs @ evs' = [EvUnverified (do_id r) (do_hostname r) now reason, WarnUnverified (do_id r) (do_hostname r), HostsInvalidated]
         \<and> list_ex serving t \<and> \<not> list_ex serving t')"
proof -
  let ?x = "failed_row reason now r"
  have judged: "domainForWrite a (do_id r) (Some [r]) = Inr r"
    using assms(1,5) by (simp add: domainForWrite_def GetDomainByID_def serving_def)
  have "checked_as r r" using assms(1,3) by (simp add: checked_as_def checked_row_def serving_def)
  then have "failedWrite r reason now [r] = (Some ?x, [?x])"
    by (simp add: failedWrite_def MarkDomainVerificationFailed_def update_rows_def checked_as_def)
  then obtain e where check: "VerifyDomain grace (Some lookup) now a (do_id r) (Some [r]) WriteDone links [r] = (Inl e, [], [?x])"
    using assms(6) by (simp add: VerifyDomain_def judged with_fate_def refused_def)
  have x: "failing_since now r ?x" using assms(1,2) by (simp add: failing_since_def failed_row_def serving_def live_def)
  from passes_to_the_stop [OF x assms(3,4,6-8)] obtain y where
    "passes grace batch lookup (clocks @ [final]) [?x] =
      ([EvUnverified (do_id r) (do_hostname r) now reason, WarnUnverified (do_id r) (do_hostname r), HostsInvalidated], [y])"
    "\<not> serving y"
    by blast
  with x check show ?thesis by (simp add: failing_since_def)
qed

theorem a_window_started_on_demand_ends_without_warning_witness:
  "case VerifyDomain 0 (Some silent) 100 demo_owner 1 (Some [dm_table demo_verified ! 1]) WriteDone None [dm_table demo_verified ! 1] of
     (reply, evs, t) \<Rightarrow> evs @ fst (passes 0 200 silent ([200, 300] @ [100 + DefaultVerifyGrace]) t) =
       [EvUnverified 1 ''go.example.com'' 100 (NoRecordAt ''_linkctrl-challenge.go.example.com''),
        WarnUnverified 1 ''go.example.com'', HostsInvalidated]"
proof -
  let ?r = "demo_row ''go.example.com'' ''t1'' (Some 20) sslStatusPending (Some 20) None None 20"
  have r: "dm_table demo_verified ! 1 = ?r" by (simp add: verified_table)
  have "serving ?r" "do_failing_since ?r = None" "do_verification_token ?r \<noteq> None" "do_organization_id ?r \<noteq> None"
    "canAdminister demo_owner (do_organization_id ?r) (do_workspace_id ?r)"
    "checkChallenge ?r silent = Some (NoRecordAt ''_linkctrl-challenge.go.example.com'')"
    "\<forall>c\<in>set [200, 300]. c < 100 + verifyGrace 0" "100 + verifyGrace 0 \<le> 100 + DefaultVerifyGrace"
    by code_simp+
  from a_window_started_on_demand_ends_without_warning [OF this, where links = None and batch = 200] show ?thesis
    unfolding r by (simp add: demo_row_def new_domain_def split: prod.splits)
qed

end
