(* ===== verification/Destination.thy ===== *)
theory Destination
  imports Url NetIp Domain HostName
begin

section \<open>Destinations\<close>

text \<open>
  internal/link/destination.go: the tier of checks on a destination that nothing overrules, and the form
  in which a destination is stored. Parameters are \<open>ph\<close>, Go's reading of the host of a URL (see
  \<open>Url\<close>), and \<open>idna\<close>, the ToASCII of golang.org/x/net/idna under \<open>hostProfile\<close>, which is consulted
  only for a host outside ASCII. An error is its field and code; its sentence is left out.
\<close>

subsection \<open>Hosts and ports of the standard library\<close>

text \<open>\<open>splitHostPort\<close> of net/url: a port is what follows the last colon when that is digits only, and
  brackets around the rest go.\<close>

definition without_brackets :: "string \<Rightarrow> string" where
  "without_brackets h = (if prefix ''['' h \<and> suffix '']'' h then butlast (tl h) else h)"

definition splitHostPort :: "string \<Rightarrow> string \<times> string" where
  "splitHostPort h =
     (case cut_last (CHR '':'') h of
        Some (host, port) \<Rightarrow>
          if list_all is_digit port then (without_brackets host, port) else (without_brackets h, '''')
      | None \<Rightarrow> (without_brackets h, ''''))"

definition Hostname :: "url \<Rightarrow> string" where
  "Hostname u = fst (splitHostPort (ul_host u))"

definition Port :: "url \<Rightarrow> string" where
  "Port u = snd (splitHostPort (ul_host u))"

subsection \<open>Addresses\<close>

text \<open>The questions of \<open>netip.Addr\<close>. \<open>IsUnspecified\<close> compares whole addresses, zones included.\<close>

definition Is4In6 :: "netip \<Rightarrow> bool" where
  "Is4In6 a = (case a of V4 _ \<Rightarrow> False | V6 w _ \<Rightarrow> drop_bit 32 w = 0xffff)"

definition Unmap :: "netip \<Rightarrow> netip" where
  "Unmap a = (case a of V6 w _ \<Rightarrow> if Is4In6 a then V4 (ucast w) else a | _ \<Rightarrow> a)"

definition IsLoopback :: "netip \<Rightarrow> bool" where
  "IsLoopback a = (case a of V4 w \<Rightarrow> drop_bit 24 w = 127 | V6 w _ \<Rightarrow> w = 1)"

definition IsPrivate :: "netip \<Rightarrow> bool" where
  "IsPrivate a =
     (case a of
        V4 w \<Rightarrow> drop_bit 24 w = 10 \<or> drop_bit 20 w = 0xac1 \<or> drop_bit 16 w = 0xc0a8
      | V6 w _ \<Rightarrow> drop_bit 121 w = 0x7e)"

definition IsLinkLocalUnicast :: "netip \<Rightarrow> bool" where
  "IsLinkLocalUnicast a = (case a of V4 w \<Rightarrow> drop_bit 16 w = 0xa9fe | V6 w _ \<Rightarrow> drop_bit 118 w = 0x3fa)"

definition IsMulticast :: "netip \<Rightarrow> bool" where
  "IsMulticast a = (case a of V4 w \<Rightarrow> drop_bit 28 w = 0xe | V6 w _ \<Rightarrow> drop_bit 120 w = 0xff)"

definition multicast_scope :: "128 word \<Rightarrow> 128 word" where
  "multicast_scope w = take_bit 4 (drop_bit 112 w)"

definition IsLinkLocalMulticast :: "netip \<Rightarrow> bool" where
  "IsLinkLocalMulticast a =
     (case a of V4 w \<Rightarrow> drop_bit 8 w = 0xe00000 | V6 w _ \<Rightarrow> drop_bit 120 w = 0xff \<and> multicast_scope w = 2)"

definition IsInterfaceLocalMulticast :: "netip \<Rightarrow> bool" where
  "IsInterfaceLocalMulticast a =
     (case a of V4 _ \<Rightarrow> False | V6 w _ \<Rightarrow> drop_bit 120 w = 0xff \<and> multicast_scope w = 1)"

definition IsUnspecified :: "netip \<Rightarrow> bool" where
  "IsUnspecified a \<longleftrightarrow> a = V4 0 \<or> a = V6 0 ''''"

text \<open>\<open>Prefix.Contains\<close> for the two IPv4 prefixes, an address and a number of bits.\<close>

definition extraRestrictedPrefixes :: "(32 word \<times> nat) list" where
  "extraRestrictedPrefixes = [(0x64400000, 10), (0xa9fe0000, 16)]"

definition prefix_contains :: "32 word \<times> nat \<Rightarrow> netip \<Rightarrow> bool" where
  "prefix_contains p a =
     (case a of V4 w \<Rightarrow> drop_bit (32 - snd p) w = drop_bit (32 - snd p) (fst p) | V6 _ _ \<Rightarrow> False)"

definition isRestricted :: "netip \<Rightarrow> bool" where
  "isRestricted addr =
     (let a = (if Is4In6 addr then Unmap addr else addr) in
      if IsLoopback a \<or> IsPrivate a \<or> IsLinkLocalUnicast a \<or> IsLinkLocalMulticast a
         \<or> IsInterfaceLocalMulticast a \<or> IsMulticast a \<or> IsUnspecified a then True
      else list_ex (\<lambda>p. prefix_contains p a) extraRestrictedPrefixes)"

definition IsRestrictedAddr :: "netip \<Rightarrow> bool" where
  "IsRestrictedAddr addr = isRestricted addr"

subsection \<open>The host in one spelling\<close>

definition trim_right_dots :: "string \<Rightarrow> string" where
  "trim_right_dots s = rev (dropWhile (\<lambda>c. c = CHR ''.'') (rev s))"

definition canonicalHost :: "(string \<Rightarrow> string option) \<Rightarrow> string \<Rightarrow> string option" where
  "canonicalHost idna raw =
     (let host = to_lower raw in
      if is_ascii host then Some (trim_right_dots host)
      else map_option (\<lambda>a. trim_right_dots (to_lower a)) (idna host))"

definition looksNumeric :: "string \<Rightarrow> bool" where
  "looksNumeric host =
     (if host = '''' then False
      else if list_ex (\<lambda>c. c \<in> set '':[]'') host then True
      else let label = last (split_on (CHR ''.'') host) in
           if label = '''' then True
           else if prefix ''0x'' label then True
           else list_all (\<lambda>r. 48 \<le> r \<and> r \<le> 57) (runes label))"

definition dest_listed :: "string list \<Rightarrow> string \<Rightarrow> bool" where
  "dest_listed haystack needle = list_ex (\<lambda>h. equal_fold (trim_space h) needle) haystack"

definition HostOf :: "(string \<Rightarrow> string option) \<Rightarrow> string \<Rightarrow> string" where
  "HostOf ph raw = (case Parse ph raw of None \<Rightarrow> '''' | Some u \<Rightarrow> to_lower (Hostname u))"

subsection \<open>Reason codes\<close>

datatype Tier = TierUnappealable | TierHighConfidence | TierLowConfidence

definition tier_text :: "Tier \<Rightarrow> string" where
  "tier_text t =
     (case t of TierUnappealable \<Rightarrow> ''unappealable'' | TierHighConfidence \<Rightarrow> ''high_confidence''
      | TierLowConfidence \<Rightarrow> ''low_confidence'')"

definition Tier_Code :: "Tier \<Rightarrow> string \<Rightarrow> string" where
  "Tier_Code t rule = tier_text t @ ''.'' @ rule"

definition tierOf :: "string \<Rightarrow> (Tier \<times> string) option" where
  "tierOf text =
     (case cut (CHR ''.'') text of
        (tier, rule, found) \<Rightarrow>
          if \<not> found then None
          else if tier = tier_text TierUnappealable then Some (TierUnappealable, rule)
          else if tier = tier_text TierHighConfidence then Some (TierHighConfidence, rule)
          else if tier = tier_text TierLowConfidence then Some (TierLowConfidence, rule)
          else None)"

definition RulePrivateAddress :: string where "RulePrivateAddress = ''private_address''"
definition RuleSchemeForbidden :: string where "RuleSchemeForbidden = ''scheme_not_allowed''"

subsection \<open>The validator\<close>

record DestinationPolicy =
  dp_schemes :: "string list"
  dp_max_length :: int

definition DefaultDestinationPolicy :: DestinationPolicy where
  "DefaultDestinationPolicy = \<lparr>dp_schemes = [''http'', ''https''], dp_max_length = 2048\<rparr>"

definition refuse_url :: "string \<Rightarrow> validation_errors + 'a" where
  "refuse_url c = Inl [field_err ''url'' c]"

definition host_field :: "string \<Rightarrow> string \<Rightarrow> string" where
  "host_field h port =
     (if port \<noteq> '''' then JoinHostPort h port else if CHR '':'' \<in> set h then ''['' @ h @ '']'' else h)"

definition ValidateDestination :: "(string \<Rightarrow> string option) \<Rightarrow> (string \<Rightarrow> string option) \<Rightarrow> string
    \<Rightarrow> DestinationPolicy \<Rightarrow> validation_errors + string" where
  "ValidateDestination ph idna raw p =
     (let s = trim_space raw in
      if s = '''' then refuse_url ''required''
      else if 0 < dp_max_length p \<and> dp_max_length p < int (length s) then refuse_url ''too_long''
      else if list_ex (\<lambda>r. r < 32 \<or> r = 127) (runes s) then refuse_url ''invalid''
      else case Parse ph s of
        None \<Rightarrow> refuse_url ''invalid''
      | Some u \<Rightarrow>
          (let scheme = to_lower (ul_scheme u) in
           if scheme = '''' then refuse_url ''no_scheme''
           else if \<not> dest_listed (dp_schemes p) scheme then refuse_url (Tier_Code TierUnappealable RuleSchemeForbidden)
           else case canonicalHost idna (Hostname u) of
             None \<Rightarrow> refuse_url ''invalid''
           | Some h \<Rightarrow>
               if h = '''' then refuse_url ''no_host''
               else if (case ParseAddr h of Some a \<Rightarrow> isRestricted a | None \<Rightarrow> looksNumeric h)
               then refuse_url (Tier_Code TierUnappealable RulePrivateAddress)
               else if h = ''localhost'' \<or> suffix ''.localhost'' h
               then refuse_url (Tier_Code TierUnappealable RulePrivateAddress)
               else Inr (url_string (u\<lparr>ul_scheme := scheme, ul_host := host_field h (Port u)\<rparr>))))"

text \<open>internal/webhook/client.go: the same question about a resolved address, before a socket connects.\<close>

definition guardDial :: "string \<Rightarrow> string option \<Rightarrow> bool" where
  "guardDial network host =
     (if network \<notin> set [''tcp'', ''tcp4'', ''tcp6''] then False
      else case host of
        None \<Rightarrow> False
      | Some h \<Rightarrow> (case ParseAddr h of None \<Rightarrow> False | Some a \<Rightarrow> \<not> IsRestrictedAddr a))"

lemma restricted_samples:
  "map_option isRestricted (ParseAddr ''127.0.0.1'') = Some True"
  "map_option isRestricted (ParseAddr ''172.31.255.1'') = Some True"
  "map_option isRestricted (ParseAddr ''172.32.0.1'') = Some False"
  "map_option isRestricted (ParseAddr ''100.127.0.1'') = Some True"
  "map_option isRestricted (ParseAddr ''100.128.0.1'') = Some False"
  "map_option isRestricted (ParseAddr ''169.254.169.254'') = Some True"
  "map_option isRestricted (ParseAddr ''::ffff:10.0.0.1'') = Some True"
  "map_option isRestricted (ParseAddr ''fd00::1'') = Some True"
  "map_option isRestricted (ParseAddr ''fe80::1%eth0'') = Some True"
  "map_option isRestricted (ParseAddr ''2606:4700:4700::1111'') = Some False"
  "map_option isRestricted (ParseAddr ''::'') = Some True"
  "map_option isRestricted (ParseAddr ''::%eth0'') = Some False"
  by code_simp+

lemma numeric_samples:
  "looksNumeric ''2130706433''" "looksNumeric ''0177.0.0.1''" "looksNumeric ''0x7f000001''" "looksNumeric ''127.1''"
  "\<not> looksNumeric ''example.com''" "looksNumeric ''[::1''"
  by code_simp+

end
