(* ===== verification/Blocking.thy ===== *)
theory Blocking
  imports Destination Punycode HostRouter
begin

section \<open>The appealable tiers\<close>

text \<open>
  internal/link/blocking.go: the lists and heuristics a destination is judged by after the validator, the
  opt-in reputation feed, the one door every surface goes through, the boot-time list of the
  operator, and the inert form in which a refused URL is recorded. The statements are those of
  store/query/blocking.sql. A table is \<open>None\<close> when its read fails; the feed and the owner's decisions
  are functions that answer or fail; a statement of the boot list ends by a \<open>write_fate\<close>. Sentences
  and log lines are left out.
\<close>

definition RuleEmbeddedHost :: string where "RuleEmbeddedHost = ''embedded_host''"
definition RuleOperatorBlocklist :: string where "RuleOperatorBlocklist = ''operator_blocklist''"
definition RuleShortenerChain :: string where "RuleShortenerChain = ''shortener_chain''"
definition RulePunycodeHomograph :: string where "RulePunycodeHomograph = ''punycode_homograph''"
definition RuleURLCredentials :: string where "RuleURLCredentials = ''url_credentials''"
definition RuleFeedReputation :: string where "RuleFeedReputation = ''feed_reputation''"

definition SourceEnv :: string where "SourceEnv = ''env''"
definition SourceReview :: string where "SourceReview = ''review''"
definition SourceShortener :: string where "SourceShortener = ''shortener''"

record Block =
  bk_tier :: Tier
  bk_rule :: string

definition Block_Error :: "Block \<Rightarrow> string \<Rightarrow> field_error" where
  "Block_Error b field = field_err field (Tier_Code (bk_tier b) (bk_rule b))"

subsection \<open>The embedded list\<close>

definition checkListEntry :: "(string \<Rightarrow> string option) \<Rightarrow> string \<Rightarrow> string option" where
  "checkListEntry idna entry =
     (if list_ex (\<lambda>c. c \<in> set ''/:@?# '') entry then None
      else if CHR ''*'' \<in> set entry then None
      else if prefix ''.'' entry \<or> suffix ''.'' entry then None
      else case canonicalHost idna entry of
        None \<Rightarrow> None
      | Some h \<Rightarrow> if looksNumeric h then None else Some h)"

text \<open>A malformed entry is a panic at start-up.\<close>

fun list_entries :: "(string \<Rightarrow> string option) \<Rightarrow> string list \<Rightarrow> string list option" where
  "list_entries idna [] = Some []"
| "list_entries idna (line # lines) =
     (let line = to_lower (trim_space line) in
      if line = '''' \<or> prefix ''#'' line then list_entries idna lines
      else case checkListEntry idna line of
        None \<Rightarrow> None
      | Some h \<Rightarrow> map_option (Cons h) (list_entries idna lines))"

definition parseHostList :: "(string \<Rightarrow> string option) \<Rightarrow> string \<Rightarrow> string list option" where
  "parseHostList idna raw = list_entries idna (split_on (CHR 0x0A) raw)"

definition highConfidence :: "string list \<Rightarrow> string \<Rightarrow> Block option" where
  "highConfidence embedded host =
     (if host \<notin> set embedded then None
      else Some \<lparr>bk_tier = TierHighConfidence, bk_rule = RuleEmbeddedHost\<rparr>)"

subsection \<open>Heuristics\<close>

record heuristic =
  hu_rule :: string
  hu_match :: "url \<Rightarrow> string \<Rightarrow> bool"

definition heuristics :: "heuristic list" where
  "heuristics =
     [\<lparr>hu_rule = RuleURLCredentials, hu_match = (\<lambda>u _. ul_user u \<noteq> None)\<rparr>,
      \<lparr>hu_rule = RulePunycodeHomograph, hu_match = (\<lambda>_ host. isHomograph host)\<rparr>]"

definition lowConfidenceHeuristics :: "url \<Rightarrow> string \<Rightarrow> Block option" where
  "lowConfidenceHeuristics u host =
     map_option (\<lambda>h. \<lparr>bk_tier = TierLowConfidence, bk_rule = hu_rule h\<rparr>) (find (\<lambda>h. hu_match h u host) heuristics)"

subsection \<open>The list in the database\<close>

record blocked_row =
  bl_host :: string
  bl_source :: string
  bl_reason :: string

text \<open>What follows each dot, longest first, up to an empty rest.\<close>

fun after_dots :: "string \<Rightarrow> string list" where
  "after_dots [] = []"
| "after_dots (c # cs) =
     (if c = CHR ''.'' then (if cs = [] then [] else cs # after_dots cs) else after_dots cs)"

definition HostCandidates :: "string \<Rightarrow> string list" where
  "HostCandidates raw =
     (let host = trim_suffix ''.'' (to_lower raw) in if host = '''' then [] else host # after_dots host)"

definition MatchBlockedDestination :: "string list \<Rightarrow> blocked_row list \<Rightarrow> blocked_row option" where
  "MatchBlockedDestination candidates t =
     (case sort_key (\<lambda>r. - int (rune_count (bl_host r))) (filter (\<lambda>r. bl_host r \<in> set candidates) t) of
        [] \<Rightarrow> None
      | r # _ \<Rightarrow> Some r)"

definition blockForSource :: "string \<Rightarrow> Block" where
  "blockForSource source =
     (if source = SourceShortener then \<lparr>bk_tier = TierLowConfidence, bk_rule = RuleShortenerChain\<rparr>
      else \<lparr>bk_tier = TierLowConfidence, bk_rule = RuleOperatorBlocklist\<rparr>)"

text \<open>\<open>None\<close> is a failed read.\<close>

definition listedInDatabase :: "blocked_row list option \<Rightarrow> string \<Rightarrow> (Block option \<times> string) option" where
  "listedInDatabase table host =
     (let candidates = HostCandidates host in
      if candidates = [] then Some (None, '''')
      else case table of
        None \<Rightarrow> None
      | Some t \<Rightarrow>
          (case MatchBlockedDestination candidates t of
             None \<Rightarrow> Some (None, '''')
           | Some r \<Rightarrow> Some (Some (blockForSource (bl_source r)), bl_host r)))"

subsection \<open>The feed\<close>

datatype feed_result = ResultClean | ResultMalicious | ResultError

text \<open>\<open>Check\<close> answers with a result and perhaps an error; a process may have no feed. What the step leaves
  is the destinations sent and the counts.\<close>

type_synonym feed = "string \<Rightarrow> feed_result \<times> bool"

datatype feed_count = Counted feed_result | Skipped

definition feedBlock :: Block where
  "feedBlock = \<lparr>bk_tier = TierLowConfidence, bk_rule = RuleFeedReputation\<rparr>"

definition askFeed :: "feed option \<Rightarrow> (string \<Rightarrow> bool option) \<Rightarrow> string \<Rightarrow> string
    \<Rightarrow> Block option \<times> string list \<times> feed_count list" where
  "askFeed feed allowed_dispute normalized host =
     (case feed of
        None \<Rightarrow> (None, [], [])
      | Some check \<Rightarrow>
          (case allowed_dispute host of
             None \<Rightarrow> (None, [], [Counted ResultError])
           | Some True \<Rightarrow> (None, [], [Skipped])
           | Some False \<Rightarrow>
               (case check normalized of
                  (result, failed) \<Rightarrow>
                    (if failed \<or> result \<noteq> ResultMalicious then None else Some feedBlock, [normalized], [Counted result]))))"

subsection \<open>The judgement\<close>

record Verdict =
  ve_normalized :: string
  ve_host :: string
  ve_block :: "Block option"
  ve_listed_host :: string
  ve_errs :: validation_errors

record judge_service =
  js_policy :: DestinationPolicy
  js_embedded :: "string list"
  js_feed :: "feed option"

text \<open>The tier a validator's refusal names, from the first code that names one.\<close>

definition refused_by :: "validation_errors \<Rightarrow> Block option" where
  "refused_by errs =
     (case List.map_filter (\<lambda>e. tierOf (fe_code e)) errs of
        [] \<Rightarrow> None
      | (t, r) # _ \<Rightarrow> Some \<lparr>bk_tier = t, bk_rule = r\<rparr>)"

text \<open>The tiers after the validator, on the destination as it would be stored: \<open>None\<close> is a failed
  read of the list.\<close>

definition later_tiers :: "judge_service \<Rightarrow> blocked_row list option \<Rightarrow> (string \<Rightarrow> bool option) \<Rightarrow> string \<Rightarrow> url \<Rightarrow> string
    \<Rightarrow> (Block option \<times> string \<times> string list \<times> feed_count list) option" where
  "later_tiers s table allowed_dispute normalized u host =
     (case highConfidence (js_embedded s) host of
        Some b \<Rightarrow> Some (Some b, '''', [], [])
      | None \<Rightarrow>
          (case listedInDatabase table host of
             None \<Rightarrow> None
           | Some (Some b, listed) \<Rightarrow> Some (Some b, listed, [], [])
           | Some (None, listed) \<Rightarrow>
               (case lowConfidenceHeuristics u host of
                  Some b \<Rightarrow> Some (Some b, listed, [], [])
                | None \<Rightarrow>
                    (case askFeed (js_feed s) allowed_dispute normalized host of
                       (b, sent, counts) \<Rightarrow> Some (b, listed, sent, counts)))))"

definition Judge :: "(string \<Rightarrow> string option) \<Rightarrow> (string \<Rightarrow> string option) \<Rightarrow> judge_service \<Rightarrow> blocked_row list option
    \<Rightarrow> (string \<Rightarrow> bool option) \<Rightarrow> string \<Rightarrow> Verdict option \<times> string list \<times> feed_count list" where
  "Judge ph idna s table allowed_dispute raw =
     (case ValidateDestination ph idna raw (js_policy s) of
        Inl errs \<Rightarrow>
          (Some \<lparr>ve_normalized = '''', ve_host = '''', ve_block = refused_by errs, ve_listed_host = '''', ve_errs = errs\<rparr>, [], [])
      | Inr normalized \<Rightarrow>
          (case Parse ph normalized of
             None \<Rightarrow> (None, [], [])
           | Some u \<Rightarrow>
               (let host = to_lower (Hostname u) in
                case later_tiers s table allowed_dispute normalized u host of
                  None \<Rightarrow> (None, [], [])
                | Some (None, _, sent, counts) \<Rightarrow>
                    (Some \<lparr>ve_normalized = normalized, ve_host = host, ve_block = None, ve_listed_host = '''', ve_errs = []\<rparr>,
                     sent, counts)
                | Some (Some b, listed, sent, counts) \<Rightarrow>
                    (Some \<lparr>ve_normalized = '''', ve_host = host, ve_block = Some b, ve_listed_host = listed,
                           ve_errs = [Block_Error b '''']\<rparr>, sent, counts))))"

subsection \<open>A refused URL, made inert\<close>

definition defangSafe :: string where
  "defangSafe = ''abcdefghijklmnopqrstuvwxyzABCDEFGHIJKLMNOPQRSTUVWXYZ0123456789'' @ ''-_.~:/?#@!$()*+,;=''"

definition defangMaxBytes :: nat where "defangMaxBytes = 2048"

definition replace_char :: "char \<Rightarrow> string \<Rightarrow> string \<Rightarrow> string" where
  "replace_char c by s = concat (map (\<lambda>x. if x = c then by else [x]) s)"

definition defang_byte :: "char \<Rightarrow> string" where
  "defang_byte c =
     (if c \<in> set defangSafe then [c] else [CHR ''%'', hex_digit (code c div 16), hex_digit (code c mod 16)])"

definition Defang :: "string \<Rightarrow> string" where
  "Defang raw =
     (let s = take defangMaxBytes (trim_space raw) in
      replace_char (CHR ''.'') ''[.]'' (replace_char (CHR '':'') ''[:]'' (concat (map defang_byte s))))"

subsection \<open>The one door\<close>

datatype destinationSurface =
  surfaceLinkCreate | surfaceLinkUpdate | surfaceRootRedirect | surfaceRoutingRule | surfaceSplitVariant | surfaceWebhook

definition surface_field :: "destinationSurface \<Rightarrow> string" where
  "surface_field s = (if s = surfaceRootRedirect then ''root_redirect_url'' else ''url'')"

text \<open>What a refusal leaves: the audit record, and the event for the webhooks of the workspace.\<close>

datatype blocked_event =
    Audited destinationSurface Tier string string
  | Emitted destinationSurface Tier string string

text \<open>\<open>audit\<close>: \<open>None\<close> without a log, otherwise what the limiter of repeated refusals says for the key.\<close>

definition recordBlocked :: "(string \<Rightarrow> bool) option \<Rightarrow> string \<Rightarrow> destinationSurface \<Rightarrow> Tier \<Rightarrow> string \<Rightarrow> blocked_event list" where
  "recordBlocked audit raw surface tier rule =
     (case audit of
        None \<Rightarrow> []
      | Some allowed \<Rightarrow> if allowed (Tier_Code tier rule) then [Audited surface tier rule (Defang raw)] else [])"

definition emitBlocked :: "bool \<Rightarrow> string \<Rightarrow> destinationSurface \<Rightarrow> Tier \<Rightarrow> string \<Rightarrow> blocked_event list" where
  "emitBlocked emits raw surface tier rule = (if emits then [Emitted surface tier rule (Defang raw)] else [])"

definition checkDestination :: "(string \<Rightarrow> bool) option \<Rightarrow> bool \<Rightarrow> Verdict option \<Rightarrow> string \<Rightarrow> destinationSurface
    \<Rightarrow> (validation_errors option + string) \<times> blocked_event list" where
  "checkDestination audit emits judged raw surface =
     (case judged of
        None \<Rightarrow> (Inl None, [])
      | Some v \<Rightarrow>
          if ve_errs v = [] then (Inr (ve_normalized v), [])
          else (Inl (Some (map (\<lambda>e. e\<lparr>fe_field := surface_field surface\<rparr>) (ve_errs v))),
                (case ve_block v of
                   None \<Rightarrow> []
                 | Some b \<Rightarrow>
                     recordBlocked audit raw surface (bk_tier b) (bk_rule b)
                     @ emitBlocked emits raw surface (bk_tier b) (bk_rule b))))"

subsection \<open>The operator's list\<close>

text \<open>The upsert takes the row over from whatever source it had; the deletion names one source.\<close>

definition env_reason :: string where "env_reason = ''LINKCTRL_DESTINATION_BLOCKLIST''"

definition UpsertEnvBlockedDestination :: "(string \<Rightarrow> string) \<Rightarrow> string \<Rightarrow> string \<Rightarrow> blocked_row list \<Rightarrow> blocked_row list" where
  "UpsertEnvBlockedDestination lower h reason t =
     (if list_ex (\<lambda>r. bl_host r = lower h) t
      then map (\<lambda>r. if bl_host r = lower h then r\<lparr>bl_source := SourceEnv, bl_reason := reason\<rparr> else r) t
      else t @ [\<lparr>bl_host = lower h, bl_source = SourceEnv, bl_reason = reason\<rparr>])"

definition DeleteStaleEnvBlockedDestinations :: "string list \<Rightarrow> blocked_row list \<Rightarrow> blocked_row list" where
  "DeleteStaleEnvBlockedDestinations keep t = filter (\<lambda>r. \<not> (bl_source r = SourceEnv \<and> bl_host r \<notin> set keep)) t"

text \<open>The loop over the entries, each with the fate of its statement: the table, and the hosts to keep
  or \<open>None\<close> when an entry failed.\<close>

fun seed_entries :: "(string \<Rightarrow> string option) \<Rightarrow> (string \<Rightarrow> string) \<Rightarrow> (string \<times> write_fate) list \<Rightarrow> string list
    \<Rightarrow> blocked_row list \<Rightarrow> string list option \<times> blocked_row list" where
  "seed_entries idna lower [] keep t = (Some keep, t)"
| "seed_entries idna lower ((raw, fate) # rest) keep t =
     (case canonicalHost idna (trim_space raw) of
        None \<Rightarrow> (None, t)
      | Some h \<Rightarrow>
          if h = '''' then seed_entries idna lower rest keep t
          else let t' = UpsertEnvBlockedDestination lower h env_reason t in
               (case fate of
                  WriteDone \<Rightarrow> seed_entries idna lower rest (keep @ [h]) t'
                | WriteRefused \<Rightarrow> (None, t)
                | WriteUnanswered \<Rightarrow> (None, t')))"

definition SeedBlocklist :: "(string \<Rightarrow> string option) \<Rightarrow> (string \<Rightarrow> string) \<Rightarrow> (string \<times> write_fate) list \<Rightarrow> write_fate
    \<Rightarrow> blocked_row list \<Rightarrow> bool \<times> blocked_row list" where
  "SeedBlocklist idna lower hosts fate t =
     (case seed_entries idna lower hosts [] t of
        (None, t) \<Rightarrow> (False, t)
      | (Some keep, t) \<Rightarrow>
          (case fate of
             WriteDone \<Rightarrow> (True, DeleteStaleEnvBlockedDestinations keep t)
           | WriteRefused \<Rightarrow> (False, t)
           | WriteUnanswered \<Rightarrow> (False, DeleteStaleEnvBlockedDestinations keep t)))"

lemma blocking_samples:
  "HostCandidates ''Login.Evil.example.'' = [''login.evil.example'', ''evil.example'', ''example'']"
  "Defang ''https://evil.example/<a>'' = ''https[:]//evil[.]example/%3Ca%3E''"
  "tierOf ''low_confidence.shortener_chain'' = Some (TierLowConfidence, ''shortener_chain'')"
  "parseHostList (\<lambda>_. None) (''# x'' @ [CHR 0x0A] @ '' Metadata.goog '' @ [CHR 0x0A]) = Some [''metadata.goog'']"
  by code_simp+

end
