(* ===== verification/UrlHost.thy ===== *)
theory UrlHost
  imports DeepLink HostName
begin

section \<open>The host of a URL survives printing\<close>

text \<open>
  A parsed URL whose scheme is folded and whose host is replaced, printed by \<open>String\<close> and parsed again, has
  the host it was given, if it parses: nothing in the path, the query, the fragment or the userinfo can
  move into the authority, and nothing in the authority can end it early. Of the reading of a host
  only one law is used, that an escaped host is read as itself or not at all.
\<close>

definition reads_back :: "(string \<Rightarrow> string option) \<Rightarrow> bool" where
  "reads_back ph \<longleftrightarrow> (\<forall>h h'. ph (url_escape EncodeHost h) = Some h' \<longrightarrow> h' = h)"

lemma cut_prefix: "c \<notin> set a \<Longrightarrow> cut c (a @ b) = (a @ fst (cut c b), snd (cut c b))"
  by (induction a) (auto split: prod.split)

lemma cut_before_hd: "fst (cut c s) = [] \<or> hd (fst (cut c s)) = hd s"
  by (cases s) (auto split: prod.split)

lemma authority_before:
  assumes "CHR ''/'' \<notin> set a" "rooted r"
  shows "takeWhile (\<lambda>c. c \<noteq> CHR ''/'') (a @ r) = a" "dropWhile (\<lambda>c. c \<noteq> CHR ''/'') (a @ r) = r"
  using assms by (induction a) (auto simp: rooted_def)

subsection \<open>Schemes\<close>

definition scheme_char :: "char \<Rightarrow> bool" where
  "scheme_char c \<longleftrightarrow> is_letter c \<or> is_digit c \<or> c \<in> set ''+-.''"

definition good_scheme :: "string \<Rightarrow> bool" where
  "good_scheme s \<longleftrightarrow> list_all scheme_char s \<and> (s = '''' \<or> is_letter (hd s))"

lemma scheme_loop_good:
  assumes "scheme_loop raw before cs = Some (scheme, rest)" "good_scheme before"
  shows "good_scheme scheme"
  using assms
proof (induction raw before cs rule: scheme_loop.induct)
  case (2 raw before c cs)
  have "good_scheme (before @ [c])" if "is_letter c \<or> before \<noteq> '''' \<and> (is_digit c \<or> c \<in> set ''+-.'')"
    using that 2(4) by (cases before) (auto simp: good_scheme_def scheme_char_def)
  with 2 show ?case by (auto split: if_splits simp: good_scheme_def)
qed (auto simp: good_scheme_def)

lemma scheme_loop_run:
  assumes "list_all scheme_char s" "before \<noteq> '''' \<or> is_letter (hd s)" "before @ s \<noteq> ''''"
  shows "scheme_loop raw before (s @ CHR '':'' # rest) = Some (before @ s, rest)"
  using assms
proof (induction s arbitrary: before)
  case Nil
  then show ?case by (simp add: is_letter_def is_digit_def code_def)
next
  case (Cons c s)
  have "scheme_loop raw before ((c # s) @ CHR '':'' # rest) = scheme_loop raw (before @ [c]) (s @ CHR '':'' # rest)"
    using Cons.prems(1,2) by (auto simp: scheme_char_def)
  also have "\<dots> = Some (before @ c # s, rest)" using Cons.IH [of "before @ [c]"] Cons.prems(1) by simp
  finally show ?case .
qed

lemma good_scheme_ascii: "good_scheme s \<Longrightarrow> is_ascii s"
  by (auto simp: good_scheme_def is_ascii_def list_all_iff scheme_char_def is_letter_def is_digit_def) (auto simp: code_def)

lemma good_scheme_lower:
  assumes "good_scheme s"
  shows "good_scheme (to_lower s)"
proof -
  have "scheme_char (ascii_lower c) \<and> (is_letter c \<longrightarrow> is_letter (ascii_lower c))" if "scheme_char c" for c
    using that by (auto simp: scheme_char_def is_letter_def is_digit_def ascii_lower_def code_def)
  with assms show ?thesis
    by (cases s) (auto simp: to_lower_ascii good_scheme_ascii good_scheme_def list_all_iff)
qed

subsection \<open>What a parsed URL is made of\<close>

lemma parse_rest_scheme:
  assumes "parse_rest ph u rest = Some v"
  shows "ul_scheme v = ul_scheme u" "ul_opaque u = '''' \<Longrightarrow> ul_host u = '''' \<Longrightarrow> ul_opaque v = '''' \<or> ul_host v = ''''"
  using assms
  by (auto simp: parse_rest_def set_path_def Let_def split: if_splits option.splits prod.splits)

lemma Parse_parts:
  assumes "Parse ph raw = Some u"
  shows "good_scheme (ul_scheme u)" "to_lower (ul_scheme u) = ul_scheme u" "ul_opaque u = '''' \<or> ul_host u = ''''"
proof -
  from assms obtain before v where v: "parse_no_fragment ph before = Some v" "ul_scheme u = ul_scheme v"
    "ul_opaque u = ul_opaque v" "ul_host u = ul_host v"
    by (auto simp: Parse_def set_fragment_def split: prod.splits option.splits if_splits)
  have parts: "good_scheme (ul_scheme v) \<and> to_lower (ul_scheme v) = ul_scheme v \<and> (ul_opaque v = '''' \<or> ul_host v = '''')"
  proof (cases "before = ''*''")
    case True
    with v(1) show ?thesis by (auto simp: parse_no_fragment_def empty_url_def good_scheme_def to_lower_def is_ascii_def split: if_splits)
  next
    case False
    with v(1) obtain scheme rest x r where x: "scheme_loop before '''' before = Some (scheme, rest)" "parse_rest ph x r = Some v"
      "ul_scheme x = to_lower scheme" "ul_opaque x = ''''" "ul_host x = ''''"
      by (auto simp: parse_no_fragment_def Let_def empty_url_def split: if_splits option.splits prod.splits)
    have "good_scheme scheme" using scheme_loop_good [OF x(1)] by (simp add: good_scheme_def)
    with x parse_rest_scheme [OF x(2)] show ?thesis
      by (simp add: good_scheme_lower to_lower_idem_ascii good_scheme_ascii)
  qed
  with v show "good_scheme (ul_scheme u)" "to_lower (ul_scheme u) = ul_scheme u" "ul_opaque u = '''' \<or> ul_host u = ''''"
    by simp_all
qed

subsection \<open>Printing and parsing\<close>

lemma url_escape_Cons:
  "url_escape m (x # s) =
     (if should_escape m x then [CHR ''%'', hex_digit (code x div 16), hex_digit (code x mod 16)] else [x]) @ url_escape m s"
  by (simp add: url_escape_def)

lemma escaped_chars:
  assumes "c \<in> set (url_escape m s)"
  shows "\<not> should_escape m c \<or> alnum c \<or> c = CHR ''%''"
  using assms
proof (induction s)
  case (Cons x s)
  have "alnum (hex_digit (code x div 16))" "alnum (hex_digit (code x mod 16))"
    using code_less [of x] by (auto intro!: hex_digit_alnum simp: less_mult_imp_div_less)
  with Cons show ?case by (auto simp: url_escape_Cons split: if_splits)
qed (simp add: url_escape_def)

lemma escaped_host_chars: "c \<in> set ''/?#@'' \<Longrightarrow> c \<notin> set (url_escape EncodeHost h)"
  using escaped_chars [of c EncodeHost h] by (auto simp: should_escape_def alnum_def is_digit_def code_def)

lemma escaped_user_chars: "c \<in> set ''/?#@:'' \<Longrightarrow> c \<notin> set (url_escape EncodeUserPassword h)"
  using escaped_chars [of c EncodeUserPassword h] by (auto simp: should_escape_def alnum_def is_digit_def code_def)

definition authority_text :: "url \<Rightarrow> string" where
  "authority_text u =
     (case ul_user u of None \<Rightarrow> '''' | Some ui \<Rightarrow> user_text ui @ ''@'') @ url_escape EncodeHost (ul_host u)"

lemma authority_chars: "c \<in> set ''/?#'' \<Longrightarrow> c \<notin> set (authority_text u)"
  using escaped_host_chars [of c] escaped_user_chars [of c]
  by (auto simp: authority_text_def user_text_def split: option.split)

lemma origin_authority:
  "ul_scheme u \<noteq> '''' \<Longrightarrow> ul_host u \<noteq> '''' \<Longrightarrow> origin_text u = ul_scheme u @ ''://'' @ authority_text u"
  by (simp add: origin_text_def authority_text_def)

lemma parse_authority_host:
  assumes "parse_authority ph (authority_text u) = Some (user, h)" "reads_back ph"
  shows "h = ul_host u"
proof -
  have at: "CHR ''@'' \<notin> set (url_escape EncodeHost (ul_host u))" by (rule escaped_host_chars) simp
  have "ph (url_escape EncodeHost (ul_host u)) = Some h"
  proof (cases "ul_user u")
    case None
    with at assms(1) show ?thesis by (auto simp: parse_authority_def authority_text_def cut_last_none)
  next
    case (Some ui)
    then have "cut_last (CHR ''@'') (authority_text u) = Some (user_text ui, url_escape EncodeHost (ul_host u))"
      using cut_last_append [OF at] by (simp add: authority_text_def)
    with assms(1) show ?thesis by (auto simp: parse_authority_def split: option.splits if_splits prod.splits)
  qed
  with assms(2) show ?thesis by (auto simp: reads_back_def)
qed

lemma cut_rooted:
  assumes "rooted r \<or> (\<exists>q. r = CHR ''?'' # q)"
  shows "rooted (fst (cut (CHR ''?'') r))"
  using assms by (auto simp: rooted_def split: prod.split)

lemma cut_hash_rest:
  assumes "rooted p" "q = '''' \<or> (\<exists>x. q = CHR ''?'' # x) \<or> (\<exists>x. q = CHR ''#'' # x)"
  shows "rooted (fst (cut (CHR ''#'') (p @ q))) \<or> (\<exists>x. fst (cut (CHR ''#'') (p @ q)) = CHR ''?'' # x)"
  using assms by (auto simp: rooted_def split: prod.split)

lemma parse_rest_host:
  assumes "parse_rest ph x (''//'' @ authority_text u @ r) = Some v" "rooted r" "ul_scheme x \<noteq> ''''" "reads_back ph"
  shows "ul_host v = ul_host u \<and> ul_scheme v = ul_scheme x"
proof -
  have slash: "CHR ''/'' \<notin> set (authority_text u)" by (rule authority_chars) simp
  from assms(1,3) obtain user h where h: "parse_authority ph (authority_text u) = Some (user, h)"
    "set_path (x\<lparr>ul_user := user, ul_host := h\<rparr>) r = Some v"
    by (auto simp: parse_rest_def authority_before [OF slash assms(2)] Let_def split: option.splits)
  then show ?thesis using parse_authority_host [OF h(1) assms(4)] by (auto simp: set_path_def)
qed

lemma parse_no_fragment_host:
  assumes "parse_no_fragment ph (s @ ''://'' @ authority_text u @ r) = Some v" "rooted r \<or> (\<exists>q. r = CHR ''?'' # q)"
    "good_scheme s" "s \<noteq> ''''" "to_lower s = s" "reads_back ph"
  shows "ul_host v = ul_host u \<and> ul_scheme v = s"
proof -
  define front where "front = ''//'' @ authority_text u"
  define x where "x = empty_url\<lparr>ul_scheme := s\<rparr>"
  have mark: "CHR ''?'' \<notin> set front" using authority_chars [of "CHR ''?''" u] by (simp add: front_def)
  have raw: "s @ ''://'' @ authority_text u @ r = s @ CHR '':'' # front @ r" by (simp add: front_def)
  have star: "s @ CHR '':'' # front @ r \<noteq> ''*''" by (cases s) auto
  have loop: "scheme_loop raw '''' (s @ CHR '':'' # front @ r) = Some (s, front @ r)" for raw
    using scheme_loop_run [of s "''''" raw "front @ r"] assms(3,4) by (simp add: good_scheme_def)
  have ctl: "\<not> list_ex is_ctl (s @ CHR '':'' # front @ r)"
    using assms(1) unfolding raw parse_no_fragment_def by (rule contrapos_pn) (simp only: if_True option.distinct not_False_eq_True)
  have cases: "(if suffix ''?'' (front @ r) \<and> count_list (front @ r) (CHR ''?'') = 1
      then parse_rest ph (x\<lparr>ul_force_query := True\<rparr>) (butlast (front @ r))
      else case cut (CHR ''?'') (front @ r) of (path, q, _) \<Rightarrow> parse_rest ph (x\<lparr>ul_raw_query := q\<rparr>) path) = Some v"
    using assms(1) unfolding raw parse_no_fragment_def x_def
    by (simp only: ctl star loop if_False option.case prod.case Let_def assms(5))
  have parsed: "ul_host v = ul_host u \<and> ul_scheme v = s"
    if "parse_rest ph y (front @ t) = Some v" "rooted t" "ul_scheme y = s" for y t
    using parse_rest_host [of ph y u t v] that assms(4,6) by (simp add: front_def)
  show ?thesis
  proof (cases "suffix ''?'' (front @ r) \<and> count_list (front @ r) (CHR ''?'') = 1")
    case True
    have "r \<noteq> ''''" using True mark by (auto simp: suffix_def)
    moreover have "count_list r (CHR ''?'') = 1" using True mark by (simp add: count_list_0_iff)
    moreover have "last (front @ r) = CHR ''?''" using True by (auto simp: suffix_def)
    ultimately have "rooted (butlast r)" "butlast (front @ r) = front @ butlast r"
      using assms(2) by (auto simp: rooted_def butlast_append count_list_0_iff split: if_splits) (metis last_in_set)
    with parsed [of "x\<lparr>ul_force_query := True\<rparr>" "butlast r"] cases True show ?thesis by (simp add: x_def)
  next
    case False
    have c: "cut (CHR ''?'') (front @ r) = (front @ fst (cut (CHR ''?'') r), snd (cut (CHR ''?'') r))"
      by (rule cut_prefix [OF mark])
    from cases [unfolded if_not_P [OF False] c] have "parse_rest ph (x\<lparr>ul_raw_query := fst (snd (cut (CHR ''?'') r))\<rparr>) (front @ fst (cut (CHR ''?'') r)) = Some v"
      by (simp add: case_prod_unfold)
    with parsed cut_rooted [OF assms(2)] show ?thesis by (simp add: x_def)
  qed
qed

text \<open>Of two URLs that differ in scheme and host only the second is printed; what it says of its host is read
  back.\<close>

lemma printed_host:
  assumes "Parse ph (url_string u) = Some v" "reads_back ph" "ul_host u \<noteq> ''''" "ul_opaque u = ''''" "well_rooted u"
    "good_scheme (ul_scheme u)" "ul_scheme u \<noteq> ''''" "to_lower (ul_scheme u) = ul_scheme u"
  shows "ul_host v = ul_host u \<and> ul_scheme v = ul_scheme u"
proof -
  define front where "front = ul_scheme u @ ''://'' @ authority_text u"
  have path: "rooted (path_text u)"
    using EscapedPath_rooted [OF assms(5)] assms(3,7) origin_authority [OF assms(7,3)]
    by (auto simp: path_text_def rooted_def Let_def)
  have query: "query_text u = '''' \<or> (\<exists>x. query_text u = CHR ''?'' # x) \<or> (\<exists>x. query_text u = CHR ''#'' # x)"
    by (auto simp: query_text_def)
  have printed: "url_string u = front @ path_text u @ query_text u"
    using assms(3,4,7) by (simp add: url_string_def origin_authority front_def)
  have "\<not> scheme_char (CHR ''#'')" by (simp add: scheme_char_def is_letter_def is_digit_def code_def)
  then have hash: "CHR ''#'' \<notin> set front"
    using authority_chars [of "CHR ''#''" u] assms(6) by (auto simp: front_def good_scheme_def list_all_iff)
  obtain w where w: "parse_no_fragment ph (front @ fst (cut (CHR ''#'') (path_text u @ query_text u))) = Some w"
    "ul_host v = ul_host w" "ul_scheme v = ul_scheme w"
    using assms(1) unfolding Parse_def printed cut_prefix [OF hash]
    by (auto simp: set_fragment_def case_prod_unfold split: option.splits if_splits)
  from parse_no_fragment_host [OF w(1) [unfolded front_def append_assoc] cut_hash_rest [OF path query] assms(6,7,8,2)] w(2,3)
  show ?thesis by simp
qed

end
