(* ===== verification/Blocking_Correct.thy ===== *)
theory Blocking_Correct
  imports Blocking UrlHost UserAgent
begin

section \<open>What the door lets through\<close>

text \<open>
  A destination that is let through is judged under the very host a client will read from its stored form,
  and every tier has accepted that host; the feed can only take away from what the built-in tiers
  accept; the list in the database matches whole labels; the record of a refusal is inert and loses
  nothing; and what the boot-time list does to the rows of others.
\<close>

subsection \<open>The host that is judged and stored\<close>

lemma without_brackets_plain: "\<not> prefix ''['' h \<Longrightarrow> without_brackets h = h"
  by (simp add: without_brackets_def)

lemma without_brackets_wrapped: "without_brackets (bracketed h) = h"
  by (simp add: without_brackets_def suffix_def bracketed_def)

lemma digits_no_colon: "list_all is_digit p \<Longrightarrow> CHR '':'' \<notin> set p"
  by (auto simp: list_all_iff is_digit_def code_def)

lemma bracket_no_digit: "\<not> is_digit (CHR '']'')"
  by (simp add: is_digit_def code_def)

text \<open>A host that is an address, or has neither colon nor bracket, is read back from the field it is
  written to.\<close>

lemma ParseAddr_bracket:
  assumes "ParseAddr h = Some a" "CHR '':'' \<notin> set h"
  shows "\<not> prefix ''['' h"
proof
  assume "prefix ''['' h"
  then obtain t where h: "h = CHR ''['' # t" by (auto simp: prefix_def)
  have "ParseAddr_from h s = Some a \<Longrightarrow> set s \<subseteq> set h \<Longrightarrow> parseIPv4 h = Some a" for s
    using assms(2) by (induction s) (auto split: if_splits)
  then have "parseIPv4 h = Some a" using assms(1) by (auto simp: ParseAddr_def)
  then obtain f where "v4_field (hd (split_on (CHR ''.'') h)) = Some f"
    by (auto simp: parseIPv4_def v4_fields_def split: option.splits list.splits)
  moreover have "\<exists>g. hd (split_on (CHR ''.'') h) = CHR ''['' # g" by (auto simp: h split: list.split)
  ultimately show False by (auto simp: v4_field_def is_digit_def code_def split: if_splits)
qed

lemma field_bracketed: "host_field h port = (if port \<noteq> '''' then JoinHostPort h port else if CHR '':'' \<in> set h then bracketed h else h)"
  by (simp add: host_field_def bracketed_def)

lemma field_read_back:
  assumes "list_all is_digit port" "case ParseAddr h of Some _ \<Rightarrow> True | None \<Rightarrow> \<not> looksNumeric h" "h \<noteq> ''''"
  shows "fst (splitHostPort (host_field h port)) = h"
proof -
  have nb: "\<not> prefix ''['' h" if "CHR '':'' \<notin> set h"
  proof (cases "ParseAddr h")
    case None
    with assms(2,3) show ?thesis by (auto simp: looksNumeric_def list_ex_iff prefix_def)
  qed (use ParseAddr_bracket that in blast)
  note colon = digits_no_colon [OF assms(1)]
  show ?thesis
  proof (cases "CHR '':'' \<in> set h")
    case True
    show ?thesis
    proof (cases "port = ''''")
      case p: True
      obtain a b where ab: "cut_last (CHR '':'') (bracketed h) = Some (a, b)"
        using True cut_last_None [of "CHR '':''" "bracketed h"] by (auto simp: bracketed_def)
      have "\<exists>s. b = s @ '']''" using cut_last_parts [OF ab] by (cases b rule: rev_cases) (auto simp: bracketed_def)
      with ab True p show ?thesis
        by (auto simp: field_bracketed splitHostPort_def without_brackets_wrapped bracket_no_digit)
    next
      case False
      with True assms(1) cut_last_append [OF colon, of "bracketed h"] show ?thesis
        by (simp add: field_bracketed JoinHostPort_def splitHostPort_def without_brackets_wrapped)
    qed
  next
    case False
    with nb [OF False] cut_last_append [OF colon, of h] assms(1) show ?thesis
      by (simp add: field_bracketed JoinHostPort_def splitHostPort_def without_brackets_plain cut_last_none)
  qed
qed

lemma field_nonempty: "h \<noteq> '''' \<Longrightarrow> host_field h port \<noteq> ''''"
  by (simp add: host_field_def JoinHostPort_def)

subsection \<open>The canonical spelling\<close>

lemma dropWhile_ends: "dropWhile P xs = [] \<or> \<not> P (hd (dropWhile P xs))"
  by (induction xs) auto

lemma trim_right_dots_props:
  "set (trim_right_dots s) \<subseteq> set s" "\<not> suffix ''.'' (trim_right_dots s)"
proof -
  show "set (trim_right_dots s) \<subseteq> set s" by (auto simp: trim_right_dots_def dest: set_dropWhileD)
  have "suffix ''.'' (rev d) \<Longrightarrow> d \<noteq> [] \<and> hd d = CHR ''.''" for d by (cases d) (auto simp: suffix_def)
  with dropWhile_ends [of "\<lambda>c. c = CHR ''.''" "rev s"] show "\<not> suffix ''.'' (trim_right_dots s)"
    unfolding trim_right_dots_def by blast
qed

text \<open>No letter of a lower-cased string is an ASCII capital.\<close>

lemma to_lower_no_capital:
  assumes "c \<in> set (to_lower s)"
  shows "ascii_lower c = c"
proof (rule ccontr)
  assume "ascii_lower c \<noteq> c"
  then have c: "65 \<le> code c" "code c \<le> 90" by (auto simp: ascii_lower_def split: if_splits)
  show False
  proof (cases "is_ascii s")
    case True
    with assms obtain x where "c = ascii_lower x" by (auto simp: to_lower_ascii)
    with \<open>ascii_lower c \<noteq> c\<close> show False by (simp add: ascii_lower_idem)
  next
    case False
    then have "c \<in> set (string_of_runes (map rune_lower (runes s)))" using assms by (simp add: to_lower_def)
    with string_of_runes_small [OF this] c obtain r where r: "code c = rune_lower r" by auto
    with c rune_lower_small [of r] have "r < 128" by fastforce
    with r c show False by (auto simp: rune_lower_def split: if_splits)
  qed
qed

lemma canonicalHost_form:
  assumes "canonicalHost idna raw = Some h" "\<forall>x a. idna x = Some a \<longrightarrow> is_ascii a"
  shows "is_ascii h" "to_lower h = h" "\<not> suffix ''.'' h"
proof -
  obtain t where t: "h = trim_right_dots (to_lower t)" "is_ascii (to_lower t)"
    using assms by (auto simp: canonicalHost_def Let_def is_ascii_to_lower split: if_splits)
  from t(2) trim_right_dots_props(1) [of "to_lower t"] show a: "is_ascii h" by (auto simp: is_ascii_def list_all_iff t(1))
  have "ascii_lower c = c" if "c \<in> set h" for c
    using that trim_right_dots_props(1) [of "to_lower t"] to_lower_no_capital [of c t] by (auto simp: t(1))
  then show "to_lower h = h" by (simp add: to_lower_ascii [OF a] map_idI)
  show "\<not> suffix ''.'' h" by (simp add: t(1) trim_right_dots_props)
qed
lemma trim_right_dots_host: "trim_right_dots '''' = ''''"
  by (simp add: trim_right_dots_def)

lemma canonicalHost_empty: "canonicalHost idna '''' = Some ''''"
  by (simp add: canonicalHost_def trim_right_dots_host to_lower_def is_ascii_def)

definition address_allowed :: "string \<Rightarrow> bool" where
  "address_allowed h \<longleftrightarrow> (case ParseAddr h of Some a \<Rightarrow> \<not> isRestricted a | None \<Rightarrow> \<not> looksNumeric h)"

text \<open>What the validator has settled of a destination it accepts, and what it makes of it.\<close>

lemma ValidateDestination_accepts:
  assumes "ValidateDestination ph idna raw p = Inr normalized"
  obtains u h where "Parse ph (trim_space raw) = Some u" "canonicalHost idna (Hostname u) = Some h" "h \<noteq> ''''"
    "ul_scheme u \<noteq> ''''" "dest_listed (dp_schemes p) (to_lower (ul_scheme u))" "address_allowed h"
    "h \<noteq> ''localhost''" "\<not> suffix ''.localhost'' h"
    "normalized = url_string (u\<lparr>ul_scheme := to_lower (ul_scheme u), ul_host := host_field h (Port u)\<rparr>)"
proof -
  have "s \<noteq> []" if "to_lower s \<noteq> []" for s using that by (auto simp: to_lower_def is_ascii_def)
  then show thesis
    using assms that
    by (simp add: ValidateDestination_def Let_def refuse_url_def address_allowed_def split: if_splits option.splits)
qed

lemma accepted_reparses:
  assumes "ValidateDestination ph idna raw p = Inr normalized" "Parse ph normalized = Some v" "reads_back ph"
    "\<forall>x a. idna x = Some a \<longrightarrow> is_ascii a"
  shows "dest_listed (dp_schemes p) (ul_scheme v)" "address_allowed (Hostname v)" "Hostname v \<notin> {'''', ''localhost''}"
    "\<not> suffix ''.localhost'' (Hostname v)" "\<not> suffix ''.'' (Hostname v)" "is_ascii (Hostname v)"
    "to_lower (Hostname v) = Hostname v"
proof -
  from assms(1) obtain u h where u: "Parse ph (trim_space raw) = Some u" "canonicalHost idna (Hostname u) = Some h" "h \<noteq> ''''"
    "ul_scheme u \<noteq> ''''" "dest_listed (dp_schemes p) (to_lower (ul_scheme u))" "address_allowed h"
    "h \<noteq> ''localhost''" "\<not> suffix ''.localhost'' h"
    "normalized = url_string (u\<lparr>ul_scheme := to_lower (ul_scheme u), ul_host := host_field h (Port u)\<rparr>)"
    by (rule ValidateDestination_accepts)
  have host: "ul_host u \<noteq> ''''" using u(2,3) by (auto simp: Hostname_def splitHostPort_def without_brackets_def canonicalHost_empty)
  have parts: "good_scheme (ul_scheme u)" "to_lower (ul_scheme u) = ul_scheme u" "ul_opaque u = ''''"
    using Parse_parts [OF u(1)] host by auto
  have digits: "list_all is_digit (Port u)" by (simp add: Port_def splitHostPort_def split: option.split)
  have "ul_host v = host_field h (Port u) \<and> ul_scheme v = ul_scheme u"
    using printed_host [of ph "u\<lparr>ul_scheme := to_lower (ul_scheme u), ul_host := host_field h (Port u)\<rparr>" v]
      assms(2,3) u(3,4,9) parts Parse_rooted [OF u(1) host] field_nonempty [OF u(3)]
    by (simp add: well_rooted_def)
  moreover have "fst (splitHostPort (host_field h (Port u))) = h"
    using field_read_back [OF digits _ u(3)] u(6) by (auto simp: address_allowed_def split: option.splits)
  ultimately have v: "Hostname v = h" "ul_scheme v = ul_scheme u" by (simp_all add: Hostname_def)
  note form = canonicalHost_form [OF u(2) assms(4)]
  show "dest_listed (dp_schemes p) (ul_scheme v)" using u(5) v(2) parts(2) by simp
  show "address_allowed (Hostname v)" "Hostname v \<notin> {'''', ''localhost''}" "\<not> suffix ''.localhost'' (Hostname v)"
    "\<not> suffix ''.'' (Hostname v)" "is_ascii (Hostname v)" "to_lower (Hostname v) = Hostname v"
    using u(3,6,7,8) form by (simp_all add: v(1))
qed

subsection \<open>The list matches whole labels\<close>

lemma set_after_dots: "x \<in> set (after_dots h) \<longleftrightarrow> x \<noteq> '''' \<and> suffix (CHR ''.'' # x) h"
proof (induction h)
  case (Cons c cs)
  then show ?case by (auto simp: suffix_Cons)
qed simp

lemma HostCandidates_set:
  assumes "h \<noteq> ''''" "to_lower h = h" "\<not> suffix ''.'' h"
  shows "x \<in> set (HostCandidates h) \<longleftrightarrow> x = h \<or> x \<noteq> '''' \<and> suffix (CHR ''.'' # x) h"
  using assms by (auto simp: HostCandidates_def trim_suffix_def Let_def set_after_dots)

definition names_host :: "string \<Rightarrow> string \<Rightarrow> bool" where
  "names_host entry h \<longleftrightarrow> entry \<noteq> '''' \<and> (entry = h \<or> suffix (CHR ''.'' # entry) h)"

lemma MatchBlockedDestination_None:
  fixes t :: "blocked_row list"
  shows "MatchBlockedDestination cs t = None \<longleftrightarrow> (\<forall>r\<in>set t. bl_host r \<notin> set cs)"
proof -
  define xs where "xs = filter (\<lambda>r. bl_host r \<in> set cs) t"
  have "sort_key f xs = [] \<longleftrightarrow> xs = []" for f :: "blocked_row \<Rightarrow> int" by (metis set_empty set_sort)
  then have "sort_key (\<lambda>r. - int (rune_count (bl_host r))) xs = [] \<longleftrightarrow> xs = []" .
  moreover have "MatchBlockedDestination cs t = None \<longleftrightarrow> sort_key (\<lambda>r. - int (rune_count (bl_host r))) xs = []"
    by (simp add: MatchBlockedDestination_def xs_def split: list.split)
  ultimately show ?thesis by (auto simp: xs_def filter_empty_conv)
qed

lemma MatchBlockedDestination_Some:
  fixes t :: "blocked_row list"
  assumes "MatchBlockedDestination cs t = Some r"
  shows "r \<in> set t" "bl_host r \<in> set cs"
    "\<forall>q\<in>set t. bl_host q \<in> set cs \<longrightarrow> rune_count (bl_host q) \<le> rune_count (bl_host r)"
proof -
  define f where "f = (\<lambda>r :: blocked_row. - int (rune_count (bl_host r)))"
  define xs where "xs = filter (\<lambda>r. bl_host r \<in> set cs) t"
  from assms obtain rs where rs: "sort_key f xs = r # rs"
    by (auto simp: MatchBlockedDestination_def f_def xs_def split: list.splits)
  have set: "set (r # rs) = set xs" by (simp only: rs [symmetric] set_sort)
  then show "r \<in> set t" "bl_host r \<in> set cs" by (auto simp: xs_def)
  have "sorted (map f (r # rs))" by (simp only: rs [symmetric] sorted_sort_key)
  then have "\<forall>q\<in>set xs. f r \<le> f q" using set by auto
  then show "\<forall>q\<in>set t. bl_host q \<in> set cs \<longrightarrow> rune_count (bl_host q) \<le> rune_count (bl_host r)"
    by (auto simp: xs_def f_def)
qed

lemma listedInDatabase_nothing:
  assumes "h \<noteq> ''''" "to_lower h = h" "\<not> suffix ''.'' h" "listedInDatabase table h = Some (None, l)"
  shows "l = ''''" "\<exists>t. table = Some t \<and> list_all (\<lambda>r. \<not> names_host (bl_host r) h) t"
proof -
  have ne: "HostCandidates h \<noteq> []" using assms by (auto simp: HostCandidates_def trim_suffix_def)
  with assms(4) show "l = ''''" by (auto simp: listedInDatabase_def Let_def split: option.splits)
  from ne assms(4) obtain t where t: "table = Some t" "MatchBlockedDestination (HostCandidates h) t = None"
    by (auto simp: listedInDatabase_def Let_def split: option.splits)
  then show "\<exists>t. table = Some t \<and> list_all (\<lambda>r. \<not> names_host (bl_host r) h) t"
    using assms(1) by (auto simp: MatchBlockedDestination_None names_host_def list_all_iff HostCandidates_set [OF assms(1-3)])
qed
text \<open>The answer of the list for a stored host: nothing exactly when no entry names it, otherwise the longest
  entry that does, under the rule its source stands for.\<close>

lemma listedInDatabase_longest:
  assumes "h \<noteq> ''''" "to_lower h = h" "\<not> suffix ''.'' h" "listedInDatabase (Some t) h = Some (Some b, l)"
  shows "\<exists>r\<in>set t. bl_host r = l \<and> names_host l h \<and> b = blockForSource (bl_source r) \<and>
    (\<forall>q\<in>set t. names_host (bl_host q) h \<longrightarrow> rune_count (bl_host q) \<le> rune_count l)"
proof -
  have named: "x \<in> set (HostCandidates h) \<longleftrightarrow> names_host x h" for x
    using assms(1) by (auto simp: names_host_def HostCandidates_set [OF assms(1-3)])
  from assms(4) obtain r where r: "MatchBlockedDestination (HostCandidates h) t = Some r"
    "b = blockForSource (bl_source r)" "l = bl_host r"
    by (auto simp: listedInDatabase_def Let_def split: if_splits option.splits)
  from MatchBlockedDestination_Some [OF r(1)] r(2,3) show ?thesis by (auto simp: named)
qed

subsection \<open>Every tier has accepted the stored host\<close>

lemma heuristics_accept: "lowConfidenceHeuristics u h = None \<longleftrightarrow> ul_user u = None \<and> \<not> isHomograph h"
  by (cases "ul_user u") (auto simp: lowConfidenceHeuristics_def heuristics_def)

lemma later_tiers_accept:
  assumes "later_tiers s table d n u h = Some (None, l, sent, counts)"
  shows "h \<notin> set (js_embedded s)" "\<exists>l. listedInDatabase table h = Some (None, l)" "ul_user u = None" "\<not> isHomograph h"
  using assms heuristics_accept [of u h]
  by (auto simp: later_tiers_def highConfidence_def split: option.splits prod.splits if_splits)

lemma Judge_accepts:
  assumes "Judge ph idna s table d raw = (Some v, sent, counts)" "ve_errs v = []"
  obtains u l where "ValidateDestination ph idna raw (js_policy s) = Inr (ve_normalized v)"
    "Parse ph (ve_normalized v) = Some u" "ve_host v = to_lower (Hostname u)" "ve_block v = None"
    "later_tiers s table d (ve_normalized v) u (ve_host v) = Some (None, l, sent, counts)"
proof -
  have "ValidateDestination ph idna raw (js_policy s) \<noteq> Inl []"
    by (auto simp: ValidateDestination_def Let_def refuse_url_def split: option.splits if_splits)
  with assms that show thesis
    by (auto simp: Judge_def Let_def split: sum.splits option.splits prod.splits)
qed

definition plain_host :: "string \<Rightarrow> string option" where
  "plain_host h = (if list_all (\<lambda>c. alnum c \<or> c = CHR ''.'') h then Some h else None)"

lemma plain_host_reads_back: "reads_back plain_host"
proof -
  have "url_escape EncodeHost h = h" if "list_all (\<lambda>c. alnum c \<or> c = CHR ''.'') (url_escape EncodeHost h)" for h
    using that
  proof (induction h)
    case (Cons x h)
    have "\<not> alnum (CHR ''%'')" by (simp add: alnum_def is_digit_def code_def)
    with Cons show ?case by (auto simp: url_escape_Cons split: if_splits)
  qed (simp add: url_escape_def)
  then show ?thesis by (auto simp: reads_back_def plain_host_def split: if_splits)
qed

definition sample_judge :: judge_service where
  "sample_judge = \<lparr>js_policy = DefaultDestinationPolicy, js_embedded = [''metadata.goog''], js_feed = Some (\<lambda>_. (ResultClean, False))\<rparr>"

definition sample_list :: "blocked_row list" where
  "sample_list = [\<lparr>bl_host = ''evil.example'', bl_source = SourceReview, bl_reason = []\<rparr>]"

definition sample_verdict :: Verdict where
  "sample_verdict = \<lparr>ve_normalized = ''https://example.com/a'', ve_host = ''example.com'', ve_block = None, ve_listed_host = [], ve_errs = []\<rparr>"

lemma sample_judged:
  "Judge plain_host (\<lambda>_. None) sample_judge (Some sample_list) (\<lambda>_. Some False) '' HTTPS://Example.com./a '' =
     (Some sample_verdict, [''https://example.com/a''], [Counted ResultClean])"
  by code_simp


subsection \<open>The feed only takes away\<close>

lemma askFeed_off: "askFeed None d n h = (None, [], [])"
  by (simp add: askFeed_def)

lemma askFeed_result:
  assumes "askFeed fd d n h = (b, sent, counts)"
  shows "b = None \<or> b = Some feedBlock \<and> sent = [n] \<and> (\<exists>check. fd = Some check \<and> check n = (ResultMalicious, False))"
    "sent = [] \<or> sent = [n] \<and> d h = Some False"
  using assms by (auto simp: askFeed_def split: option.splits bool.splits prod.splits if_splits)

lemma later_tiers_feed:
  "later_tiers s table d n u h =
     (case later_tiers (s\<lparr>js_feed := None\<rparr>) table d n u h of
        Some (None, l, _, _) \<Rightarrow> (case askFeed (js_feed s) d n h of (b, sent, counts) \<Rightarrow> Some (b, l, sent, counts))
      | r \<Rightarrow> r)"
  by (auto simp: later_tiers_def askFeed_off split: option.split prod.split)

lemma later_tiers_off: "later_tiers (s\<lparr>js_feed := None\<rparr>) table d n u h = Some (b, l, sent, counts) \<Longrightarrow> sent = [] \<and> counts = []"
  by (auto simp: later_tiers_def askFeed_off split: option.splits prod.splits)

text \<open>C14. The feed can only take away, and learns only of what the built-in tiers accept. Compared with the same instance
  without a feed, a refusal and a failure are the same with nothing sent; of an accepted destination
  at most the stored form is sent, never when the owner allowed its host or that could not be read,
  and the verdict is the same unless the feed, without an error, called it malicious: then the refusal is a
  low-confidence one.\<close>

theorem feed_only_takes_away:
  "case Judge ph idna (s\<lparr>js_feed := None\<rparr>) table d raw of
     (None, _) \<Rightarrow> Judge ph idna s table d raw = (None, [], [])
   | (Some v, _) \<Rightarrow>
       if ve_errs v \<noteq> [] then Judge ph idna s table d raw = (Some v, [], [])
       else (\<exists>w sent counts. Judge ph idna s table d raw = (Some w, sent, counts) \<and>
               (sent = [] \<or> sent = [ve_normalized v] \<and> d (ve_host v) = Some False) \<and>
               (w = v \<or>
                ve_block w = Some \<lparr>bk_tier = TierLowConfidence, bk_rule = ''feed_reputation''\<rparr> \<and> sent = [ve_normalized v] \<and>
                (\<exists>check. js_feed s = Some check \<and> check (ve_normalized v) = (ResultMalicious, False))))"
proof (cases "ValidateDestination ph idna raw (js_policy s)")
  case (Inl errs)
  moreover have "errs \<noteq> []" using Inl
    by (auto simp: ValidateDestination_def Let_def refuse_url_def split: option.splits if_splits)
  ultimately show ?thesis by (simp add: Judge_def)
next
  case v: (Inr n)
  show ?thesis
  proof (cases "Parse ph n")
    case None
    with v show ?thesis by (simp add: Judge_def)
  next
    case p: (Some u)
    let ?h = "to_lower (Hostname u)"
    show ?thesis
    proof (cases "later_tiers (s\<lparr>js_feed := None\<rparr>) table d n u ?h")
      case None
      with v p show ?thesis by (simp add: Judge_def later_tiers_feed [of s])
    next
      case (Some r)
      then obtain b l where l: "later_tiers (s\<lparr>js_feed := None\<rparr>) table d n u ?h = Some (b, l, [], [])"
        using later_tiers_off by (cases r) blast
      obtain b' sent counts where a: "askFeed (js_feed s) d n ?h = (b', sent, counts)" by (metis prod_cases3)
      from v p l askFeed_result [OF a] show ?thesis
        by (cases b) (auto simp: Judge_def later_tiers_feed [of s] a feedBlock_def RuleFeedReputation_def)
    qed
  qed
qed
subsection \<open>The unspecified address with a zone\<close>

text \<open>\<open>IsUnspecified\<close> compares the whole address, so the IPv6 one with any zone is not refused: neither as a
  destination nor at the moment a webhook connects.\<close>

lemma unspecified_restricted_iff: "isRestricted (V6 0 z) \<longleftrightarrow> z = ''''"
  by (simp add: isRestricted_def Is4In6_def IsLoopback_def IsPrivate_def IsLinkLocalUnicast_def IsLinkLocalMulticast_def
      IsInterfaceLocalMulticast_def IsMulticast_def IsUnspecified_def extraRestrictedPrefixes_def prefix_contains_def)

lemma zoned_unspecified_destination:
  "ValidateDestination (\<lambda>h. if h = ''[::%25eth0]'' then Some ''[::%eth0]'' else None) (\<lambda>_. None) ''http://[::%25eth0]/''
     DefaultDestinationPolicy = Inr ''http://[::%25eth0]/'' \<and>
   guardDial ''tcp'' (Some ''::%eth0'') \<and> \<not> guardDial ''tcp'' (Some ''::'')"
  by code_simp

end
