(* ===== verification/Blocking_Records.thy ===== *)
theory Blocking_Records
  imports Blocking_Correct
begin

section \<open>What refusals leave, and what a restart does\<close>

text \<open>
  The recorded form of a refused URL is inert and can be read back by hand; the boot-time reconciliation of
  the operator's list leaves exactly the entries of the operator under the source it owns, and takes
  nothing from the other sources but the rows it names.
\<close>

subsection \<open>Reading a record back\<close>

fun Refang :: "string \<Rightarrow> string" where
  "Refang [] = []"
| "Refang (c # cs) =
     (if c = CHR ''['' then hd cs # Refang (drop 2 cs)
      else if c = CHR ''%'' then char_of (16 * unhex (hd cs) + unhex (hd (tl cs))) # Refang (drop 2 cs)
      else c # Refang cs)"

definition fang :: "char \<Rightarrow> string" where
  "fang c =
     (if c = CHR ''.'' then ''[.]'' else if c = CHR '':'' then ''[:]'' else defang_byte c)"

lemma replace_char_concat: "replace_char c by (concat xs) = concat (map (replace_char c by) xs)"
  by (induction xs) (simp_all add: replace_char_def)

lemma replace_char_id: "c \<notin> set s \<Longrightarrow> replace_char c by s = s"
  by (induction s) (auto simp: replace_char_def)

lemma hex_digit_plain:
  assumes "n < 16"
  shows "hex_digit n \<notin> set ''.:[]%''" "unhex (hex_digit n) = n" "hex_digit n \<in> set defangSafe"
proof -
  have "list_all (\<lambda>n. hex_digit n \<notin> set ''.:[]%'' \<and> unhex (hex_digit n) = n \<and> hex_digit n \<in> set defangSafe) [0..<16]"
    by code_simp
  with assms show "hex_digit n \<notin> set ''.:[]%''" "unhex (hex_digit n) = n" "hex_digit n \<in> set defangSafe"
    by (auto simp: list_all_iff)
qed

lemma code_halves: "code c div 16 < 16" "code c mod 16 < 16"
  using code_less [of c] by (simp_all add: less_mult_imp_div_less)

lemma defang_byte_plain: "c \<notin> set ''.:'' \<Longrightarrow> CHR ''.'' \<notin> set (defang_byte c) \<and> CHR '':'' \<notin> set (defang_byte c)"
  using hex_digit_plain(1) [OF code_halves(1) [of c]] hex_digit_plain(1) [OF code_halves(2) [of c]]
  by (auto simp: defang_byte_def)

lemma safe_dots: "CHR ''.'' \<in> set defangSafe" "CHR '':'' \<in> set defangSafe" "CHR ''['' \<notin> set defangSafe" "CHR '']'' \<notin> set defangSafe" "CHR ''%'' \<notin> set defangSafe"
  by code_simp+

lemma fang_steps: "replace_char (CHR ''.'') ''[.]'' (replace_char (CHR '':'') ''[:]'' (defang_byte c)) = fang c"
proof (cases "c \<in> set ''.:''")
  case True
  then show ?thesis by (auto simp: fang_def defang_byte_def safe_dots replace_char_def)
next
  case False
  with defang_byte_plain [OF False] show ?thesis by (auto simp: fang_def replace_char_id)
qed

lemma Defang_bytes: "Defang raw = concat (map fang (take defangMaxBytes (trim_space raw)))"
  by (simp add: Defang_def Let_def replace_char_concat comp_def fang_steps)

lemma Refang_fang: "Refang (fang c @ s) = c # Refang s"
proof (cases "c \<in> set defangSafe")
  case True
  then have "c \<noteq> CHR ''['' \<and> c \<noteq> CHR ''%''" using safe_dots by metis
  with True show ?thesis by (simp add: fang_def defang_byte_def)
next
  case False
  with safe_dots have "fang c = [CHR ''%'', hex_digit (code c div 16), hex_digit (code c mod 16)]"
    by (auto simp: fang_def defang_byte_def)
  moreover have "char_of (16 * (code c div 16) + code c mod 16) = c" by (simp only: mult_div_mod_eq) (simp add: code_def)
  ultimately show ?thesis by (simp add: hex_digit_plain(2) code_halves)
qed

lemma Refang_concat: "Refang (concat (map fang s)) = s"
  by (induction s) (simp_all add: Refang_fang)

lemma fang_bracketed:
  assumes "fang x = a @ c # b" "c \<in> {CHR ''.'', CHR '':''}"
  shows "a = ''['' \<and> b = '']''"
proof -
  have "x \<in> set ''.:''" 
  proof (rule ccontr)
    assume "x \<notin> set ''.:''"
    with defang_byte_plain [OF this] have "c \<notin> set (fang x)" using assms(2) by (auto simp: fang_def)
    then show False by (simp add: assms(1))
  qed
  then have "fang x = CHR ''['' # x # '']''" "x \<in> set ''.:''" by (auto simp: fang_def)
  with assms show ?thesis by (auto simp: Cons_eq_append_conv)
qed

lemma fangs_bracketed:
  assumes "concat (map fang s) = a @ c # b" "c \<in> {CHR ''.'', CHR '':''}"
  shows "\<exists>a' b'. a = a' @ ''['' \<and> b = CHR '']'' # b'"
  using assms(1)
proof (induction s arbitrary: a)
  case (Cons x s)
  then consider us where "fang x @ us = a" "concat (map fang s) = us @ c # b"
    | vs where "fang x = a @ c # vs" "b = vs @ concat (map fang s)"
    by (auto simp: append_eq_append_conv2 Cons_eq_append_conv append_eq_Cons_conv)
  then show ?case
  proof cases
    case (1 us)
    with Cons.IH [of us] show ?thesis by (metis append_assoc)
  next
    case (2 vs)
    with fang_bracketed [of x a c vs] assms(2) show ?thesis by auto
  qed
qed simp

lemma fang_chars: "set (fang c) \<subseteq> set defangSafe \<union> set ''[]%''" "length (fang c) \<le> 3"
proof -
  have "set (defang_byte c) \<subseteq> set defangSafe \<union> set ''[]%''"
    using hex_digit_plain(3) [OF code_halves(1)] hex_digit_plain(3) [OF code_halves(2)] by (auto simp: defang_byte_def)
  then show "set (fang c) \<subseteq> set defangSafe \<union> set ''[]%''" using safe_dots by (auto simp: fang_def)
  show "length (fang c) \<le> 3" by (simp add: fang_def defang_byte_def)
qed

text \<open>C16. The record of a refused URL is inert and loses nothing up to its bound: undoing the brackets and the escapes
  gives back the first bytes of what was typed; it has only bytes that are active neither in HTML nor in an
  attribute; every dot and every colon stands in brackets of its own, so that no link to it is ever
  recognised, one in its query included; and it is at most three times the bound long.\<close>

theorem Refang_Defang:
  "Refang (Defang raw) = take defangMaxBytes (trim_space raw) \<and>
   set (Defang raw) \<inter> (set ''<>&` '' \<union> {CHR 0x22, CHR 0x27}) = {} \<and>
   (\<forall>a c b. Defang raw = a @ c # b \<and> c \<in> set ''.:'' \<longrightarrow> (\<exists>a' b'. a = a' @ ''['' \<and> b = CHR '']'' # b')) \<and>
   length (Defang raw) \<le> 3 * defangMaxBytes"
proof -
  define s where "s = take defangMaxBytes (trim_space raw)"
  have d: "Defang raw = concat (map fang s)" by (simp add: Defang_bytes s_def)
  have "set (Defang raw) \<subseteq> set defangSafe \<union> set ''[]%''" unfolding d using fang_chars(1) by fastforce
  moreover have "(set defangSafe \<union> set ''[]%'') \<inter> (set ''<>&` '' \<union> {CHR 0x22, CHR 0x27}) = {}" by code_simp
  ultimately have safe: "set (Defang raw) \<inter> (set ''<>&` '' \<union> {CHR 0x22, CHR 0x27}) = {}" by blast
  have "length (concat (map fang t)) \<le> 3 * length t" for t
  proof (induction t)
    case (Cons x t)
    with fang_chars(2) [of x] show ?case by simp
  qed simp
  then have "length (Defang raw) \<le> 3 * length s" by (simp add: d)
  moreover have "length s \<le> defangMaxBytes" by (simp add: s_def)
  ultimately have "length (Defang raw) \<le> 3 * defangMaxBytes" by linarith
  with safe fangs_bracketed [of s] show ?thesis by (simp add: d Refang_concat s_def [symmetric])
qed

theorem Refang_Defang_witness:
  "Defang ''http://a.b/?u=<i>'' = ''http[:]//a[.]b/?u=%3Ci%3E'' \<and> Refang (Defang ''http://a.b/?u=<i>'') = ''http://a.b/?u=<i>'' \<and>
   (\<exists>a'. ''http[:]//a['' = a' @ ''['')"
proof -
  have d: "Defang ''http://a.b/?u=<i>'' = ''http[:]//a['' @ CHR ''.'' # '']b/?u=%3Ci%3E''" by code_simp
  have "take defangMaxBytes (trim_space ''http://a.b/?u=<i>'') = ''http://a.b/?u=<i>''" by code_simp
  with d Refang_Defang [of "''http://a.b/?u=<i>''"] show ?thesis by auto
qed
subsection \<open>The list of the operator at a restart\<close>

text \<open>What the entries fold to, and the rows of the other sources that no entry names.\<close>

definition folded_entries :: "(string \<Rightarrow> string option) \<Rightarrow> string list \<Rightarrow> string set" where
  "folded_entries idna raws = {h. h \<noteq> '''' \<and> (\<exists>raw\<in>set raws. canonicalHost idna (trim_space raw) = Some h)}"

definition others_rows :: "string set \<Rightarrow> blocked_row list \<Rightarrow> blocked_row list" where
  "others_rows named t = filter (\<lambda>r. bl_source r \<noteq> SourceEnv \<and> bl_host r \<notin> named) t"

definition env_hosts :: "blocked_row list \<Rightarrow> string set" where
  "env_hosts t = bl_host ` {r \<in> set t. bl_source r = SourceEnv}"

text \<open>PostgreSQL's \<open>lower\<close> leaves a lower-case ASCII text alone.\<close>

definition lower_law :: "(string \<Rightarrow> string) \<Rightarrow> bool" where
  "lower_law lower \<longleftrightarrow> (\<forall>s. is_ascii s \<and> to_lower s = s \<longrightarrow> lower s = s)"

lemma folded_Cons:
  "folded_entries idna (raw # raws) =
     (case canonicalHost idna (trim_space raw) of
        Some h \<Rightarrow> if h = '''' then folded_entries idna raws else insert h (folded_entries idna raws)
      | None \<Rightarrow> folded_entries idna raws)"
  by (auto simp: folded_entries_def split: option.split)

lemma others_rows_mono: "A \<subseteq> B \<Longrightarrow> others_rows B (others_rows A t) = others_rows B t"
  by (auto simp: others_rows_def intro: filter_cong)

lemma env_hosts_iff: "x \<in> env_hosts t \<longleftrightarrow> (\<exists>r\<in>set t. bl_source r = SourceEnv \<and> bl_host r = x)"
  by (auto simp: env_hosts_def)

lemma upsert_env:
  assumes "lower h = h"
  shows "env_hosts (UpsertEnvBlockedDestination lower h reason t) = insert h (env_hosts t)"
proof (cases "list_ex (\<lambda>r. bl_host r = h) t")
  case True
  define g where "g = (\<lambda>r :: blocked_row. if bl_host r = h then r\<lparr>bl_source := SourceEnv, bl_reason := reason\<rparr> else r)"
  have u: "UpsertEnvBlockedDestination lower h reason t = map g t"
    using True by (simp add: UpsertEnvBlockedDestination_def assms g_def)
  have "x \<in> env_hosts (map g t) \<longleftrightarrow> x \<in> insert h (env_hosts t)" for x
  proof (cases "x = h")
    case x: True
    from True obtain r where "r \<in> set t" "bl_host r = h" by (auto simp: list_ex_iff)
    then have "g r \<in> set (map g t) \<and> bl_source (g r) = SourceEnv \<and> bl_host (g r) = h" by (simp add: g_def)
    with x show ?thesis unfolding env_hosts_iff by blast
  next
    case False
    then have "bl_source (g r) = SourceEnv \<and> bl_host (g r) = x \<longleftrightarrow> bl_source r = SourceEnv \<and> bl_host r = x" for r
      by (simp add: g_def)
    with False show ?thesis by (simp add: env_hosts_iff)
  qed
  then show ?thesis unfolding u by blast
next
  case False
  then have "x \<in> env_hosts (UpsertEnvBlockedDestination lower h reason t) \<longleftrightarrow> x \<in> insert h (env_hosts t)" for x
    by (auto simp: UpsertEnvBlockedDestination_def env_hosts_iff assms)
  then show ?thesis by blast
qed

lemma upsert_other_rows:
  assumes "lower h = h"
  shows "filter (\<lambda>r. bl_source r \<noteq> SourceEnv) (UpsertEnvBlockedDestination lower h reason t) =
    filter (\<lambda>r. bl_source r \<noteq> SourceEnv \<and> bl_host r \<noteq> h) t"
proof -
  have "filter (\<lambda>r. bl_source r \<noteq> SourceEnv) (map (\<lambda>r. if bl_host r = h then r\<lparr>bl_source := SourceEnv, bl_reason := reason\<rparr> else r) t) =
      filter (\<lambda>r. bl_source r \<noteq> SourceEnv \<and> bl_host r \<noteq> h) t"
    by (induction t) auto
  then show ?thesis
    by (auto simp: UpsertEnvBlockedDestination_def assms list_ex_iff intro!: filter_cong)
qed

lemma upsert_others:
  assumes "lower h = h"
  shows "others_rows named (UpsertEnvBlockedDestination lower h reason t) = others_rows (insert h named) t"
proof -
  have "others_rows named x = filter (\<lambda>r. bl_host r \<notin> named) (filter (\<lambda>r. bl_source r \<noteq> SourceEnv) x)" for x
    by (simp add: others_rows_def conj_ac)
  then have "others_rows named (UpsertEnvBlockedDestination lower h reason t) =
      filter (\<lambda>r. bl_host r \<notin> named) (filter (\<lambda>r. bl_source r \<noteq> SourceEnv \<and> bl_host r \<noteq> h) t)"
    by (simp only: upsert_other_rows [where h = h and lower = lower and reason = reason and t = t, OF assms])
  then show ?thesis by (simp add: others_rows_def conj_ac)
qed

lemma seed_entries_env:
  assumes "seed_entries idna lower hosts keep t = (Some kept, t')"
    "\<forall>raw h. canonicalHost idna raw = Some h \<longrightarrow> lower h = h"
  shows "set kept = set keep \<union> folded_entries idna (map fst hosts)"
    "env_hosts t' = env_hosts t \<union> folded_entries idna (map fst hosts)"
    "filter (\<lambda>r. bl_source r \<noteq> SourceEnv) t' = others_rows (folded_entries idna (map fst hosts)) t"
  using assms(1)
proof (induction hosts arbitrary: keep t)
  case Nil
  { case 1 then show ?case by (simp add: folded_entries_def) }
  { case 2 then show ?case by (simp add: folded_entries_def) }
  { case 3 then show ?case by (simp add: folded_entries_def others_rows_def) }
next
  case (Cons e hosts)
  obtain raw fate where e: "e = (raw, fate)" by (cases e)
  { case 1
    with Cons.IH(1) show ?case by (auto simp: e Let_def folded_Cons split: option.splits if_splits write_fate.splits) }
  { case 2
    with Cons.IH(2) upsert_env assms(2) show ?case
      by (auto simp: e Let_def folded_Cons split: option.splits if_splits write_fate.splits) }
  { case 3
    then obtain h where h: "canonicalHost idna (trim_space raw) = Some h" by (auto simp: e split: option.splits)
    show ?case
    proof (cases "h = ''''")
      case True
      with 3 h Cons.IH(3) show ?thesis by (simp add: e folded_Cons)
    next
      case False
      with 3 h have s: "seed_entries idna lower hosts (keep @ [h]) (UpsertEnvBlockedDestination lower h env_reason t) = (Some kept, t')"
        by (auto simp: e Let_def split: write_fate.splits)
      from Cons.IH(3) [OF s] False h upsert_others [of lower h] assms(2) show ?thesis by (simp add: e folded_Cons)
    qed }
qed

lemma seed_entries_others:
  assumes "\<forall>raw h. canonicalHost idna raw = Some h \<longrightarrow> lower h = h" "folded_entries idna (map fst hosts) \<subseteq> named"
  shows "others_rows named (snd (seed_entries idna lower hosts keep t)) = others_rows named t"
  using assms(2)
proof (induction hosts arbitrary: keep t)
  case (Cons e hosts)
  obtain raw fate where e: "e = (raw, fate)" by (cases e)
  have "others_rows named (UpsertEnvBlockedDestination lower h env_reason x) = others_rows named x"
    if "canonicalHost idna (trim_space raw) = Some h" "h \<noteq> []" for h x
    using that Cons.prems upsert_others [of lower h] assms(1) by (simp add: e folded_Cons insert_absorb)
  with Cons show ?case
    by (auto simp: e folded_Cons Let_def split: option.splits if_splits write_fate.splits)
qed simp

lemma stale_others: "others_rows named (DeleteStaleEnvBlockedDestinations keep t) = others_rows named t"
  by (auto simp: others_rows_def DeleteStaleEnvBlockedDestinations_def intro: filter_cong)

lemma folded_fixed:
  assumes "lower_law lower" "\<forall>x a. idna x = Some a \<longrightarrow> is_ascii a"
  shows "\<forall>raw h. canonicalHost idna raw = Some h \<longrightarrow> lower h = h"
  using canonicalHost_form assms by (auto simp: lower_law_def)

lemma seeding_others:
  assumes "lower_law lower" "\<forall>x a. idna x = Some a \<longrightarrow> is_ascii a"
  shows "others_rows (folded_entries idna (map fst hosts)) (snd (SeedBlocklist idna lower hosts fate t)) =
    others_rows (folded_entries idna (map fst hosts)) t"
  using seed_entries_others [OF folded_fixed [OF assms] subset_refl, where keep = "[]" and t = t and hosts = hosts]
  by (auto simp: SeedBlocklist_def stale_others split: prod.splits option.splits write_fate.splits)

lemma seeding_done:
  assumes "lower_law lower" "\<forall>x a. idna x = Some a \<longrightarrow> is_ascii a" "SeedBlocklist idna lower hosts fate t = (True, t')"
  shows "env_hosts t' = folded_entries idna (map fst hosts)"
    "filter (\<lambda>r. bl_source r \<noteq> SourceEnv) t' = others_rows (folded_entries idna (map fst hosts)) t"
proof -
  from assms(3) obtain kept t1 where s: "seed_entries idna lower hosts [] t = (Some kept, t1)"
    "t' = DeleteStaleEnvBlockedDestinations kept t1"
    by (auto simp: SeedBlocklist_def split: prod.splits option.splits write_fate.splits)
  note env = seed_entries_env [OF s(1) folded_fixed [OF assms(1,2)]]
  have "env_hosts t' = env_hosts t1 \<inter> set kept"
    by (auto simp: s(2) env_hosts_def DeleteStaleEnvBlockedDestinations_def)
  with env show "env_hosts t' = folded_entries idna (map fst hosts)" by auto
  have "filter (\<lambda>r. bl_source r \<noteq> SourceEnv) t' = filter (\<lambda>r. bl_source r \<noteq> SourceEnv) t1"
    by (auto simp: s(2) DeleteStaleEnvBlockedDestinations_def intro: filter_cong)
  with env show "filter (\<lambda>r. bl_source r \<noteq> SourceEnv) t' = others_rows (folded_entries idna (map fst hosts)) t" by simp
qed

text \<open>C15. A start of the process reconciles the list of the operator and touches nothing else: whatever statement fails,
  the rows of the other sources whose host no entry names are exactly what they were; and when it succeeds the
  rows the environment owns are exactly the folded entries, a retired entry is gone, and the rows of the
  other sources are what they were but for the hosts the environment took over.\<close>

theorem seeding_reconciles_its_own_rows:
  assumes "lower_law lower" "\<forall>x a. idna x = Some a \<longrightarrow> is_ascii a" "SeedBlocklist idna lower hosts fate t = (ok, t')"
  shows "others_rows (folded_entries idna (map fst hosts)) t' = others_rows (folded_entries idna (map fst hosts)) t \<and>
    (ok \<longrightarrow> env_hosts t' = folded_entries idna (map fst hosts) \<and>
       filter (\<lambda>r. bl_source r \<noteq> SourceEnv) t' = others_rows (folded_entries idna (map fst hosts)) t)"
  using seeding_others [OF assms(1,2), where hosts = hosts and fate = fate and t = t]
    seeding_done [OF assms(1,2), where hosts = hosts and fate = fate and t = t and t' = t'] assms(3) by auto

definition shortener_list :: "blocked_row list" where
  "shortener_list =
     [\<lparr>bl_host = ''bit.ly'', bl_source = SourceShortener, bl_reason = []\<rparr>,
      \<lparr>bl_host = ''evil.example'', bl_source = SourceReview, bl_reason = []\<rparr>,
      \<lparr>bl_host = ''old.example'', bl_source = SourceEnv, bl_reason = env_reason\<rparr>]"

lemma shortener_seeded:
  "SeedBlocklist (\<lambda>_. None) to_lower [('' Bit.LY'', WriteDone)] WriteDone shortener_list =
     (True, [\<lparr>bl_host = ''bit.ly'', bl_source = SourceEnv, bl_reason = env_reason\<rparr>, shortener_list ! 1])"
  by code_simp

theorem seeding_reconciles_its_own_rows_witness:
  "env_hosts [\<lparr>bl_host = ''bit.ly'', bl_source = SourceEnv, bl_reason = env_reason\<rparr>, shortener_list ! 1] =
     folded_entries (\<lambda>_. None) ['' Bit.LY'']"
  using seeding_reconciles_its_own_rows [OF _ _ shortener_seeded] by (simp add: lower_law_def)

text \<open>An entry that names a row of another source takes it over, and the row goes with the entry: a shortener host
  of the migration, listed by the operator for one start and retired at a later one, is refused by
  nothing afterwards.\<close>

theorem retired_entry_takes_the_shortener_row:
  assumes "lower_law lower" "\<forall>x a. idna x = Some a \<longrightarrow> is_ascii a" "canonicalHost idna (trim_space raw) = Some h" "h \<noteq> ''''"
    "SeedBlocklist idna lower [(raw, WriteDone)] WriteDone t = (True, t1)" "SeedBlocklist idna lower [] WriteDone t1 = (True, t2)"
  shows "h \<notin> bl_host ` set t2"
proof -
  have f: "folded_entries idna (map fst [(raw, WriteDone)]) = {h}" "folded_entries idna (map fst []) = {}"
    using assms(3,4) by (auto simp: folded_entries_def)
  note one = seeding_done [OF assms(1,2,5), unfolded f]
  note two = seeding_done [OF assms(1,2,6), unfolded f]
  have "r \<in> set t2 \<Longrightarrow> bl_host r \<noteq> h" for r
  proof -
    assume r: "r \<in> set t2"
    then have "bl_source r \<noteq> SourceEnv" using two(1) by (auto simp: env_hosts_def)
    with r have "r \<in> set (others_rows {} t1)" using two(2) [symmetric] by simp
    then have "r \<in> set (filter (\<lambda>r. bl_source r \<noteq> SourceEnv) t1)" by (simp add: others_rows_def)
    then show "bl_host r \<noteq> h" using one(2) by (simp add: others_rows_def)
  qed
  then show ?thesis by blast
qed

theorem retired_entry_takes_the_shortener_row_witness:
  "listedInDatabase (Some shortener_list) ''bit.ly'' = Some (Some \<lparr>bk_tier = TierLowConfidence, bk_rule = RuleShortenerChain\<rparr>, ''bit.ly'') \<and>
   ''bit.ly'' \<notin> bl_host ` set [shortener_list ! 1]"
proof -
  have "listedInDatabase (Some shortener_list) ''bit.ly'' = Some (Some \<lparr>bk_tier = TierLowConfidence, bk_rule = RuleShortenerChain\<rparr>, ''bit.ly'')"
    by code_simp
  moreover have "canonicalHost (\<lambda>_. None) (trim_space '' Bit.LY'') = Some ''bit.ly''" by code_simp
  moreover have "SeedBlocklist (\<lambda>_. None) to_lower [] WriteDone [\<lparr>bl_host = ''bit.ly'', bl_source = SourceEnv, bl_reason = env_reason\<rparr>, shortener_list ! 1] =
      (True, [shortener_list ! 1])" by code_simp
  ultimately show ?thesis
    using retired_entry_takes_the_shortener_row [of to_lower "\<lambda>_. None" "'' Bit.LY''" "''bit.ly''", OF _ _ _ _ shortener_seeded]
    by (simp add: lower_law_def)
qed

end
