(* ===== verification/Spec2Isabelle.thy ===== *)
theory Spec2Isabelle
  imports Folder_Service_Correct Alias RuleSubject Resolver_Correct Handler_Safety Update Totp SignIn_Lockout Punycode HostCache_Correct HostRouter Limiter_Correct Domains_Grace Blocking_Records
begin

text \<open>
  LinkCtrl is a self-hosted link shortener. A visitor's request for an alias reaches the redirect handler,
  which resolves the alias through a memory cache, Redis and PostgreSQL, decides what the link's state, its
  routing rules and its split make of the request, passes the gates the link has (a signature, a password, a
  click ceiling), lets inline add-ons look at the decision, and answers. The people who own the links sign in
  with a password, an add-on's assertion and a second factor, file their links in folders, and are told of new
  releases. This library models those two halves from the Go sources and from the SQL statements they run, and
  proves what makes each part correct.

  \<^bold>\<open>Basis.\<close> \<open>Prelude\<close> holds the identifiers, clocks and generic lemmas, and the contract of a service as a
  machine whose operations keep an invariant (\<open>invariant_machine\<close>, interpreted by the folder service, the update
  check and the sign-in service). \<open>GoString\<close>, \<open>Unicode_Tables\<close>, \<open>NetUrl\<close>, \<open>Url\<close> and \<open>Crypto\<close> are the part of
  Go's standard library the modelled code uses (\<open>strings\<close>, \<open>strconv\<close>, \<open>unicode\<close>, \<open>net/url\<close>, SHA-256, HMAC,
  base64), over strings of bytes; \<open>Totp\<close> adds SHA-1 and base32 and \<open>Mfa_Secret\<close> AES-256-GCM.

  \<^bold>\<open>Vocabulary and rules.\<close> \<open>Domain\<close> is \<open>internal/domain/link.go\<close>, \<open>bots.go\<close>, \<open>qrcode.go\<close> and \<open>attribution.go\<close>.
  \<open>Routing\<close>, \<open>Routing_Match\<close> and \<open>Routing_Rules\<close> are \<open>internal/domain/routing.go\<close>: matching against an interface
  (\<open>lawful_subject\<close>), the meaning it implements, validation, and the split of visitors over variants.
  \<open>UserAgent\<close> is \<open>internal/analytics/useragent.go\<close>, and \<open>RuleSubject\<close> (\<open>internal/httpx/redirect_rules.go\<close>)
  interprets the interface on the handler's memoised answers. \<open>Alias\<close> is \<open>internal/alias\<close>.

  \<^bold>\<open>Resolving.\<close> \<open>Snapshot\<close> is \<open>internal/redirect/snapshot.go\<close>; \<open>MemCache\<close> (\<open>memcache.go\<close>) provides the locale
  \<open>cache_tier\<close>; \<open>Resolver\<close> is \<open>resolver.go\<close> with the appliers of \<open>invalidation.go\<close>. \<open>Resolver_Correct\<close> runs any
  number of replicas over one Redis as an inductive step relation and bounds how stale an answer can be. From
  Redis only documented behaviour is used (\<open>redis_lawful\<close>), and every operation on it may fail.

  \<^bold>\<open>Custom hostnames.\<close> \<open>HostName\<close> is the spelling of a host in \<open>internal/config/config.go\<close>, \<open>HostCache\<close> is
  \<open>internal/redirect/hosts.go\<close> with its reload schedule as interleaved critical sections, and \<open>HostRouter\<close> is
  \<open>internal/httpx/redirect_hosts.go\<close> over it. \<open>HostCache_Correct\<close> shows that a replica at rest serves the verified
  rows of the table and that no invalidation is lost, and runs the one schedule in which that fails.

  \<^bold>\<open>Registering a hostname.\<close> \<open>NetIp\<close> is \<open>netip.ParseAddr\<close>, \<open>ValidHostname\<close> is \<open>internal/domain/hostname.go\<close> and
  \<open>verification.go\<close>, and \<open>Domains\<close> is \<open>internal/link/domains.go\<close> and \<open>verification.go\<close> with \<open>SetDomainRootRedirect\<close> of
  \<open>domain_settings.go\<close> and the statements of \<open>store/query/domains.sql\<close>. No operation runs in a transaction, so each is a
  function of an earlier table it read, of what the nameserver answered, and of the table its write meets.
  \<open>Domains_Correct\<close> interleaves them freely: a served name was proved by a check of that name with that token, a
  request leaves the rows of others alone, a change of the served set is broadcast, and serving ends by the owner
  or by a stop that a whole grace window of failures precedes. \<open>Domains_Grace\<close> runs the two cases in which the
  window is not what its comments promise. Hard deletion of an organization or workspace is left out.

  \<^bold>\<open>Destinations.\<close> \<open>Destination\<close> is \<open>internal/link/destination.go\<close>, the checks on a destination that nothing overrules, over
  \<open>net/netip\<close> (\<open>NetIp\<close>), with the dial-time check of \<open>internal/webhook/client.go\<close>. \<open>Blocking\<close> is
  \<open>internal/link/blocking.go\<close>: the lists, the heuristics, the feed, the judgement, the one door, the record of a refusal
  and the boot list, with \<open>store/query/blocking.sql\<close>. \<open>UrlHost\<close> shows that a printed URL is read back with its host,
  \<open>Blocking_Correct\<close> that what is stored is what every tier accepted and that the feed only takes away, and
  \<open>Blocking_Records\<close> what records and restarts leave.

  \<^bold>\<open>Lookalikes.\<close> \<open>Punycode\<close> is \<open>internal/link/punycode.go\<close>: the decoder terminates on every label, and a host is refused
  exactly when a label of it decodes to letters that pass for ASCII ones.

  \<^bold>\<open>Gates.\<close> \<open>Signature\<close> is \<open>internal/gate/signature.go\<close>; \<open>Gate\<close> is \<open>internal/gate/gate.go\<close> with the statements
  of \<open>store/query/gates.sql\<close>. \<open>Gate_Correct\<close> states what the handler relies on as the locale \<open>click_ledger\<close> and
  interprets it on the service, statements failing before or after they take effect.

  \<^bold>\<open>The redirect.\<close> \<open>Request\<close>, \<open>DeepLink\<close> (path and query forwarding), \<open>AddonInline\<close>
  (\<open>internal/addon/redirect.go\<close>) and \<open>Handler\<close> (\<open>internal/httpx/redirect.go\<close>, \<open>redirect_gates.go\<close>,
  \<open>redirect_split.go\<close>) follow one request from \<open>ServeHTTP\<close> to the reply and the recorded click.
  \<open>Handler_Correct\<close> and \<open>Handler_Safety\<close> compose the parts: a ceiling is not exceeded over any sequence of
  requests, a gated destination needs every gate, nothing but a redirect spends a click, and a redirect goes to
  a listed place.

  \<^bold>\<open>Folders.\<close> \<open>Folders\<close> is \<open>internal/domain/folder.go\<close>, its theorems are in \<open>Folders_Correct\<close>; \<open>Folder_Service\<close> is
  \<open>internal/link/folder.go\<close> over its tables and statements, and \<open>Folder_Service_Correct\<close> shows that every
  workspace keeps a bounded forest whatever requests come and wherever statements fail.

  \<^bold>\<open>Signing in.\<close> \<open>Password\<close>, \<open>Session\<close>, \<open>Totp\<close> and \<open>Mfa_Secret\<close> are \<open>internal/auth/password.go\<close>,
  \<open>session.go\<close>, \<open>totp.go\<close> and \<open>mfasecret.go\<close>. \<open>SignIn\<close> is the surface over them: \<open>service.go\<close> (\<open>Login\<close>,
  \<open>mintSession\<close>, \<open>Authenticate\<close>, \<open>Logout\<close>, \<open>ChangePassword\<close>), \<open>mfa.go\<close>, \<open>addonauth.go\<close> and
  \<open>internal/account/account.go\<close> with the statements of \<open>auth.sql\<close>, \<open>mfa.sql\<close>, \<open>addonauth.sql\<close> and
  \<open>accounts.sql\<close>. \<open>SignIn_Correct\<close> keeps its tables consistent over every sequence of operations,
  \<open>SignIn_Sessions\<close> traces every session back to the proofs it rests on, and \<open>SignIn_Lockout\<close> shows what the
  lockout bounds and what it does not.

  \<^bold>\<open>Limits.\<close> \<open>Limiter\<close> is \<open>internal/ratelimit\<close>: the token buckets of a process, the Redis script and its breaker.
  A \<open>float64\<close> is the rational it denotes and an operation on it the exact one followed by a rounding of which
  \<open>binary64\<close> states what IEEE 754 promises. \<open>Limiter_Correct\<close> bounds what one key is granted, in one process and
  across replicas.

  \<^bold>\<open>Updates.\<close> \<open>Update\<close> is \<open>internal/update\<close> with the announcement of \<open>internal/notify\<close>.

  \<^bold>\<open>How effects are read.\<close> A table is the list of its rows, a statement a function on it, and a statement or a
  commit may fail before or after it takes effect; a transaction that is not committed changes nothing. An
  operation on the database is serialised with the others where the code holds a row lock, an advisory lock or
  a single statement over the decision; where it does not, as with the caches, the steps are interleaved. Errors
  are values: the constructors of \<open>auth_error\<close>, \<open>gen_error\<close> and their like are the code's sentinel errors.
  Machine integers are words where their width is visible (weights and their totals, version fields, TOTP steps,
  digests, argon2 costs) and unbounded integers for clocks, whose readings fit \<open>time.Time\<close>.

  \<^bold>\<open>Bounds and fuel.\<close> Folder trees are walked with one unit of fuel more than there are folders, which
  \<open>Folders_Correct\<close> shows to be enough for every table, cyclic ones included; all other recursions are
  structural or carry a measure.

  \<^bold>\<open>Parameters.\<close> What is not code of the repository is an argument: \<open>argon2.IDKey\<close> (the hypothesis is that it
  returns a key of the length asked), the database's \<open>lower\<close> and collation, the geolocation database and the
  time zone database, what Redis answers, random bytes, the clocks of the process and of the database, the
  answer of the release feed, the verdicts of WebAssembly add-ons, and for signing in the workspace and the
  permissions the tenancy tables give.

  \<^bold>\<open>Not modelled.\<close> Log lines, metrics and sampling; the JSON codecs of snapshots and rule conditions; HTML
  pages and the administration API; the rest of the link service, QR images, API keys,
  invitations and teams, analytics, webhooks, the add-on host, configuration and process wiring. Network
  clients, drivers and \<open>crypto/rand\<close> are parameters. Two requests of one account that race inside a sign-in
  operation are not interleaved statement by statement.
\<close>

end
